(* ===== verification/Prelude.thy ===== *)
theory Prelude
  imports Main "HOL-Library.Word"
begin

section \<open>Prelude: results, 32-bit arithmetic, shared list lemmas\<close>

text \<open>
  What every component of the model shares. A C++ function that may throw is a function
  into \<open>'a result\<close>; \<open>bindR\<close> sequences two such calls, \<open>seqR\<close> runs a list of checks and
  keeps the first exception, as consecutive statements do. Values of the C++ type
  \<open>unsigned int\<close> are natural numbers below \<open>2 ^ 32\<close>; \<open>u32\<close>, \<open>u32_mul\<close> and \<open>u32_sub\<close>
  write the wrap-around of its arithmetic out.
\<close>

named_theorems result_simps \<open>equations of the result combinators\<close>
named_theorems u32_simps \<open>facts about 32-bit wrap-around arithmetic\<close>

subsection \<open>Exceptions and results\<close>

text \<open>
  The exception classes of \<open>include/armnn/Exceptions.hpp\<close> that the modelled code throws,
  the standard-library ones it lets escape, and \<open>AssertionFailure\<close> for an \<open>ARMNN_ASSERT\<close>
  that fails in a debug build. \<open>UndefinedBehaviour\<close> is not an exception: it is the outcome of a
  read outside an array, which the C++ program may do and the language does not define. The string is the constant part of the message.
\<close>

datatype exn =
    ArmnnException string
  | InvalidArgumentException string
  | LayerValidationException string
  | GraphValidationException string
  | BadOptionalAccessException string
  | RuntimeException string
  | UnimplementedException string
  | MemoryValidationException string
  | NullPointerException string
  | BackendCapabilityException string
  | BadNumericCast string
  | StdOutOfRange string
  | ProfilingException string
  | BufferExhaustionException string
  | AssertionFailure string
  | UndefinedBehaviour string

type_synonym 'a result = "exn + 'a"

definition bindR :: "'a result \<Rightarrow> ('a \<Rightarrow> 'b result) \<Rightarrow> 'b result" where
  "bindR m f = (case m of Inl e \<Rightarrow> Inl e | Inr x \<Rightarrow> f x)"

text \<open>A check: throw \<open>e\<close> when the condition holds, continue otherwise.\<close>

definition throw_if :: "bool \<Rightarrow> exn \<Rightarrow> unit result" where
  "throw_if c e = (if c then Inl e else Inr ())"

fun seqR :: "unit result list \<Rightarrow> unit result" where
  "seqR [] = Inr ()"
| "seqR (c # cs) = bindR c (\<lambda>_. seqR cs)"

fun mapR :: "('a \<Rightarrow> 'b result) \<Rightarrow> 'a list \<Rightarrow> 'b list result" where
  "mapR f [] = Inr []"
| "mapR f (x # xs) = bindR (f x) (\<lambda>y. bindR (mapR f xs) (\<lambda>ys. Inr (y # ys)))"

fun foldR :: "('a \<Rightarrow> 's \<Rightarrow> 's result) \<Rightarrow> 'a list \<Rightarrow> 's \<Rightarrow> 's result" where
  "foldR f [] s = Inr s"
| "foldR f (x # xs) s = bindR (f x s) (\<lambda>s'. foldR f xs s')"

definition is_ok :: "'a result \<Rightarrow> bool" where
  "is_ok r = (case r of Inl _ \<Rightarrow> False | Inr _ \<Rightarrow> True)"

lemma bindR_simps [simp, result_simps]:
  "bindR (Inl e) f = Inl e"
  "bindR (Inr x) f = f x"
  by (simp_all add: bindR_def)

lemma bindR_eq_Inr [simp, result_simps]: "bindR m f = Inr y \<longleftrightarrow> (\<exists>x. m = Inr x \<and> f x = Inr y)"
  by (cases m) auto

lemma bindR_eq_Inl [simp, result_simps]:
  "bindR m f = Inl e \<longleftrightarrow> m = Inl e \<or> (\<exists>x. m = Inr x \<and> f x = Inl e)"
  by (cases m) auto

lemma bindR_assoc: "bindR (bindR m f) g = bindR m (\<lambda>x. bindR (f x) g)"
  by (cases m) auto

lemma bindR_cong [fundef_cong]:
  "m = n \<Longrightarrow> (\<And>x. n = Inr x \<Longrightarrow> f x = g x) \<Longrightarrow> bindR m f = bindR n g"
  by (cases n) auto

lemma throw_if_Inr [simp, result_simps]: "throw_if c e = Inr u \<longleftrightarrow> \<not> c"
  by (simp add: throw_if_def)

lemma throw_if_Inl [simp, result_simps]: "throw_if c e = Inl e' \<longleftrightarrow> c \<and> e' = e"
  by (auto simp: throw_if_def)

lemma throw_if_eval [simp]: "throw_if True e = Inl e" "throw_if False e = Inr ()"
  by (simp_all add: throw_if_def)

lemma seqR_Inr_iff: "seqR cs = Inr u \<longleftrightarrow> (\<forall>c \<in> set cs. c = Inr ())"
  by (induction cs) auto

lemma seqR_append: "seqR (cs @ ds) = bindR (seqR cs) (\<lambda>_. seqR ds)"
  by (induction cs) (simp_all add: bindR_assoc)

lemma seqR_Inl_mem: "seqR cs = Inl e \<Longrightarrow> Inl e \<in> set cs"
  by (induction cs) auto

lemma mapR_Inr_iff: "mapR f xs = Inr ys \<longleftrightarrow> list_all2 (\<lambda>x y. f x = Inr y) xs ys"
  by (induction xs arbitrary: ys) (auto simp: bindR_eq_Inr list_all2_Cons1)

lemma mapR_length: "mapR f xs = Inr ys \<Longrightarrow> length ys = length xs"
  by (auto simp: mapR_Inr_iff dest: list_all2_lengthD)

lemma mapR_pure: "(\<And>x. x \<in> set xs \<Longrightarrow> f x = Inr (g x)) \<Longrightarrow> mapR f xs = Inr (map g xs)"
  by (induction xs) auto

lemma foldR_append: "foldR f (xs @ ys) s = bindR (foldR f xs s) (foldR f ys)"
proof (induction xs arbitrary: s)
  case Nil
  then show ?case by simp
next
  case (Cons x xs)
  then show ?case by (cases "f x s") simp_all
qed

text \<open>An invariant that every successful step keeps holds at the end of the loop.\<close>

lemma foldR_invariant:
  assumes "foldR f xs s = Inr t" "P s"
    "\<And>x s s'. x \<in> set xs \<Longrightarrow> P s \<Longrightarrow> f x s = Inr s' \<Longrightarrow> P s'"
  shows "P t"
  using assms
proof (induction xs arbitrary: s)
  case Nil
  then show ?case by simp
next
  case (Cons x xs)
  then obtain s' where s': "f x s = Inr s'" "foldR f xs s' = Inr t"
    by (auto simp: bindR_eq_Inr)
  have "P s'" using Cons.prems(2,3) s'(1) by auto
  moreover have "\<And>y u u'. y \<in> set xs \<Longrightarrow> P u \<Longrightarrow> f y u = Inr u' \<Longrightarrow> P u'"
    using Cons.prems(3) by (meson list.set_intros(2))
  ultimately show ?case by (rule Cons.IH [OF s'(2)])
qed

lemma foldR_pure:
  "(\<And>x s. x \<in> set xs \<Longrightarrow> f x s = Inr (g x s)) \<Longrightarrow> foldR f xs s = Inr (fold g xs s)"
  by (induction xs arbitrary: s) auto

lemma is_ok_simps [simp]: "is_ok (Inr x)" "\<not> is_ok (Inl e)"
  by (simp_all add: is_ok_def)

lemma is_ok_iff: "is_ok r \<longleftrightarrow> (\<exists>x. r = Inr x)"
  by (cases r) auto

subsection \<open>Unsigned 32-bit arithmetic\<close>

definition u32 :: "nat \<Rightarrow> nat" where
  "u32 n = n mod 2 ^ 32"

definition u32_mul :: "nat \<Rightarrow> nat \<Rightarrow> nat" where
  "u32_mul a b = (a * b) mod 2 ^ 32"

definition u32_add :: "nat \<Rightarrow> nat \<Rightarrow> nat" where
  "u32_add a b = (a + b) mod 2 ^ 32"

definition u32_sub :: "nat \<Rightarrow> nat \<Rightarrow> nat" where
  "u32_sub a b = (a + (2 ^ 32 - b mod 2 ^ 32)) mod 2 ^ 32"

lemma u32_bounds [simp, u32_simps]:
  "u32 n < 4294967296" "u32_mul a b < 4294967296" "u32_add a b < 4294967296"
  "u32_sub a b < 4294967296"
  by (simp_all add: u32_def u32_mul_def u32_add_def u32_sub_def)

lemma u32_small [u32_simps]: "n < 2 ^ 32 \<Longrightarrow> u32 n = n"
  by (simp add: u32_def)

lemma u32_mul_small [u32_simps]: "a * b < 2 ^ 32 \<Longrightarrow> u32_mul a b = a * b"
  by (simp add: u32_mul_def)

lemma u32_add_small [u32_simps]: "a + b < 2 ^ 32 \<Longrightarrow> u32_add a b = a + b"
  by (simp add: u32_add_def)

lemma u32_sub_small [u32_simps]:
  assumes "b \<le> a" "a < 2 ^ 32"
  shows "u32_sub a b = a - b"
proof -
  have b: "b mod 2 ^ 32 = b" using assms by simp
  have "a + (2 ^ 32 - b) = (a - b) + 2 ^ 32" using assms by simp
  then have "u32_sub a b = ((a - b) + 2 ^ 32) mod 2 ^ 32"
    by (simp only: u32_sub_def b)
  also have "\<dots> = (a - b) mod 2 ^ 32" by (rule mod_add_self2)
  also have "\<dots> = a - b" using assms by simp
  finally show ?thesis .
qed

lemma foldl_u32_mul: "foldl u32_mul (a mod 2 ^ 32) ds = (a * prod_list ds) mod 2 ^ 32"
proof (induction ds arbitrary: a)
  case Nil
  then show ?case by simp
next
  case (Cons d ds)
  have "u32_mul (a mod 2 ^ 32) d = (a * d) mod 2 ^ 32"
    by (simp add: u32_mul_def mod_mult_left_eq)
  then show ?case using Cons.IH [of "a * d"] by (simp add: mult.assoc)
qed

lemma foldl_u32_mul_1: "foldl u32_mul 1 ds = prod_list ds mod 2 ^ 32"
  using foldl_u32_mul [of 1 ds] by simp

subsection \<open>Lists\<close>

text \<open>Writing distinct cells of an array: every written cell keeps its value.\<close>

definition write_all :: "(nat \<times> 'a) list \<Rightarrow> 'a list \<Rightarrow> 'a list" where
  "write_all ws xs = fold (\<lambda>(k, v) ys. ys[k := v]) ws xs"

lemma write_all_simps [simp]:
  "write_all [] xs = xs" "write_all ((k, v) # ws) xs = write_all ws (xs[k := v])"
  "write_all (ws @ vs) xs = write_all vs (write_all ws xs)"
  by (simp_all add: write_all_def)

lemma length_write_all [simp]: "length (write_all ws xs) = length xs"
  by (induction ws arbitrary: xs) auto

lemma write_all_other: "k \<notin> fst ` set ws \<Longrightarrow> write_all ws xs ! k = xs ! k"
  by (induction ws arbitrary: xs) auto

lemma write_all_nth:
  "distinct (map fst ws) \<Longrightarrow> (k, v) \<in> set ws \<Longrightarrow> k < length xs \<Longrightarrow> write_all ws xs ! k = v"
proof (induction ws arbitrary: xs)
  case Nil
  then show ?case by simp
next
  case (Cons w ws)
  obtain k' v' where w: "w = (k', v')" by (cases w)
  show ?case
  proof (cases "(k, v) \<in> set ws")
    case True
    then show ?thesis using Cons w by simp
  next
    case False
    then have "k' = k" "v' = v" "k \<notin> fst ` set ws" using Cons.prems w by auto
    then show ?thesis using Cons.prems by (simp add: w write_all_other)
  qed
qed

lemma replicate_numeral_Cons [simp]:
  "replicate (numeral k) x = x # replicate (pred_numeral k) x"
  by (simp add: numeral_eq_Suc)

lemma prod_list_replicate_1 [simp]: "prod_list (replicate n (1::nat)) = 1"
  by (induction n) auto

lemma prod_list_pos: "(\<And>d. d \<in> set ds \<Longrightarrow> 0 < d) \<Longrightarrow> 0 < prod_list (ds :: nat list)"
  by (induction ds) auto

lemma prod_list_take_drop: "prod_list (take k ds) * prod_list (drop k ds) = prod_list (ds :: nat list)"
  by (metis append_take_drop_id prod_list.append)

lemma prod_list_le_mem:
  assumes "d \<in> set ds" "\<And>e. e \<in> set ds \<Longrightarrow> 0 < e"
  shows "d \<le> prod_list (ds :: nat list)"
proof -
  obtain xs ys where ds: "ds = xs @ d # ys" using assms(1) by (meson split_list)
  have "0 < prod_list xs" "0 < prod_list ys"
    using assms(2) ds by (auto intro!: prod_list_pos)
  then show ?thesis by (simp add: ds)
qed

subsection \<open>Calls that may not return\<close>

text \<open>A call that may throw and may not return.\<close>

definition bindP :: "'a result option \<Rightarrow> ('a \<Rightarrow> 'b result option) \<Rightarrow> 'b result option" where
  "bindP m f = (case m of None \<Rightarrow> None | Some (Inl e) \<Rightarrow> Some (Inl e) | Some (Inr x) \<Rightarrow> f x)"

lemma bindP_simps [simp]:
  "bindP None f = None" "bindP (Some (Inl e)) f = Some (Inl e)" "bindP (Some (Inr x)) f = f x"
  by (simp_all add: bindP_def)

lemma bindP_eq [simp]: "bindP m f = Some (Inr y) \<longleftrightarrow> (\<exists>x. m = Some (Inr x) \<and> f x = Some (Inr y))"
  by (auto simp: bindP_def split: option.splits sum.splits)

lemma bindP_mono [partial_function_mono]:
  fixes B :: "('x \<Rightarrow> 'y option) \<Rightarrow> 'a result option" and C :: "'a \<Rightarrow> ('x \<Rightarrow> 'y option) \<Rightarrow> 'b result option"
  assumes "mono_option B" "\<And>y. mono_option (\<lambda>f. C y f)"
  shows "mono_option (\<lambda>f. bindP (B f) (\<lambda>y. C y f))"
proof -
  have "bindP m f = Option.bind m (case_sum (\<lambda>e. Some (Inl e)) f)" for m :: "'a result option" and f :: "'a \<Rightarrow> 'b result option"
    by (auto simp: bindP_def split: option.splits sum.splits)
  moreover have "mono_option (\<lambda>f. case_sum (\<lambda>e. Some (Inl e)) (\<lambda>y. C y f) r)" for r
    using assms(2) by (cases r) (auto intro: partial_function_mono)
  ultimately show ?thesis using assms(1) by (auto intro: partial_function_mono)
qed

definition null_pointer :: "'a option \<Rightarrow> 'a result" where
  "null_pointer p = (case p of None \<Rightarrow> Inl (UndefinedBehaviour ''null pointer'') | Some x \<Rightarrow> Inr x)"

lemma null_pointer_Inr [simp]: "null_pointer p = Inr x \<longleftrightarrow> p = Some x"
  by (simp add: null_pointer_def split: option.splits)

fun foldP :: "('a \<Rightarrow> 's \<Rightarrow> 's result option) \<Rightarrow> 'a list \<Rightarrow> 's \<Rightarrow> 's result option" where
  "foldP f [] s = Some (Inr s)"
| "foldP f (x # xs) s = bindP (f x s) (foldP f xs)"

lemma foldP_inv:
  assumes "foldP f xs s = Some (Inr s')" "I s" "\<And>x s s'. I s \<Longrightarrow> f x s = Some (Inr s') \<Longrightarrow> I s'"
  shows "I s'"
  using assms(1,2) by (induction xs arbitrary: s) (auto intro: assms(3))

end
