(* ===== verification/TensorShapes.thy ===== *)
theory TensorShapes
  imports Prelude
begin

section \<open>Tensor shapes and tensor infos (src/armnn/Tensor.cpp)\<close>

text \<open>
  \<open>TensorShape\<close> keeps two arrays of five entries and the number of valid ones. Every
  accessor checks its index against \<open>m_NumDimensions\<close>, so the model keeps the valid
  prefixes only: \<open>m_NumDimensions\<close> is their common length and \<open>operator==\<close> is equality of
  the records. Constructors, setters and getters throw as the code does.
\<close>

subsection \<open>Types (include/armnn/Types.hpp, TypesUtils.hpp)\<close>

definition MaxNumOfTensorDimensions :: nat where
  "MaxNumOfTensorDimensions = 5"

datatype Dimensionality = NotSpecified | Specified | Scalar

datatype DataType =
    Float16 | Float32 | QAsymmU8 | Signed32 | BooleanT | QSymmS16 | QSymmS8 | QAsymmS8
  | BFloat16 | Signed64

datatype DataLayout = NCHW | NHWC | NDHWC | NCDHW

fun GetDataTypeSize :: "DataType \<Rightarrow> nat" where
  "GetDataTypeSize BFloat16 = 2"
| "GetDataTypeSize Float16 = 2"
| "GetDataTypeSize Float32 = 4"
| "GetDataTypeSize Signed32 = 4"
| "GetDataTypeSize Signed64 = 8"
| "GetDataTypeSize QAsymmU8 = 1"
| "GetDataTypeSize QAsymmS8 = 1"
| "GetDataTypeSize QSymmS8 = 1"
| "GetDataTypeSize QSymmS16 = 2"
| "GetDataTypeSize BooleanT = 1"

definition IsQuantized8BitType :: "DataType \<Rightarrow> bool" where
  "IsQuantized8BitType t \<longleftrightarrow> t = QAsymmU8 \<or> t = QAsymmS8 \<or> t = QSymmS8"

definition IsQuantizedType :: "DataType \<Rightarrow> bool" where
  "IsQuantizedType t \<longleftrightarrow> t = QSymmS16 \<or> IsQuantized8BitType t"

subsection \<open>The shape and its checks\<close>

record TensorShape =
  m_Dimensions :: "nat list"
  m_DimensionsSpecificity :: "bool list"
  m_Dimensionality :: Dimensionality

abbreviation m_NumDimensions :: "TensorShape \<Rightarrow> nat" where
  "m_NumDimensions s \<equiv> length (m_Dimensions s)"

definition CheckDimensionIndex :: "TensorShape \<Rightarrow> nat \<Rightarrow> unit result" where
  "CheckDimensionIndex s i =
     throw_if (i \<ge> m_NumDimensions s) (InvalidArgumentException ''Invalid dimension index'')"

definition CheckValidNumDimensions :: "nat \<Rightarrow> unit result" where
  "CheckValidNumDimensions n =
     seqR [throw_if (n < 1)
             (InvalidArgumentException ''Tensor numDimensions must be greater than 0''),
           throw_if (n > MaxNumOfTensorDimensions)
             (InvalidArgumentException ''Tensor numDimensions must be less than or equal to MaxNumOfTensorDimensions'')]"

definition CheckDimensionSpecified :: "TensorShape \<Rightarrow> nat \<Rightarrow> unit result" where
  "CheckDimensionSpecified s i =
     throw_if (\<not> m_DimensionsSpecificity s ! i)
       (InvalidArgumentException ''Dimension index not specified. Tensor shape not inferred yet.'')"

definition CheckScalar :: "TensorShape \<Rightarrow> unit result" where
  "CheckScalar s =
     throw_if (m_Dimensionality s = Scalar)
       (InvalidArgumentException ''Invalid action on a tensor shape that holds a scalar value.'')"

definition CheckUnspecifiedNumDimensions :: "TensorShape \<Rightarrow> unit result" where
  "CheckUnspecifiedNumDimensions s =
     throw_if (m_Dimensionality s = NotSpecified)
       (InvalidArgumentException ''Invalid action on a tensor shape that has unknown number of dimensions.'')"

definition CheckSpecifiedNumDimensions :: "TensorShape \<Rightarrow> unit result" where
  "CheckSpecifiedNumDimensions s =
     throw_if (m_Dimensionality s = Specified)
       (InvalidArgumentException ''Invalid action on a tensor shape that has known number of dimensions.'')"

subsection \<open>Constructors\<close>

text \<open>
  A pointer argument is \<open>None\<close> for \<open>nullptr\<close>; otherwise it is the list of the
  \<open>numDimensions\<close> values the constructor copies.
\<close>

definition TensorShape_default :: TensorShape where
  "TensorShape_default =
     \<lparr>m_Dimensions = [], m_DimensionsSpecificity = [], m_Dimensionality = Specified\<rparr>"

definition TensorShape_init :: "nat \<Rightarrow> bool \<Rightarrow> TensorShape result" where
  "TensorShape_init n initDimensionsSpecificity =
     bindR (CheckValidNumDimensions n) (\<lambda>_.
     Inr \<lparr>m_Dimensions = replicate n 0,
          m_DimensionsSpecificity = replicate n initDimensionsSpecificity,
          m_Dimensionality = Specified\<rparr>)"

definition TensorShape_sizes :: "nat \<Rightarrow> nat list option \<Rightarrow> TensorShape result" where
  "TensorShape_sizes n dimensionSizes =
     bindR (CheckValidNumDimensions n) (\<lambda>_.
     case dimensionSizes of
       None \<Rightarrow> Inl (InvalidArgumentException ''Tensor dimensionSizes must not be NULL'')
     | Some ds \<Rightarrow> Inr \<lparr>m_Dimensions = take n ds,
                        m_DimensionsSpecificity = replicate n True,
                        m_Dimensionality = Specified\<rparr>)"

definition TensorShape_of_list :: "nat list \<Rightarrow> TensorShape result" where
  "TensorShape_of_list ds = TensorShape_sizes (length ds) (Some ds)"

definition TensorShape_sizes_spec ::
    "nat \<Rightarrow> nat list option \<Rightarrow> bool list option \<Rightarrow> TensorShape result" where
  "TensorShape_sizes_spec n dimensionSizes dimensionsSpecificity =
     bindR (CheckValidNumDimensions n) (\<lambda>_.
     case dimensionSizes of
       None \<Rightarrow> Inl (InvalidArgumentException ''Tensor dimensionSizes must not be NULL'')
     | Some ds \<Rightarrow>
         (case dimensionsSpecificity of
            None \<Rightarrow> Inl (InvalidArgumentException ''Tensor dimensionsSpecificity must not be NULL'')
          | Some bs \<Rightarrow> Inr \<lparr>m_Dimensions = take n ds,
                             m_DimensionsSpecificity = take n bs,
                             m_Dimensionality = Specified\<rparr>))"

definition TensorShape_of_lists :: "nat list \<Rightarrow> bool list \<Rightarrow> TensorShape result" where
  "TensorShape_of_lists ds bs =
     (if length bs \<noteq> length ds
      then Inl (InvalidArgumentException ''Tensors dimensionSizeList and dimensionsSpecificityList must be same size'')
      else TensorShape_sizes_spec (length ds) (Some ds) (Some bs))"

fun TensorShape_dimensionality :: "Dimensionality \<Rightarrow> TensorShape result" where
  "TensorShape_dimensionality Specified =
     Inl (InvalidArgumentException ''Use other constructor to specify the rest of the values'')"
| "TensorShape_dimensionality NotSpecified =
     Inr \<lparr>m_Dimensions = [], m_DimensionsSpecificity = [], m_Dimensionality = NotSpecified\<rparr>"
| "TensorShape_dimensionality Scalar =
     Inr \<lparr>m_Dimensions = [1], m_DimensionsSpecificity = [True], m_Dimensionality = Scalar\<rparr>"

subsection \<open>Accessors\<close>

definition TensorShape_get :: "TensorShape \<Rightarrow> nat \<Rightarrow> nat result" where
  "TensorShape_get s i =
     bindR (seqR [CheckUnspecifiedNumDimensions s, CheckDimensionIndex s i,
                  CheckDimensionSpecified s i]) (\<lambda>_.
     Inr (m_Dimensions s ! i))"

text \<open>
  The read-and-write \<open>operator[]\<close> returns a reference; the model stores through it.
\<close>

definition TensorShape_put :: "TensorShape \<Rightarrow> nat \<Rightarrow> nat \<Rightarrow> TensorShape result" where
  "TensorShape_put s i v =
     (if m_Dimensionality s = Scalar
      then Inl (InvalidArgumentException ''TensorShape with Dimensionality::Scalar must be const to use operator[]'')
      else bindR (seqR [CheckUnspecifiedNumDimensions s, CheckDimensionIndex s i,
                        CheckDimensionSpecified s i]) (\<lambda>_.
           Inr (s\<lparr>m_Dimensions := (m_Dimensions s)[i := v]\<rparr>)))"

definition GetNumDimensions :: "TensorShape \<Rightarrow> nat result" where
  "GetNumDimensions s = bindR (CheckUnspecifiedNumDimensions s) (\<lambda>_. Inr (m_NumDimensions s))"

text \<open>The loop of \<open>GetNumElements\<close>: the running product and whether a size was seen.\<close>

fun NumElements_loop :: "nat list \<Rightarrow> bool list \<Rightarrow> nat \<times> bool \<Rightarrow> nat \<times> bool" where
  "NumElements_loop (d # ds) (b # bs) (count, seen) =
     NumElements_loop ds bs (if b then (u32_mul count d, True) else (count, seen))"
| "NumElements_loop _ _ acc = acc"

definition GetNumElements :: "TensorShape \<Rightarrow> nat result" where
  "GetNumElements s =
     bindR (CheckUnspecifiedNumDimensions s) (\<lambda>_.
     if m_NumDimensions s = 0 then Inr 0
     else (case NumElements_loop (m_Dimensions s) (m_DimensionsSpecificity s) (1, False) of
             (count, atLeastOneDimensionSpecified) \<Rightarrow>
               Inr (if atLeastOneDimensionSpecified then count else 0)))"

definition GetDimensionSpecificity :: "TensorShape \<Rightarrow> nat \<Rightarrow> bool result" where
  "GetDimensionSpecificity s i =
     bindR (seqR [CheckUnspecifiedNumDimensions s, CheckDimensionIndex s i]) (\<lambda>_.
     Inr (m_DimensionsSpecificity s ! i))"

definition SetNumDimensions :: "TensorShape \<Rightarrow> nat \<Rightarrow> bool \<Rightarrow> TensorShape result" where
  "SetNumDimensions s n initDimensionsSpecificity =
     bindR (seqR [CheckScalar s, CheckSpecifiedNumDimensions s, CheckValidNumDimensions n]) (\<lambda>_.
     Inr \<lparr>m_Dimensions = replicate n 0,
          m_DimensionsSpecificity = replicate n initDimensionsSpecificity,
          m_Dimensionality = Specified\<rparr>)"

definition SetDimensionSize :: "TensorShape \<Rightarrow> nat \<Rightarrow> nat \<Rightarrow> TensorShape result" where
  "SetDimensionSize s i dimensionSize =
     bindR (seqR [CheckScalar s, CheckDimensionIndex s i]) (\<lambda>_.
     Inr (s\<lparr>m_Dimensions := (m_Dimensions s)[i := dimensionSize],
            m_DimensionsSpecificity := (m_DimensionsSpecificity s)[i := True]\<rparr>))"

definition AreAllDimensionsSpecified :: "TensorShape \<Rightarrow> bool result" where
  "AreAllDimensionsSpecified s =
     bindR (CheckUnspecifiedNumDimensions s) (\<lambda>_. Inr (list_all id (m_DimensionsSpecificity s)))"

definition IsAtLeastOneDimensionSpecified :: "TensorShape \<Rightarrow> bool result" where
  "IsAtLeastOneDimensionSpecified s =
     bindR (CheckUnspecifiedNumDimensions s) (\<lambda>_. Inr (list_ex id (m_DimensionsSpecificity s)))"

subsection \<open>Tensor infos\<close>

text \<open>
  A C++ \<open>float\<close> is its IEEE 754 bit pattern; \<open>float_eq\<close> is \<open>operator==\<close> on it (a NaN
  equals nothing, the two zeroes are equal). \<open>float_one\<close> is \<open>1.0f\<close>.
\<close>

type_synonym float32 = "32 word"

definition float_nan :: "float32 \<Rightarrow> bool" where
  "float_nan x \<longleftrightarrow> take_bit 31 (unat x) > 2139095040"

definition float_zero :: "float32 \<Rightarrow> bool" where
  "float_zero x \<longleftrightarrow> take_bit 31 (unat x) = 0"

definition float_eq :: "float32 \<Rightarrow> float32 \<Rightarrow> bool" where
  "float_eq x y \<longleftrightarrow>
     \<not> float_nan x \<and> \<not> float_nan y \<and> (x = y \<or> float_zero x \<and> float_zero y)"

definition float_one :: float32 where
  "float_one = 1065353216"

record Quantization =
  m_Scales :: "float32 list"
  m_Offset :: "int option"
  m_QuantizationDim :: "nat option"

record TensorInfo =
  m_Shape :: TensorShape
  m_DataType :: DataType
  m_IsConstant :: bool
  m_Quantization :: Quantization

definition Quantization_default :: Quantization where
  "Quantization_default = \<lparr>m_Scales = [], m_Offset = None, m_QuantizationDim = None\<rparr>"

definition Quantization_eq :: "Quantization \<Rightarrow> Quantization \<Rightarrow> bool" where
  "Quantization_eq q r \<longleftrightarrow>
     list_all2 float_eq (m_Scales q) (m_Scales r) \<and> m_Offset q = m_Offset r \<and>
     m_QuantizationDim q = m_QuantizationDim r"

definition TensorInfo_default :: TensorInfo where
  "TensorInfo_default =
     \<lparr>m_Shape = TensorShape_default, m_DataType = Float32, m_IsConstant = False,
      m_Quantization = Quantization_default\<rparr>"

definition SetQuantizationScales :: "TensorInfo \<Rightarrow> float32 list \<Rightarrow> TensorInfo" where
  "SetQuantizationScales t scales =
     t\<lparr>m_Quantization := (m_Quantization t)\<lparr>m_Scales := scales\<rparr>\<rparr>"

definition SetQuantizationScale :: "TensorInfo \<Rightarrow> float32 \<Rightarrow> TensorInfo" where
  "SetQuantizationScale t scale =
     t\<lparr>m_Quantization := (m_Quantization t)\<lparr>m_Scales := [scale]\<rparr>\<rparr>"

definition SetQuantizationOffset :: "TensorInfo \<Rightarrow> int \<Rightarrow> TensorInfo" where
  "SetQuantizationOffset t offset =
     t\<lparr>m_Quantization := (m_Quantization t)\<lparr>m_Offset := Some offset\<rparr>\<rparr>"

definition SetQuantizationDim :: "TensorInfo \<Rightarrow> nat option \<Rightarrow> TensorInfo" where
  "SetQuantizationDim t d =
     t\<lparr>m_Quantization := (m_Quantization t)\<lparr>m_QuantizationDim := d\<rparr>\<rparr>"

definition SetShape :: "TensorInfo \<Rightarrow> TensorShape \<Rightarrow> TensorInfo" where
  "SetShape t s = t\<lparr>m_Shape := s\<rparr>"

definition SetConstant :: "TensorInfo \<Rightarrow> bool \<Rightarrow> TensorInfo" where
  "SetConstant t c = t\<lparr>m_IsConstant := c\<rparr>"

definition TensorInfo_of_shape :: "TensorShape \<Rightarrow> DataType \<Rightarrow> float32 \<Rightarrow> int \<Rightarrow> bool \<Rightarrow> TensorInfo" where
  "TensorInfo_of_shape shape dataType scale offset isConstant =
     SetQuantizationOffset
       (SetQuantizationScale
          \<lparr>m_Shape = shape, m_DataType = dataType, m_IsConstant = isConstant,
           m_Quantization = Quantization_default\<rparr> scale) offset"

definition TensorInfo_sizes ::
    "nat \<Rightarrow> nat list option \<Rightarrow> DataType \<Rightarrow> float32 \<Rightarrow> int \<Rightarrow> bool \<Rightarrow> TensorInfo result" where
  "TensorInfo_sizes n dimensionSizes dataType scale offset isConstant =
     bindR (TensorShape_sizes n dimensionSizes) (\<lambda>s.
     Inr (TensorInfo_of_shape s dataType scale offset isConstant))"

definition TensorInfo_per_axis ::
    "TensorShape \<Rightarrow> DataType \<Rightarrow> float32 list \<Rightarrow> nat \<Rightarrow> bool \<Rightarrow> TensorInfo" where
  "TensorInfo_per_axis shape dataType scales quantizationDim isConstant =
     SetQuantizationDim
       (SetQuantizationScales
          \<lparr>m_Shape = shape, m_DataType = dataType, m_IsConstant = isConstant,
           m_Quantization = Quantization_default\<rparr> scales) (Some quantizationDim)"

definition TensorInfo_eq :: "TensorInfo \<Rightarrow> TensorInfo \<Rightarrow> bool" where
  "TensorInfo_eq t u \<longleftrightarrow>
     m_Shape t = m_Shape u \<and> m_DataType t = m_DataType u \<and>
     Quantization_eq (m_Quantization t) (m_Quantization u) \<and> m_IsConstant t = m_IsConstant u"

definition GetNumBytes :: "TensorInfo \<Rightarrow> nat result" where
  "GetNumBytes t =
     bindR (GetNumElements (m_Shape t)) (\<lambda>n. Inr (u32_mul (GetDataTypeSize (m_DataType t)) n))"

definition IsQuantized :: "TensorInfo \<Rightarrow> bool" where
  "IsQuantized t = IsQuantizedType (m_DataType t)"

definition HasMultipleQuantizationScales :: "TensorInfo \<Rightarrow> bool" where
  "HasMultipleQuantizationScales t \<longleftrightarrow> length (m_Scales (m_Quantization t)) > 1"

definition HasPerAxisQuantization :: "TensorInfo \<Rightarrow> bool" where
  "HasPerAxisQuantization t \<longleftrightarrow>
     HasMultipleQuantizationScales t \<or> m_QuantizationDim (m_Quantization t) \<noteq> None"

definition GetQuantizationScale :: "TensorInfo \<Rightarrow> float32 result" where
  "GetQuantizationScale t =
     (case m_Scales (m_Quantization t) of
        [] \<Rightarrow> Inr float_one
      | scale # _ \<Rightarrow>
          bindR (throw_if (HasMultipleQuantizationScales t)
                   (AssertionFailure ''!HasMultipleQuantizationScales()'')) (\<lambda>_. Inr scale))"

definition GetQuantizationOffset :: "TensorInfo \<Rightarrow> int" where
  "GetQuantizationOffset t =
     (case m_Offset (m_Quantization t) of None \<Rightarrow> 0 | Some offset \<Rightarrow> offset)"

definition IsTypeSpaceMatch :: "TensorInfo \<Rightarrow> TensorInfo \<Rightarrow> bool result" where
  "IsTypeSpaceMatch t other =
     (let match = (m_DataType t = m_DataType other) in
      if IsQuantized t \<and> \<not> HasMultipleQuantizationScales t
      then bindR (GetQuantizationScale t) (\<lambda>a.
           bindR (GetQuantizationScale other) (\<lambda>b.
           Inr (match \<and> float_eq a b \<and> GetQuantizationOffset t = GetQuantizationOffset other)))
      else Inr match)"

subsection \<open>Well-formed shapes\<close>

definition dims32 :: "nat list \<Rightarrow> bool" where
  "dims32 ds \<longleftrightarrow> (\<forall>d \<in> set ds. d < 2 ^ 32)"

fun wf_TensorShape :: "TensorShape \<Rightarrow> bool" where
  "wf_TensorShape s \<longleftrightarrow>
     length (m_DimensionsSpecificity s) = m_NumDimensions s \<and>
     m_NumDimensions s \<le> MaxNumOfTensorDimensions \<and> dims32 (m_Dimensions s) \<and>
     (m_Dimensionality s = NotSpecified \<longrightarrow> m_Dimensions s = []) \<and>
     (m_Dimensionality s = Scalar \<longrightarrow>
        m_Dimensions s = [1] \<and> m_DimensionsSpecificity s = [True])"

text \<open>A shape whose sizes are all known: what every tensor at run time has.\<close>

definition specified_shape :: "TensorShape \<Rightarrow> nat list \<Rightarrow> bool" where
  "specified_shape s ds \<longleftrightarrow>
     s = \<lparr>m_Dimensions = ds, m_DimensionsSpecificity = replicate (length ds) True,
         m_Dimensionality = Specified\<rparr>"

lemmas shape_checks =
  CheckDimensionIndex_def CheckValidNumDimensions_def CheckDimensionSpecified_def
  CheckScalar_def CheckUnspecifiedNumDimensions_def CheckSpecifiedNumDimensions_def

lemma dims32_simps [simp]:
  "dims32 []" "dims32 (d # ds) \<longleftrightarrow> d < 2 ^ 32 \<and> dims32 ds" "dims32 (replicate n 0)"
  "dims32 (xs @ ys) \<longleftrightarrow> dims32 xs \<and> dims32 ys"
  by (auto simp: dims32_def)

lemma dims32_update [simp, intro]: "dims32 ds \<Longrightarrow> v < 4294967296 \<Longrightarrow> dims32 (ds[i := v])"
  unfolding dims32_def by (auto dest!: set_update_subset_insert [THEN subsetD])

lemma dims32_take [intro]: "dims32 ds \<Longrightarrow> dims32 (take n ds)"
  unfolding dims32_def by (auto dest: in_set_takeD)

lemma dims32_nth: "dims32 ds \<Longrightarrow> i < length ds \<Longrightarrow> ds ! i < 2 ^ 32"
  by (auto simp: dims32_def)

lemma CheckValidNumDimensions_ok:
  "CheckValidNumDimensions n = Inr u \<longleftrightarrow> 1 \<le> n \<and> n \<le> MaxNumOfTensorDimensions"
  by (auto simp: shape_checks)

lemma TensorShape_of_list_ok:
  "TensorShape_of_list ds = Inr s \<longleftrightarrow>
     1 \<le> length ds \<and> length ds \<le> MaxNumOfTensorDimensions \<and> specified_shape s ds"
  by (auto simp: TensorShape_of_list_def TensorShape_sizes_def bindR_eq_Inr
      CheckValidNumDimensions_ok specified_shape_def)

lemma specified_shape_wf:
  "specified_shape s ds \<Longrightarrow> length ds \<le> MaxNumOfTensorDimensions \<Longrightarrow> dims32 ds \<Longrightarrow> wf_TensorShape s"
  by (simp add: specified_shape_def)

lemma specified_shape_get [simp]:
  "specified_shape s ds \<Longrightarrow> i < length ds \<Longrightarrow> TensorShape_get s i = Inr (ds ! i)"
  by (simp add: specified_shape_def TensorShape_get_def shape_checks)

lemma specified_shape_GetNumDimensions [simp]:
  "specified_shape s ds \<Longrightarrow> GetNumDimensions s = Inr (length ds)"
  by (simp add: specified_shape_def GetNumDimensions_def shape_checks)

text \<open>The loop of \<open>GetNumElements\<close> multiplies the specified sizes.\<close>

lemma NumElements_loop_eq:
  "length bs = length ds \<Longrightarrow>
   NumElements_loop ds bs (c, seen) =
     (foldl u32_mul c (map fst (filter snd (zip ds bs))), seen \<or> list_ex id bs)"
proof (induction ds arbitrary: bs c seen)
  case Nil
  then show ?case by simp
next
  case (Cons d ds)
  then obtain b bs' where "bs = b # bs'" by (cases bs) auto
  then show ?case using Cons by auto
qed

definition specified_dims :: "TensorShape \<Rightarrow> nat list" where
  "specified_dims s = map fst (filter snd (zip (m_Dimensions s) (m_DimensionsSpecificity s)))"

lemma list_ex_empty_iff: "length bs = length ds \<Longrightarrow> list_ex id bs \<longleftrightarrow> filter snd (zip ds bs) \<noteq> []"
proof (induction ds arbitrary: bs)
  case Nil
  then show ?case by simp
next
  case (Cons d ds)
  then obtain b bs' where "bs = b # bs'" by (cases bs) auto
  then show ?case using Cons by auto
qed

lemma filter_zip_replicate [simp]:
  "filter snd (zip ds (replicate (length ds) True)) = zip ds (replicate (length ds) True)"
  by (induction ds) auto

lemma specified_dims_specified [simp]: "specified_shape s ds \<Longrightarrow> specified_dims s = ds"
  by (simp add: specified_dims_def specified_shape_def)

subsection \<open>Every shape the class can produce is well formed\<close>

text \<open>
  The shapes a client can hold: results of the constructors and of the mutators, with
  arguments in the range of \<open>unsigned int\<close>.
\<close>

inductive built_shape :: "TensorShape \<Rightarrow> bool" where
  built_default: "built_shape TensorShape_default"
| built_init: "TensorShape_init n b = Inr s \<Longrightarrow> built_shape s"
| built_sizes: "dims32 ds \<Longrightarrow> length ds = n \<Longrightarrow> TensorShape_sizes n (Some ds) = Inr s \<Longrightarrow> built_shape s"
| built_lists: "dims32 ds \<Longrightarrow> TensorShape_of_lists ds bs = Inr s \<Longrightarrow> built_shape s"
| built_dimensionality: "TensorShape_dimensionality d = Inr s \<Longrightarrow> built_shape s"
| built_put: "built_shape r \<Longrightarrow> v < 2 ^ 32 \<Longrightarrow> TensorShape_put r i v = Inr s \<Longrightarrow> built_shape s"
| built_SetNumDimensions: "built_shape r \<Longrightarrow> SetNumDimensions r n b = Inr s \<Longrightarrow> built_shape s"
| built_SetDimensionSize:
    "built_shape r \<Longrightarrow> v < 2 ^ 32 \<Longrightarrow> SetDimensionSize r i v = Inr s \<Longrightarrow> built_shape s"

lemma TensorShape_sizes_wf:
  "dims32 ds \<Longrightarrow> length ds = n \<Longrightarrow> TensorShape_sizes n (Some ds) = Inr s \<Longrightarrow> wf_TensorShape s"
  by (auto simp: TensorShape_sizes_def CheckValidNumDimensions_ok)

lemma TensorShape_of_lists_wf:
  "dims32 ds \<Longrightarrow> TensorShape_of_lists ds bs = Inr s \<Longrightarrow> wf_TensorShape s"
  by (auto simp: TensorShape_of_lists_def TensorShape_sizes_spec_def CheckValidNumDimensions_ok
      split: if_splits)

lemma TensorShape_put_wf:
  "wf_TensorShape r \<Longrightarrow> v < 2 ^ 32 \<Longrightarrow> TensorShape_put r i v = Inr s \<Longrightarrow> wf_TensorShape s"
  by (auto simp: TensorShape_put_def shape_checks split: if_splits)

lemma SetNumDimensions_wf: "SetNumDimensions r n b = Inr s \<Longrightarrow> wf_TensorShape s"
  by (auto simp: SetNumDimensions_def CheckValidNumDimensions_ok)

lemma SetDimensionSize_wf:
  "wf_TensorShape r \<Longrightarrow> v < 2 ^ 32 \<Longrightarrow> SetDimensionSize r i v = Inr s \<Longrightarrow> wf_TensorShape s"
  by (auto simp: SetDimensionSize_def shape_checks)

text \<open>
  C11: Every tensor shape that the constructors and mutators of the class can produce is
  well formed: at most five dimensions, one specificity flag per dimension, sizes in the
  range of \<open>unsigned int\<close>, no dimensions while their number is unknown, and exactly one
  dimension of size one for a scalar.
\<close>

theorem built_shape_wf: "built_shape s \<Longrightarrow> wf_TensorShape s"
proof (induction rule: built_shape.induct)
  case built_default
  then show ?case by (simp add: TensorShape_default_def)
next
  case (built_init n b s)
  then show ?case by (auto simp: TensorShape_init_def CheckValidNumDimensions_ok)
next
  case (built_sizes ds n s)
  then show ?case by (rule TensorShape_sizes_wf)
next
  case (built_lists ds bs s)
  then show ?case by (rule TensorShape_of_lists_wf)
next
  case (built_dimensionality d s)
  then show ?case by (cases d) (auto simp: MaxNumOfTensorDimensions_def)
next
  case (built_put r v i s)
  then show ?case by (blast intro: TensorShape_put_wf)
next
  case (built_SetNumDimensions r n b s)
  then show ?case by (blast intro: SetNumDimensions_wf)
next
  case (built_SetDimensionSize r v i s)
  then show ?case by (blast intro: SetDimensionSize_wf)
qed

text \<open>A shape of two sizes, whose first size is then changed through \<open>operator[]\<close>.\<close>

theorem built_shape_wf_witness:
  "\<exists>s. built_shape s \<and> m_Dimensions s = [7, 3] \<and> wf_TensorShape s"
proof -
  let ?r = "\<lparr>m_Dimensions = [2, 3], m_DimensionsSpecificity = [True, True],
             m_Dimensionality = Specified\<rparr>"
  let ?s = "\<lparr>m_Dimensions = [7, 3], m_DimensionsSpecificity = [True, True],
             m_Dimensionality = Specified\<rparr>"
  have r: "built_shape ?r"
    by (rule built_sizes [of "[2, 3]" 2])
      (simp_all add: TensorShape_sizes_def CheckValidNumDimensions_ok
        MaxNumOfTensorDimensions_def)
  have s: "built_shape ?s"
    by (rule built_put [OF r, of 7 0]) (simp_all add: TensorShape_put_def shape_checks)
  show ?thesis using s built_shape_wf [OF s] by auto
qed

subsection \<open>Number of elements and bytes\<close>

text \<open>
  C12: \<open>GetNumElements\<close> throws exactly on a shape of unknown rank; otherwise it returns 0
  when no dimension size is known, and else the product of the known sizes, reduced
  modulo \<open>2 ^ 32\<close> as \<open>unsigned int\<close> arithmetic does.
\<close>

theorem GetNumElements_spec:
  assumes "wf_TensorShape s"
  shows "GetNumElements s =
    (if m_Dimensionality s = NotSpecified
     then Inl (InvalidArgumentException
       ''Invalid action on a tensor shape that has unknown number of dimensions.'')
     else Inr (if specified_dims s = [] then 0 else prod_list (specified_dims s) mod 2 ^ 32))"
  using assms
  by (auto simp: GetNumElements_def shape_checks NumElements_loop_eq specified_dims_def
      list_ex_empty_iff foldl_u32_mul_1 simp del: One_nat_def)

theorem GetNumElements_spec_witness:
  "GetNumElements \<lparr>m_Dimensions = [65536, 5, 65537],
     m_DimensionsSpecificity = [True, False, True], m_Dimensionality = Specified\<rparr> = Inr 65536"
  by (subst GetNumElements_spec)
    (simp_all add: MaxNumOfTensorDimensions_def specified_dims_def)

lemma GetNumElements_specified:
  "specified_shape s ds \<Longrightarrow> GetNumElements s = Inr (if ds = [] then 0 else prod_list ds mod 2 ^ 32)"
  by (auto simp: specified_shape_def GetNumElements_def shape_checks NumElements_loop_eq
      list_ex_empty_iff foldl_u32_mul_1 simp del: One_nat_def)

lemma GetNumElements_small:
  "specified_shape s ds \<Longrightarrow> ds \<noteq> [] \<Longrightarrow> prod_list ds < 2 ^ 32 \<Longrightarrow> GetNumElements s = Inr (prod_list ds)"
  by (simp add: GetNumElements_specified)

text \<open>
  C13: \<open>GetNumBytes\<close> throws exactly on a tensor whose shape has an unknown rank; it is 0 when the shape
  has no dimension of known size (zero-dimensional shapes, and so default tensors, among them), and
  else the element size times the product of the known sizes, reduced modulo \<open>2 ^ 32\<close>: the two
  wrap-arounds of the code collapse into one, and the result is the exact byte count of a fully
  specified shape whenever that fits in 32 bits.
\<close>

theorem GetNumBytes_spec:
  assumes "wf_TensorShape (m_Shape t)"
  shows "GetNumBytes t =
    (if m_Dimensionality (m_Shape t) = NotSpecified
     then Inl (InvalidArgumentException
       ''Invalid action on a tensor shape that has unknown number of dimensions.'')
     else Inr (if specified_dims (m_Shape t) = [] then 0
       else (GetDataTypeSize (m_DataType t) * prod_list (specified_dims (m_Shape t))) mod 2 ^ 32))"
proof -
  have "GetNumElements (m_Shape t) =
    (if m_Dimensionality (m_Shape t) = NotSpecified
     then Inl (InvalidArgumentException
       ''Invalid action on a tensor shape that has unknown number of dimensions.'')
     else Inr (if specified_dims (m_Shape t) = [] then 0 else prod_list (specified_dims (m_Shape t)) mod 2 ^ 32))"
    using assms
    by (auto simp: GetNumElements_def shape_checks NumElements_loop_eq specified_dims_def
        list_ex_empty_iff foldl_u32_mul_1 simp del: One_nat_def)
  then show ?thesis by (simp add: GetNumBytes_def u32_mul_def mod_mult_right_eq)
qed

theorem GetNumBytes_spec_witness:
  "GetNumBytes (TensorInfo_of_shape \<lparr>m_Dimensions = [1, 32768, 32768],
     m_DimensionsSpecificity = [True, True, True], m_Dimensionality = Specified\<rparr>
     Float32 float_one 0 False) = Inr 0 \<and>
   GetNumBytes (TensorInfo_of_shape \<lparr>m_Dimensions = [], m_DimensionsSpecificity = [],
     m_Dimensionality = Specified\<rparr> Float32 float_one 0 False) = Inr 0 \<and>
   GetNumBytes (TensorInfo_of_shape \<lparr>m_Dimensions = [2, 3], m_DimensionsSpecificity = [True, True],
     m_Dimensionality = Specified\<rparr> Float32 float_one 0 False) = Inr 24"
proof -
  let ?t = "\<lambda>ds. TensorInfo_of_shape \<lparr>m_Dimensions = ds, m_DimensionsSpecificity = map (\<lambda>_. True) ds,
     m_Dimensionality = Specified\<rparr> Float32 float_one 0 False"
  have "wf_TensorShape (m_Shape (?t [1, 32768, 32768]))" "wf_TensorShape (m_Shape (?t []))"
    "wf_TensorShape (m_Shape (?t [2, 3]))"
    by (simp_all add: TensorInfo_of_shape_def SetQuantizationOffset_def SetQuantizationScale_def
        MaxNumOfTensorDimensions_def)
  note this [THEN GetNumBytes_spec]
  then show ?thesis
    by (simp add: TensorInfo_of_shape_def SetQuantizationOffset_def SetQuantizationScale_def specified_dims_def)
qed

end
