(* ===== verification/MemoryStrategy.thy ===== *)
theory MemoryStrategy
  imports Prelude "HOL-Library.Multiset"
begin

section \<open>Memory optimizer strategies (src/backends/backendsCommon/memoryOptimizerStrategyLibrary)\<close>

text \<open>
  Blocks of memory with a lifetime are packed into bins. \<open>ConstantMemoryStrategy\<close> gives
  every block a bin of its own; \<open>SingleAxisPriorityList\<close> packs blocks whose lifetimes do
  not meet into one bin, with the lifetimes of a bin kept as bits of 64-bit words;
  \<open>StrategyValidator\<close> runs another strategy and checks its result. The pointers to blocks
  that the code keeps are read only here, so the model keeps the blocks.
\<close>

unbundle bit_operations_syntax

subsection \<open>Blocks and bins (include/armnn/backends/IMemoryOptimizerStrategy.hpp)\<close>

datatype MemBlockStrategyType = SingleAxisPacking | MultiAxisPacking

record MemBlock =
  m_StartOfLife :: nat
  m_EndOfLife :: nat
  m_MemSize :: nat
  m_Offset :: nat
  m_Index :: nat

record MemBin =
  m_MemBlocks :: "MemBlock list"
  m_BinSize :: nat

text \<open>
  The interface \<open>IMemoryOptimizerStrategy\<close>: \<open>Optimize\<close> takes the blocks by reference, so
  the model returns them beside the bins.
\<close>

record MemoryOptimizerStrategy =
  Optimize :: "MemBlock list \<Rightarrow> MemBin list \<times> MemBlock list"
  GetMemBlockStrategyType :: MemBlockStrategyType

subsection \<open>ConstantMemoryStrategy\<close>

fun Constant_loop :: "MemBlock list \<Rightarrow> MemBin list \<times> MemBlock list" where
  "Constant_loop [] = ([], [])"
| "Constant_loop (memBlock # rest) =
     (let memBlock' = memBlock\<lparr>m_Offset := 0\<rparr>;
          memBin = \<lparr>m_MemBlocks = [memBlock'], m_BinSize = m_MemSize memBlock\<rparr>;
          (bins, blocks) = Constant_loop rest
      in (memBin # bins, memBlock' # blocks))"

definition ConstantMemoryStrategy :: MemoryOptimizerStrategy where
  "ConstantMemoryStrategy =
     \<lparr>Optimize = Constant_loop, GetMemBlockStrategyType = SingleAxisPacking\<rparr>"

subsection \<open>SingleAxisPriorityList\<close>

definition wordSize :: nat where
  "wordSize = 64"

definition all_ones :: "64 word" where
  "all_ones = - 1"

record BinTracker =
  m_TrackedSize :: nat
  m_OccupiedSpaces :: "64 word list"
  m_PlacedBlocks :: "MemBlock list"

definition BinTracker_new :: "nat \<Rightarrow> BinTracker" where
  "BinTracker_new maxLifeTime =
     \<lparr>m_TrackedSize = 0, m_OccupiedSpaces = replicate (1 + maxLifeTime div wordSize) 0,
      m_PlacedBlocks = []\<rparr>"

definition AddBlock_single :: "BinTracker \<Rightarrow> MemBlock \<Rightarrow> 64 word \<Rightarrow> nat \<Rightarrow> BinTracker" where
  "AddBlock_single b block word index =
     b\<lparr>m_OccupiedSpaces := (m_OccupiedSpaces b)[index := m_OccupiedSpaces b ! index OR word],
       m_PlacedBlocks := m_PlacedBlocks b @ [block],
       m_TrackedSize := max (m_TrackedSize b) (m_MemSize block)\<rparr>"

text \<open>The loop \<open>for (i = startIndex + 1; i <= endIndex - 1; ++i)\<close>.\<close>

fun fill_between :: "64 word list \<Rightarrow> nat list \<Rightarrow> 64 word list" where
  "fill_between ws [] = ws"
| "fill_between ws (i # is) = fill_between (ws[i := all_ones]) is"

definition AddBlock_multi ::
    "BinTracker \<Rightarrow> MemBlock \<Rightarrow> nat \<Rightarrow> nat \<Rightarrow> 64 word \<Rightarrow> 64 word \<Rightarrow> BinTracker" where
  "AddBlock_multi b block startIndex endIndex firstWord lastWord =
     (let ws = m_OccupiedSpaces b;
          ws = ws[startIndex := ws ! startIndex OR firstWord];
          ws = ws[endIndex := ws ! endIndex OR lastWord];
          ws = fill_between ws [startIndex + 1 ..< endIndex]
      in b\<lparr>m_OccupiedSpaces := ws,
           m_PlacedBlocks := m_PlacedBlocks b @ [block],
           m_TrackedSize := max (m_TrackedSize b) (m_MemSize block)\<rparr>)"

text \<open>
  The search that the three loops of \<open>PlaceBlocks\<close> share: the first bin that fits takes
  the block, and if none does a new bin is appended.
\<close>

fun first_fit ::
    "(BinTracker \<Rightarrow> bool) \<Rightarrow> (BinTracker \<Rightarrow> BinTracker) \<Rightarrow> nat \<Rightarrow> BinTracker list \<Rightarrow> BinTracker list" where
  "first_fit fits add maxLifetime [] = [add (BinTracker_new maxLifetime)]"
| "first_fit fits add maxLifetime (b # bs) =
     (if fits b then add b # bs else b # first_fit fits add maxLifetime bs)"

definition singleWordLoop ::
    "MemBlock \<Rightarrow> 64 word \<Rightarrow> nat \<Rightarrow> nat \<Rightarrow> BinTracker list \<Rightarrow> BinTracker list" where
  "singleWordLoop curBlock firstWord index maxLifetime placedBlocks =
     first_fit (\<lambda>b. m_OccupiedSpaces b ! index AND firstWord = 0)
       (\<lambda>b. AddBlock_single b curBlock firstWord index) maxLifetime placedBlocks"

definition doubleWordLoop ::
    "MemBlock \<Rightarrow> 64 word \<Rightarrow> nat \<Rightarrow> 64 word \<Rightarrow> nat \<Rightarrow> nat \<Rightarrow> BinTracker list \<Rightarrow> BinTracker list" where
  "doubleWordLoop curBlock firstWord firstIndex lastWord lastIndex maxLifetime placedBlocks =
     first_fit (\<lambda>b. m_OccupiedSpaces b ! firstIndex AND firstWord = 0 \<and>
                     m_OccupiedSpaces b ! lastIndex AND lastWord = 0)
       (\<lambda>b. AddBlock_multi b curBlock firstIndex lastIndex firstWord lastWord)
       maxLifetime placedBlocks"

definition multiWordLoop ::
    "MemBlock \<Rightarrow> 64 word \<Rightarrow> nat \<Rightarrow> 64 word \<Rightarrow> nat \<Rightarrow> nat \<Rightarrow> BinTracker list \<Rightarrow> BinTracker list" where
  "multiWordLoop curBlock firstWord firstIndex lastWord lastIndex maxLifetime placedBlocks =
     first_fit (\<lambda>b. \<not> (m_OccupiedSpaces b ! firstIndex AND firstWord \<noteq> 0 \<or>
                       m_OccupiedSpaces b ! lastIndex AND lastWord \<noteq> 0) \<and>
                     list_all (\<lambda>i. m_OccupiedSpaces b ! i = 0) [firstIndex + 1 ..< lastIndex])
       (\<lambda>b. AddBlock_multi b curBlock firstIndex lastIndex firstWord lastWord)
       maxLifetime placedBlocks"

text \<open>The body of the loop of \<open>PlaceBlocks\<close> over the priority list.\<close>

definition PlaceBlock :: "nat \<Rightarrow> MemBlock \<Rightarrow> BinTracker list \<Rightarrow> BinTracker list" where
  "PlaceBlock maxLifetime curBlock placedBlocks =
     (let firstWordIndex = m_StartOfLife curBlock div wordSize;
          lastWordIndex = m_EndOfLife curBlock div wordSize;
          remainder = m_StartOfLife curBlock - firstWordIndex * wordSize;
          firstWord = drop_bit remainder all_ones
      in if firstWordIndex = lastWordIndex
         then let remainder = remainder + u32_sub (u32_add (m_EndOfLife curBlock) 1) (m_StartOfLife curBlock);
                  firstWord = drop_bit (wordSize - remainder) firstWord;
                  firstWord = push_bit (wordSize - remainder) firstWord
              in singleWordLoop curBlock firstWord firstWordIndex maxLifetime placedBlocks
         else let remainder = u32_add (m_EndOfLife curBlock) 1 - lastWordIndex * wordSize;
                  lastWord = push_bit (wordSize - remainder) all_ones
              in if firstWordIndex + 1 = lastWordIndex
                 then doubleWordLoop curBlock firstWord firstWordIndex lastWord lastWordIndex
                        maxLifetime placedBlocks
                 else multiWordLoop curBlock firstWord firstWordIndex lastWord lastWordIndex
                        maxLifetime placedBlocks)"

fun PlaceBlocks :: "nat \<Rightarrow> MemBlock list \<Rightarrow> BinTracker list \<Rightarrow> BinTracker list" where
  "PlaceBlocks maxLifetime [] placedBlocks = placedBlocks"
| "PlaceBlocks maxLifetime (curBlock # priorityList) placedBlocks =
     PlaceBlocks maxLifetime priorityList (PlaceBlock maxLifetime curBlock placedBlocks)"

text \<open>
  \<open>std::list::sort\<close> is stable, as \<open>sort_key\<close> is; the comparison puts larger blocks first.
\<close>

definition priority_order :: "MemBlock list \<Rightarrow> MemBlock list" where
  "priority_order blocks = sort_key (\<lambda>b. - int (m_MemSize b)) blocks"

definition bin_of_tracker :: "BinTracker \<Rightarrow> MemBin" where
  "bin_of_tracker t =
     \<lparr>m_MemBlocks = map (\<lambda>b. b\<lparr>m_Offset := 0\<rparr>) (m_PlacedBlocks t), m_BinSize = m_TrackedSize t\<rparr>"

definition SingleAxis_Optimize :: "MemBlock list \<Rightarrow> MemBin list \<times> MemBlock list" where
  "SingleAxis_Optimize blocks =
     (let maxLifetime = u32_add (fold (\<lambda>b m. max m (m_EndOfLife b)) blocks 0) 1;
          placedBlocks = PlaceBlocks maxLifetime (priority_order blocks) []
      in (map bin_of_tracker placedBlocks, blocks))"

definition SingleAxisPriorityList :: MemoryOptimizerStrategy where
  "SingleAxisPriorityList =
     \<lparr>Optimize = SingleAxis_Optimize, GetMemBlockStrategyType = SingleAxisPacking\<rparr>"

subsection \<open>StrategyValidator\<close>

definition size_add :: "nat \<Rightarrow> nat \<Rightarrow> nat" where
  "size_add a b = (a + b) mod 2 ^ 64"

definition map_at :: "(nat \<Rightarrow> bool option) \<Rightarrow> nat \<Rightarrow> bool result" where
  "map_at m k = (case m k of None \<Rightarrow> Inl (StdOutOfRange ''unordered_map::at'') | Some v \<Rightarrow> Inr v)"

text \<open>The body of the loops over the bins: the \<open>catch\<close> turns an unknown index into its own error.\<close>

definition validate_block :: "MemBlock \<Rightarrow> (nat \<Rightarrow> bool option) \<Rightarrow> (nat \<Rightarrow> bool option) result" where
  "validate_block block m =
     (case map_at m (m_Index block) of
        Inl _ \<Rightarrow> Inl (MemoryValidationException ''Unknown index '')
      | Inr found \<Rightarrow>
          if \<not> found then Inr (m(m_Index block \<mapsto> True))
          else Inl (MemoryValidationException ''Condition #2: Memblock is assigned to multiple MemBins''))"

definition blocks_overlap :: "MemBlockStrategyType \<Rightarrow> MemBlock \<Rightarrow> MemBlock \<Rightarrow> bool" where
  "blocks_overlap ty b1 b2 =
     (let B1Left = m_Offset b1; B1Right = size_add (m_Offset b1) (m_MemSize b1);
          B1Top = m_StartOfLife b1; B1Bottom = m_EndOfLife b1;
          B2Left = m_Offset b2; B2Right = size_add (m_Offset b2) (m_MemSize b2);
          B2Top = m_StartOfLife b2; B2Bottom = m_EndOfLife b2
      in case ty of
           SingleAxisPacking \<Rightarrow> B1Top \<le> B2Bottom \<and> B1Bottom \<ge> B2Top
         | MultiAxisPacking \<Rightarrow> B1Left \<le> B2Right \<and> B1Right \<ge> B2Left \<and>
                               B1Top \<le> B2Bottom \<and> B1Bottom \<ge> B2Top)"

definition overlap_error :: "MemBlockStrategyType \<Rightarrow> exn" where
  "overlap_error ty =
     MemoryValidationException
       (case ty of
          SingleAxisPacking \<Rightarrow> ''Condition #3: invalid as two Memblocks overlap on the Y axis for SingleAxisPacking''
        | MultiAxisPacking \<Rightarrow> ''Condition #3: two Memblocks overlap on both the X and Y axis'')"

text \<open>The two inner loops: block \<open>i\<close> against every later block of its bin.\<close>

fun validate_bin :: "MemBlockStrategyType \<Rightarrow> MemBlock list \<Rightarrow> unit result" where
  "validate_bin ty [] = Inr ()"
| "validate_bin ty (b1 # rest) =
     bindR (seqR (map (\<lambda>b2. throw_if (blocks_overlap ty b1 b2) (overlap_error ty)) rest)) (\<lambda>_.
     validate_bin ty rest)"

definition StrategyValidator_Optimize ::
    "MemoryOptimizerStrategy \<Rightarrow> MemBlock list \<Rightarrow> (MemBin list \<times> MemBlock list) result" where
  "StrategyValidator_Optimize strategy memBlocks =
     (let validationMap = fold (\<lambda>b m. m(m_Index b \<mapsto> False)) memBlocks (\<lambda>_. None);
          (memBinVect, memBlocks') = Optimize strategy memBlocks
      in bindR (foldR validate_block (concat (map m_MemBlocks memBinVect)) validationMap) (\<lambda>validationMap.
         bindR (seqR (map (\<lambda>b. bindR (map_at validationMap (m_Index b)) (\<lambda>found.
                     throw_if (\<not> found) (MemoryValidationException ''Condition #1: Block not found in any bin'')))
                  memBlocks')) (\<lambda>_.
         bindR (seqR (map (\<lambda>bin. validate_bin (GetMemBlockStrategyType strategy) (m_MemBlocks bin))
                  memBinVect)) (\<lambda>_.
         Inr (memBinVect, memBlocks')))))"

subsection \<open>Lifetimes as bits\<close>

text \<open>
  Time step \<open>t\<close> of a bin is bit \<open>63 - t mod 64\<close> of word \<open>t div 64\<close>.
\<close>

definition occupied :: "64 word list \<Rightarrow> nat \<Rightarrow> bool" where
  "occupied ws t \<longleftrightarrow> bit (ws ! (t div 64)) (63 - t mod 64)"

definition alive :: "MemBlock \<Rightarrow> nat \<Rightarrow> bool" where
  "alive b t \<longleftrightarrow> m_StartOfLife b \<le> t \<and> t \<le> m_EndOfLife b"

definition wf_block :: "MemBlock \<Rightarrow> bool" where
  "wf_block b \<longleftrightarrow> m_StartOfLife b \<le> m_EndOfLife b \<and> m_EndOfLife b + 1 < 2 ^ 32"

definition disjoint_life :: "MemBlock \<Rightarrow> MemBlock \<Rightarrow> bool" where
  "disjoint_life a b \<longleftrightarrow> m_EndOfLife a < m_StartOfLife b \<or> m_EndOfLife b < m_StartOfLife a"

text \<open>A word whose bits are the steps of word \<open>i\<close> between \<open>s\<close> and \<open>e\<close>.\<close>

definition word_covers :: "64 word \<Rightarrow> nat \<Rightarrow> nat \<Rightarrow> nat \<Rightarrow> bool" where
  "word_covers w i s e \<longleftrightarrow> (\<forall>k < 64. bit w (63 - k) \<longleftrightarrow> s \<le> 64 * i + k \<and> 64 * i + k \<le> e)"

lemma word64_eq_0_iff: "(w :: 64 word) = 0 \<longleftrightarrow> (\<forall>k < 64. \<not> bit w (63 - k))"
proof
  assume *: "\<forall>k < 64. \<not> bit w (63 - k)"
  have "\<not> bit w n" for n
  proof (cases "n < 64")
    case True
    then show ?thesis using * [rule_format, of "63 - n"] by simp
  next
    case False
    then show ?thesis by (auto dest: bit_imp_le_length)
  qed
  then show "w = 0" by (simp add: bit_eq_iff)
qed simp

lemma word_covers_and:
  assumes "word_covers w i s e"
  shows "ws ! i AND w = 0 \<longleftrightarrow> (\<forall>t. t div 64 = i \<and> s \<le> t \<and> t \<le> e \<longrightarrow> \<not> occupied ws t)"
proof -
  have "ws ! i AND w = 0 \<longleftrightarrow>
      (\<forall>k < 64. s \<le> 64 * i + k \<and> 64 * i + k \<le> e \<longrightarrow> \<not> occupied ws (64 * i + k))"
    using assms by (auto simp: word64_eq_0_iff bit_and_iff word_covers_def occupied_def)
  also have "\<dots> \<longleftrightarrow> (\<forall>t. t div 64 = i \<and> s \<le> t \<and> t \<le> e \<longrightarrow> \<not> occupied ws t)"
  proof (intro iffI allI impI)
    fix t assume *: "\<forall>k < 64. s \<le> 64 * i + k \<and> 64 * i + k \<le> e \<longrightarrow> \<not> occupied ws (64 * i + k)"
      and t: "t div 64 = i \<and> s \<le> t \<and> t \<le> e"
    have "64 * i + t mod 64 = t" using t by (metis mult_div_mod_eq)
    then show "\<not> occupied ws t" using * [rule_format, of "t mod 64"] t by simp
  qed auto
  finally show ?thesis .
qed

lemma word_covers_or:
  assumes "word_covers w i s e" "i < length ws"
  shows "occupied (ws[i := ws ! i OR w]) t \<longleftrightarrow> occupied ws t \<or> t div 64 = i \<and> s \<le> t \<and> t \<le> e"
proof (cases "t div 64 = i")
  case True
  have "64 * i + t mod 64 = t" using True by (metis mult_div_mod_eq)
  then have "bit w (63 - t mod 64) \<longleftrightarrow> s \<le> t \<and> t \<le> e"
    using assms(1) by (auto simp: word_covers_def dest: spec [of _ "t mod 64"])
  then show ?thesis using True assms(2) by (simp add: occupied_def bit_or_iff)
next
  case False
  then show ?thesis by (auto simp: occupied_def)
qed

lemma word_covers_first:
  assumes "i = s div 64" "64 * i + 63 \<le> e"
  shows "word_covers (drop_bit (s - i * 64) all_ones) i s e"
  using assms by (auto simp: word_covers_def all_ones_def bit_simps)

lemma word_covers_last:
  assumes "j = e div 64" "s \<le> 64 * j"
  shows "word_covers (push_bit (64 - (e + 1 - j * 64)) all_ones) j s e"
  using assms by (auto simp: word_covers_def all_ones_def bit_simps)

lemma word_covers_single:
  assumes "i = s div 64" "i = e div 64" "s \<le> e" "r = s - i * 64 + (e + 1 - s)"
  shows "word_covers (push_bit (64 - r) (drop_bit (64 - r) (drop_bit (s - i * 64) all_ones))) i s e"
proof -
  have s: "s = i * 64 + s mod 64" "e = i * 64 + e mod 64"
    using assms(1,2) div_mult_mod_eq [of s 64] div_mult_mod_eq [of e 64] by simp_all
  have r: "r = e mod 64 + 1"
    using s assms(3,4) by linarith
  define a c where "a = s mod 64" and "c = e mod 64"
  have ac: "a < 64" "c < 64" "s = i * 64 + a" "e = i * 64 + c" "s - i * 64 = a" "r = c + 1"
    using s r by (simp_all add: a_def c_def)
  show ?thesis
    unfolding word_covers_def
  proof (intro allI impI)
    fix k :: nat assume k: "k < 64"
    have "bit (push_bit (64 - r) (drop_bit (64 - r) (drop_bit (s - i * 64) all_ones))) (63 - k) \<longleftrightarrow>
        k \<le> c \<and> a \<le> k"
      using ac k by (auto simp: all_ones_def bit_simps)
    then show "bit (push_bit (64 - r) (drop_bit (64 - r) (drop_bit (s - i * 64) all_ones))) (63 - k) \<longleftrightarrow>
        s \<le> 64 * i + k \<and> 64 * i + k \<le> e"
      using ac by auto
  qed
qed

lemma fill_between_length [simp]: "length (fill_between ws is) = length ws"
  by (induction ws "is" rule: fill_between.induct) auto

lemma fill_between_nth:
  "set is \<subseteq> {..<length ws} \<Longrightarrow> i < length ws \<Longrightarrow>
   fill_between ws is ! i = (if i \<in> set is then all_ones else ws ! i)"
  by (induction ws "is" rule: fill_between.induct) (auto simp: nth_list_update)

lemma occupied_fill_between:
  assumes "set is \<subseteq> {..<length ws}" "t div 64 < length ws"
  shows "occupied (fill_between ws is) t \<longleftrightarrow> occupied ws t \<or> t div 64 \<in> set is"
  using assms by (auto simp: occupied_def fill_between_nth all_ones_def bit_simps)

subsection \<open>Bins\<close>

definition max_size :: "MemBlock list \<Rightarrow> nat" where
  "max_size bs = fold (\<lambda>b m. max m (m_MemSize b)) bs 0"

text \<open>
  The invariant of a bin of \<open>n\<close> words: its bits are exactly the lifetimes of its blocks,
  which are pairwise disjoint and fit the words, and its size is their largest size.
\<close>

definition bin_inv :: "nat \<Rightarrow> BinTracker \<Rightarrow> bool" where
  "bin_inv n b \<longleftrightarrow>
     length (m_OccupiedSpaces b) = n \<and>
     (\<forall>t < 64 * n. occupied (m_OccupiedSpaces b) t \<longleftrightarrow> (\<exists>x \<in> set (m_PlacedBlocks b). alive x t)) \<and>
     sorted_wrt disjoint_life (m_PlacedBlocks b) \<and>
     (\<forall>x \<in> set (m_PlacedBlocks b). wf_block x \<and> m_EndOfLife x < 64 * n) \<and>
     m_TrackedSize b = max_size (m_PlacedBlocks b)"

text \<open>What the test and the update of one search do to a bin of \<open>n\<close> words.\<close>

definition placing ::
    "nat \<Rightarrow> MemBlock \<Rightarrow> (BinTracker \<Rightarrow> bool) \<Rightarrow> (BinTracker \<Rightarrow> BinTracker) \<Rightarrow> bool" where
  "placing n x fits add \<longleftrightarrow>
     (\<forall>b. length (m_OccupiedSpaces b) = n \<longrightarrow>
        (fits b \<longleftrightarrow> (\<forall>t. alive x t \<longrightarrow> \<not> occupied (m_OccupiedSpaces b) t)) \<and>
        length (m_OccupiedSpaces (add b)) = n \<and>
        (\<forall>t < 64 * n. occupied (m_OccupiedSpaces (add b)) t \<longleftrightarrow>
            occupied (m_OccupiedSpaces b) t \<or> alive x t) \<and>
        m_PlacedBlocks (add b) = m_PlacedBlocks b @ [x] \<and>
        m_TrackedSize (add b) = max (m_TrackedSize b) (m_MemSize x))"

lemma max_size_append [simp]: "max_size (bs @ [x]) = max (max_size bs) (m_MemSize x)"
  by (simp add: max_size_def)

lemma disjoint_life_alive:
  assumes wf: "wf_block a" "wf_block b"
  shows "disjoint_life a b \<longleftrightarrow> \<not> (\<exists>t. alive a t \<and> alive b t)"
proof -
  have "alive a (max (m_StartOfLife a) (m_StartOfLife b)) \<and>
        alive b (max (m_StartOfLife a) (m_StartOfLife b))" if "\<not> disjoint_life a b"
    using that wf by (auto simp: disjoint_life_def alive_def wf_block_def)
  moreover have "\<not> disjoint_life a b" if "alive a t" "alive b t" for t
    using that by (auto simp: disjoint_life_def alive_def)
  ultimately show ?thesis by blast
qed

lemma bin_inv_add:
  assumes inv: "bin_inv n b" and pl: "placing n x fits add" and fits: "fits b"
    and x: "wf_block x" "m_EndOfLife x < 64 * n"
  shows "bin_inv n (add b)"
proof -
  have len: "length (m_OccupiedSpaces b) = n" using inv by (simp add: bin_inv_def)
  note pl' = pl [unfolded placing_def, rule_format, OF len]
  have "disjoint_life y x" if y: "y \<in> set (m_PlacedBlocks b)" for y
  proof -
    have "wf_block y" "m_EndOfLife y < 64 * n" using inv y by (auto simp: bin_inv_def)
    then have "\<not> (\<exists>t. alive y t \<and> alive x t)"
      using fits pl' inv y by (fastforce simp: bin_inv_def alive_def)
    then show ?thesis using \<open>wf_block y\<close> x(1) by (simp add: disjoint_life_alive)
  qed
  then show ?thesis using pl' inv x by (auto simp: bin_inv_def sorted_wrt_append)
qed

lemma BinTracker_new_simps [simp]:
  "m_PlacedBlocks (BinTracker_new m) = []" "m_TrackedSize (BinTracker_new m) = 0"
  "length (m_OccupiedSpaces (BinTracker_new m)) = 1 + m div wordSize"
  by (simp_all add: BinTracker_new_def)

lemma occupied_new:
  assumes "t < 64 * (1 + m div wordSize)"
  shows "\<not> occupied (m_OccupiedSpaces (BinTracker_new m)) t"
proof -
  have "occupied (replicate n 0) t \<longleftrightarrow> False" if "t < 64 * n" for n
    using that by (simp add: occupied_def less_mult_imp_div_less mult.commute)
  then show ?thesis using assms unfolding BinTracker_new_def BinTracker.simps by blast
qed

lemma bin_inv_new: "bin_inv (1 + m div wordSize) (BinTracker_new m)"
  using occupied_new [of _ m] by (simp add: bin_inv_def max_size_def)

lemma first_fit_inv:
  assumes "list_all (bin_inv (1 + m div wordSize)) bs" "placing (1 + m div wordSize) x fits add"
    "wf_block x" "m_EndOfLife x < 64 * (1 + m div wordSize)"
  shows "list_all (bin_inv (1 + m div wordSize)) (first_fit fits add m bs)"
  using assms
proof (induction fits add m bs rule: first_fit.induct)
  case (1 fits add m)
  let ?n = "1 + m div wordSize"
  have "length (m_OccupiedSpaces (BinTracker_new m)) = ?n" by simp
  then have "fits (BinTracker_new m) \<longleftrightarrow>
      (\<forall>t. alive x t \<longrightarrow> \<not> occupied (m_OccupiedSpaces (BinTracker_new m)) t)"
    using 1 unfolding placing_def by blast
  then have "fits (BinTracker_new m)"
    using occupied_new [of _ m] 1(4) by (meson alive_def le_less_trans)
  then show ?case using bin_inv_add [OF bin_inv_new [of m]] 1 by simp
next
  case (2 fits add m b bs)
  then show ?case using bin_inv_add by auto
qed

text \<open>Placing a block adds it to one bin and leaves the others.\<close>

lemma first_fit_mset:
  assumes "list_all (bin_inv (1 + m div wordSize)) bs" "placing (1 + m div wordSize) x fits add"
  shows "mset (concat (map m_PlacedBlocks (first_fit fits add m bs))) =
    add_mset x (mset (concat (map m_PlacedBlocks bs)))"
  using assms
  by (induction fits add m bs rule: first_fit.induct)
    (auto simp: placing_def bin_inv_def BinTracker_new_def)

subsection \<open>The three searches place a block where its lifetime is free\<close>

lemma between_words:
  fixes s e t :: nat
  assumes "s div 64 < t div 64" "t div 64 < e div 64"
  shows "s \<le> t" "t \<le> e"
  using assms by (meson div_le_mono leI not_less nat_less_le)+

lemma placing_single:
  assumes "word_covers w i (m_StartOfLife x) (m_EndOfLife x)" "i < n"
    "m_StartOfLife x div 64 = i" "m_EndOfLife x div 64 = i"
  shows "placing n x (\<lambda>b. m_OccupiedSpaces b ! i AND w = 0) (\<lambda>b. AddBlock_single b x w i)"
proof -
  have t: "t div 64 = i" if "alive x t" for t
    using that assms(3,4) by (metis alive_def div_le_mono le_antisym)
  then have split: "alive x t \<longleftrightarrow> t div 64 = i \<and> m_StartOfLife x \<le> t \<and> t \<le> m_EndOfLife x" for t
    by (meson alive_def)
  show ?thesis
    unfolding placing_def AddBlock_single_def split
    using assms(2) by (simp add: word_covers_and [OF assms(1)] word_covers_or [OF assms(1)])
qed

lemma placing_multi:
  assumes w: "word_covers w i (m_StartOfLife x) (m_EndOfLife x)"
    and v: "word_covers v j (m_StartOfLife x) (m_EndOfLife x)"
    and ij: "i < j" "j < n" "m_StartOfLife x div 64 = i" "m_EndOfLife x div 64 = j"
  shows "placing n x
    (\<lambda>b. m_OccupiedSpaces b ! i AND w = 0 \<and> m_OccupiedSpaces b ! j AND v = 0 \<and>
         list_all (\<lambda>k. m_OccupiedSpaces b ! k = 0) [i + 1 ..< j])
    (\<lambda>b. AddBlock_multi b x i j w v)"
proof -
  have split: "alive x t \<longleftrightarrow>
      t div 64 = i \<and> m_StartOfLife x \<le> t \<and> t \<le> m_EndOfLife x \<or>
      t div 64 = j \<and> m_StartOfLife x \<le> t \<and> t \<le> m_EndOfLife x \<or>
      t div 64 \<in> set [i + 1 ..< j]" for t
  proof -
    have "i \<le> t div 64 \<and> t div 64 \<le> j" if "alive x t"
      using that ij(3,4) by (auto simp: alive_def div_le_mono)
    moreover have "alive x t" if "t div 64 \<in> set [i + 1 ..< j]"
      using that ij(3,4) between_words by (auto simp: alive_def)
    ultimately show ?thesis by (auto simp: alive_def)
  qed
  have zero: "ws ! k = 0 \<longleftrightarrow> (\<forall>t. t div 64 = k \<longrightarrow> \<not> occupied ws t)" for ws :: "64 word list" and k
  proof
    assume *: "\<forall>t. t div 64 = k \<longrightarrow> \<not> occupied ws t"
    then have "\<not> bit (ws ! k) (63 - m)" if "m < 64" for m
      using that * [rule_format, of "64 * k + m"] by (simp add: occupied_def)
    then show "ws ! k = 0" by (simp add: word64_eq_0_iff)
  qed (simp add: occupied_def)
  show ?thesis
    unfolding placing_def
  proof (intro allI impI conjI)
    fix b :: BinTracker assume len: "length (m_OccupiedSpaces b) = n"
    show "(m_OccupiedSpaces b ! i AND w = 0 \<and> m_OccupiedSpaces b ! j AND v = 0 \<and>
          list_all (\<lambda>k. m_OccupiedSpaces b ! k = 0) [i + 1 ..< j]) \<longleftrightarrow>
        (\<forall>t. alive x t \<longrightarrow> \<not> occupied (m_OccupiedSpaces b) t)"
      unfolding word_covers_and [OF w] word_covers_and [OF v] list_all_iff zero split by auto
    fix t assume t: "t < 64 * n"
    have ws: "set [i + 1 ..< j] \<subseteq> {..<n}" "t div 64 < n" using ij t by auto
    show "occupied (m_OccupiedSpaces (AddBlock_multi b x i j w v)) t \<longleftrightarrow>
        occupied (m_OccupiedSpaces b) t \<or> alive x t"
      using ij ws len word_covers_or [OF w, of "m_OccupiedSpaces b"]
        word_covers_or [OF v, of "(m_OccupiedSpaces b)[i := m_OccupiedSpaces b ! i OR w]"]
      by (auto simp: AddBlock_multi_def Let_def occupied_fill_between split)
  qed (auto simp: AddBlock_multi_def Let_def)
qed

subsection \<open>PlaceBlocks and the strategy\<close>

text \<open>Every search of \<open>PlaceBlock\<close> is a first fit with a correct test and update.\<close>

lemma PlaceBlock_first_fit:
  assumes "wf_block x" "m_EndOfLife x < 64 * (1 + m div wordSize)"
  shows "\<exists>fits add. placing (1 + m div wordSize) x fits add \<and>
    (\<forall>bs. PlaceBlock m x bs = first_fit fits add m bs)"
proof -
  define s e n where "s = m_StartOfLife x" and "e = m_EndOfLife x" and "n = 1 + m div wordSize"
  define i j where "i = s div 64" and "j = e div 64"
  have se: "s \<le> e" "e + 1 < 2 ^ 32" and j: "j < n"
    using assms by (auto simp: wf_block_def s_def e_def n_def j_def)
  have ij: "i \<le> j" using se by (simp add: i_def j_def div_le_mono)
  have u: "u32_add e (Suc 0) = Suc e" "u32_sub (Suc e) s = Suc e - s"
    using se by (simp_all add: u32_add_small u32_sub_small)
  have defs: "m_StartOfLife x = s" "m_EndOfLife x = e" "wordSize = 64"
    by (simp_all add: s_def e_def wordSize_def)
  have idx: "s div 64 = i" "e div 64 = j"
    by (simp_all add: i_def j_def)
  let ?fw = "drop_bit (s - i * 64) all_ones" and ?lw = "push_bit (64 - (e + 1 - j * 64)) all_ones"
  show ?thesis
  proof (cases "i = j")
    case True
    define r where "r = s - i * 64 + (e + 1 - s)"
    let ?w = "push_bit (64 - r) (drop_bit (64 - r) ?fw)"
    have "word_covers ?w i s e"
      by (rule word_covers_single [OF i_def _ se(1) r_def]) (use True j_def in simp)
    then have "placing n x (\<lambda>b. m_OccupiedSpaces b ! i AND ?w = 0) (\<lambda>b. AddBlock_single b x ?w i)"
      by (intro placing_single) (use True j idx in \<open>simp_all add: defs\<close>)
    moreover have "PlaceBlock m x bs =
        first_fit (\<lambda>b. m_OccupiedSpaces b ! i AND ?w = 0) (\<lambda>b. AddBlock_single b x ?w i) m bs" for bs
      using True by (simp add: PlaceBlock_def singleWordLoop_def Let_def defs idx u r_def)
    ultimately show ?thesis unfolding n_def by blast
  next
    case False
    then have lt: "i < j" using ij by simp
    have "word_covers ?fw i s e"
      by (rule word_covers_first [OF i_def]) (use lt j_def in linarith)
    moreover have "word_covers ?lw j s e"
      by (rule word_covers_last [OF j_def]) (use lt i_def in linarith)
    ultimately have "placing n x
        (\<lambda>b. m_OccupiedSpaces b ! i AND ?fw = 0 \<and> m_OccupiedSpaces b ! j AND ?lw = 0 \<and>
             list_all (\<lambda>k. m_OccupiedSpaces b ! k = 0) [i + 1 ..< j])
        (\<lambda>b. AddBlock_multi b x i j ?fw ?lw)"
      by (intro placing_multi) (use lt j idx in \<open>simp_all add: defs\<close>)
    moreover have "PlaceBlock m x bs = first_fit
        (\<lambda>b. m_OccupiedSpaces b ! i AND ?fw = 0 \<and> m_OccupiedSpaces b ! j AND ?lw = 0 \<and>
             list_all (\<lambda>k. m_OccupiedSpaces b ! k = 0) [i + 1 ..< j])
        (\<lambda>b. AddBlock_multi b x i j ?fw ?lw) m bs" for bs
      using lt by (auto simp: PlaceBlock_def doubleWordLoop_def multiWordLoop_def Let_def idx defs u)
    ultimately show ?thesis unfolding n_def by blast
  qed
qed

lemma PlaceBlocks_inv:
  assumes "\<forall>x \<in> set xs. wf_block x \<and> m_EndOfLife x < 64 * (1 + m div wordSize)"
    "list_all (bin_inv (1 + m div wordSize)) bs"
  shows "list_all (bin_inv (1 + m div wordSize)) (PlaceBlocks m xs bs) \<and>
    mset (concat (map m_PlacedBlocks (PlaceBlocks m xs bs))) =
      mset xs + mset (concat (map m_PlacedBlocks bs))"
  using assms
proof (induction xs arbitrary: bs)
  case Nil
  then show ?case by simp
next
  case (Cons x xs)
  then obtain fits add where f: "placing (1 + m div wordSize) x fits add"
    "PlaceBlock m x bs = first_fit fits add m bs"
    using PlaceBlock_first_fit [of x m] by auto
  then have "list_all (bin_inv (1 + m div wordSize)) (PlaceBlock m x bs)"
    using Cons.prems first_fit_inv [OF _ f(1)] by simp
  then show ?case
    using Cons.IH [of "PlaceBlock m x bs"] Cons.prems first_fit_mset [OF Cons.prems(2) f(1)] f(2)
    by simp
qed

lemma fold_max_ge:
  fixes x :: MemBlock
  shows "x \<in> set bs \<Longrightarrow> m_EndOfLife x \<le> fold (\<lambda>b m. max m (m_EndOfLife b)) bs k"
proof -
  have ge: "k \<le> fold (\<lambda>b m. max m (m_EndOfLife b)) bs k" for k and bs :: "MemBlock list"
    by (induction bs arbitrary: k) (auto intro: order_trans [OF max.cobounded1])
  have le: "m_EndOfLife x \<le> fold (\<lambda>b m. max m (m_EndOfLife b)) bs (max k (m_EndOfLife x))"
    for k and bs :: "MemBlock list"
    using ge [of "max k (m_EndOfLife x)" bs] by simp
  show "x \<in> set bs \<Longrightarrow> ?thesis"
    by (induction bs arbitrary: k) (auto simp: le)
qed

lemma fold_max_less:
  "k < c \<Longrightarrow> (\<And>x. x \<in> set bs \<Longrightarrow> m_EndOfLife x < c) \<Longrightarrow>
   fold (\<lambda>b m. max m (m_EndOfLife b)) bs k < c"
  by (induction bs arbitrary: k) auto

lemma SingleAxis_trackers:
  assumes "\<forall>b \<in> set bs. wf_block b"
  obtains n ts where "fst (SingleAxis_Optimize bs) = map bin_of_tracker ts"
    "list_all (bin_inv n) ts" "mset (concat (map m_PlacedBlocks ts)) = mset bs"
proof -
  define top where "top = fold (\<lambda>b m. max m (m_EndOfLife b)) bs 0"
  define m where "m = u32_add top 1"
  have "top < 2 ^ 32 - 1"
    unfolding top_def using assms by (intro fold_max_less) (auto simp: wf_block_def)
  then have m: "m = top + 1" by (simp add: m_def u32_add_small)
  have "m_EndOfLife x < 64 * (1 + m div wordSize)" if "x \<in> set bs" for x
    using fold_max_ge [OF that, of 0] m by (simp add: top_def wordSize_def)
  then have "\<forall>x \<in> set (priority_order bs). wf_block x \<and> m_EndOfLife x < 64 * (1 + m div wordSize)"
    using assms by (simp add: priority_order_def)
  from PlaceBlocks_inv [OF this, of "[]"]
  show ?thesis
    by (intro that [where n = "1 + m div wordSize" and ts = "PlaceBlocks m (priority_order bs) []"])
      (simp_all add: SingleAxis_Optimize_def Let_def m_def top_def priority_order_def)
qed

subsection \<open>The validator\<close>

lemma fold_map_update:
  "fold (\<lambda>b m. m(m_Index b \<mapsto> v)) bs m k = (if k \<in> m_Index ` set bs then Some v else m k)"
  by (induction bs arbitrary: m) auto

lemma validate_block_Inr:
  "validate_block b m = Inr m' \<longleftrightarrow> m (m_Index b) = Some False \<and> m' = m(m_Index b \<mapsto> True)"
  by (auto simp: validate_block_def map_at_def split: option.splits if_splits)

lemma validate_blocks_Inr:
  "foldR validate_block bs m = Inr m' \<longleftrightarrow>
     distinct (map m_Index bs) \<and> (\<forall>b \<in> set bs. m (m_Index b) = Some False) \<and>
     m' = fold (\<lambda>b m. m(m_Index b \<mapsto> True)) bs m"
proof (induction bs arbitrary: m)
  case Nil
  then show ?case by auto
next
  case (Cons b bs)
  have "(\<forall>c \<in> set bs. (m(m_Index b \<mapsto> True)) (m_Index c) = Some False) \<longleftrightarrow>
      m_Index b \<notin> m_Index ` set bs \<and> (\<forall>c \<in> set bs. m (m_Index c) = Some False)"
    by (auto simp: image_iff)
  moreover have "foldR validate_block (b # bs) m = Inr m' \<longleftrightarrow>
      m (m_Index b) = Some False \<and> foldR validate_block bs (m(m_Index b \<mapsto> True)) = Inr m'"
    by (auto simp: validate_block_Inr simp del: fun_upd_apply)
  ultimately show ?case by (simp add: Cons.IH del: fun_upd_apply) blast
qed

lemma validate_bin_Inr:
  "validate_bin ty bs = Inr u \<longleftrightarrow> sorted_wrt (\<lambda>a b. \<not> blocks_overlap ty a b) bs"
  by (induction bs) (auto simp: seqR_Inr_iff)

text \<open>
  C8: The validator returns the strategy's result exactly when every block that the strategy leaves
  in the list it was given (the strategy may change that list, and the validator goes through it only
  afterwards) has its index in some bin, no index is in two places, every index in a bin is one of
  the blocks that were passed in, and no two blocks of a bin overlap the way the code compares them:
  for single axis packing, lifetimes, both ends inclusive, have a step in common; for multi axis
  packing they do and moreover the memory ranges, their ends compared with \<open>\<le>\<close>, meet, so that two
  blocks that are alive together and only touch in memory count as overlapping. In every other case
  it throws.
\<close>

theorem StrategyValidator_Optimize_iff:
  assumes "Optimize strategy bs = (bins, bs')"
  shows "StrategyValidator_Optimize strategy bs = Inr r \<longleftrightarrow>
    r = (bins, bs') \<and>
    distinct (map m_Index (concat (map m_MemBlocks bins))) \<and>
    m_Index ` set (concat (map m_MemBlocks bins)) \<subseteq> m_Index ` set bs \<and>
    m_Index ` set bs' \<subseteq> m_Index ` set (concat (map m_MemBlocks bins)) \<and>
    (\<forall>bin \<in> set bins.
       sorted_wrt (\<lambda>a b. \<not> blocks_overlap (GetMemBlockStrategyType strategy) a b) (m_MemBlocks bin))"
proof -
  let ?m = "fold (\<lambda>b m. m(m_Index b \<mapsto> False)) bs (\<lambda>_. None)"
  let ?out = "concat (map m_MemBlocks bins)"
  let ?m' = "fold (\<lambda>b m. m(m_Index b \<mapsto> True)) ?out ?m"
  have found: "(\<exists>x. map_at ?m' (m_Index b) = Inr x \<and> x) \<longleftrightarrow> m_Index b \<in> m_Index ` set ?out" for b
    by (auto simp: map_at_def fold_map_update split: option.splits if_splits)
  show ?thesis
    by (auto simp: StrategyValidator_Optimize_def assms Let_def validate_blocks_Inr seqR_Inr_iff
        validate_bin_Inr found fold_map_update)
qed

subsection \<open>The contract of a strategy\<close>

text \<open>
  What \<open>IMemoryOptimizerStrategy\<close> asks of a strategy, for input blocks that satisfy
  \<open>ok\<close>: the bins hold the input's blocks, each once and unchanged but for the offset, the
  input blocks keep all but their offset, two blocks of a bin never overlap, and a bin is
  as large as its largest block.
\<close>

definition no_offset :: "MemBlock \<Rightarrow> MemBlock" where
  "no_offset b = b\<lparr>m_Offset := 0\<rparr>"

lemma no_offset_index [simp]: "m_Index (no_offset b) = m_Index b"
  by (simp add: no_offset_def)

lemma index_no_offset: "map m_Index bs = map m_Index (map no_offset bs)"
  by simp

locale memory_strategy =
  fixes strategy :: MemoryOptimizerStrategy
    and ok :: "MemBlock \<Rightarrow> bool"
  assumes same_blocks: "Ball (set bs) ok \<Longrightarrow> Optimize strategy bs = (bins, bs') \<Longrightarrow>
      mset (map no_offset (concat (map m_MemBlocks bins))) = mset (map no_offset bs)"
    and same_input: "Ball (set bs) ok \<Longrightarrow> Optimize strategy bs = (bins, bs') \<Longrightarrow>
      map no_offset bs' = map no_offset bs"
    and no_overlap: "Ball (set bs) ok \<Longrightarrow> Optimize strategy bs = (bins, bs') \<Longrightarrow> bin \<in> set bins \<Longrightarrow>
      sorted_wrt (\<lambda>a b. \<not> blocks_overlap (GetMemBlockStrategyType strategy) a b) (m_MemBlocks bin)"
    and bin_size: "Ball (set bs) ok \<Longrightarrow> Optimize strategy bs = (bins, bs') \<Longrightarrow> bin \<in> set bins \<Longrightarrow>
      m_BinSize bin = max_size (m_MemBlocks bin)"
begin

lemma accepted:
  assumes "Ball (set bs) ok" "distinct (map m_Index bs)"
  shows "StrategyValidator_Optimize strategy bs = Inr (Optimize strategy bs)"
proof -
  obtain bins bs' where o: "Optimize strategy bs = (bins, bs')" by (cases "Optimize strategy bs")
  let ?out = "concat (map m_MemBlocks bins)"
  have "mset (map m_Index ?out) = mset (map m_Index bs)"
    using arg_cong [where f = "image_mset m_Index", OF same_blocks [OF assms(1) o]]
    by (simp add: multiset.map_comp comp_def)
  then have out: "distinct (map m_Index ?out)" "m_Index ` set ?out = m_Index ` set bs"
    using assms(2) by (metis mset_eq_imp_distinct_iff, metis set_map mset_eq_setD)
  have "map m_Index bs' = map m_Index bs"
    using same_input [OF assms(1) o] index_no_offset by metis
  then have "m_Index ` set bs' = m_Index ` set bs" by (metis set_map)
  then show ?thesis
    using out no_overlap [OF assms(1) o] by (simp add: StrategyValidator_Optimize_iff [OF o] o)
qed

end

lemma Constant_loop_eq:
  "Constant_loop bs =
     (map (\<lambda>b. \<lparr>m_MemBlocks = [no_offset b], m_BinSize = m_MemSize b\<rparr>) bs, map no_offset bs)"
  by (induction bs) (auto simp: no_offset_def Let_def)

lemma no_offset_idem [simp]: "no_offset (no_offset b) = no_offset b"
  by (simp add: no_offset_def)

interpretation constant_strategy: memory_strategy ConstantMemoryStrategy "\<lambda>_. True"
proof
  fix bs bins bs' bin
  assume o: "Optimize ConstantMemoryStrategy bs = (bins, bs')"
  then have eq: "bins = map (\<lambda>b. \<lparr>m_MemBlocks = [no_offset b], m_BinSize = m_MemSize b\<rparr>) bs"
    "bs' = map no_offset bs"
    by (auto simp: ConstantMemoryStrategy_def Constant_loop_eq)
  show "mset (map no_offset (concat (map m_MemBlocks bins))) = mset (map no_offset bs)"
    unfolding eq by (induction bs) auto
  show "map no_offset bs' = map no_offset bs" unfolding eq by simp
  assume "bin \<in> set bins"
  then show "sorted_wrt (\<lambda>a b. \<not> blocks_overlap (GetMemBlockStrategyType ConstantMemoryStrategy) a b)
      (m_MemBlocks bin)" "m_BinSize bin = max_size (m_MemBlocks bin)"
    by (auto simp: eq max_size_def no_offset_def)
qed

lemma overlap_SingleAxis:
  "wf_block a \<Longrightarrow> wf_block b \<Longrightarrow> blocks_overlap SingleAxisPacking a b \<longleftrightarrow> \<not> disjoint_life a b"
  by (auto simp: blocks_overlap_def disjoint_life_def)

lemma max_size_no_offset: "max_size (map no_offset bs) = max_size bs"
  by (simp add: max_size_def fold_map comp_def no_offset_def)

interpretation single_axis: memory_strategy SingleAxisPriorityList wf_block
proof
  fix bs bins bs' bin
  assume wf: "Ball (set bs) wf_block" and o: "Optimize SingleAxisPriorityList bs = (bins, bs')"
  obtain n ts where ts: "fst (SingleAxis_Optimize bs) = map bin_of_tracker ts"
    "list_all (bin_inv n) ts" "mset (concat (map m_PlacedBlocks ts)) = mset bs"
    using SingleAxis_trackers wf by blast
  have eq: "bins = map bin_of_tracker ts" "bs' = bs"
    using o ts(1) by (auto simp: SingleAxisPriorityList_def SingleAxis_Optimize_def Let_def)
  have blocks: "m_MemBlocks (bin_of_tracker t) = map no_offset (m_PlacedBlocks t)" for t
    by (simp add: bin_of_tracker_def no_offset_def)
  have "mset (map no_offset (concat (map m_MemBlocks bins))) =
      image_mset no_offset (mset (concat (map m_PlacedBlocks ts)))"
    unfolding eq by (induction ts) (simp_all add: blocks multiset.map_comp comp_def)
  then show "mset (map no_offset (concat (map m_MemBlocks bins))) = mset (map no_offset bs)"
    by (simp only: ts(3) mset_map)
  show "map no_offset bs' = map no_offset bs" using eq by simp
  assume "bin \<in> set bins"
  then obtain t where t: "bin = bin_of_tracker t" "bin_inv n t"
    using ts(2) by (auto simp: eq list_all_iff)
  have "sorted_wrt (\<lambda>a b. \<not> blocks_overlap SingleAxisPacking a b) (m_PlacedBlocks t)"
    using t(2) sorted_wrt_mono_rel [of "m_PlacedBlocks t" disjoint_life]
    by (auto simp: bin_inv_def overlap_SingleAxis)
  then show "sorted_wrt (\<lambda>a b. \<not> blocks_overlap (GetMemBlockStrategyType SingleAxisPriorityList) a b)
      (m_MemBlocks bin)"
    by (simp add: t(1) blocks sorted_wrt_map SingleAxisPriorityList_def blocks_overlap_def no_offset_def)
  show "m_BinSize bin = max_size (m_MemBlocks bin)"
    using t by (simp add: blocks max_size_no_offset) (simp add: bin_of_tracker_def bin_inv_def)
qed

subsection \<open>Correctness of the packing\<close>

text \<open>
  C7: For blocks with a valid lifetime, \<open>SingleAxisPriorityList\<close> assigns every block to
  exactly one bin (unchanged, at offset 0), puts two blocks into the same bin only when
  their lifetimes are disjoint, and makes each bin as large as its largest block. The
  bit-mask search over 64-bit words is thereby correct for lifetimes of any length and
  alignment.
\<close>

theorem SingleAxis_Optimize_correct:
  assumes "\<forall>b \<in> set bs. wf_block b" "bins = fst (SingleAxis_Optimize bs)"
  shows "mset (concat (map m_MemBlocks bins)) = image_mset (\<lambda>b. b\<lparr>m_Offset := 0\<rparr>) (mset bs) \<and>
    (\<forall>bin \<in> set bins. sorted_wrt disjoint_life (m_MemBlocks bin) \<and>
       m_BinSize bin = max_size (m_MemBlocks bin))"
proof -
  obtain n ts where ts: "bins = map bin_of_tracker ts" "list_all (bin_inv n) ts"
    "mset (concat (map m_PlacedBlocks ts)) = mset bs"
    using SingleAxis_trackers [OF assms(1)] assms(2) by metis
  have "mset (concat (map m_MemBlocks bins)) =
      image_mset (\<lambda>b. b\<lparr>m_Offset := 0\<rparr>) (mset (concat (map m_PlacedBlocks ts)))"
    unfolding ts(1) by (induction ts) (simp_all add: bin_of_tracker_def)
  moreover have "sorted_wrt disjoint_life (m_MemBlocks bin) \<and>
      m_BinSize bin = max_size (m_MemBlocks bin)" if bin: "bin \<in> set bins" for bin
  proof -
    obtain t where t: "bin = bin_of_tracker t" "bin_inv n t"
      using bin ts by (auto simp: list_all_iff)
    have "m_MemBlocks bin = map no_offset (m_PlacedBlocks t)"
      by (simp add: t(1) bin_of_tracker_def no_offset_def)
    moreover have "disjoint_life (no_offset a) (no_offset b) = disjoint_life a b" for a b
      by (simp add: disjoint_life_def no_offset_def)
    ultimately show ?thesis
      using t by (simp add: bin_inv_def sorted_wrt_map max_size_no_offset) (simp add: bin_of_tracker_def)
  qed
  ultimately show ?thesis by (simp only: ts(3)) blast
qed

text \<open>Three blocks; the second meets the first, the third spans three words.\<close>

theorem SingleAxis_Optimize_correct_witness:
  "\<exists>bins. bins = fst (SingleAxis_Optimize
      [\<lparr>m_StartOfLife = 0, m_EndOfLife = 5, m_MemSize = 8, m_Offset = 3, m_Index = 0\<rparr>,
       \<lparr>m_StartOfLife = 5, m_EndOfLife = 70, m_MemSize = 16, m_Offset = 0, m_Index = 1\<rparr>,
       \<lparr>m_StartOfLife = 6, m_EndOfLife = 200, m_MemSize = 4, m_Offset = 0, m_Index = 2\<rparr>]) \<and>
    (\<forall>bin \<in> set bins. sorted_wrt disjoint_life (m_MemBlocks bin))"
  using SingleAxis_Optimize_correct [of
      "[\<lparr>m_StartOfLife = 0, m_EndOfLife = 5, m_MemSize = 8, m_Offset = 3, m_Index = 0\<rparr>,
        \<lparr>m_StartOfLife = 5, m_EndOfLife = 70, m_MemSize = 16, m_Offset = 0, m_Index = 1\<rparr>,
        \<lparr>m_StartOfLife = 6, m_EndOfLife = 200, m_MemSize = 4, m_Offset = 0, m_Index = 2\<rparr>]", OF _ refl]
  by (simp add: wf_block_def)

text \<open>
  The packing is greedy: a block opens a new bin exactly when its lifetime meets the
  lifetime of some block in every existing bin; otherwise the number of bins stays.
\<close>

theorem PlaceBlock_opens_bin_iff:
  assumes "list_all (bin_inv (1 + m div wordSize)) bs" "wf_block x"
    "m_EndOfLife x < 64 * (1 + m div wordSize)"
  shows "length (PlaceBlock m x bs) =
    (if \<exists>b \<in> set bs. \<forall>y \<in> set (m_PlacedBlocks b). disjoint_life x y then length bs else length bs + 1)"
proof -
  let ?n = "1 + m div wordSize"
  obtain fits add where f: "placing ?n x fits add" "PlaceBlock m x bs = first_fit fits add m bs"
    using PlaceBlock_first_fit [OF assms(2,3)] by blast
  have fits: "fits b \<longleftrightarrow> (\<forall>y \<in> set (m_PlacedBlocks b). disjoint_life x y)" if "bin_inv ?n b" for b
  proof -
    have "fits b \<longleftrightarrow> (\<forall>t. alive x t \<longrightarrow> \<not> occupied (m_OccupiedSpaces b) t)"
      using f(1) that by (simp add: placing_def bin_inv_def)
    also have "\<dots> \<longleftrightarrow> (\<forall>t. alive x t \<longrightarrow> \<not> (\<exists>y \<in> set (m_PlacedBlocks b). alive y t))"
      using that assms(3) unfolding bin_inv_def by (meson alive_def le_less_trans)
    also have "\<dots> \<longleftrightarrow> (\<forall>y \<in> set (m_PlacedBlocks b). disjoint_life x y)"
      using that assms(2) disjoint_life_alive [of x] unfolding bin_inv_def by blast
    finally show ?thesis .
  qed
  have "length (first_fit fits add m bs) = (if \<exists>b \<in> set bs. fits b then length bs else length bs + 1)"
    by (induction bs) auto
  then show ?thesis using fits assms(1) by (auto simp: f(2) list_all_iff)
qed

theorem PlaceBlock_opens_bin_iff_witness:
  "length (PlaceBlock 100
     \<lparr>m_StartOfLife = 3, m_EndOfLife = 90, m_MemSize = 16, m_Offset = 0, m_Index = 1\<rparr> []) = 1"
  using PlaceBlock_opens_bin_iff [of 100 "[]"
      "\<lparr>m_StartOfLife = 3, m_EndOfLife = 90, m_MemSize = 16, m_Offset = 0, m_Index = 1\<rparr>"]
  by (simp add: wf_block_def wordSize_def)

lemma max_size_le_sum: "max_size bs \<le> sum_list (map m_MemSize bs)"
proof -
  have "fold (\<lambda>b m. max m (m_MemSize b)) bs k \<le> k + sum_list (map m_MemSize bs)" for k
  proof (induction bs arbitrary: k)
    case (Cons b bs)
    show ?case using Cons.IH [of "max k (m_MemSize b)"] by simp
  qed simp
  then show ?thesis using add_0 unfolding max_size_def by metis
qed

text \<open>
  C10: Packing never costs memory: the bins of \<open>SingleAxisPriorityList\<close> together are at
  most as large as those of \<open>ConstantMemoryStrategy\<close>, which gives every block its own bin.
\<close>

theorem SingleAxis_memory_le_Constant:
  assumes "\<forall>b \<in> set bs. wf_block b"
  shows "sum_list (map m_BinSize (fst (Optimize SingleAxisPriorityList bs))) \<le>
    sum_list (map m_BinSize (fst (Optimize ConstantMemoryStrategy bs)))"
proof -
  obtain n ts where ts: "fst (SingleAxis_Optimize bs) = map bin_of_tracker ts"
    "list_all (bin_inv n) ts" "mset (concat (map m_PlacedBlocks ts)) = mset bs"
    using SingleAxis_trackers [OF assms] by blast
  have "sum_list (map m_BinSize (map bin_of_tracker ts)) \<le>
      sum_list (map m_MemSize (concat (map m_PlacedBlocks ts)))"
    using ts(2)
    by (induction ts) (auto simp: bin_of_tracker_def bin_inv_def intro: add_mono max_size_le_sum)
  also have "\<dots> = sum_list (map m_MemSize bs)"
    using ts(3) by (metis mset_map sum_mset_sum_list)
  finally show ?thesis
    by (simp add: SingleAxisPriorityList_def ConstantMemoryStrategy_def Constant_loop_eq ts(1) comp_def)
qed

theorem SingleAxis_memory_le_Constant_witness:
  "sum_list (map m_BinSize (fst (Optimize SingleAxisPriorityList
      [\<lparr>m_StartOfLife = 0, m_EndOfLife = 2, m_MemSize = 8, m_Offset = 0, m_Index = 0\<rparr>,
       \<lparr>m_StartOfLife = 3, m_EndOfLife = 4, m_MemSize = 6, m_Offset = 0, m_Index = 1\<rparr>]))) \<le> 14"
  using SingleAxis_memory_le_Constant [of
      "[\<lparr>m_StartOfLife = 0, m_EndOfLife = 2, m_MemSize = 8, m_Offset = 0, m_Index = 0\<rparr>,
        \<lparr>m_StartOfLife = 3, m_EndOfLife = 4, m_MemSize = 6, m_Offset = 0, m_Index = 1\<rparr>]"]
  by (simp add: wf_block_def ConstantMemoryStrategy_def Constant_loop_eq)

text \<open>
  C9: The validator never rejects \<open>SingleAxisPriorityList\<close>: for valid blocks with distinct
  indices it returns the strategy's own bins and blocks.
\<close>

theorem SingleAxis_validated:
  assumes "\<forall>b \<in> set bs. wf_block b" "distinct (map m_Index bs)"
  shows "StrategyValidator_Optimize SingleAxisPriorityList bs = Inr (Optimize SingleAxisPriorityList bs)"
  using single_axis.accepted assms by blast

theorem SingleAxis_validated_witness:
  "StrategyValidator_Optimize SingleAxisPriorityList
     [\<lparr>m_StartOfLife = 0, m_EndOfLife = 2, m_MemSize = 8, m_Offset = 0, m_Index = 0\<rparr>,
      \<lparr>m_StartOfLife = 2, m_EndOfLife = 130, m_MemSize = 6, m_Offset = 0, m_Index = 1\<rparr>] =
   Inr (Optimize SingleAxisPriorityList
     [\<lparr>m_StartOfLife = 0, m_EndOfLife = 2, m_MemSize = 8, m_Offset = 0, m_Index = 0\<rparr>,
      \<lparr>m_StartOfLife = 2, m_EndOfLife = 130, m_MemSize = 6, m_Offset = 0, m_Index = 1\<rparr>])"
  by (rule SingleAxis_validated) (simp_all add: wf_block_def)

lemma Constant_validated:
  "distinct (map m_Index bs) \<Longrightarrow>
   StrategyValidator_Optimize ConstantMemoryStrategy bs = Inr (Optimize ConstantMemoryStrategy bs)"
  using constant_strategy.accepted by blast

text \<open>
  The validator's witness: one bin with two blocks of disjoint lifetimes.
\<close>

theorem StrategyValidator_Optimize_iff_witness:
  "is_ok (StrategyValidator_Optimize
     \<lparr>Optimize = (\<lambda>bs. ([\<lparr>m_MemBlocks = bs, m_BinSize = 9\<rparr>], bs)),
      GetMemBlockStrategyType = SingleAxisPacking\<rparr>
     [\<lparr>m_StartOfLife = 0, m_EndOfLife = 2, m_MemSize = 8, m_Offset = 0, m_Index = 4\<rparr>,
      \<lparr>m_StartOfLife = 3, m_EndOfLife = 7, m_MemSize = 9, m_Offset = 0, m_Index = 5\<rparr>])"
  unfolding is_ok_iff
  by (subst StrategyValidator_Optimize_iff) (auto simp: blocks_overlap_def)

text \<open>
  With \<open>MultiAxisPacking\<close> the validator compares the right end of one block with the
  left end of the other by \<open><=\<close>, although the right end \<open>m_Offset + m_MemSize\<close> is
  exclusive: two blocks that lie side by side in a bin, without a common byte, are rejected
  when their lifetimes meet.
\<close>

theorem MultiAxis_rejects_adjacent_blocks:
  assumes "m_Index a \<noteq> m_Index b" "m_Offset b = m_Offset a + m_MemSize a"
    "m_Offset b + m_MemSize b < 2 ^ 64" "alive a t" "alive b t"
  shows "StrategyValidator_Optimize
     \<lparr>Optimize = (\<lambda>bs. ([\<lparr>m_MemBlocks = bs, m_BinSize = m_Offset b + m_MemSize b\<rparr>], bs)),
      GetMemBlockStrategyType = MultiAxisPacking\<rparr> [a, b] =
   Inl (MemoryValidationException ''Condition #3: two Memblocks overlap on both the X and Y axis'')"
  using assms
  by (simp add: StrategyValidator_Optimize_def validate_block_def map_at_def throw_if_def
      blocks_overlap_def overlap_error_def size_add_def alive_def)

theorem MultiAxis_rejects_adjacent_blocks_witness:
  "StrategyValidator_Optimize
     \<lparr>Optimize = (\<lambda>bs. ([\<lparr>m_MemBlocks = bs, m_BinSize = 12\<rparr>], bs)),
      GetMemBlockStrategyType = MultiAxisPacking\<rparr>
     [\<lparr>m_StartOfLife = 0, m_EndOfLife = 2, m_MemSize = 8, m_Offset = 0, m_Index = 0\<rparr>,
      \<lparr>m_StartOfLife = 1, m_EndOfLife = 3, m_MemSize = 4, m_Offset = 8, m_Index = 1\<rparr>] =
   Inl (MemoryValidationException ''Condition #3: two Memblocks overlap on both the X and Y axis'')"
  using MultiAxis_rejects_adjacent_blocks [of
      "\<lparr>m_StartOfLife = 0, m_EndOfLife = 2, m_MemSize = 8, m_Offset = 0, m_Index = 0\<rparr>"
      "\<lparr>m_StartOfLife = 1, m_EndOfLife = 3, m_MemSize = 4, m_Offset = 8, m_Index = 1\<rparr>" 1]
  by (simp add: alive_def)

end
