(* ===== verification/Indexing.thy ===== *)
theory Indexing
  imports Prelude
begin

section \<open>Multi-dimensional indices\<close>

text \<open>
  Row-major layout, shared by the components that move tensor elements: \<open>box ns\<close> lists
  the indices of a tensor of shape \<open>ns\<close> in the order nested loops visit them, \<open>flat ns js\<close>
  is the position of index \<open>js\<close> in memory, and \<open>dot js ss\<close> the position reached with
  strides \<open>ss\<close>. \<open>flat\<close> is a bijection between the box and the positions below the number of
  elements.
\<close>

named_theorems index_simps \<open>facts about indices, strides and flat positions\<close>

fun box :: "nat list \<Rightarrow> nat list list" where
  "box [] = [[]]"
| "box (n # ns) = concat (map (\<lambda>i. map ((#) i) (box ns)) [0..<n])"

fun flat :: "nat list \<Rightarrow> nat list \<Rightarrow> nat" where
  "flat (n # ns) (j # js) = j * prod_list ns + flat ns js"
| "flat _ _ = 0"

fun unflat :: "nat list \<Rightarrow> nat \<Rightarrow> nat list" where
  "unflat [] k = []"
| "unflat (n # ns) k = (k div prod_list ns) # unflat ns (k mod prod_list ns)"

fun dot :: "nat list \<Rightarrow> nat list \<Rightarrow> nat" where
  "dot (j # js) (s # ss) = j * s + dot js ss"
| "dot _ _ = 0"

fun row_strides :: "nat list \<Rightarrow> nat list" where
  "row_strides [] = []"
| "row_strides (n # ns) = prod_list ns # row_strides ns"

definition in_box :: "nat list \<Rightarrow> nat list \<Rightarrow> bool" where
  "in_box ns js \<longleftrightarrow> list_all2 (<) js ns"

lemma in_box_simps [simp, index_simps]:
  "in_box [] js \<longleftrightarrow> js = []"
  "in_box (n # ns) (j # js) \<longleftrightarrow> j < n \<and> in_box ns js"
  "\<not> in_box (n # ns) []"
  by (auto simp: in_box_def)

lemma in_box_Cons: "in_box (n # ns) js \<longleftrightarrow> (\<exists>j is. js = j # is \<and> j < n \<and> in_box ns is)"
  by (cases js) auto

lemma in_box_length: "in_box ns js \<Longrightarrow> length js = length ns"
  by (auto simp: in_box_def dest: list_all2_lengthD)

lemma in_box_nth: "in_box ns js \<longleftrightarrow> length js = length ns \<and> (\<forall>i < length ns. js ! i < ns ! i)"
  by (auto simp: in_box_def list_all2_conv_all_nth)

lemma set_box [index_simps]: "set (box ns) = {js. in_box ns js}"
  by (induction ns) (auto simp: in_box_Cons)

lemma distinct_box: "distinct (box ns)"
proof (induction ns)
  case Nil
  then show ?case by simp
next
  case (Cons n ns)
  have "distinct (concat (map (\<lambda>i. map ((#) i) (box ns)) is))" if "distinct is" for "is" :: "nat list"
    using that Cons.IH by (induction "is") (auto simp: distinct_map)
  then show ?case by simp
qed

lemma length_box [simp]: "length (box ns) = prod_list ns"
proof (induction ns)
  case Nil
  then show ?case by simp
next
  case (Cons n ns)
  have "length (concat (map (\<lambda>i. map ((#) i) (box ns)) is)) = length is * length (box ns)"
    for "is" :: "nat list"
    by (induction "is") auto
  then show ?case using Cons.IH by simp
qed

lemma flat_less: "in_box ns js \<Longrightarrow> flat ns js < prod_list ns"
proof (induction ns arbitrary: js)
  case Nil
  then show ?case by simp
next
  case (Cons n ns)
  then obtain j "is" where js: "js = j # is" "j < n" "in_box ns is" by (auto simp: in_box_Cons)
  have "j * prod_list ns + flat ns is < j * prod_list ns + prod_list ns"
    using Cons.IH js(3) by simp
  also have "\<dots> = Suc j * prod_list ns" by simp
  also have "\<dots> \<le> n * prod_list ns" using js(2) by (intro mult_right_mono) auto
  finally show ?case using js(1) by simp
qed

lemma unflat_flat: "in_box ns js \<Longrightarrow> unflat ns (flat ns js) = js"
proof (induction ns arbitrary: js)
  case Nil
  then show ?case by simp
next
  case (Cons n ns)
  then obtain j "is" where js: "js = j # is" "j < n" "in_box ns is" by (auto simp: in_box_Cons)
  have lt: "flat ns is < prod_list ns" using js(3) by (rule flat_less)
  then have "(j * prod_list ns + flat ns is) div prod_list ns = j"
    "(j * prod_list ns + flat ns is) mod prod_list ns = flat ns is"
    by (auto simp: div_mult_self3)
  then show ?case using js Cons.IH by simp
qed

lemma unflat_in_box: "k < prod_list ns \<Longrightarrow> in_box ns (unflat ns k)"
proof (induction ns arbitrary: k)
  case Nil
  then show ?case by simp
next
  case (Cons n ns)
  then have "0 < prod_list ns" by (cases "prod_list ns") auto
  moreover have "k div prod_list ns < n"
    using Cons.prems by (simp add: less_mult_imp_div_less)
  ultimately show ?case using Cons.IH by simp
qed

lemma flat_unflat: "k < prod_list ns \<Longrightarrow> flat ns (unflat ns k) = k"
proof (induction ns arbitrary: k)
  case Nil
  then show ?case by simp
next
  case (Cons n ns)
  then have "0 < prod_list ns" by (cases "prod_list ns") auto
  then show ?case using Cons.IH by simp
qed

lemma flat_inj: "in_box ns js \<Longrightarrow> in_box ns is \<Longrightarrow> flat ns js = flat ns is \<longleftrightarrow> js = is"
  by (metis unflat_flat)

lemma length_row_strides [simp]: "length (row_strides ns) = length ns"
  by (induction ns) auto

lemma row_strides_nth: "i < length ns \<Longrightarrow> row_strides ns ! i = prod_list (drop (Suc i) ns)"
  by (induction ns arbitrary: i) (auto simp: nth_Cons split: nat.splits)

lemma dot_row_strides [index_simps]: "length js = length ns \<Longrightarrow> dot js (row_strides ns) = flat ns js"
  by (induction js ns rule: list_induct2) auto

lemma dot_sum: "length js = length ss \<Longrightarrow> dot js ss = (\<Sum>i < length ss. js ! i * ss ! i)"
  by (induction js ss rule: list_induct2) (auto simp: sum.lessThan_Suc_shift simp del: sum.lessThan_Suc)

lemma nth_concat_uniform:
  assumes "\<forall>xs \<in> set xss. length xs = m" "i < length xss" "r < m"
  shows "concat xss ! (i * m + r) = xss ! i ! r"
  using assms
proof (induction xss arbitrary: i)
  case Nil
  then show ?case by simp
next
  case (Cons xs xss)
  then show ?case by (cases i) (auto simp: nth_append add.assoc)
qed

text \<open>The box is visited in the order of the flat positions.\<close>

lemma box_nth: "k < prod_list ns \<Longrightarrow> box ns ! k = unflat ns k"
proof (induction ns arbitrary: k)
  case Nil
  then show ?case by simp
next
  case (Cons n ns)
  let ?m = "prod_list ns"
  have m: "0 < ?m" using Cons.prems by (cases "?m") auto
  have i: "k div ?m < n" using Cons.prems by (simp add: less_mult_imp_div_less)
  have "concat (map (\<lambda>i. map ((#) i) (box ns)) [0..<n]) ! (k div ?m * ?m + k mod ?m) =
      map (\<lambda>i. map ((#) i) (box ns)) [0..<n] ! (k div ?m) ! (k mod ?m)"
    using i m by (intro nth_concat_uniform) auto
  then show ?case using i m Cons.IH by simp
qed

lemma box_nth_flat: "in_box ns js \<Longrightarrow> box ns ! flat ns js = js"
  by (simp add: box_nth flat_less unflat_flat)

lemma map_flat_box: "map (flat ns) (box ns) = [0..<prod_list ns]"
  by (rule nth_equalityI) (auto simp: box_nth flat_unflat)

end
