(* ===== verification/Permutation.thy ===== *)
theory Permutation
  imports TensorShapes Indexing "HOL-Library.Multiset"
begin

section \<open>Permuting and transposing tensors (Descriptors.cpp, armnnUtils/Permute.cpp, Transpose.cpp)\<close>

text \<open>
  \<open>PermutationVector\<close> is a checked list of dimension mappings; \<open>Permute\<close> and
  \<open>Transpose\<close> build the strides of source and destination and copy the elements in a
  recursion over the dimensions. A buffer is a list with one entry per element of
  \<open>dataTypeSize\<close> bytes, so a pointer is an index into it; \<open>nullptr\<close> is \<open>None\<close>.
\<close>

subsection \<open>PermutationVector\<close>

record PermutationVector =
  m_DimMappings :: "nat list"

text \<open>The validation loops of the constructor.\<close>

fun check_range :: "nat \<Rightarrow> nat list \<Rightarrow> unit result" where
  "check_range n [] = Inr ()"
| "check_range n (dstIndex # rest) =
     bindR (throw_if (dstIndex \<ge> n)
       (InvalidArgumentException ''Dimension mapping is outside of the valid range'')) (\<lambda>_.
     check_range n rest)"

fun check_duplicates :: "bool list \<Rightarrow> nat list \<Rightarrow> unit result" where
  "check_duplicates observedDims [] = Inr ()"
| "check_duplicates observedDims (dstIndex # rest) =
     (if observedDims ! dstIndex
      then Inl (InvalidArgumentException ''Invalid dimension mappings: Two or more source dimensions are mapped to the same output dimension'')
      else check_duplicates (observedDims[dstIndex := True]) rest)"

definition PermutationVector_make :: "nat list option \<Rightarrow> nat \<Rightarrow> PermutationVector result" where
  "PermutationVector_make dimMappings numDimMappings =
     bindR (throw_if (numDimMappings > MaxNumOfTensorDimensions)
       (InvalidArgumentException ''The number of mappings cannot be greater than the maximum number of dimensions supported'')) (\<lambda>_.
     bindR (throw_if (dimMappings = None \<and> numDimMappings \<noteq> 0)
       (InvalidArgumentException ''Dimension mappings must not be NULL if the number of mappings is positive'')) (\<lambda>_.
     let ms = (case dimMappings of None \<Rightarrow> [] | Some xs \<Rightarrow> take numDimMappings xs) in
     bindR (check_range numDimMappings ms) (\<lambda>_.
     bindR (check_duplicates (replicate MaxNumOfTensorDimensions False) ms) (\<lambda>_.
     Inr \<lparr>m_DimMappings = ms\<rparr>))))"

definition PermutationVector_of_list :: "nat list \<Rightarrow> PermutationVector result" where
  "PermutationVector_of_list ms = PermutationVector_make (Some ms) (length ms)"

definition GetSize :: "PermutationVector \<Rightarrow> nat" where
  "GetSize p = length (m_DimMappings p)"

definition PermutationVector_get :: "PermutationVector \<Rightarrow> nat \<Rightarrow> nat result" where
  "PermutationVector_get p i =
     (if i \<ge> GetSize p
      then Inl (InvalidArgumentException ''Invalid indexing of PermutationVector'')
      else Inr (m_DimMappings p ! i))"

definition IsEqual :: "PermutationVector \<Rightarrow> PermutationVector \<Rightarrow> bool" where
  "IsEqual p q \<longleftrightarrow>
     GetSize p = GetSize q \<and>
     list_all (\<lambda>i. m_DimMappings p ! i = m_DimMappings q ! i) [0..<GetSize p]"

definition IsInverse :: "PermutationVector \<Rightarrow> PermutationVector \<Rightarrow> bool" where
  "IsInverse p other \<longleftrightarrow>
     GetSize p = GetSize other \<and>
     list_all (\<lambda>i. m_DimMappings p ! (m_DimMappings other ! i) = i) [0..<GetSize p]"

subsection \<open>Shapes\<close>

definition mismatch :: "string \<Rightarrow> TensorShape \<Rightarrow> PermutationVector \<Rightarrow> unit result" where
  "mismatch who s p =
     bindR (GetNumDimensions s) (\<lambda>n. throw_if (n \<noteq> GetSize p)
       (InvalidArgumentException (who @ '': Number of shape dimensions does not match the size of the mappings'')))"

definition Permuted_step ::
    "TensorShape \<Rightarrow> PermutationVector \<Rightarrow> nat \<Rightarrow> nat list \<Rightarrow> nat list result" where
  "Permuted_step srcShape mappings i outDims =
     bindR (PermutationVector_get mappings i) (\<lambda>p.
     bindR (TensorShape_get srcShape i) (\<lambda>d.
     Inr (outDims[p := d])))"

text \<open>The array \<open>outDims\<close> starts uninitialised; the model starts it with zeros.\<close>

definition Permuted :: "TensorShape \<Rightarrow> PermutationVector \<Rightarrow> TensorShape result" where
  "Permuted srcShape mappings =
     bindR (mismatch ''Permute'' srcShape mappings) (\<lambda>_.
     bindR (foldR (Permuted_step srcShape mappings) [0..<GetSize mappings]
              (replicate MaxNumOfTensorDimensions 0)) (\<lambda>outDims.
     TensorShape_sizes (GetSize mappings) (Some outDims)))"

definition Permuted_info :: "TensorInfo \<Rightarrow> PermutationVector \<Rightarrow> TensorInfo result" where
  "Permuted_info info mappings =
     bindR (Permuted (m_Shape info) mappings) (\<lambda>s.
     let outInfo = SetShape info s in
     (case m_QuantizationDim (m_Quantization info) of
        None \<Rightarrow> Inr outInfo
      | Some d \<Rightarrow> bindR (PermutationVector_get mappings d) (\<lambda>p.
                  Inr (SetQuantizationDim outInfo (Some p)))))"

definition Transpose_step ::
    "TensorShape \<Rightarrow> PermutationVector \<Rightarrow> nat \<Rightarrow> nat list \<Rightarrow> nat list result" where
  "Transpose_step srcShape mappings i outDims =
     bindR (PermutationVector_get mappings i) (\<lambda>p.
     bindR (TensorShape_get srcShape p) (\<lambda>d.
     Inr (outDims[i := d])))"

definition TransposeTensorShape :: "TensorShape \<Rightarrow> PermutationVector \<Rightarrow> TensorShape result" where
  "TransposeTensorShape srcShape mappings =
     bindR (mismatch ''Transpose'' srcShape mappings) (\<lambda>_.
     bindR (foldR (Transpose_step srcShape mappings) [0..<GetSize mappings]
              (replicate MaxNumOfTensorDimensions 0)) (\<lambda>outDims.
     TensorShape_sizes (GetSize mappings) (Some outDims)))"

definition TransposeTensorShape_info :: "TensorInfo \<Rightarrow> PermutationVector \<Rightarrow> TensorInfo result" where
  "TransposeTensorShape_info info mappings =
     bindR (TransposeTensorShape (m_Shape info) mappings) (\<lambda>s. Inr (SetShape info s))"

subsection \<open>Strides\<close>

text \<open>
  The state of the loop over the dimensions from the last to the first: the two stride
  arrays and the two running products.
\<close>

type_synonym strides = "nat list \<times> nat list \<times> nat \<times> nat"

definition PermuteLoop_step ::
    "TensorShape \<Rightarrow> PermutationVector \<Rightarrow> nat \<Rightarrow> strides \<Rightarrow> strides result" where
  "PermuteLoop_step dstShape mappings i st =
     (case st of (srcStrides, dstStrides, srcStride, dstStride) \<Rightarrow>
        bindR (PermutationVector_get mappings i) (\<lambda>p.
        bindR (TensorShape_get dstShape p) (\<lambda>dp.
        bindR (TensorShape_get dstShape i) (\<lambda>di.
        Inr (srcStrides[p := srcStride], dstStrides[i := dstStride],
             u32_mul srcStride dp, u32_mul dstStride di)))))"

definition PermuteLoop :: "TensorShape \<Rightarrow> PermutationVector \<Rightarrow> (nat list \<times> nat list) result" where
  "PermuteLoop dstShape mappings =
     bindR (mismatch ''Permute'' dstShape mappings) (\<lambda>_.
     bindR (foldR (PermuteLoop_step dstShape mappings) (rev [0..<m_NumDimensions dstShape])
              (replicate MaxNumOfTensorDimensions 0, replicate MaxNumOfTensorDimensions 0, 1, 1))
       (\<lambda>(srcStrides, dstStrides, _, _). Inr (srcStrides, dstStrides)))"

definition TransposeLoop_step ::
    "TensorShape \<Rightarrow> PermutationVector \<Rightarrow> nat \<Rightarrow> strides \<Rightarrow> strides result" where
  "TransposeLoop_step srcShape mappings i st =
     (case st of (srcStrides, dstStrides, srcStride, dstStride) \<Rightarrow>
        bindR (PermutationVector_get mappings i) (\<lambda>p.
        bindR (TensorShape_get srcShape i) (\<lambda>di.
        bindR (TensorShape_get srcShape p) (\<lambda>dp.
        Inr (srcStrides[i := srcStride], dstStrides[p := dstStride],
             u32_mul srcStride di, u32_mul dstStride dp)))))"

definition TransposeLoop :: "TensorShape \<Rightarrow> PermutationVector \<Rightarrow> (nat list \<times> nat list) result" where
  "TransposeLoop srcShape mappings =
     bindR (mismatch ''Transpose'' srcShape mappings) (\<lambda>_.
     bindR (foldR (TransposeLoop_step srcShape mappings) (rev [0..<m_NumDimensions srcShape])
              (replicate MaxNumOfTensorDimensions 0, replicate MaxNumOfTensorDimensions 0, 1, 1))
       (\<lambda>(srcStrides, dstStrides, _, _). Inr (srcStrides, dstStrides)))"

subsection \<open>Copying\<close>

text \<open>
  \<open>Unroll\<close> at dimension \<open>k\<close> is given the sizes and strides of the dimensions from \<open>k\<close> on;
  \<open>Unroll_iter\<close> is its loop, with the number of iterations left.
\<close>

function (sequential)
  Unroll :: "'a list \<Rightarrow> (nat \<times> nat \<times> nat) list \<Rightarrow> nat \<Rightarrow> nat \<Rightarrow> 'a list \<Rightarrow> 'a list" and
  Unroll_iter :: "'a list \<Rightarrow> (nat \<times> nat \<times> nat) list \<Rightarrow> nat \<Rightarrow> nat \<Rightarrow> nat \<Rightarrow> nat \<Rightarrow> nat \<Rightarrow> 'a list \<Rightarrow> 'a list"
where
  "Unroll src [] srcData dstData dst = dst[dstData := src ! srcData]"
| "Unroll src ((n, ss, ts) # dims) srcData dstData dst =
     Unroll_iter src dims ss ts n srcData dstData dst"
| "Unroll_iter src dims ss ts 0 srcData dstData dst = dst"
| "Unroll_iter src dims ss ts (Suc n) srcData dstData dst =
     Unroll_iter src dims ss ts n (srcData + ss) (dstData + ts)
       (Unroll src dims srcData dstData dst)"
  by pat_completeness auto
termination
  by (relation "measures
      [\<lambda>x. case x of Inl (_, dims, _) \<Rightarrow> length dims | Inr (_, dims, _) \<Rightarrow> length dims,
       \<lambda>x. case x of Inl _ \<Rightarrow> 0 | Inr (_, _, _, _, n, _) \<Rightarrow> n]") auto

text \<open>
  \<open>m_DstShape[dimension]\<close> in the copy loop is the non-constant \<open>operator[]\<close>, which
  refuses a scalar shape.
\<close>

definition TensorShape_ref :: "TensorShape \<Rightarrow> nat \<Rightarrow> nat result" where
  "TensorShape_ref s i =
     (if m_Dimensionality s = Scalar
      then Inl (InvalidArgumentException ''TensorShape with Dimensionality::Scalar must be const to use operator[]'')
      else TensorShape_get s i)"

definition Unroll_all ::
    "(string \<Rightarrow> exn) \<Rightarrow> TensorShape \<Rightarrow> nat list \<times> nat list \<Rightarrow> 'a list option \<Rightarrow> 'a list option \<Rightarrow> nat \<Rightarrow> 'a list result" where
  "Unroll_all err shape strides srcData dstData dataTypeSize =
     (case srcData of
        None \<Rightarrow> Inl (err '': Source Data pointer is null'')
      | Some src \<Rightarrow>
     (case dstData of
        None \<Rightarrow> Inl (err '': Destination Data pointer is null'')
      | Some dst \<Rightarrow>
     bindR (throw_if (dataTypeSize = 0) (err '': dataTypeSize is zero'')) (\<lambda>_.
     bindR (GetNumElements shape) (\<lambda>_.
     bindR (mapR (TensorShape_ref shape) [0..<m_NumDimensions shape]) (\<lambda>ns.
     Inr (Unroll src (zip ns (zip (fst strides) (snd strides))) 0 0 dst))))))"

definition Permute ::
    "TensorShape \<Rightarrow> PermutationVector \<Rightarrow> 'a list option \<Rightarrow> 'a list option \<Rightarrow> nat \<Rightarrow> 'a list result" where
  "Permute dstShape mappings src dst dataTypeSize =
     bindR (PermuteLoop dstShape mappings) (\<lambda>strides.
     Unroll_all (\<lambda>m. InvalidArgumentException (''Permute'' @ m)) dstShape strides src dst dataTypeSize)"

definition Transpose ::
    "TensorShape \<Rightarrow> PermutationVector \<Rightarrow> 'a list option \<Rightarrow> 'a list option \<Rightarrow> nat \<Rightarrow> 'a list result" where
  "Transpose srcShape mappings src dst dataTypeSize =
     bindR (TransposeLoop srcShape mappings) (\<lambda>strides.
     Unroll_all (\<lambda>m. ArmnnException (''Transpose'' @ m)) srcShape strides src dst dataTypeSize)"

subsection \<open>Valid mappings\<close>

definition is_perm :: "nat list \<Rightarrow> bool" where
  "is_perm ms \<longleftrightarrow> distinct ms \<and> (\<forall>m \<in> set ms. m < length ms)"

lemma check_range_Inr: "check_range n ms = Inr u \<longleftrightarrow> (\<forall>m \<in> set ms. m < n)"
  by (induction ms) auto

lemma check_duplicates_Inr:
  "\<forall>m \<in> set ms. m < length seen \<Longrightarrow>
   check_duplicates seen ms = Inr u \<longleftrightarrow> distinct ms \<and> (\<forall>m \<in> set ms. \<not> seen ! m)"
proof (induction ms arbitrary: seen)
  case Nil
  then show ?case by simp
next
  case (Cons m ms)
  have "(\<forall>k \<in> set ms. \<not> seen[m := True] ! k) \<longleftrightarrow> m \<notin> set ms \<and> (\<forall>k \<in> set ms. \<not> seen ! k)"
    using Cons.prems by (auto simp: nth_list_update)
  then show ?case using Cons by auto
qed

lemma PermutationVector_is_perm:
  "PermutationVector_of_list ms = Inr p \<longleftrightarrow>
     length ms \<le> MaxNumOfTensorDimensions \<and> is_perm ms \<and> p = \<lparr>m_DimMappings = ms\<rparr>"
proof -
  have "check_duplicates (replicate MaxNumOfTensorDimensions False) ms = Inr () \<longleftrightarrow> distinct ms"
    if "\<forall>m \<in> set ms. m < length ms" "length ms \<le> MaxNumOfTensorDimensions"
    using that by (subst check_duplicates_Inr) auto
  then show ?thesis
    by (auto simp: PermutationVector_of_list_def PermutationVector_make_def Let_def
        check_range_Inr is_perm_def)
qed

lemma is_perm_mset: "is_perm ms \<longleftrightarrow> mset ms = mset [0..<length ms]"
proof
  assume "is_perm ms"
  then have "distinct ms" "set ms \<subseteq> {..<length ms}" by (auto simp: is_perm_def)
  then have "set ms = {..<length ms}"
    by (metis card_lessThan card_subset_eq distinct_card finite_lessThan)
  then show "mset ms = mset [0..<length ms]"
    using \<open>distinct ms\<close> by (metis distinct_upt mset_set_set set_upt atLeast0LessThan)
next
  assume eq: "mset ms = mset [0..<length ms]"
  then have "distinct ms" by (metis distinct_upt mset_eq_imp_distinct_iff)
  then show "is_perm ms" using mset_eq_setD [OF eq] by (simp add: is_perm_def)
qed

text \<open>
  A \<open>PermutationVector\<close> can be built from \<open>n\<close> values exactly when \<open>n\<close> is at most five
  and the values are a permutation of \<open>0, \<dots>, n - 1\<close>; otherwise the constructor throws. The
  vector then holds the values unchanged.
\<close>

theorem PermutationVector_of_list_iff:
  "PermutationVector_of_list ms = Inr p \<longleftrightarrow>
     length ms \<le> MaxNumOfTensorDimensions \<and> mset ms = mset [0..<length ms] \<and> m_DimMappings p = ms"
  by (cases p) (simp add: PermutationVector_is_perm is_perm_mset conj_ac)

lemma is_perm_nth: "is_perm ms \<Longrightarrow> i < length ms \<Longrightarrow> ms ! i < length ms"
  by (simp add: is_perm_def)

lemma is_perm_bij: "is_perm ms \<Longrightarrow> bij_betw (\<lambda>i. ms ! i) {..<length ms} {..<length ms}"
proof -
  assume p: "is_perm ms"
  have inj: "inj_on (\<lambda>i. ms ! i) {..<length ms}"
    using p by (auto simp: is_perm_def inj_on_def nth_eq_iff_index_eq)
  have "(\<lambda>i. ms ! i) ` {..<length ms} \<subseteq> {..<length ms}" using p by (auto simp: is_perm_nth)
  then show ?thesis
    using inj by (simp add: bij_betw_def endo_inj_surj)
qed

text \<open>Picking coordinates along a permutation.\<close>

definition pick :: "nat list \<Rightarrow> 'a list \<Rightarrow> 'a list" where
  "pick ms xs = map (\<lambda>m. xs ! m) ms"

lemma length_pick [simp]: "length (pick ms xs) = length ms"
  by (simp add: pick_def)

lemma pick_nth [simp]: "i < length ms \<Longrightarrow> pick ms xs ! i = xs ! (ms ! i)"
  by (simp add: pick_def)

lemma pick_inj:
  assumes "is_perm ms" "length xs = length ms" "length ys = length ms" "pick ms xs = pick ms ys"
  shows "xs = ys"
proof (rule nth_equalityI)
  fix k assume "k < length xs"
  then have "k \<in> (\<lambda>i. ms ! i) ` {..<length ms}"
    using is_perm_bij [OF assms(1)] assms(2) by (simp add: bij_betw_def)
  then obtain i where "i < length ms" "k = ms ! i" by auto
  then show "xs ! k = ys ! k" using assms(4) pick_nth by metis
qed (use assms in simp)

lemma pick_surj:
  assumes "is_perm ms" "length ys = length ms"
  obtains xs where "length xs = length ms" "pick ms xs = ys"
proof -
  define g where "g = the_inv_into {..<length ms} (\<lambda>i. ms ! i)"
  have g: "g (ms ! i) = i" if "i < length ms" for i
    using that is_perm_bij [OF assms(1)] by (simp add: g_def bij_betw_def the_inv_into_f_f)
  have "pick ms (map (\<lambda>k. ys ! g k) [0..<length ms]) = ys"
    using assms by (intro nth_equalityI) (auto simp: is_perm_nth g)
  then show ?thesis by (intro that) auto
qed

lemma in_box_pick:
  assumes "is_perm ms" "length ns = length ms" "length js = length ms"
  shows "in_box (pick ms ns) (pick ms js) \<longleftrightarrow> in_box ns js"
proof -
  have "(\<forall>i < length ms. js ! (ms ! i) < ns ! (ms ! i)) \<longleftrightarrow> (\<forall>k < length ms. js ! k < ns ! k)"
    using is_perm_bij [OF assms(1)] unfolding bij_betw_def
    by (metis (no_types, lifting) imageE imageI lessThan_iff)
  then show ?thesis using assms by (simp add: in_box_nth)
qed

lemma prod_list_pick:
  fixes ns :: "nat list"
  assumes "is_perm ms" "length ns = length ms"
  shows "prod_list (pick ms ns) = prod_list ns"
proof -
  have "prod_list (pick ms ns) = (\<Prod>i < length ms. ns ! (ms ! i))"
    by (simp add: pick_def prod.list_conv_set_nth atLeast0LessThan)
  also have "\<dots> = (\<Prod>k < length ms. ns ! k)"
    using prod.reindex_bij_betw [OF is_perm_bij [OF assms(1)], of "\<lambda>k. ns ! k"] by simp
  also have "\<dots> = prod_list ns"
    using assms(2) by (simp add: prod.list_conv_set_nth atLeast0LessThan)
  finally show ?thesis .
qed

subsection \<open>What the stride loops compute\<close>

definition stride_step ::
    "(nat \<Rightarrow> nat) \<Rightarrow> (nat \<Rightarrow> nat) \<Rightarrow> nat \<Rightarrow> nat list \<times> nat \<Rightarrow> nat list \<times> nat" where
  "stride_step f u i = (\<lambda>(A, a). (A[f i := a], u32_mul a (u i)))"

lemma rev_upt_Cons: "k < n \<Longrightarrow> rev [k..<n] = rev [Suc k..<n] @ [k]"
  by (simp add: upt_conv_Cons)

lemma stride_loop:
  assumes inj: "inj_on f {..<n}" and k: "k \<le> n" and f: "\<forall>i < n. f i < length A0"
  shows "case fold (stride_step f u) (rev [k..<n]) (A0, 1) of (A, a) \<Rightarrow>
    length A = length A0 \<and> a = prod_list (map u [k..<n]) mod 2 ^ 32 \<and>
    (\<forall>i. k \<le> i \<and> i < n \<longrightarrow> A ! f i = prod_list (map u [Suc i..<n]) mod 2 ^ 32)"
  using k
proof (induction k rule: inc_induct)
  case base
  then show ?case by simp
next
  case (step k)
  obtain A a where A: "fold (stride_step f u) (rev [Suc k..<n]) (A0, 1) = (A, a)" by fastforce
  note IH = step.IH [unfolded A, simplified]
  have "f k \<noteq> f i" if "Suc k \<le> i" "i < n" for i
    using inj that by (auto simp: inj_on_def dest: bspec [of _ _ k])
  moreover have eq: "fold (stride_step f u) (rev [k..<n]) (A0, 1) = (A[f k := a], u32_mul a (u k))"
    by (simp only: rev_upt_Cons [OF step.hyps(2)] fold_append A comp_apply fold_simps)
      (simp add: stride_step_def)
  moreover have "prod_list (map u [k..<n]) = u k * prod_list (map u [Suc k..<n])"
    using step.hyps(2) by (simp add: upt_conv_Cons)
  moreover have "k \<le> i \<and> i < n \<longleftrightarrow> i = k \<or> Suc k \<le> i \<and> i < n" for i
    using step.hyps by auto
  ultimately show ?case
    using IH f step.hyps by (auto simp: u32_mul_def mod_mult_right_eq mult.commute)
qed

lemma PermuteLoop_steps:
  assumes s: "specified_shape s ds" and len: "length ds = length ms" and ms: "is_perm ms"
    and "set is \<subseteq> {..<length ms}"
  shows "foldR (PermuteLoop_step s \<lparr>m_DimMappings = ms\<rparr>) is (A, B, a, b) =
    (case (fold (stride_step ((!) ms) ((!) (pick ms ds))) is (A, a),
           fold (stride_step id ((!) ds)) is (B, b)) of
       ((A', a'), (B', b')) \<Rightarrow> Inr (A', B', a', b'))"
  using assms(4)
proof (induction "is" arbitrary: A B a b)
  case Nil
  then show ?case by simp
next
  case (Cons i "is")
  then have i: "i < length ms" by simp
  then show ?case
    using Cons s len ms
    by (simp add: PermuteLoop_step_def PermutationVector_get_def GetSize_def is_perm_nth stride_step_def)
qed

lemma TransposeLoop_steps:
  assumes s: "specified_shape s ds" and len: "length ds = length ms" and ms: "is_perm ms"
    and "set is \<subseteq> {..<length ms}"
  shows "foldR (TransposeLoop_step s \<lparr>m_DimMappings = ms\<rparr>) is (A, B, a, b) =
    (case (fold (stride_step id ((!) ds)) is (A, a),
           fold (stride_step ((!) ms) ((!) (pick ms ds))) is (B, b)) of
       ((A', a'), (B', b')) \<Rightarrow> Inr (A', B', a', b'))"
  using assms(4)
proof (induction "is" arbitrary: A B a b)
  case Nil
  then show ?case by simp
next
  case (Cons i "is")
  then have i: "i < length ms" by simp
  then show ?case
    using Cons s len ms
    by (simp add: TransposeLoop_step_def PermutationVector_get_def GetSize_def is_perm_nth stride_step_def)
qed

text \<open>The array that one stride loop leaves, for sizes \<open>us\<close> and cells \<open>f\<close>.\<close>

definition strides_of :: "(nat \<Rightarrow> nat) \<Rightarrow> nat list \<Rightarrow> nat list" where
  "strides_of f us = fst (fold (stride_step f ((!) us)) (rev [0..<length us])
     (replicate MaxNumOfTensorDimensions 0, 1))"

lemma map_nth_upt_drop: "i \<le> length xs \<Longrightarrow> map ((!) xs) [i..<length xs] = drop i xs"
  by (rule nth_equalityI) auto

lemma strides_of_props:
  assumes "inj_on f {..<length us}" "\<forall>i < length us. f i < length us"
    "length us \<le> MaxNumOfTensorDimensions"
  shows "length (strides_of f us) = MaxNumOfTensorDimensions \<and>
    (\<forall>i < length us. strides_of f us ! f i = prod_list (drop (Suc i) us) mod 2 ^ 32)"
proof -
  have "\<forall>i < length us. f i < length (replicate MaxNumOfTensorDimensions (0::nat))"
    using assms(2,3) by auto
  from stride_loop [OF assms(1) le0 this, of "(!) us"]
  show ?thesis
    by (auto simp: strides_of_def map_nth_upt_drop Suc_le_eq split: prod.splits)
qed

lemma mismatch_ok:
  "specified_shape s ds \<Longrightarrow> length ds = length ms \<Longrightarrow> mismatch who s \<lparr>m_DimMappings = ms\<rparr> = Inr ()"
  by (simp add: mismatch_def GetSize_def)

lemma PermuteLoop_eq:
  assumes "specified_shape s ds" "length ds = length ms" "is_perm ms"
  shows "PermuteLoop s \<lparr>m_DimMappings = ms\<rparr> =
    Inr (strides_of ((!) ms) (pick ms ds), strides_of id ds)"
proof -
  have "m_NumDimensions s = length ms" using assms by (simp add: specified_shape_def)
  moreover have "set (rev [0..<length ms]) \<subseteq> {..<length ms}" by auto
  ultimately show ?thesis
    using assms
    by (simp add: PermuteLoop_def mismatch_ok PermuteLoop_steps [OF assms] strides_of_def
        split: prod.splits)
qed

lemma TransposeLoop_eq:
  assumes "specified_shape s ds" "length ds = length ms" "is_perm ms"
  shows "TransposeLoop s \<lparr>m_DimMappings = ms\<rparr> =
    Inr (strides_of id ds, strides_of ((!) ms) (pick ms ds))"
proof -
  have "m_NumDimensions s = length ms" using assms by (simp add: specified_shape_def)
  moreover have "set (rev [0..<length ms]) \<subseteq> {..<length ms}" by auto
  ultimately show ?thesis
    using assms
    by (simp add: TransposeLoop_def mismatch_ok TransposeLoop_steps [OF assms] strides_of_def
        split: prod.splits)
qed

subsection \<open>What the copy loops do\<close>

definition unroll_writes ::
    "'a list \<Rightarrow> nat list \<Rightarrow> nat list \<Rightarrow> nat list \<Rightarrow> nat \<Rightarrow> nat \<Rightarrow> (nat \<times> 'a) list" where
  "unroll_writes src ns ss ts s d = map (\<lambda>js. (d + dot js ts, src ! (s + dot js ss))) (box ns)"

lemma unroll_writes_Cons:
  "unroll_writes src (n # ns) (s0 # ss) (t0 # ts) s d =
     concat (map (\<lambda>i. unroll_writes src ns ss ts (s + i * s0) (d + i * t0)) [0..<n])"
  by (simp add: unroll_writes_def map_concat comp_def add.assoc)

lemma Unroll_eq:
  assumes "length ss = length ns" "length ts = length ns"
  shows "Unroll src (zip ns (zip ss ts)) s d dst = write_all (unroll_writes src ns ss ts s d) dst"
  using assms
proof (induction ns arbitrary: ss ts s d dst)
  case Nil
  then show ?case by (simp add: unroll_writes_def)
next
  case (Cons n ns)
  obtain s0 ss' t0 ts' where st: "ss = s0 # ss'" "ts = t0 # ts'"
    "length ss' = length ns" "length ts' = length ns"
    using Cons.prems by (metis length_Suc_conv)
  have iter: "Unroll_iter src (zip ns (zip ss' ts')) s0 t0 k s d dst =
      write_all (concat (map (\<lambda>i. unroll_writes src ns ss' ts' (s + i * s0) (d + i * t0)) [0..<k])) dst"
    for k s d dst
  proof (induction k arbitrary: s d dst)
    case 0
    then show ?case by simp
  next
    case (Suc k)
    have "[0..<Suc k] = 0 # map Suc [0..<k]" by (simp add: upt_conv_Cons map_Suc_upt)
    then show ?case
      by (simp only: Unroll_iter.simps Suc.IH Cons.IH [OF st(3,4)])
        (simp add: comp_def add.assoc)
  qed
  show ?case by (simp add: st iter unroll_writes_Cons)
qed

text \<open>When the destination positions are distinct, every element arrives.\<close>

lemma Unroll_nth:
  assumes len: "length ss = length ns" "length ts = length ns"
    and inj: "inj_on (\<lambda>js. dot js ts) {js. in_box ns js}"
    and js: "in_box ns js" "dot js ts < length dst"
  shows "Unroll src (zip ns (zip ss ts)) 0 0 dst ! dot js ts = src ! dot js ss"
proof -
  have "distinct (map fst (unroll_writes src ns ss ts 0 0))"
    using inj by (simp add: unroll_writes_def comp_def distinct_map distinct_box set_box)
  moreover have "(dot js ts, src ! dot js ss) \<in> set (unroll_writes src ns ss ts 0 0)"
    using js(1) by (auto simp: unroll_writes_def set_box)
  ultimately show ?thesis
    using write_all_nth js(2) by (simp add: Unroll_eq [OF len])
qed

lemma Unroll_length:
  "length ss = length ns \<Longrightarrow> length ts = length ns \<Longrightarrow>
   length (Unroll src (zip ns (zip ss ts)) s d dst) = length dst"
  by (simp add: Unroll_eq)

subsection \<open>Shapes after permuting and transposing\<close>

lemma fold_scatter:
  assumes "inj_on f {..<n}" "\<forall>i < n. f i < length xs" "i < n"
  shows "fold (\<lambda>i ys. ys[f i := v i]) [0..<n] xs ! f i = v i"
proof -
  have eq: "fold (\<lambda>i ys. ys[f i := v i]) is xs = write_all (map (\<lambda>i. (f i, v i)) is) xs" for "is" xs
    by (induction "is" arbitrary: xs) auto
  show ?thesis
    unfolding eq using assms
    by (intro write_all_nth) (auto simp: distinct_map comp_def inj_on_def)
qed

lemma length_fold_scatter [simp]: "length (fold (\<lambda>i ys. ys[f i := v i]) is xs) = length xs"
  by (induction "is" arbitrary: xs) auto

lemma is_perm_inj: "is_perm ms \<Longrightarrow> inj_on ((!) ms) {..<length ms}"
  using is_perm_bij by (simp add: bij_betw_def)

lemma Permuted_ok:
  assumes "specified_shape s ds" "length ds = length ms" "is_perm ms"
    "1 \<le> length ms" "length ms \<le> MaxNumOfTensorDimensions"
  obtains t ts where "Permuted s \<lparr>m_DimMappings = ms\<rparr> = Inr t" "specified_shape t ts"
    "length ts = length ms" "pick ms ts = ds"
proof -
  let ?a = "replicate MaxNumOfTensorDimensions (0::nat)"
  let ?out = "fold (\<lambda>i ys. ys[ms ! i := ds ! i]) [0..<length ms] ?a"
  let ?t = "\<lparr>m_Dimensions = take (length ms) ?out,
             m_DimensionsSpecificity = replicate (length ms) True, m_Dimensionality = Specified\<rparr>"
  have "foldR (Permuted_step s \<lparr>m_DimMappings = ms\<rparr>) [0..<length ms] ?a = Inr ?out"
    using assms
    by (intro foldR_pure) (auto simp: Permuted_step_def PermutationVector_get_def GetSize_def)
  then have "Permuted s \<lparr>m_DimMappings = ms\<rparr> = Inr ?t"
    using assms by (simp add: Permuted_def mismatch_ok TensorShape_sizes_def GetSize_def
        CheckValidNumDimensions_ok Suc_le_eq)
  moreover have bound: "\<forall>i < length ms. ms ! i < MaxNumOfTensorDimensions"
    using assms(3,5) by (meson is_perm_nth order.strict_trans2)
  moreover have "pick ms (take (length ms) ?out) = ds"
  proof (rule nth_equalityI)
    fix i assume "i < length (pick ms (take (length ms) ?out))"
    then show "pick ms (take (length ms) ?out) ! i = ds ! i"
      using fold_scatter [OF is_perm_inj [OF assms(3)], of ?a i "\<lambda>i. ds ! i"] assms bound
      by (simp add: is_perm_nth)
  qed (use assms in simp)
  ultimately show ?thesis
    using assms(5) by (intro that [of ?t "take (length ms) ?out"]) (auto simp: specified_shape_def)
qed

lemma Transposed_ok:
  assumes "specified_shape s ds" "length ds = length ms" "is_perm ms"
    "1 \<le> length ms" "length ms \<le> MaxNumOfTensorDimensions"
  obtains t where "TransposeTensorShape s \<lparr>m_DimMappings = ms\<rparr> = Inr t"
    "specified_shape t (pick ms ds)"
proof -
  let ?a = "replicate MaxNumOfTensorDimensions (0::nat)"
  let ?out = "fold (\<lambda>i ys. ys[i := ds ! (ms ! i)]) [0..<length ms] ?a"
  let ?t = "\<lparr>m_Dimensions = take (length ms) ?out,
             m_DimensionsSpecificity = replicate (length ms) True, m_Dimensionality = Specified\<rparr>"
  have "foldR (Transpose_step s \<lparr>m_DimMappings = ms\<rparr>) [0..<length ms] ?a = Inr ?out"
    using assms
    by (intro foldR_pure)
      (auto simp: Transpose_step_def PermutationVector_get_def GetSize_def is_perm_nth)
  then have "TransposeTensorShape s \<lparr>m_DimMappings = ms\<rparr> = Inr ?t"
    using assms by (simp add: TransposeTensorShape_def mismatch_ok TensorShape_sizes_def GetSize_def
        CheckValidNumDimensions_ok Suc_le_eq)
  moreover have "take (length ms) ?out = pick ms ds"
  proof (rule nth_equalityI)
    fix i assume "i < length (take (length ms) ?out)"
    then show "take (length ms) ?out ! i = pick ms ds ! i"
      using fold_scatter [of id "length ms" ?a i "\<lambda>i. ds ! (ms ! i)"] assms(5) by simp
  qed (use assms(5) in simp)
  ultimately show ?thesis
    by (intro that [of ?t]) (auto simp: specified_shape_def)
qed

subsection \<open>Strides address the row-major positions\<close>

lemma suffix_product_small:
  assumes "in_box ds js" "prod_list ds < 2 ^ 32"
  shows "prod_list (drop k ds) mod 2 ^ 32 = prod_list (drop k ds)"
proof -
  have "0 < d" if "d \<in> set ds" for d
    using assms(1) that by (auto simp: in_box_nth in_set_conv_nth)
  then have "0 < prod_list (take k ds)" by (auto intro!: prod_list_pos dest: in_set_takeD)
  then have "prod_list (drop k ds) \<le> prod_list ds"
    using mult_le_mono1 [of 1 "prod_list (take k ds)" "prod_list (drop k ds)"]
    by (simp add: prod_list_take_drop Suc_le_eq)
  then show ?thesis using assms(2) by simp
qed

lemma dot_strides_id:
  assumes "in_box ds js" "prod_list ds < 2 ^ 32" "length ds \<le> MaxNumOfTensorDimensions"
  shows "dot js (take (length ds) (strides_of id ds)) = flat ds js"
proof -
  note sp = strides_of_props [of id ds, simplified, OF assms(3)]
  have "take (length ds) (strides_of id ds) = row_strides ds"
  proof (rule nth_equalityI)
    show "length (take (length ds) (strides_of id ds)) = length (row_strides ds)"
      using sp assms(3) by simp
    fix i assume "i < length (take (length ds) (strides_of id ds))"
    then have i: "i < length ds" by simp
    then show "take (length ds) (strides_of id ds) ! i = row_strides ds ! i"
      using sp suffix_product_small [OF assms(1,2), of "Suc i"] by (simp add: row_strides_nth)
  qed
  then show ?thesis using dot_row_strides in_box_length [OF assms(1)] by metis
qed

lemma dot_strides_perm:
  assumes ms: "is_perm ms" and len: "length ds = length ms"
    and js: "in_box ds js" and small: "prod_list ds < 2 ^ 32"
    and max: "length ms \<le> MaxNumOfTensorDimensions"
  shows "dot js (take (length ds) (strides_of ((!) ms) (pick ms ds))) = flat (pick ms ds) (pick ms js)"
proof -
  let ?us = "pick ms ds" and ?n = "length ms"
  let ?ss = "take (length ds) (strides_of ((!) ms) ?us)"
  have ljs: "length js = ?n" using in_box_length [OF js] len by simp
  have box: "in_box ?us (pick ms js)" using in_box_pick [OF ms len ljs] js by simp
  have small': "prod_list ?us < 2 ^ 32" using prod_list_pick [OF ms len] small by simp
  have sp: "length (strides_of ((!) ms) ?us) = MaxNumOfTensorDimensions"
    "\<forall>i < ?n. strides_of ((!) ms) ?us ! (ms ! i) = prod_list (drop (Suc i) ?us) mod 2 ^ 32"
    using strides_of_props [of "(!) ms" ?us] is_perm_inj [OF ms] is_perm_nth [OF ms] max by auto
  have "dot js ?ss = (\<Sum>k < ?n. js ! k * ?ss ! k)"
    using dot_sum [of js ?ss] sp(1) max ljs len by simp
  also have "\<dots> = (\<Sum>i < ?n. js ! (ms ! i) * ?ss ! (ms ! i))"
    using sum.reindex_bij_betw [OF is_perm_bij [OF ms], of "\<lambda>k. js ! k * ?ss ! k"] by simp
  also have "\<dots> = (\<Sum>i < ?n. pick ms js ! i * row_strides ?us ! i)"
    using sp(2) suffix_product_small [OF box small'] is_perm_nth [OF ms] len
    by (intro sum.cong) (auto simp: row_strides_nth)
  also have "\<dots> = dot (pick ms js) (row_strides ?us)" by (simp add: dot_sum)
  finally show ?thesis by (simp add: dot_row_strides)
qed

subsection \<open>Correctness of Permute and Transpose\<close>

lemma Unroll_all_eq:
  assumes "specified_shape s ds" "sz \<noteq> 0"
  shows "Unroll_all err s (ss, ts) (Some src) (Some dst) sz = Inr (Unroll src (zip ds (zip ss ts)) 0 0 dst)"
proof -
  have "mapR (TensorShape_ref s) [0..<m_NumDimensions s] = Inr (map ((!) ds) [0..<m_NumDimensions s])"
    using assms(1) by (intro mapR_pure) (auto simp: TensorShape_ref_def specified_shape_def
        TensorShape_get_def shape_checks)
  moreover have "map ((!) ds) [0..<m_NumDimensions s] = ds"
    using assms(1) by (simp add: specified_shape_def map_nth)
  moreover have "GetNumElements s = Inr (if ds = [] then 0 else prod_list ds mod 2 ^ 32)"
    using assms(1) by (rule GetNumElements_specified)
  ultimately show ?thesis using assms(2) by (simp add: Unroll_all_def)
qed

lemma zip_take3: "zip ds (zip ss ts) = zip ds (zip (take (length ds) ss) (take (length ds) ts))"
  by (rule nth_equalityI) auto

lemma flat_pick_inj:
  assumes "is_perm ms" "length ds = length ms"
  shows "inj_on (\<lambda>js. flat (pick ms ds) (pick ms js)) {js. in_box ds js}"
proof (rule inj_onI)
  fix js ks assume js: "js \<in> {js. in_box ds js}" and ks: "ks \<in> {js. in_box ds js}"
    and eq: "flat (pick ms ds) (pick ms js) = flat (pick ms ds) (pick ms ks)"
  have len: "length js = length ms" "length ks = length ms"
    using js ks assms(2) by (auto dest: in_box_length)
  have "pick ms js = pick ms ks"
    using eq flat_inj in_box_pick [OF assms] js ks len by (metis mem_Collect_eq)
  then show "js = ks" using pick_inj [OF assms(1)] len by blast
qed

text \<open>
  A copy with row-major strides on one side and permuted row-major strides on the other.
\<close>

lemma Permute_nth:
  assumes ms: "is_perm ms" "length ms \<le> MaxNumOfTensorDimensions"
    and t: "specified_shape t ts" "length ts = length ms" "prod_list ts < 2 ^ 32"
    and dst: "length dst = prod_list ts" and sz: "sz \<noteq> 0"
  obtains out where "Permute t \<lparr>m_DimMappings = ms\<rparr> (Some src) (Some dst) sz = Inr out"
    "length out = prod_list ts"
    "\<forall>js. in_box ts js \<longrightarrow> out ! flat ts js = src ! flat (pick ms ts) (pick ms js)"
proof -
  let ?ss = "take (length ts) (strides_of ((!) ms) (pick ms ts))"
  let ?tt = "take (length ts) (strides_of id ts)"
  let ?out = "Unroll src (zip ts (zip ?ss ?tt)) 0 0 dst"
  have len: "length ?ss = length ts" "length ?tt = length ts"
    using strides_of_props [of "(!) ms" "pick ms ts"] strides_of_props [of id ts]
      is_perm_inj [OF ms(1)] is_perm_nth [OF ms(1)] ms(2) t(2) by auto
  have tt: "dot js ?tt = flat ts js" and ss: "dot js ?ss = flat (pick ms ts) (pick ms js)"
    if "in_box ts js" for js
    using dot_strides_id [OF that t(3)] dot_strides_perm [OF ms(1) t(2) that t(3) ms(2)] t(2) ms(2)
    by auto
  have inj: "inj_on (\<lambda>js. dot js ?tt) {js. in_box ts js}"
    by (rule inj_onI) (auto simp: tt flat_inj)
  have "Permute t \<lparr>m_DimMappings = ms\<rparr> (Some src) (Some dst) sz = Inr ?out"
    by (simp add: Permute_def PermuteLoop_eq [OF t(1,2) ms(1)] Unroll_all_eq [OF t(1) sz])
      (rule arg_cong [where f = "\<lambda>z. Unroll src z 0 0 dst", OF zip_take3])
  moreover have "?out ! flat ts js = src ! flat (pick ms ts) (pick ms js)" if "in_box ts js" for js
    using Unroll_nth [OF len inj that, of dst src] flat_less [OF that] tt [OF that] ss [OF that] dst
    by simp
  moreover have "length ?out = prod_list ts" by (simp only: Unroll_length [OF len] dst)
  ultimately show ?thesis by (intro that [of ?out]) auto
qed

lemma Transpose_nth:
  assumes ms: "is_perm ms" "length ms \<le> MaxNumOfTensorDimensions"
    and s: "specified_shape s ds" "length ds = length ms" "prod_list ds < 2 ^ 32"
    and dst: "length dst = prod_list ds" and sz: "sz \<noteq> 0"
  obtains out where "Transpose s \<lparr>m_DimMappings = ms\<rparr> (Some src) (Some dst) sz = Inr out"
    "length out = prod_list ds"
    "\<forall>js. in_box ds js \<longrightarrow> out ! flat (pick ms ds) (pick ms js) = src ! flat ds js"
proof -
  let ?tt = "take (length ds) (strides_of ((!) ms) (pick ms ds))"
  let ?ss = "take (length ds) (strides_of id ds)"
  let ?out = "Unroll src (zip ds (zip ?ss ?tt)) 0 0 dst"
  have len: "length ?ss = length ds" "length ?tt = length ds"
    using strides_of_props [of "(!) ms" "pick ms ds"] strides_of_props [of id ds]
      is_perm_inj [OF ms(1)] is_perm_nth [OF ms(1)] ms(2) s(2) by auto
  have ss: "dot js ?ss = flat ds js" and tt: "dot js ?tt = flat (pick ms ds) (pick ms js)"
    if "in_box ds js" for js
    using dot_strides_id [OF that s(3)] dot_strides_perm [OF ms(1) s(2) that s(3) ms(2)] s(2) ms(2)
    by auto
  have inj: "inj_on (\<lambda>js. dot js ?tt) {js. in_box ds js}"
    using flat_pick_inj [OF ms(1) s(2)] by (rule inj_on_cong [THEN iffD1, rotated]) (simp add: tt)
  have "Transpose s \<lparr>m_DimMappings = ms\<rparr> (Some src) (Some dst) sz = Inr ?out"
    by (simp add: Transpose_def TransposeLoop_eq [OF s(1,2) ms(1)] Unroll_all_eq [OF s(1) sz])
      (rule arg_cong [where f = "\<lambda>z. Unroll src z 0 0 dst", OF zip_take3])
  moreover have "?out ! flat (pick ms ds) (pick ms js) = src ! flat ds js" if js: "in_box ds js" for js
  proof -
    have "in_box (pick ms ds) (pick ms js)"
      using js in_box_pick [OF ms(1) s(2)] in_box_length [OF js] s(2) by simp
    then have "flat (pick ms ds) (pick ms js) < length dst"
      using flat_less prod_list_pick [OF ms(1) s(2)] dst by metis
    then show ?thesis using Unroll_nth [OF len inj js, of dst src] tt [OF js] ss [OF js] by simp
  qed
  moreover have "length ?out = prod_list ds" by (simp only: Unroll_length [OF len] dst)
  ultimately show ?thesis by (intro that [of ?out]) auto
qed

text \<open>
  C14: Permuting a tensor moves every element to its permuted place. For a shape of one to
  five sizes whose product fits in 32 bits, \<open>Permuted\<close> gives a shape whose size along
  dimension \<open>mappings[i]\<close> is the source's size along \<open>i\<close>, and \<open>Permute\<close> copies to index
  \<open>js\<close> of the destination the element of the source whose index along \<open>i\<close> is
  \<open>js[mappings[i]]\<close>; every element of the destination is written.
\<close>

theorem Permute_correct:
  assumes p: "PermutationVector_of_list ms = Inr p"
    and s: "specified_shape s ds" "length ds = length ms" "1 \<le> length ms" "prod_list ds < 2 ^ 32"
    and bufs: "length dst = prod_list ds" "sz \<noteq> 0"
  shows "\<exists>t out. Permuted s p = Inr t \<and> pick ms (m_Dimensions t) = ds \<and>
    Permute t p (Some src) (Some dst) sz = Inr out \<and> length out = prod_list ds \<and>
    (\<forall>js. in_box (m_Dimensions t) js \<longrightarrow> out ! flat (m_Dimensions t) js = src ! flat ds (pick ms js))"
proof -
  have ms: "is_perm ms" "length ms \<le> MaxNumOfTensorDimensions" "p = \<lparr>m_DimMappings = ms\<rparr>"
    using p by (simp_all add: PermutationVector_is_perm)
  obtain t ts where t: "Permuted s p = Inr t" "specified_shape t ts" "length ts = length ms" "pick ms ts = ds"
    using Permuted_ok [OF s(1,2) ms(1) s(3) ms(2)] ms(3) by metis
  have prod: "prod_list ts = prod_list ds" using prod_list_pick [OF ms(1) t(3)] t(4) by simp
  obtain out where "Permute t p (Some src) (Some dst) sz = Inr out" "length out = prod_list ts"
    "\<forall>js. in_box ts js \<longrightarrow> out ! flat ts js = src ! flat ds (pick ms js)"
    using Permute_nth [OF ms(1,2) t(2,3) _ _ bufs(2), of dst src] prod s(4) bufs(1) ms(3) t(4) by metis
  then show ?thesis using t prod by (auto simp: specified_shape_def)
qed

text \<open>NHWC to NCHW, mapping \<open>[0, 2, 3, 1]\<close>, on a tensor of shape \<open>[1, 2, 2, 3]\<close>.\<close>

definition nhwc_shape :: TensorShape where
  "nhwc_shape = \<lparr>m_Dimensions = [1, 2, 2, 3],
     m_DimensionsSpecificity = [True, True, True, True], m_Dimensionality = Specified\<rparr>"

lemma nhwc_shape_specified: "specified_shape nhwc_shape [1, 2, 2, 3]"
  by (simp add: nhwc_shape_def specified_shape_def)

lemma nhwc_perm: "PermutationVector_of_list [0, 2, 3, 1] = Inr \<lparr>m_DimMappings = [0, 2, 3, 1]\<rparr>"
  by (simp add: PermutationVector_is_perm is_perm_def MaxNumOfTensorDimensions_def)

theorem Permute_correct_witness:
  "\<exists>t out. Permute t \<lparr>m_DimMappings = [0, 2, 3, 1]\<rparr> (Some [0..<12]) (Some (replicate 12 0)) 4 = Inr out \<and>
    length out = 12"
  using Permute_correct [OF nhwc_perm nhwc_shape_specified, of "replicate 12 0" 4 "[0..<12]"]
  by auto

text \<open>
  C15: \<open>Transpose\<close> with the same mappings undoes \<open>Permute\<close>: transposing the permuted tensor, of fewer than
  2^32 elements, gives back the original shape and the original elements, whatever the two
  destination buffers held before.
\<close>

theorem Transpose_Permute:
  assumes p: "PermutationVector_of_list ms = Inr p"
    and s: "specified_shape s ds" "length ds = length ms" "1 \<le> length ms" "prod_list ds < 2 ^ 32"
    and bufs: "length src = prod_list ds" "length dst = prod_list ds" "length dst' = prod_list ds" "sz \<noteq> 0"
  shows "\<exists>t out. Permuted s p = Inr t \<and> Permute t p (Some src) (Some dst) sz = Inr out \<and>
    TransposeTensorShape t p = Inr s \<and> Transpose t p (Some out) (Some dst') sz = Inr src"
proof -
  have ms: "is_perm ms" "length ms \<le> MaxNumOfTensorDimensions" "p = \<lparr>m_DimMappings = ms\<rparr>"
    using p by (simp_all add: PermutationVector_is_perm)
  obtain t ts where t: "Permuted s p = Inr t" "specified_shape t ts" "length ts = length ms" "pick ms ts = ds"
    using Permuted_ok [OF s(1,2) ms(1) s(3) ms(2)] ms(3) by metis
  have prod: "prod_list ts = prod_list ds" using prod_list_pick [OF ms(1) t(3)] t(4) by simp
  obtain out where out: "Permute t p (Some src) (Some dst) sz = Inr out" "length out = prod_list ts"
    "\<forall>js. in_box ts js \<longrightarrow> out ! flat ts js = src ! flat ds (pick ms js)"
    using Permute_nth [OF ms(1,2) t(2,3) _ _ bufs(4), of dst src] prod s(4) bufs(2) ms(3) t(4) by metis
  obtain res where res: "Transpose t p (Some out) (Some dst') sz = Inr res" "length res = prod_list ts"
    "\<forall>js. in_box ts js \<longrightarrow> res ! flat ds (pick ms js) = out ! flat ts js"
    using Transpose_nth [OF ms(1,2) t(2,3) _ _ bufs(4), of dst' out] prod s(4) bufs(3) ms(3) t(4) by metis
  have "res = src"
  proof (rule nth_equalityI)
    show "length res = length src" using res(2) prod bufs(1) by simp
    fix k assume "k < length res"
    then have k: "k < prod_list ds" using res(2) prod by simp
    obtain js where js: "length js = length ms" "pick ms js = unflat ds k"
      using pick_surj [OF ms(1), of "unflat ds k"] in_box_length [OF unflat_in_box [OF k]] s(2) by auto
    then have "in_box ts js"
      using in_box_pick [OF ms(1) t(3) js(1)] unflat_in_box [OF k] t(4) by simp
    then have "res ! flat ds (pick ms js) = src ! flat ds (pick ms js)" using res(3) out(3) by simp
    then show "res ! k = src ! k" using js(2) flat_unflat [OF k] by simp
  qed
  moreover have "TransposeTensorShape t p = Inr s"
    using Transposed_ok [OF t(2,3) ms(1) s(3) ms(2)] ms(3) t(4) s(1) by (metis specified_shape_def)
  ultimately show ?thesis using t(1) out(1) res(1) by blast
qed

theorem Transpose_Permute_witness:
  "\<exists>t out. Permute t \<lparr>m_DimMappings = [0, 2, 3, 1]\<rparr> (Some [0..<12]) (Some (replicate 12 0)) 4 = Inr out \<and>
    Transpose t \<lparr>m_DimMappings = [0, 2, 3, 1]\<rparr> (Some out) (Some (replicate 12 9)) 4 = Inr [0..<12]"
proof -
  have "length [0..<12] = prod_list [1, 2, 2, 3::nat]" by simp
  from Transpose_Permute [OF nhwc_perm nhwc_shape_specified _ _ _ this,
      of "replicate 12 0" "replicate 12 9" 4]
  show ?thesis by auto
qed

text \<open>
  \<open>Permuted\<close> on a tensor info moves the quantization dimension with the axis it
  describes: the axis of the per-axis scales has the same size before and after.
\<close>

theorem Permuted_info_axis:
  assumes "PermutationVector_of_list ms = Inr p" "specified_shape (m_Shape info) ds"
    "length ds = length ms" "1 \<le> length ms"
    "m_QuantizationDim (m_Quantization info) = Some d" "d < length ms"
  shows "\<exists>out d'. Permuted_info info p = Inr out \<and>
    m_QuantizationDim (m_Quantization out) = Some d' \<and>
    m_Dimensions (m_Shape out) ! d' = m_Dimensions (m_Shape info) ! d"
proof -
  have ms: "is_perm ms" "length ms \<le> MaxNumOfTensorDimensions" "p = \<lparr>m_DimMappings = ms\<rparr>"
    using assms(1) by (simp_all add: PermutationVector_is_perm)
  obtain t ts where t: "Permuted (m_Shape info) p = Inr t" "specified_shape t ts" "pick ms ts = ds"
    using Permuted_ok [OF assms(2,3) ms(1) assms(4) ms(2)] ms(3) by metis
  have "ts ! (ms ! d) = ds ! d" using t(3) assms(6) by auto
  then show ?thesis
    using t(1,2) assms ms(3)
    by (auto simp: Permuted_info_def PermutationVector_get_def GetSize_def SetShape_def
        SetQuantizationDim_def Let_def specified_shape_def)
qed

definition per_axis_info :: TensorInfo where
  "per_axis_info = TensorInfo_per_axis
     \<lparr>m_Dimensions = [2, 3], m_DimensionsSpecificity = [True, True], m_Dimensionality = Specified\<rparr>
     QSymmS8 [float_one, float_one, float_one] 1 False"

theorem Permuted_info_axis_witness:
  "\<exists>out. Permuted_info per_axis_info \<lparr>m_DimMappings = [1, 0]\<rparr> = Inr out"
proof -
  have "PermutationVector_of_list [1, 0] = Inr \<lparr>m_DimMappings = [1, 0]\<rparr>"
    by (simp add: PermutationVector_is_perm is_perm_def MaxNumOfTensorDimensions_def)
  from Permuted_info_axis [OF this, of per_axis_info "[2, 3]" 1]
  show ?thesis
    by (auto simp: per_axis_info_def TensorInfo_per_axis_def specified_shape_def
        SetQuantizationDim_def SetQuantizationScales_def)
qed

text \<open>
  C16: \<open>TransposeTensorShape\<close> on a tensor info does not move the quantization dimension along with the
  axes it moves: the info it returns has the quantization it was given, so that when the
  transposition gives dimension \<open>d\<close>, the quantization dimension, another size, the per-axis scales of
  the result no longer match the axis its quantization dimension names.
\<close>

theorem TransposeTensorShape_info_stale_axis:
  assumes "PermutationVector_of_list ms = Inr p" "specified_shape (m_Shape info) ds"
    "length ds = length ms" "1 \<le> length ms"
    "m_QuantizationDim (m_Quantization info) = Some d" "d < length ms" "ds ! (ms ! d) \<noteq> ds ! d"
  shows "\<exists>out. TransposeTensorShape_info info p = Inr out \<and>
    m_Quantization out = m_Quantization info \<and>
    m_Dimensions (m_Shape out) ! d \<noteq> m_Dimensions (m_Shape info) ! d"
proof -
  have ms: "is_perm ms" "length ms \<le> MaxNumOfTensorDimensions" "p = \<lparr>m_DimMappings = ms\<rparr>"
    using assms(1) by (simp_all add: PermutationVector_is_perm)
  obtain t where t: "TransposeTensorShape (m_Shape info) p = Inr t" "specified_shape t (pick ms ds)"
    using Transposed_ok [OF assms(2,3) ms(1) assms(4) ms(2)] ms(3) by metis
  then show ?thesis
    using assms(2,6,7)
    by (auto simp: TransposeTensorShape_info_def SetShape_def specified_shape_def)
qed

theorem TransposeTensorShape_info_stale_axis_witness:
  "\<exists>out. TransposeTensorShape_info per_axis_info \<lparr>m_DimMappings = [1, 0]\<rparr> = Inr out \<and>
    length (m_Scales (m_Quantization out)) = 3 \<and> m_Dimensions (m_Shape out) ! 1 \<noteq> 3"
proof -
  have "PermutationVector_of_list [1, 0] = Inr \<lparr>m_DimMappings = [1, 0]\<rparr>"
    by (simp add: PermutationVector_is_perm is_perm_def MaxNumOfTensorDimensions_def)
  from TransposeTensorShape_info_stale_axis [OF this, of per_axis_info "[2, 3]" 1]
  show ?thesis
    by (auto simp: per_axis_info_def TensorInfo_per_axis_def specified_shape_def
        SetQuantizationDim_def SetQuantizationScales_def)
qed

end
