(* ===== verification/Bytes.thy ===== *)
theory Bytes
  imports Prelude
begin

section \<open>Byte buffers and unique identifiers (profiling/common/src/CommonProfilingUtils.cpp)\<close>

text \<open>
  The little-endian reads and writes the profiling protocol is built on, the formatting
  helper of its printers and the generator of unique identifiers. A buffer is the list of
  its bytes; the null-pointer asserts are part of its type. A write outside the list has no
  effect and a read there is unspecified: every lemma about a read or a write asks for
  offsets inside the buffer, as the C++ code must.
\<close>

unbundle bit_operations_syntax

type_synonym byte = "8 word"

subsection \<open>Reads\<close>

definition ReadBytes :: "byte list \<Rightarrow> nat \<Rightarrow> nat \<Rightarrow> byte list" where
  "ReadBytes buffer offset valueSize = map (\<lambda>i. buffer ! (offset + i)) [0..<valueSize]"

definition ReadUint64 :: "byte list \<Rightarrow> nat \<Rightarrow> 64 word" where
  "ReadUint64 buffer offset =
     ucast (buffer ! offset) OR
     push_bit 8 (ucast (buffer ! (offset + 1))) OR
     push_bit 16 (ucast (buffer ! (offset + 2))) OR
     push_bit 24 (ucast (buffer ! (offset + 3))) OR
     push_bit 32 (ucast (buffer ! (offset + 4))) OR
     push_bit 40 (ucast (buffer ! (offset + 5))) OR
     push_bit 48 (ucast (buffer ! (offset + 6))) OR
     push_bit 56 (ucast (buffer ! (offset + 7)))"

definition ReadUint32 :: "byte list \<Rightarrow> nat \<Rightarrow> 32 word" where
  "ReadUint32 buffer offset =
     ucast (buffer ! offset) OR
     push_bit 8 (ucast (buffer ! (offset + 1))) OR
     push_bit 16 (ucast (buffer ! (offset + 2))) OR
     push_bit 24 (ucast (buffer ! (offset + 3)))"

definition ReadUint16 :: "byte list \<Rightarrow> nat \<Rightarrow> 16 word" where
  "ReadUint16 buffer offset =
     ucast ((ucast (buffer ! offset) :: 32 word) OR
       push_bit 8 (ucast (buffer ! (offset + 1))))"

definition ReadUint8 :: "byte list \<Rightarrow> nat \<Rightarrow> byte" where
  "ReadUint8 buffer offset = buffer ! offset"

subsection \<open>Writes\<close>

fun WriteBytes :: "byte list \<Rightarrow> nat \<Rightarrow> byte list \<Rightarrow> byte list" where
  "WriteBytes buffer offset [] = buffer"
| "WriteBytes buffer offset (b # bs) = WriteBytes (buffer[offset := b]) (offset + 1) bs"

definition WriteUint64 :: "byte list \<Rightarrow> nat \<Rightarrow> 64 word \<Rightarrow> byte list" where
  "WriteUint64 buffer offset value =
     buffer[offset := ucast (value AND 0xFF),
       offset + 1 := ucast (drop_bit 8 value AND 0xFF),
       offset + 2 := ucast (drop_bit 16 value AND 0xFF),
       offset + 3 := ucast (drop_bit 24 value AND 0xFF),
       offset + 4 := ucast (drop_bit 32 value AND 0xFF),
       offset + 5 := ucast (drop_bit 40 value AND 0xFF),
       offset + 6 := ucast (drop_bit 48 value AND 0xFF),
       offset + 7 := ucast (drop_bit 56 value AND 0xFF)]"

definition WriteUint32 :: "byte list \<Rightarrow> nat \<Rightarrow> 32 word \<Rightarrow> byte list" where
  "WriteUint32 buffer offset value =
     buffer[offset := ucast (value AND 0xFF),
       offset + 1 := ucast (drop_bit 8 value AND 0xFF),
       offset + 2 := ucast (drop_bit 16 value AND 0xFF),
       offset + 3 := ucast (drop_bit 24 value AND 0xFF)]"

definition WriteUint16 :: "byte list \<Rightarrow> nat \<Rightarrow> 16 word \<Rightarrow> byte list" where
  "WriteUint16 buffer offset value =
     buffer[offset := ucast (value AND 0xFF),
       offset + 1 := ucast (drop_bit 8 value AND 0xFF)]"

definition WriteUint8 :: "byte list \<Rightarrow> nat \<Rightarrow> byte \<Rightarrow> byte list" where
  "WriteUint8 buffer offset value = buffer[offset := value]"

subsection \<open>Encodings\<close>

text \<open>The bytes a value is written as; a write splices them into the buffer.\<close>

definition le_bytes :: "nat \<Rightarrow> 'a::len word \<Rightarrow> byte list" where
  "le_bytes n v = map (\<lambda>i. ucast (drop_bit (8 * i) v)) [0..<n]"

definition overwrite :: "'a list \<Rightarrow> nat \<Rightarrow> 'a list \<Rightarrow> 'a list" where
  "overwrite xs o' ys = take o' xs @ ys @ drop (o' + length ys) xs"

lemma length_le_bytes [simp]: "length (le_bytes n v) = n"
  by (simp add: le_bytes_def)

lemma length_overwrite [simp]: "o' + length ys \<le> length xs \<Longrightarrow> length (overwrite xs o' ys) = length xs"
  by (simp add: overwrite_def)

lemma overwrite_nil [simp]: "overwrite xs o' [] = xs"
  by (simp add: overwrite_def)

lemma overwrite_Cons:
  "o' + length (y # ys) \<le> length xs \<Longrightarrow> overwrite xs o' (y # ys) = overwrite (xs[o' := y]) (Suc o') ys"
  by (simp add: overwrite_def upd_conv_take_nth_drop add.commute)

lemma overwrite_append:
  assumes "o' + length ys + length zs \<le> length xs"
  shows "overwrite (overwrite xs o' ys) (o' + length ys) zs = overwrite xs o' (ys @ zs)"
  using assms by (simp add: overwrite_def add_ac)

lemma overwrite_read: "o' + length ys \<le> length xs \<Longrightarrow> take (length ys) (drop o' (overwrite xs o' ys)) = ys"
  by (simp add: overwrite_def)

lemma overwrite_read_other:
  assumes "o' + length ys \<le> length xs" "p + n \<le> o' \<or> o' + length ys \<le> p" "p + n \<le> length xs"
  shows "take n (drop p (overwrite xs o' ys)) = take n (drop p xs)"
  using assms by (intro nth_equalityI) (auto simp: overwrite_def nth_append)

text \<open>The bytes \<open>xs\<close> lie in the buffer from position \<open>p\<close> on.\<close>

definition holds_at :: "'a list \<Rightarrow> nat \<Rightarrow> 'a list \<Rightarrow> bool" where
  "holds_at b p xs \<longleftrightarrow> p + length xs \<le> length b \<and> take (length xs) (drop p b) = xs"

lemma holds_at_append:
  "holds_at b p (xs @ ys) \<longleftrightarrow> holds_at b p xs \<and> holds_at b (p + length xs) ys"
proof -
  have "take (length xs + length ys) (drop p b) =
      take (length xs) (drop p b) @ take (length ys) (drop (p + length xs) b)"
    by (simp add: take_add add.commute)
  then show ?thesis by (auto simp: holds_at_def append_eq_append_conv)
qed

lemma holds_at_overwrite: "p + length xs \<le> length b \<Longrightarrow> holds_at (overwrite b p xs) p xs"
  by (simp add: holds_at_def overwrite_read)

lemma holds_at_nth: "holds_at b p xs \<Longrightarrow> i < length xs \<Longrightarrow> b ! (p + i) = xs ! i"
  by (metis add_leD1 holds_at_def nth_drop nth_take)

lemma holds_at_mid: "holds_at (xs @ ys @ zs) (length xs) ys"
  by (simp add: holds_at_def)

lemma holds_at_length: "holds_at b p xs \<Longrightarrow> p + length xs \<le> length b"
  by (simp add: holds_at_def)

lemma WriteBytes_overwrite: "offset + length bs \<le> length buffer \<Longrightarrow> WriteBytes buffer offset bs = overwrite buffer offset bs"
  by (induction buffer offset bs rule: WriteBytes.induct) (simp_all add: overwrite_Cons)

lemma ReadBytes_take: "offset + n \<le> length buffer \<Longrightarrow> ReadBytes buffer offset n = take n (drop offset buffer)"
  by (rule nth_equalityI) (auto simp: ReadBytes_def)

lemma ff_mask: "(0xFF :: 'a::len word) = mask 8"
  by (simp add: mask_eq_exp_minus_1)

lemma ucast_and_ff [simp]: "(ucast (v AND 0xFF) :: byte) = ucast v"
  by (rule bit_word_eqI) (auto simp: ff_mask bit_simps dest: bit_imp_le_length)

lemma Write_overwrite:
  "offset + 8 \<le> length buffer \<Longrightarrow> WriteUint64 buffer offset v64 = overwrite buffer offset (le_bytes 8 v64)"
  "offset + 4 \<le> length buffer \<Longrightarrow> WriteUint32 buffer offset v32 = overwrite buffer offset (le_bytes 4 v32)"
  "offset + 2 \<le> length buffer \<Longrightarrow> WriteUint16 buffer offset v16 = overwrite buffer offset (le_bytes 2 v16)"
  "offset + 1 \<le> length buffer \<Longrightarrow> WriteUint8 buffer offset v8 = overwrite buffer offset [v8]"
  by (simp_all add: WriteUint64_def WriteUint32_def WriteUint16_def WriteUint8_def
      le_bytes_def upt_rec overwrite_Cons numeral_eq_Suc)


subsection \<open>The interface of a wire value\<close>

text \<open>
  What the packet writers and readers use of a fixed-size value: a write puts \<open>sz\<close> bytes
  into the buffer and nothing else, and a read sees only its own \<open>sz\<close> bytes.
\<close>

locale wire_value =
  fixes put :: "byte list \<Rightarrow> nat \<Rightarrow> 'v \<Rightarrow> byte list"
    and fetch :: "byte list \<Rightarrow> nat \<Rightarrow> 'v"
    and encode :: "'v \<Rightarrow> byte list"
    and sz :: nat
  assumes encode_length: "length (encode v) = sz"
    and write_overwrite: "p + sz \<le> length b \<Longrightarrow> put b p v = overwrite b p (encode v)"
    and read_local: "p + sz \<le> length b \<Longrightarrow> fetch b p = fetch (take sz (drop p b)) 0"
    and read_encode: "fetch (encode v) 0 = v"
    and encode_fetch: "length bs = sz \<Longrightarrow> encode (fetch bs 0) = bs"
begin

lemma length_write: "p + sz \<le> length b \<Longrightarrow> length (put b p v) = length b"
  by (simp add: write_overwrite encode_length)

lemma read_write: "p + sz \<le> length b \<Longrightarrow> fetch (put b p v) p = v"
  using overwrite_read [of p "encode v" b]
  by (simp add: read_local write_overwrite encode_length read_encode)

lemma read_encoded: "fetch (xs @ encode v @ ys) (length xs) = v"
  by (subst read_local) (simp_all add: encode_length read_encode)

lemma read_at: "holds_at b p (encode v) \<Longrightarrow> fetch b p = v"
  by (subst read_local) (auto simp: holds_at_def encode_length read_encode)

text \<open>A write does not disturb what is read from a range it does not meet.\<close>

lemma take_write_other:
  "p + sz \<le> length b \<Longrightarrow> q + n \<le> length b \<Longrightarrow> q + n \<le> p \<or> p + sz \<le> q \<Longrightarrow>
     take n (drop q (put b p v)) = take n (drop q b)"
  using overwrite_read_other [of p "encode v" b q n] by (simp add: write_overwrite encode_length)

lemma read_write_other:
  "p + sz \<le> length b \<Longrightarrow> q + sz \<le> length b \<Longrightarrow> q + sz \<le> p \<or> p + sz \<le> q \<Longrightarrow>
     fetch (put b p v) q = fetch b q"
  by (simp add: read_local [of q] length_write take_write_other)

end

lemma nth_take_drop: "i < n \<Longrightarrow> p + n \<le> length b \<Longrightarrow> take n (drop p b) ! i = b ! (p + i)"
  by simp

lemma nth_take_drop_0: "0 < n \<Longrightarrow> p + n \<le> length b \<Longrightarrow> take n (drop p b) ! 0 = b ! p"
  using nth_take_drop [of 0] by simp

interpretation u8: wire_value WriteUint8 ReadUint8 "\<lambda>v. [v]" 1
  by unfold_locales (auto simp: Write_overwrite ReadUint8_def nth_take_drop_0 length_Suc_conv)

lemma bit_byte_at:
  "bit (push_bit k (ucast (ucast (drop_bit k v) :: byte)) :: 'a::len word) n \<longleftrightarrow> k \<le> n \<and> n < k + 8 \<and> bit (v :: 'a word) n"
  by (auto simp: bit_simps dest: bit_imp_le_length)

lemma bit_byte_at_0:
  "bit (ucast (ucast v :: byte) :: 'a::len word) n \<longleftrightarrow> n < 8 \<and> bit (v :: 'a word) n"
  using bit_byte_at [of 0 v n] by simp

lemma le_bytes_nth: "i < n \<Longrightarrow> le_bytes n v ! i = ucast (drop_bit (8 * i) v)"
  by (simp add: le_bytes_def)

text \<open>Decoding is injective on as many byte strings as there are values, so it is onto.\<close>

lemma le_bytes_decode:
  assumes dec: "\<And>v :: 'a::len word. f (le_bytes n v) = v"
    and len: "LENGTH('a) = 8 * n" "length bs = n"
  shows "le_bytes n (f bs :: 'a word) = bs"
proof -
  let ?all = "{bs :: byte list. set bs \<subseteq> UNIV \<and> length bs = n}"
  have "inj (le_bytes n :: 'a word \<Rightarrow> byte list)"
    using dec by (intro inj_on_inverseI [where g = f]) simp
  then have "card (range (le_bytes n :: 'a word \<Rightarrow> byte list)) = CARD(8 word) ^ n"
    by (simp add: card_image card_word len(1) power_mult)
  then have "range (le_bytes n :: 'a word \<Rightarrow> byte list) = ?all"
    using finite_lists_length_eq [of "UNIV :: byte set" n] card_lists_length_eq [of "UNIV :: byte set" n]
    by (intro card_subset_eq) auto
  then obtain v :: "'a word" where "bs = le_bytes n v" using len(2) by auto
  then show ?thesis using dec by simp
qed

interpretation u16: wire_value WriteUint16 ReadUint16 "le_bytes 2" 2
proof unfold_locales
  show *: "ReadUint16 (le_bytes 2 v) 0 = v" for v
    by (rule bit_word_eqI) (auto simp: ReadUint16_def le_bytes_nth bit_simps)
  show "le_bytes 2 (ReadUint16 bs 0) = bs" if "length bs = 2" for bs
    using * that by (intro le_bytes_decode) simp_all
qed (simp_all add: Write_overwrite ReadUint16_def nth_take_drop_0)

interpretation u32: wire_value WriteUint32 ReadUint32 "le_bytes 4" 4
proof unfold_locales
  have "bit (ReadUint32 (le_bytes 4 v) 0) n = bit v n" if "n < 32" for n and v :: "32 word"
    using that by (simp add: ReadUint32_def le_bytes_nth bit_or_iff bit_byte_at bit_byte_at_0) linarith
  then show *: "ReadUint32 (le_bytes 4 v) 0 = v" for v
    by (intro bit_word_eqI) simp
  show "le_bytes 4 (ReadUint32 bs 0) = bs" if "length bs = 4" for bs
    using * that by (intro le_bytes_decode) simp_all
qed (simp_all add: Write_overwrite ReadUint32_def nth_take_drop_0)

interpretation u64: wire_value WriteUint64 ReadUint64 "le_bytes 8" 8
proof unfold_locales
  have "bit (ReadUint64 (le_bytes 8 v) 0) n = bit v n" if "n < 64" for n and v :: "64 word"
    using that by (simp add: ReadUint64_def le_bytes_nth bit_or_iff bit_byte_at bit_byte_at_0) linarith
  then show *: "ReadUint64 (le_bytes 8 v) 0 = v" for v
    by (intro bit_word_eqI) simp
  show "le_bytes 8 (ReadUint64 bs 0) = bs" if "length bs = 8" for bs
    using * that by (intro le_bytes_decode) simp_all
qed (simp_all add: Write_overwrite ReadUint64_def nth_take_drop_0)

subsection \<open>Checked reads and sequences of writes\<close>

text \<open>
  The readers of the protocol index raw memory. A read that does not lie inside the buffer
  is undefined behaviour, which the model makes an outcome of its own.
\<close>

definition fetch_checked :: "nat \<Rightarrow> (byte list \<Rightarrow> nat \<Rightarrow> 'v) \<Rightarrow> byte list \<Rightarrow> nat \<Rightarrow> 'v result" where
  "fetch_checked n fetch buffer offset =
     (if offset + n \<le> length buffer then Inr (fetch buffer offset)
      else Inl (UndefinedBehaviour ''read past the end of the buffer''))"

lemma fetch_checked_Inr [simp]:
  "fetch_checked n f b p = Inr v \<longleftrightarrow> p + n \<le> length b \<and> v = f b p"
  by (auto simp: fetch_checked_def)

lemma ReadBytes_at: "holds_at b p xs \<Longrightarrow> ReadBytes b p (length xs) = xs"
  by (simp add: ReadBytes_take holds_at_def)

text \<open>The loop that writes the words of a vector one after the other.\<close>

fun write_words :: "byte list \<Rightarrow> nat \<Rightarrow> 32 word list \<Rightarrow> byte list" where
  "write_words buffer offset [] = buffer"
| "write_words buffer offset (w # ws) = write_words (WriteUint32 buffer offset w) (offset + 4) ws"

definition words_bytes :: "32 word list \<Rightarrow> byte list" where
  "words_bytes ws = concat (map (le_bytes 4) ws)"

lemma words_bytes_simps [simp]:
  "words_bytes [] = []" "words_bytes (w # ws) = le_bytes 4 w @ words_bytes ws"
  "words_bytes (ws @ vs) = words_bytes ws @ words_bytes vs"
  by (simp_all add: words_bytes_def)

lemma length_words_bytes [simp]: "length (words_bytes ws) = 4 * length ws"
  by (induction ws) auto

lemma write_words_overwrite:
  "offset + 4 * length ws \<le> length b \<Longrightarrow> write_words b offset ws = overwrite b offset (words_bytes ws)"
proof (induction ws arbitrary: b offset)
  case Nil
  then show ?case by simp
next
  case (Cons w ws)
  then show ?case
    using overwrite_append [of offset "le_bytes 4 w" "words_bytes ws" b]
    by (simp add: Write_overwrite add.commute)
qed

text \<open>
  What a profiling write puts into a buffer the matching read gives back, for each of the
  four widths, as long as the value fits in the buffer: \<open>ReadUint64\<close> after
  \<open>WriteUint64\<close> and so on, and the eight-byte write keeps the length of the buffer and
  every range of bytes it does not meet.
\<close>

theorem wire_roundtrip:
  assumes "p + 8 \<le> length b" "q + n \<le> p \<or> p + 8 \<le> q \<and> q + n \<le> length b"
  shows "ReadUint64 (WriteUint64 b p v64) p = v64 \<and>
    ReadUint32 (WriteUint32 b p v32) p = v32 \<and>
    ReadUint16 (WriteUint16 b p v16) p = v16 \<and>
    ReadUint8 (WriteUint8 b p v8) p = v8 \<and>
    length (WriteUint64 b p v64) = length b \<and>
    ReadBytes (WriteUint64 b p v64) q n = ReadBytes b q n"
proof -
  have "ReadBytes (WriteUint64 b p v64) q n = ReadBytes b q n"
    using assms by (subst (1 2) ReadBytes_take) (auto simp: u64.length_write u64.take_write_other)
  then show ?thesis
    using assms by (simp add: u64.read_write u32.read_write u16.read_write u8.read_write u64.length_write)
qed

theorem wire_roundtrip_witness:
  "ReadUint64 (WriteUint64 (replicate 16 0) 4 0x0123456789ABCDEF) 4 = 0x0123456789ABCDEF \<and>
   ReadBytes (WriteUint64 (replicate 16 0) 4 0x0123456789ABCDEF) 0 4 = [0, 0, 0, 0]"
  using wire_roundtrip [of 4 "replicate 16 0" 0 4 "0x0123456789ABCDEF"]
  by (simp add: ReadBytes_def upt_rec)

text \<open>The text and the comma-free helper of the printers.\<close>

definition CentreAlignFormatting :: "string \<Rightarrow> int \<Rightarrow> string" where
  "CentreAlignFormatting stringToPass spacingWidth =
     (let padding = spacingWidth - int (length stringToPass);
          centrePadding = replicate (nat (padding div 2)) (CHR '' '')
      in centrePadding @ stringToPass @ centrePadding @
         (if padding > 0 \<and> padding mod 2 \<noteq> 0 then '' '' else []))"

lemma length_CentreAlignFormatting:
  "int (length (CentreAlignFormatting s w)) = max w (int (length s))"
  by (simp add: CentreAlignFormatting_def Let_def) presburger

subsection \<open>Unique identifiers\<close>

text \<open>\<open>std::numeric_limits<uint16_t>::max()\<close>; the comparison is in type \<open>int\<close>.\<close>

definition ThrowIfCantGenerateNextUid :: "16 word \<Rightarrow> 16 word \<Rightarrow> unit result" where
  "ThrowIfCantGenerateNextUid uid cores =
     (if cores = 0 \<or> cores = 1
      then throw_if (uid = 0xFFFF)
        (ProfilingException ''Generating the next UID for profiling would result in an overflow'')
      else throw_if (uint uid \<ge> 65535 - uint cores + 1)
        (ProfilingException ''Generating the next UID for profiling would result in an overflow''))"

text \<open>The function-local static variable \<open>uid\<close>, initially 1, is passed and returned.\<close>

definition GetNextUid :: "bool \<Rightarrow> 16 word \<Rightarrow> (16 word \<times> 16 word) result" where
  "GetNextUid peekOnly uid =
     bindR (ThrowIfCantGenerateNextUid uid 0) (\<lambda>_.
     if peekOnly then Inr (uid, uid) else Inr (uid, uid + 1))"

definition GetNextCounterUids :: "16 word \<Rightarrow> 16 word \<Rightarrow> 16 word list result" where
  "GetNextCounterUids firstUid cores =
     bindR (ThrowIfCantGenerateNextUid firstUid cores) (\<lambda>_.
     let counterUidsSize = (if cores = 0 then 1 else unat cores) in
     Inr (map (\<lambda>i. firstUid + of_nat i) [0..<counterUidsSize]))"

lemma unat_add_small16: "unat (u :: 16 word) + i < 65536 \<Longrightarrow> unat (u + of_nat i) = unat u + i"
  by (simp add: unat_word_ariths unat_of_nat)

lemma ThrowIfCantGenerateNextUid_iff:
  "ThrowIfCantGenerateNextUid uid cores = Inr () \<longleftrightarrow> unat uid + max 1 (unat cores) \<le> 65535"
proof -
  define u c where "u = unat uid" and "c = unat cores"
  have "u < 65536" "c < 65536" "uint uid = int u" "uint cores = int c"
    using unsigned_less [where w = uid and ?'a = nat] unsigned_less [where w = cores and ?'a = nat]
    by (simp_all add: u_def c_def)
  moreover have "uid = 0xFFFF \<longleftrightarrow> u = 65535" "cores = 0 \<longleftrightarrow> c = 0" "cores = 1 \<longleftrightarrow> c = 1"
    using word_unat_eq_iff [of uid "0xFFFF"] word_unat_eq_iff [of cores 0] word_unat_eq_iff [of cores 1]
    by (simp_all add: u_def c_def)
  ultimately have "ThrowIfCantGenerateNextUid uid cores = Inr () \<longleftrightarrow> u + max 1 c \<le> 65535"
    by (auto simp: ThrowIfCantGenerateNextUid_def max_def)
  then show ?thesis by (simp only: u_def c_def)
qed

lemma GetNextCounterUids_cases:
  "case GetNextCounterUids firstUid cores of
     Inl e \<Rightarrow> unat firstUid + max 1 (unat cores) > 65535
   | Inr uids \<Rightarrow> map unat uids = [unat firstUid ..< unat firstUid + max 1 (unat cores)] \<and>
       distinct uids \<and> unat firstUid + max 1 (unat cores) \<le> 65535"
proof (cases "unat firstUid + max 1 (unat cores) \<le> 65535")
  case True
  let ?n = "max 1 (unat cores)"
  have sz: "(if cores = 0 then 1 else unat cores) = ?n"
    using unat_eq_zero [of cores] by (auto simp: max_def)
  let ?us = "map (\<lambda>i. firstUid + of_nat i) [0..<?n]"
  have eq: "map unat ?us = [unat firstUid ..< unat firstUid + ?n]"
    using True by (intro nth_equalityI) (auto intro!: unat_add_small16)
  then have "distinct ?us" by (metis distinct_map distinct_upt)
  moreover have "GetNextCounterUids firstUid cores = Inr ?us"
    using True by (simp add: GetNextCounterUids_def ThrowIfCantGenerateNextUid_iff [THEN iffD2] sz)
  ultimately show ?thesis using eq True by simp
next
  case False
  then have "ThrowIfCantGenerateNextUid firstUid cores \<noteq> Inr ()"
    by (simp only: ThrowIfCantGenerateNextUid_iff) simp
  then obtain e where "ThrowIfCantGenerateNextUid firstUid cores = Inl e"
    by (cases "ThrowIfCantGenerateNextUid firstUid cores") auto
  then show ?thesis using False by (simp add: GetNextCounterUids_def)
qed

text \<open>
  \<open>GetNextCounterUids\<close> returns one uid for a counter without cores and otherwise one per
  core: consecutive values that start at the given one and never wrap round, so all of them
  are different. It succeeds exactly when the last of them is below
  the largest 16-bit value.
\<close>

theorem GetNextCounterUids_spec:
  "case GetNextCounterUids firstUid cores of
     Inl e \<Rightarrow> unat firstUid + max 1 (unat cores) > 65535
   | Inr uids \<Rightarrow> map unat uids = [unat firstUid ..< unat firstUid + max 1 (unat cores)] \<and>
       distinct uids \<and> unat firstUid + max 1 (unat cores) \<le> 65535"
  by (rule GetNextCounterUids_cases)

end
