(* ===== verification/SwTrace.thy ===== *)
theory SwTrace
  imports Bytes
begin

section \<open>SWTrace strings and messages (profiling/common SwTrace.hpp, SwTrace.cpp)\<close>

text \<open>
  Strings travel as a word with their size, terminator included, followed by their
  characters padded with zeros to a whole number of words. The component has the character
  policies, the conversion and the reader of one declaration of the timeline directory.
\<close>

subsection \<open>Characters\<close>

definition byte_of :: "char \<Rightarrow> byte" where
  "byte_of c = of_nat (of_char c)"

definition char_of_byte :: "byte \<Rightarrow> char" where
  "char_of_byte b = char_of (unat b)"

lemma char_of_byte_of [simp]: "char_of_byte (byte_of c) = c"
  by (simp add: char_of_byte_def byte_of_def unat_of_nat)

text \<open>The three policies; \<open>std::isalnum\<close> is the one of the C locale.\<close>

definition SwTraceCharPolicy :: "char \<Rightarrow> bool" where
  "SwTraceCharPolicy c \<longleftrightarrow> of_char c < (128 :: nat)"

definition isalnum :: "char \<Rightarrow> bool" where
  "isalnum c \<longleftrightarrow> (let n = of_char c :: nat in
     48 \<le> n \<and> n \<le> 57 \<or> 65 \<le> n \<and> n \<le> 90 \<or> 97 \<le> n \<and> n \<le> 122)"

definition SwTraceNameCharPolicy :: "char \<Rightarrow> bool" where
  "SwTraceNameCharPolicy c \<longleftrightarrow> of_char c < (128 :: nat) \<and> (isalnum c \<or> c = CHR ''_'')"

definition SwTraceTypeCharPolicy :: "char \<Rightarrow> bool" where
  "SwTraceTypeCharPolicy c \<longleftrightarrow> c \<in> set ''@tiIlLFps''"

definition IsValidSwTraceString :: "(char \<Rightarrow> bool) \<Rightarrow> string \<Rightarrow> bool" where
  "IsValidSwTraceString policy s = list_all policy s"

lemma policies_ascii:
  "SwTraceNameCharPolicy c \<Longrightarrow> SwTraceCharPolicy c"
  "SwTraceTypeCharPolicy c \<Longrightarrow> SwTraceCharPolicy c"
  by (auto simp: SwTraceNameCharPolicy_def SwTraceTypeCharPolicy_def SwTraceCharPolicy_def)

lemma valid_ascii:
  "IsValidSwTraceString SwTraceNameCharPolicy s \<Longrightarrow> IsValidSwTraceString SwTraceCharPolicy s"
  "IsValidSwTraceString SwTraceTypeCharPolicy s \<Longrightarrow> IsValidSwTraceString SwTraceCharPolicy s"
  by (auto simp: IsValidSwTraceString_def list_all_iff policies_ascii)

subsection \<open>Writing strings\<close>

text \<open>
  The output vector is resized with zeros and the characters with their terminator are
  copied over its words from the second on; the host is little-endian.
\<close>

definition StringToSwTraceString :: "(char \<Rightarrow> bool) \<Rightarrow> string \<Rightarrow> bool \<times> 32 word list" where
  "StringToSwTraceString policy s =
     (if \<not> IsValidSwTraceString policy s then (False, [])
      else
        let s_size = length s + 1;
            outBufferSize = 1 + s_size div 4 + (if s_size mod 4 \<noteq> 0 then 1 else 0);
            raw = WriteBytes (replicate (4 * (outBufferSize - 1)) 0) 0 (map byte_of s @ [0])
        in (True, of_nat s_size # map (\<lambda>i. ReadUint32 raw (4 * i)) [0..<outBufferSize - 1]))"

definition ConvertDirectoryComponent ::
    "(char \<Rightarrow> bool) \<Rightarrow> string \<Rightarrow> 32 word list \<Rightarrow> bool \<times> 32 word list" where
  "ConvertDirectoryComponent policy directoryComponent swTraceBuffer =
     (case StringToSwTraceString policy directoryComponent of
        (result, tempSwTraceBuffer) \<Rightarrow>
          if \<not> result then (False, swTraceBuffer) else (True, swTraceBuffer @ tempSwTraceBuffer))"

text \<open>The result of the conversion is not looked at here: its vector is empty on failure.\<close>

definition CalculateSizeOfPaddedSwString :: "string \<Rightarrow> nat" where
  "CalculateSizeOfPaddedSwString str =
     (let swTraceString = snd (StringToSwTraceString SwTraceCharPolicy str)
      in u32_mul (u32_sub (length swTraceString) 1) 4)"

subsection \<open>Reading messages\<close>

record SwTraceMessage =
  m_Id :: "32 word"
  m_Name :: string
  m_UiName :: string
  m_ArgTypes :: string
  m_ArgNames :: "string list"

text \<open>
  The four strings are read by four copies of the same statements; \<open>msg\<close> is the text of
  their exception.
\<close>

definition ReadSwTraceString :: "string \<Rightarrow> byte list \<Rightarrow> nat \<Rightarrow> nat \<Rightarrow> (string \<times> nat) result" where
  "ReadSwTraceString msg packetBuffer offset packetLength =
     bindR (fetch_checked 4 ReadUint32 packetBuffer offset) (\<lambda>len.
     bindR (throw_if (len = 0 \<or> unat len > packetLength) (ProfilingException msg)) (\<lambda>_.
     let offset = u32_add offset 4 in
     bindR (fetch_checked (unat len - 1) (\<lambda>b p. ReadBytes b p (unat len - 1)) packetBuffer offset) (\<lambda>bs.
     let str = map char_of_byte bs in
     Inr (str, u32_add offset (CalculateSizeOfPaddedSwString str)))))"

text \<open>\<open>std::getline\<close> over a string stream until it fails.\<close>

fun getline_loop :: "char \<Rightarrow> string \<Rightarrow> string \<Rightarrow> string list" where
  "getline_loop delim argName [] = (if argName = [] then [] else [argName])"
| "getline_loop delim argName (c # cs) =
     (if c = delim then argName # getline_loop delim [] cs
      else getline_loop delim (argName @ [c]) cs)"

definition ReadSwTraceMessage :: "byte list option \<Rightarrow> nat \<Rightarrow> nat \<Rightarrow> (SwTraceMessage \<times> nat) result" where
  "ReadSwTraceMessage packetBuffer offset packetLength =
     (case packetBuffer of
        None \<Rightarrow> Inl (ProfilingException ''SwTrace.cpp: Attempting to read a null buffer'')
      | Some buffer \<Rightarrow>
        bindR (fetch_checked 4 ReadUint32 buffer offset) (\<lambda>readDeclId.
        bindR (ReadSwTraceString ''Error swTraceDeclNameLength is an invalid size''
          buffer (u32_add offset 4) packetLength) (\<lambda>(name, offset).
        bindR (ReadSwTraceString ''Error swTraceUINameLength is an invalid size''
          buffer offset packetLength) (\<lambda>(uiName, offset).
        bindR (ReadSwTraceString ''Error swTraceArgTypesLength is an invalid size''
          buffer offset packetLength) (\<lambda>(argTypes, offset).
        bindR (ReadSwTraceString ''Error swTraceArgNamesLength is an invalid size''
          buffer offset packetLength) (\<lambda>(argNames, offset).
        Inr (\<lparr>m_Id = readDeclId, m_Name = name, m_UiName = uiName, m_ArgTypes = argTypes,
              m_ArgNames = getline_loop (CHR '','') [] argNames\<rparr>, offset)))))))"

subsection \<open>The bytes of a string\<close>

definition padded :: "string \<Rightarrow> byte list" where
  "padded s = map byte_of s @ replicate (4 * ((length s + 4) div 4) - length s) 0"

definition sw_bytes :: "string \<Rightarrow> byte list" where
  "sw_bytes s = le_bytes 4 (of_nat (length s + 1) :: 32 word) @ padded s"

lemma out_size: "1 + (n + 1) div 4 + (if (n + 1) mod 4 \<noteq> 0 then 1 else 0) - 1 = (n + 4) div (4::nat)"
proof (cases "(n + 1) mod 4 = 0")
  case True
  then show ?thesis by simp presburger
next
  case False
  then show ?thesis by simp presburger
qed

lemma length_padded: "length (padded s) = 4 * ((length s + 4) div 4)"
proof -
  have "length s \<le> 4 * ((length s + 4) div 4)" by presburger
  then show ?thesis by (simp add: padded_def)
qed

lemma words_bytes_raw:
  "length raw = 4 * n \<Longrightarrow> words_bytes (map (\<lambda>i. ReadUint32 raw (4 * i)) [0..<n]) = raw"
proof (induction n arbitrary: raw)
  case 0
  then show ?case by simp
next
  case (Suc n)
  have eq: "map (\<lambda>i. ReadUint32 raw (4 * i)) [0..<n] = map (\<lambda>i. ReadUint32 (take (4 * n) raw) (4 * i)) [0..<n]"
  proof (rule map_cong [OF refl])
    fix i assume "i \<in> set [0..<n]"
    then have i: "4 * i + 4 \<le> 4 * n" by auto
    then have "take 4 (drop (4 * i) (take (4 * n) raw)) = take 4 (drop (4 * i) raw)"
      by (simp add: drop_take min_def)
    then show "ReadUint32 raw (4 * i) = ReadUint32 (take (4 * n) raw) (4 * i)"
      using i Suc.prems u32.read_local [of "4 * i" raw] u32.read_local [of "4 * i" "take (4 * n) raw"]
      by simp
  qed
  have "le_bytes 4 (ReadUint32 raw (4 * n)) = drop (4 * n) raw"
    using Suc.prems u32.read_local [of "4 * n" raw] u32.encode_fetch [of "drop (4 * n) raw"] by simp
  moreover have "words_bytes (map (\<lambda>i. ReadUint32 raw (4 * i)) [0..<n]) = take (4 * n) raw"
    unfolding eq using Suc.prems by (intro Suc.IH) simp
  ultimately show ?case by simp
qed

lemma StringToSwTraceString_valid:
  assumes "IsValidSwTraceString policy s"
  obtains ws where "StringToSwTraceString policy s = (True, ws)" "words_bytes ws = sw_bytes s"
    "length ws = 1 + (length s + 4) div 4"
proof -
  let ?n = "(length s + 4) div 4"
  let ?raw = "WriteBytes (replicate (4 * ?n) 0) 0 (map byte_of s @ [0])"
  let ?ws = "of_nat (length s + 1) # map (\<lambda>i. ReadUint32 ?raw (4 * i)) [0..<?n]"
  have fits: "length s + 1 \<le> 4 * ?n" by presburger
  then have raw: "?raw = padded s"
  proof -
    have "4 * ?n - length s = Suc (4 * ?n - (length s + 1))" using fits by simp
    then show ?thesis using fits
      by (subst WriteBytes_overwrite) (simp_all add: overwrite_def padded_def replicate_append_same)
  qed
  have "StringToSwTraceString policy s = (True, ?ws)"
    by (simp only: StringToSwTraceString_def Let_def assms out_size not_True_eq_False if_False)
  moreover have "words_bytes ?ws = sw_bytes s"
    using words_bytes_raw [of ?raw ?n] raw length_padded [of s] by (simp add: sw_bytes_def)
  ultimately show ?thesis using that by simp
qed

lemma StringToSwTraceString_snd:
  assumes "IsValidSwTraceString policy s"
  shows "StringToSwTraceString policy s = (True, snd (StringToSwTraceString policy s))"
    "length (snd (StringToSwTraceString policy s)) = 1 + (length s + 4) div 4"
    "words_bytes (snd (StringToSwTraceString policy s)) = sw_bytes s"
  using StringToSwTraceString_valid [OF assms] by (metis snd_conv)+

lemma CalculateSizeOfPaddedSwString_valid:
  assumes "IsValidSwTraceString SwTraceCharPolicy s" "length s + 4 < 2 ^ 32"
  shows "CalculateSizeOfPaddedSwString s = length (padded s)"
proof -
  let ?n = "(length s + 4) div 4"
  obtain ws where "StringToSwTraceString SwTraceCharPolicy s = (True, ws)" "length ws = 1 + ?n"
    using StringToSwTraceString_valid [OF assms(1)] by metis
  moreover have "4 * ?n \<le> length s + 4" "?n + 1 \<le> length s + 4" by presburger+
  ultimately show ?thesis using assms(2)
    by (simp add: CalculateSizeOfPaddedSwString_def u32_sub_small u32_mul_small length_padded)
qed

text \<open>The reader looks at the size and the characters only, not at the padding.\<close>

definition unpadded :: "string \<Rightarrow> byte list" where
  "unpadded s = le_bytes 4 (of_nat (length s + 1) :: 32 word) @ map byte_of s"

lemma unpadded_at: "holds_at b p (sw_bytes s) \<Longrightarrow> holds_at b p (unpadded s)"
  by (simp add: sw_bytes_def padded_def unpadded_def holds_at_append)

lemma ReadSwTraceString_at:
  assumes s: "IsValidSwTraceString SwTraceCharPolicy s" "length s + 1 \<le> packetLength"
    and b: "holds_at b p (unpadded s)" "p + length (sw_bytes s) < 2 ^ 32"
  shows "ReadSwTraceString msg b p packetLength = Inr (s, p + length (sw_bytes s))"
proof -
  let ?len = "of_nat (length s + 1) :: 32 word"
  have n: "length s + 4 < 4294967296" "length s + 4 + p < 4294967296 + 4"
    using b(2) by (simp_all add: sw_bytes_def length_padded)
  then have len: "unat ?len = length s + 1"
    by (simp only: unat_of_nat) simp
  have at: "holds_at b p (le_bytes 4 ?len)" and str: "holds_at b (p + 4) (map byte_of s)"
    using b(1) by (simp_all add: unpadded_def holds_at_append)
  have pos: "u32_add p 4 = p + 4"
    "u32_add (p + 4) (length (padded s)) = p + length (sw_bytes s)"
    using b(2) by (simp_all add: u32_add_small sw_bytes_def)
  have bytes: "ReadBytes b (p + 4) (length s) = map byte_of s"
    using ReadBytes_at [OF str] by simp
  have sz: "CalculateSizeOfPaddedSwString s = length (padded s)"
    using CalculateSizeOfPaddedSwString_valid [OF s(1)] n by simp
  have fits: "p + 4 \<le> length b" "p + 4 + length s \<le> length b"
    using holds_at_length [OF str] by simp_all
  have read: "ReadUint32 b p = ?len" using at by (rule u32.read_at)
  have "?len \<noteq> 0" using len by (metis add_is_0 unat_0 zero_neq_one)
  then show ?thesis
    using s(2) fits
    by (simp add: ReadSwTraceString_def fetch_checked_def Let_def read len [simplified] pos bytes sz comp_def)
qed

subsection \<open>Reading back a declaration\<close>

text \<open>The layout of one declaration of the directory.\<close>

definition message_bytes :: "32 word \<Rightarrow> string \<Rightarrow> string \<Rightarrow> string \<Rightarrow> string \<Rightarrow> byte list" where
  "message_bytes ident name uiName argTypes argNames =
     le_bytes 4 ident @ sw_bytes name @ sw_bytes uiName @ sw_bytes argTypes @ sw_bytes argNames"

lemma ReadSwTraceMessage_at:
  assumes valid: "\<And>s. s \<in> {name, ui, types, args} \<Longrightarrow> IsValidSwTraceString SwTraceCharPolicy s"
    and len: "\<And>s. s \<in> {name, ui, types, args} \<Longrightarrow> length s + 1 \<le> packetLength"
    and b: "holds_at b p (le_bytes 4 ident @ sw_bytes name @ sw_bytes ui @ sw_bytes types @ unpadded args)"
      "p + length (message_bytes ident name ui types args) < 2 ^ 32"
  shows "ReadSwTraceMessage (Some b) p packetLength =
    Inr (\<lparr>m_Id = ident, m_Name = name, m_UiName = ui, m_ArgTypes = types,
          m_ArgNames = getline_loop (CHR '','') [] args\<rparr>,
         p + length (message_bytes ident name ui types args))"
proof -
  let ?q1 = "p + 4" let ?q2 = "?q1 + length (sw_bytes name)"
  let ?q3 = "?q2 + length (sw_bytes ui)" let ?q4 = "?q3 + length (sw_bytes types)"
  have at: "holds_at b p (le_bytes 4 ident)" "holds_at b ?q1 (unpadded name)"
    "holds_at b ?q2 (unpadded ui)" "holds_at b ?q3 (unpadded types)" "holds_at b ?q4 (unpadded args)"
    using b(1) by (auto simp: holds_at_append add.assoc intro: unpadded_at)
  have total: "?q4 + length (sw_bytes args) < 2 ^ 32"
    using b(2) by (simp add: message_bytes_def)
  have ident: "fetch_checked 4 ReadUint32 b p = Inr ident"
    using u32.read_at [OF at(1)] holds_at_length [OF at(1)] by simp
  have q1: "u32_add p 4 = ?q1" using total by (intro u32_add_small) simp
  note reads = ReadSwTraceString_at [OF valid len at(2)] ReadSwTraceString_at [OF valid len at(3)]
    ReadSwTraceString_at [OF valid len at(4)] ReadSwTraceString_at [OF valid len at(5)]
  show ?thesis
    using total by (simp add: ReadSwTraceMessage_def ident q1 reads message_bytes_def)
qed

text \<open>The argument names as the writer has them: separated by commas.\<close>

fun join_names :: "string list \<Rightarrow> string" where
  "join_names [] = []"
| "join_names [n] = n"
| "join_names (n # ns) = n @ '','' @ join_names ns"

lemma getline_loop_skip:
  "CHR '','' \<notin> set n \<Longrightarrow> getline_loop (CHR '','') acc (n @ cs) = getline_loop (CHR '','') (acc @ n) cs"
  by (induction n arbitrary: acc) auto

lemma getline_join:
  "(\<And>n. n \<in> set ns \<Longrightarrow> n \<noteq> [] \<and> CHR '','' \<notin> set n) \<Longrightarrow> getline_loop (CHR '','') [] (join_names ns) = ns"
proof (induction ns rule: join_names.induct)
  case 1
  then show ?case by simp
next
  case (2 n)
  then show ?case using getline_loop_skip [of n "[]" "[]"] by simp
next
  case (3 n m ns)
  then have "CHR '','' \<notin> set n" by simp
  with 3 show ?case using getline_loop_skip [of n "[]" "'','' @ join_names (m # ns)"] by simp
qed

text \<open>
  C25: A SWTrace declaration survives the trip over the wire. When the four strings have only
  characters of the policies the writer converts them with, and the argument names are
  non-empty and free of commas, the reader given the bytes of the converted strings anywhere
  in a packet returns the identifier, the three strings and the list of argument names, and
  moves the offset just past the declaration.
\<close>

theorem SwTrace_roundtrip:
  assumes strings: "StringToSwTraceString SwTraceNameCharPolicy name = (True, w1)"
      "StringToSwTraceString SwTraceCharPolicy ui = (True, w2)"
      "StringToSwTraceString SwTraceTypeCharPolicy types = (True, w3)"
      "StringToSwTraceString SwTraceCharPolicy (join_names names) = (True, w4)"
    and names: "\<And>n. n \<in> set names \<Longrightarrow> n \<noteq> [] \<and> CHR '','' \<notin> set n"
    and b: "b = pre @ words_bytes (ident # w1 @ w2 @ w3 @ w4) @ post" "length b < 2 ^ 32"
  shows "ReadSwTraceMessage (Some b) (length pre) (length b) =
    Inr (\<lparr>m_Id = ident, m_Name = name, m_UiName = ui, m_ArgTypes = types, m_ArgNames = names\<rparr>,
         length pre + 4 * length (ident # w1 @ w2 @ w3 @ w4))"
proof -
  have valid: "IsValidSwTraceString pol s \<and> words_bytes w = sw_bytes s"
    if "StringToSwTraceString pol s = (True, w)" for pol s w
  proof -
    have "IsValidSwTraceString pol s" using that by (auto simp: StringToSwTraceString_def split: if_splits)
    then show ?thesis using StringToSwTraceString_valid [of pol s] that by (metis Pair_inject)
  qed
  have v: "IsValidSwTraceString SwTraceCharPolicy s" if "s \<in> {name, ui, types, join_names names}" for s
    using that valid [OF strings(1)] valid [OF strings(2)] valid [OF strings(3)] valid [OF strings(4)]
      valid_ascii by auto
  let ?m = "message_bytes ident name ui types (join_names names)"
  have m: "words_bytes (ident # w1 @ w2 @ w3 @ w4) = ?m"
    using valid [OF strings(1)] valid [OF strings(2)] valid [OF strings(3)] valid [OF strings(4)]
    by (simp add: message_bytes_def)
  have len: "length s + 1 \<le> length b" if "s \<in> {name, ui, types, join_names names}" for s
  proof -
    have "length s + 4 \<le> length (sw_bytes s)" by (simp add: sw_bytes_def padded_def)
    moreover have "length (sw_bytes s) \<le> length ?m" using that by (auto simp: message_bytes_def)
    moreover have "length ?m \<le> length b" by (simp only: b(1) m) simp
    ultimately show ?thesis by simp
  qed
  have "holds_at b (length pre) ?m" by (simp only: b(1) m holds_at_mid)
  then have "holds_at b (length pre) (le_bytes 4 ident @ sw_bytes name @ sw_bytes ui @ sw_bytes types @
      unpadded (join_names names))"
    by (auto simp: message_bytes_def holds_at_append intro: unpadded_at)
  moreover have "length pre + length ?m < 2 ^ 32" using b m [symmetric] by simp
  ultimately show ?thesis
    using ReadSwTraceMessage_at [of name ui types "join_names names" "length b" b "length pre" ident]
      v len getline_join [OF names] m [symmetric] by (simp only: length_words_bytes)
qed

theorem SwTrace_roundtrip_witness:
  "\<exists>b. ReadSwTraceMessage (Some b) 0 (length b) =
     Inr (\<lparr>m_Id = 2, m_Name = ''ab_1'', m_UiName = ''a b'', m_ArgTypes = ''pp'',
           m_ArgNames = [''guid'', ''nameGuid'']\<rparr>, 52)"
proof -
  let ?args = "join_names [''guid'', ''nameGuid'']"
  have 1: "IsValidSwTraceString SwTraceNameCharPolicy ''ab_1''"
    by (simp add: IsValidSwTraceString_def SwTraceNameCharPolicy_def isalnum_def)
  have 2: "IsValidSwTraceString SwTraceCharPolicy ''a b''"
    by (simp add: IsValidSwTraceString_def SwTraceCharPolicy_def)
  have 3: "IsValidSwTraceString SwTraceTypeCharPolicy ''pp''"
    by (simp add: IsValidSwTraceString_def SwTraceTypeCharPolicy_def)
  have 4: "IsValidSwTraceString SwTraceCharPolicy ?args"
    by (simp add: IsValidSwTraceString_def SwTraceCharPolicy_def)
  note w = StringToSwTraceString_snd [OF 1] StringToSwTraceString_snd [OF 2]
    StringToSwTraceString_snd [OF 3] StringToSwTraceString_snd [OF 4]
  let ?w1 = "snd (StringToSwTraceString SwTraceNameCharPolicy ''ab_1'')"
  let ?w2 = "snd (StringToSwTraceString SwTraceCharPolicy ''a b'')"
  let ?w3 = "snd (StringToSwTraceString SwTraceTypeCharPolicy ''pp'')"
  let ?w4 = "snd (StringToSwTraceString SwTraceCharPolicy ?args)"
  have len: "length (2 # ?w1 @ ?w2 @ ?w3 @ ?w4) = 13"
    using w(11) by (simp add: w(2,5,8))
  let ?b = "words_bytes (2 # ?w1 @ ?w2 @ ?w3 @ ?w4)"
  have "length ?b < 2 ^ 32" by (simp only: length_words_bytes len) simp
  have names: "n \<noteq> [] \<and> CHR '','' \<notin> set n" if "n \<in> set [''guid'', ''nameGuid'']" for n
    using that by auto
  have num: "0 + 4 * 13 = (52 :: nat)" by simp
  have "?b = [] @ ?b @ []" by (simp only: append_Nil append_Nil2)
  note SwTrace_roundtrip [OF w(1,4,7,10) names this \<open>length ?b < 2 ^ 32\<close>]
  then have "ReadSwTraceMessage (Some ?b) 0 (length ?b) =
     Inr (\<lparr>m_Id = 2, m_Name = ''ab_1'', m_UiName = ''a b'', m_ArgTypes = ''pp'',
           m_ArgNames = [''guid'', ''nameGuid'']\<rparr>, 52)"
    by (simp only: len list.size(3) num)
  then show ?thesis by blast
qed

end
