(* ===== verification/TimelinePackets.thy ===== *)
theory TimelinePackets
  imports SwTrace
begin

section \<open>Timeline packets (profiling/client ProfilingUtils.cpp, profiling/server timelineDecoder)\<close>

text \<open>
  The client side writes timeline messages into a buffer; the server side receives a packet,
  parses its messages and hands them to the decoder, which keeps them in its model. The two
  sides are separate programs; the theorems say that they agree on the format.
\<close>

subsection \<open>Packet headers and packets\<close>

definition ConstructHeader :: "32 word \<Rightarrow> 32 word \<Rightarrow> 32 word" where
  "ConstructHeader packetFamily packetId =
     push_bit 26 (packetFamily AND 0x3F) OR push_bit 16 (packetId AND 0x3FF)"

definition ConstructHeader3 :: "32 word \<Rightarrow> 32 word \<Rightarrow> 32 word \<Rightarrow> 32 word" where
  "ConstructHeader3 packetFamily packetClass packetType =
     push_bit 26 (packetFamily AND 0x3F) OR push_bit 19 (packetClass AND 0x7F) OR
     push_bit 16 (packetType AND 0x7)"

definition CreateTimelinePacketHeader ::
    "32 word \<Rightarrow> 32 word \<Rightarrow> 32 word \<Rightarrow> 32 word \<Rightarrow> 32 word \<Rightarrow> 32 word \<Rightarrow> 32 word \<times> 32 word" where
  "CreateTimelinePacketHeader packetFamily packetClass packetType streamId sequenceNumbered dataLength =
     (push_bit 26 (packetFamily AND 0x3F) OR push_bit 19 (packetClass AND 0x7F) OR
        push_bit 16 (packetType AND 0x7) OR push_bit 0 (streamId AND 0x7),
      push_bit 24 (sequenceNumbered AND 1) OR push_bit 0 (dataLength AND 0xFFFFFF))"

definition CreateTimelineMessagePacketHeader :: "32 word \<Rightarrow> 32 word \<times> 32 word" where
  "CreateTimelineMessagePacketHeader dataLength = CreateTimelinePacketHeader 1 0 1 0 0 dataLength"

record Packet =
  m_Header :: "32 word"
  m_PacketFamily :: "32 word"
  m_PacketId :: "32 word"
  m_Length :: "32 word"
  m_Data :: "byte list option"

definition Packet_default :: Packet where
  "Packet_default = \<lparr>m_Header = 0, m_PacketFamily = 0, m_PacketId = 0, m_Length = 0, m_Data = None\<rparr>"

definition Packet_header :: "32 word \<Rightarrow> Packet" where
  "Packet_header header =
     \<lparr>m_Header = header, m_PacketFamily = drop_bit 26 header,
      m_PacketId = drop_bit 16 header AND 1023, m_Length = 0, m_Data = None\<rparr>"

definition Packet_make :: "32 word \<Rightarrow> 32 word \<Rightarrow> byte list option \<Rightarrow> Packet result" where
  "Packet_make header len data =
     bindR (throw_if (len = 0 \<and> data \<noteq> None)
       (InvalidArgumentException ''Data should be null when length is zero'')) (\<lambda>_.
     Inr \<lparr>m_Header = header, m_PacketFamily = drop_bit 26 header,
          m_PacketId = drop_bit 16 header AND 1023, m_Length = len, m_Data = data\<rparr>)"

definition GetPacketClass :: "Packet \<Rightarrow> 32 word" where
  "GetPacketClass p = drop_bit 3 (m_PacketId p)"

definition GetPacketType :: "Packet \<Rightarrow> 32 word" where
  "GetPacketType p = m_PacketId p AND 7"

definition IsEmpty :: "Packet \<Rightarrow> bool" where
  "IsEmpty p \<longleftrightarrow> m_Header p = 0 \<and> m_Length p = 0"

text \<open>
  Only the eight header bytes are checked against \<open>length\<close>; the copy of the data is a
  checked read of the memory behind the pointer.
\<close>

definition ReceivePacket :: "byte list option \<Rightarrow> nat \<Rightarrow> Packet result" where
  "ReceivePacket buffer len =
     (case buffer of
        None \<Rightarrow> Inl (ProfilingException ''data buffer is nullptr'')
      | Some b \<Rightarrow>
        bindR (throw_if (len < 8) (ProfilingException ''length of data buffer is less than 8'')) (\<lambda>_.
        bindR (fetch_checked 4 ReadUint32 b 0) (\<lambda>metadataIdentifier.
        bindR (fetch_checked 4 ReadUint32 b 4) (\<lambda>dataLength.
        if dataLength \<noteq> 0 then
          bindR (fetch_checked (unat dataLength) (\<lambda>b p. ReadBytes b p (unat dataLength)) b 8) (\<lambda>packetData.
          Packet_make metadataIdentifier dataLength (Some packetData))
        else Packet_make metadataIdentifier dataLength None))))"

subsection \<open>Writing messages\<close>

datatype TimelinePacketStatus = Ok | Error | BufferExhaustion

datatype ProfilingRelationshipType = RetentionLink | ExecutionLink | DataLink | LabelLink

text \<open>The status, the buffer behind the pointer and \<open>numberOfBytesWritten\<close>.\<close>

type_synonym written = "TimelinePacketStatus \<times> byte list option \<times> nat"

text \<open>
  The test every writer starts with: \<open>nullptr\<close> and an empty rest of the buffer are
  exhausted.
\<close>

definition given_buffer :: "byte list option \<Rightarrow> nat \<Rightarrow> (byte list \<Rightarrow> written) \<Rightarrow> written" where
  "given_buffer buffer remainingBufferSize body =
     (case buffer of
        None \<Rightarrow> (BufferExhaustion, None, 0)
      | Some b \<Rightarrow> if remainingBufferSize = 0 then (BufferExhaustion, Some b, 0) else body b)"

definition WriteTimelineLabelBinaryPacket :: "64 word \<Rightarrow> string \<Rightarrow> byte list option \<Rightarrow> nat \<Rightarrow> written" where
  "WriteTimelineLabelBinaryPacket profilingGuid label buffer remainingBufferSize =
     given_buffer buffer remainingBufferSize (\<lambda>b.
       case StringToSwTraceString SwTraceCharPolicy label of (result, swTraceLabel) \<Rightarrow>
       if \<not> result then (Error, Some b, 0)
       else
         let swTraceLabelSize = u32_mul (u32 (length swTraceLabel)) 4;
             timelineLabelPacketDataLength = u32_add (4 + 8) swTraceLabelSize
         in if timelineLabelPacketDataLength > remainingBufferSize then (BufferExhaustion, Some b, 0)
            else
              let b = WriteUint32 b 0 0;
                  b = WriteUint64 b 4 profilingGuid;
                  b = write_words b 12 swTraceLabel
              in (Ok, Some b, timelineLabelPacketDataLength))"

definition WriteTimelineEntityBinary :: "64 word \<Rightarrow> byte list option \<Rightarrow> nat \<Rightarrow> written" where
  "WriteTimelineEntityBinary profilingGuid buffer remainingBufferSize =
     given_buffer buffer remainingBufferSize (\<lambda>b.
       let timelineEntityDataLength = 4 + 8 in
       if timelineEntityDataLength > remainingBufferSize then (BufferExhaustion, Some b, 0)
       else
         let b = WriteUint32 b 0 1;
             b = WriteUint64 b 4 profilingGuid
         in (Ok, Some b, timelineEntityDataLength))"

fun relationshipTypeUint :: "ProfilingRelationshipType \<Rightarrow> 32 word" where
  "relationshipTypeUint RetentionLink = 0"
| "relationshipTypeUint ExecutionLink = 1"
| "relationshipTypeUint DataLink = 2"
| "relationshipTypeUint LabelLink = 3"

definition WriteTimelineRelationshipBinary ::
    "ProfilingRelationshipType \<Rightarrow> 64 word \<Rightarrow> 64 word \<Rightarrow> 64 word \<Rightarrow> 64 word \<Rightarrow>
     byte list option \<Rightarrow> nat \<Rightarrow> written" where
  "WriteTimelineRelationshipBinary relationshipType relationshipGuid headGuid tailGuid attributeGuid
     buffer remainingBufferSize =
     given_buffer buffer remainingBufferSize (\<lambda>b.
       let timelineRelationshipDataLength = 4 * 2 + 8 * 4 in
       if timelineRelationshipDataLength > remainingBufferSize then (BufferExhaustion, Some b, 0)
       else
         let b = WriteUint32 b 0 3;
             b = WriteUint32 b 4 (relationshipTypeUint relationshipType);
             b = WriteUint64 b 8 relationshipGuid;
             b = WriteUint64 b 16 headGuid;
             b = WriteUint64 b 24 tailGuid;
             b = WriteUint64 b 32 attributeGuid
         in (Ok, Some b, timelineRelationshipDataLength))"

definition WriteTimelineEventClassBinary :: "64 word \<Rightarrow> 64 word \<Rightarrow> byte list option \<Rightarrow> nat \<Rightarrow> written" where
  "WriteTimelineEventClassBinary profilingGuid nameGuid buffer remainingBufferSize =
     given_buffer buffer remainingBufferSize (\<lambda>b.
       let dataSize = 4 + 8 * 2 in
       if dataSize > remainingBufferSize then (BufferExhaustion, Some b, 0)
       else
         let b = WriteUint32 b 0 2;
             b = WriteUint64 b 4 profilingGuid;
             b = WriteUint64 b 12 nameGuid
         in (Ok, Some b, dataSize))"

text \<open>\<open>sizeof(int)\<close>, and the four bytes of an \<open>int\<close> on a little-endian host.\<close>

definition ThreadIdSize :: nat where
  "ThreadIdSize = 4"

definition WriteTimelineEventBinary ::
    "64 word \<Rightarrow> 32 word \<Rightarrow> 64 word \<Rightarrow> byte list option \<Rightarrow> nat \<Rightarrow> written" where
  "WriteTimelineEventBinary timestamp threadId profilingGuid buffer remainingBufferSize =
     given_buffer buffer remainingBufferSize (\<lambda>b.
       let timelineEventDataLength = 4 + 8 + ThreadIdSize + 8 in
       if timelineEventDataLength > remainingBufferSize then (BufferExhaustion, Some b, 0)
       else
         let b = WriteUint32 b 0 4;
             b = WriteUint64 b 4 timestamp;
             b = WriteBytes b 12 (le_bytes ThreadIdSize threadId);
             b = WriteUint64 b (12 + ThreadIdSize) profilingGuid
         in (Ok, Some b, timelineEventDataLength))"

subsection \<open>The directory package\<close>

type_synonym decl_row = "nat \<times> string \<times> string \<times> string \<times> string"

definition timelineDirectoryMessages :: "decl_row list" where
  "timelineDirectoryMessages =
     [(0, ''declareLabel'', ''declare label'', ''ps'', ''guid,value''),
      (1, ''declareEntity'', ''declare entity'', ''p'', ''guid''),
      (2, ''declareEventClass'', ''declare event class'', ''pp'', ''guid,nameGuid''),
      (3, ''declareRelationship'', ''declare relationship'', ''Ipppp'',
       ''relationshipType,relationshipGuid,headGuid,tailGuid,attributeGuid''),
      (4, ''declareEvent'', ''declare event'', ''@tp'', ''timestamp,threadId,eventGuid'')]"

text \<open>
  The loop that builds the declarations; the identifiers are written as the numbers
  \<open>std::stoul\<close> reads. All four components are converted before the result is tested.
\<close>

fun build_declarations :: "decl_row list \<Rightarrow> 32 word list \<Rightarrow> 32 word list option" where
  "build_declarations [] swTraceBuffer = Some swTraceBuffer"
| "build_declarations ((declId, name, uiName, argTypes, argNames) # rest) swTraceBuffer =
     (let buf = swTraceBuffer @ [of_nat declId];
          (r1, buf) = ConvertDirectoryComponent SwTraceNameCharPolicy name buf;
          (r2, buf) = ConvertDirectoryComponent SwTraceCharPolicy uiName buf;
          (r3, buf) = ConvertDirectoryComponent SwTraceTypeCharPolicy argTypes buf;
          (r4, buf) = ConvertDirectoryComponent SwTraceCharPolicy argNames buf
      in if \<not> (r1 \<and> r2 \<and> r3 \<and> r4) then None else build_declarations rest buf)"

definition WriteTimelineMessageDirectoryPackage :: "byte list option \<Rightarrow> nat \<Rightarrow> written" where
  "WriteTimelineMessageDirectoryPackage buffer remainingBufferSize =
     given_buffer buffer remainingBufferSize (\<lambda>b.
       case build_declarations timelineDirectoryMessages [] of
         None \<Rightarrow> (Error, Some b, 0)
       | Some swTraceBuffer \<Rightarrow>
         let dataLength = 3 * 1 + length swTraceBuffer * 4;
             timelineDirectoryPacketSize = 2 * 4 + dataLength
         in if timelineDirectoryPacketSize > remainingBufferSize then (BufferExhaustion, Some b, 0)
            else
              let packetHeader = CreateTimelinePacketHeader 1 0 0 0 0 (of_nat dataLength);
                  b = WriteUint32 b 0 (fst packetHeader);
                  b = WriteUint32 b 4 (snd packetHeader)
              in if ThreadIdSize \<noteq> 4 \<and> ThreadIdSize \<noteq> 8 then (Error, Some b, 0)
                 else
                   let b = WriteUint8 b 8 4;
                       b = WriteUint8 b 9 8;
                       b = WriteUint8 b 10 (of_nat ThreadIdSize);
                       b = WriteUint32 b 11 (of_nat (length timelineDirectoryMessages));
                       b = write_words b 15 swTraceBuffer
                   in (Ok, Some b, timelineDirectoryPacketSize))"

subsection \<open>What the writers write\<close>

text \<open>The five messages and the layout of each on the wire.\<close>

datatype timeline_message =
    LabelMessage "64 word" string
  | EntityMessage "64 word"
  | EventClassMessage "64 word" "64 word"
  | RelationshipMessage ProfilingRelationshipType "64 word" "64 word" "64 word" "64 word"
  | EventMessage "64 word" "32 word" "64 word"

fun wire_format :: "timeline_message \<Rightarrow> byte list" where
  "wire_format (LabelMessage guid label) = le_bytes 4 (0 :: 32 word) @ le_bytes 8 guid @ sw_bytes label"
| "wire_format (EntityMessage guid) = le_bytes 4 (1 :: 32 word) @ le_bytes 8 guid"
| "wire_format (EventClassMessage guid nameGuid) =
     le_bytes 4 (2 :: 32 word) @ le_bytes 8 guid @ le_bytes 8 nameGuid"
| "wire_format (RelationshipMessage type guid headGuid tailGuid attributeGuid) =
     le_bytes 4 (3 :: 32 word) @ le_bytes 4 (relationshipTypeUint type) @ le_bytes 8 guid @
     le_bytes 8 headGuid @ le_bytes 8 tailGuid @ le_bytes 8 attributeGuid"
| "wire_format (EventMessage timestamp threadId guid) =
     le_bytes 4 (4 :: 32 word) @ le_bytes 8 timestamp @ le_bytes 4 threadId @ le_bytes 8 guid"

fun write_message :: "timeline_message \<Rightarrow> byte list option \<Rightarrow> nat \<Rightarrow> written" where
  "write_message (LabelMessage guid label) = WriteTimelineLabelBinaryPacket guid label"
| "write_message (EntityMessage guid) = WriteTimelineEntityBinary guid"
| "write_message (EventClassMessage guid nameGuid) = WriteTimelineEventClassBinary guid nameGuid"
| "write_message (RelationshipMessage type guid headGuid tailGuid attributeGuid) =
     WriteTimelineRelationshipBinary type guid headGuid tailGuid attributeGuid"
| "write_message (EventMessage timestamp threadId guid) = WriteTimelineEventBinary timestamp threadId guid"

text \<open>A label has to be ASCII and far below four gigabytes; the other messages are always valid.\<close>

fun valid_message :: "timeline_message \<Rightarrow> bool" where
  "valid_message (LabelMessage guid label) \<longleftrightarrow>
     IsValidSwTraceString SwTraceCharPolicy label \<and> length label < 2 ^ 31"
| "valid_message _ \<longleftrightarrow> True"

lemma length_sw_bytes: "length (sw_bytes s) = 4 + 4 * ((length s + 4) div 4)"
  by (simp add: sw_bytes_def length_padded)

lemma length_wire_format_pos: "12 \<le> length (wire_format m)"
  by (cases m) auto

lemma overwrite_snoc:
  "p + length xs + length ys \<le> length b \<Longrightarrow> q = p + length xs \<Longrightarrow>
     overwrite (overwrite b p xs) q ys = overwrite b p (xs @ ys)"
  by (simp add: overwrite_append)

lemmas write_simps = Write_overwrite write_words_overwrite WriteBytes_overwrite overwrite_snoc

lemma write_label:
  assumes "IsValidSwTraceString SwTraceCharPolicy label" "length label < 2 ^ 31" "remaining \<le> length b"
  shows "WriteTimelineLabelBinaryPacket guid label (Some b) remaining =
    (let bytes = wire_format (LabelMessage guid label) in
     if length bytes \<le> remaining then (Ok, Some (overwrite b 0 bytes), length bytes)
     else (BufferExhaustion, Some b, 0))"
proof -
  let ?n = "(length label + 4) div 4"
  obtain ws where ws: "StringToSwTraceString SwTraceCharPolicy label = (True, ws)"
    "words_bytes ws = sw_bytes label" "length ws = 1 + ?n"
    using StringToSwTraceString_valid [OF assms(1)] .
  have "4 * ?n \<le> length label + 4" by presburger
  then have n: "4 * ?n < 2 ^ 31 + 4" using assms(2) by linarith
  then have size: "u32_add 12 (u32_mul (u32 (Suc ?n)) 4) = 16 + 4 * ?n"
    by (simp add: u32_small u32_mul_small u32_add_small)
  have bytes: "length (wire_format (LabelMessage guid label)) = 16 + 4 * ?n"
    by (simp add: length_sw_bytes)
  show ?thesis
  proof (cases "remaining = 0 \<or> 16 + 4 * ?n > remaining")
    case True
    then show ?thesis
      by (auto simp: WriteTimelineLabelBinaryPacket_def given_buffer_def ws size bytes Let_def
          simp del: wire_format.simps)
  next
    case False
    then have "write_words (WriteUint64 (WriteUint32 b 0 0) 4 guid) 12 ws =
        overwrite b 0 (wire_format (LabelMessage guid label))"
      using assms(3) by (simp add: write_simps ws length_sw_bytes)
    then show ?thesis using False
      by (auto simp: WriteTimelineLabelBinaryPacket_def given_buffer_def ws size bytes Let_def
          simp del: wire_format.simps)
  qed
qed

lemma write_message_spec:
  assumes "valid_message m" "remaining \<le> length b"
  shows "write_message m (Some b) remaining =
    (let bytes = wire_format m in
     if length bytes \<le> remaining then (Ok, Some (overwrite b 0 bytes), length bytes)
     else (BufferExhaustion, Some b, 0))"
proof (cases m)
    case (LabelMessage guid label)
    then show ?thesis using write_label [of label remaining b guid] assms by simp
  next
    case (EntityMessage guid)
    then show ?thesis using assms(2)
      by (auto simp: WriteTimelineEntityBinary_def given_buffer_def write_simps Let_def)
  next
    case (EventClassMessage guid nameGuid)
    then show ?thesis using assms(2)
      by (auto simp: WriteTimelineEventClassBinary_def given_buffer_def write_simps Let_def)
  next
    case (RelationshipMessage type guid headGuid tailGuid attributeGuid)
    then show ?thesis using assms(2)
      by (auto simp: WriteTimelineRelationshipBinary_def given_buffer_def write_simps Let_def)
  next
    case (EventMessage timestamp threadId guid)
    then show ?thesis using assms(2)
      by (auto simp: WriteTimelineEventBinary_def ThreadIdSize_def given_buffer_def write_simps Let_def)
  qed

text \<open>
  Each of the five timeline writers is all or nothing. Given a valid message and a buffer
  with the stated number of bytes left, it either writes the whole message at the start of
  the buffer, changes no byte behind it and reports exactly the bytes it wrote, or it reports
  \<open>BufferExhaustion\<close> and zero bytes and leaves the buffer alone; which of the two depends
  only on whether the message fits.
\<close>

theorem write_message_correct:
  assumes "valid_message m" "remaining \<le> length b"
  shows "write_message m (Some b) remaining =
    (if length (wire_format m) \<le> remaining
     then (Ok, Some (wire_format m @ drop (length (wire_format m)) b), length (wire_format m))
     else (BufferExhaustion, Some b, 0))"
  using write_message_spec [OF assms] by (simp add: overwrite_def Let_def)

theorem write_message_correct_witness:
  "fst (write_message (EntityMessage 7) (Some (replicate 12 0)) 12) = Ok \<and>
   fst (write_message (EntityMessage 7) (Some (replicate 12 0)) 11) = BufferExhaustion"
  using write_message_correct [of "EntityMessage 7" 12 "replicate 12 0"]
    write_message_correct [of "EntityMessage 7" 11 "replicate 12 0"] by simp

end
