(* ===== verification/TimelineCapture.thy ===== *)
theory TimelineCapture
  imports TimelinePackets
begin

section \<open>Receiving timeline packets (profiling/server timelineDecoder)\<close>

text \<open>
  The decoder with its model and callbacks (TimelineDecoder.cpp), the handler that parses the
  messages of a packet (TimelineCaptureCommandHandler.cpp) and the one that parses the
  directory (TimelineDirectoryCaptureCommandHandler.cpp). Every read of the packet is checked
  against its end, so a message that is cut short ends in \<open>UndefinedBehaviour\<close>, as does an
  identifier outside the array of member functions.
\<close>

subsection \<open>The decoder\<close>

record Entity = e_Guid :: "64 word"

record EventClass =
  ec_Guid :: "64 word"
  ec_NameGuid :: "64 word"

record Event =
  ev_Guid :: "64 word"
  ev_TimeStamp :: "64 word"
  ev_ThreadId :: "64 word"

record Label =
  l_Guid :: "64 word"
  l_Name :: string

text \<open>The type is the number cast to the enumeration, which may be none of its constants.\<close>

record Relationship =
  r_RelationshipType :: "32 word"
  r_Guid :: "64 word"
  r_HeadGuid :: "64 word"
  r_TailGuid :: "64 word"
  r_AttributeGuid :: "64 word"

record Model =
  m_Entities :: "Entity list"
  m_EventClasses :: "EventClass list"
  m_Events :: "Event list"
  m_Labels :: "Label list"
  m_Relationships :: "Relationship list"

record TimelineDecoder =
  m_Model :: Model
  m_OnNewEntityCallback :: "(Model \<Rightarrow> Entity \<Rightarrow> Model) option"
  m_OnNewEventClassCallback :: "(Model \<Rightarrow> EventClass \<Rightarrow> Model) option"
  m_OnNewEventCallback :: "(Model \<Rightarrow> Event \<Rightarrow> Model) option"
  m_OnNewLabelCallback :: "(Model \<Rightarrow> Label \<Rightarrow> Model) option"
  m_OnNewRelationshipCallback :: "(Model \<Rightarrow> Relationship \<Rightarrow> Model) option"

datatype TimelineStatus = TimelineStatus_Success | TimelineStatus_Fail

definition CreateEntity :: "Entity \<Rightarrow> TimelineDecoder \<Rightarrow> TimelineStatus \<times> TimelineDecoder" where
  "CreateEntity entity d =
     (case m_OnNewEntityCallback d of
        None \<Rightarrow> (TimelineStatus_Fail, d)
      | Some cb \<Rightarrow> (TimelineStatus_Success, d\<lparr>m_Model := cb (m_Model d) entity\<rparr>))"

definition CreateEventClass :: "EventClass \<Rightarrow> TimelineDecoder \<Rightarrow> TimelineStatus \<times> TimelineDecoder" where
  "CreateEventClass eventClass d =
     (case m_OnNewEventClassCallback d of
        None \<Rightarrow> (TimelineStatus_Fail, d)
      | Some cb \<Rightarrow> (TimelineStatus_Success, d\<lparr>m_Model := cb (m_Model d) eventClass\<rparr>))"

definition CreateEvent :: "Event \<Rightarrow> TimelineDecoder \<Rightarrow> TimelineStatus \<times> TimelineDecoder" where
  "CreateEvent event d =
     (case m_OnNewEventCallback d of
        None \<Rightarrow> (TimelineStatus_Fail, d)
      | Some cb \<Rightarrow> (TimelineStatus_Success, d\<lparr>m_Model := cb (m_Model d) event\<rparr>))"

definition CreateLabel :: "Label \<Rightarrow> TimelineDecoder \<Rightarrow> TimelineStatus \<times> TimelineDecoder" where
  "CreateLabel label d =
     (case m_OnNewLabelCallback d of
        None \<Rightarrow> (TimelineStatus_Fail, d)
      | Some cb \<Rightarrow> (TimelineStatus_Success, d\<lparr>m_Model := cb (m_Model d) label\<rparr>))"

definition CreateRelationship :: "Relationship \<Rightarrow> TimelineDecoder \<Rightarrow> TimelineStatus \<times> TimelineDecoder" where
  "CreateRelationship relationship d =
     (case m_OnNewRelationshipCallback d of
        None \<Rightarrow> (TimelineStatus_Fail, d)
      | Some cb \<Rightarrow> (TimelineStatus_Success, d\<lparr>m_Model := cb (m_Model d) relationship\<rparr>))"

definition SetEntityCallback ::
    "(Model \<Rightarrow> Entity \<Rightarrow> Model) option \<Rightarrow> TimelineDecoder \<Rightarrow> TimelineStatus \<times> TimelineDecoder" where
  "SetEntityCallback cb d =
     (if cb = None then (TimelineStatus_Fail, d)
      else (TimelineStatus_Success, d\<lparr>m_OnNewEntityCallback := cb\<rparr>))"

definition SetEventClassCallback ::
    "(Model \<Rightarrow> EventClass \<Rightarrow> Model) option \<Rightarrow> TimelineDecoder \<Rightarrow> TimelineStatus \<times> TimelineDecoder" where
  "SetEventClassCallback cb d =
     (if cb = None then (TimelineStatus_Fail, d)
      else (TimelineStatus_Success, d\<lparr>m_OnNewEventClassCallback := cb\<rparr>))"

definition SetEventCallback ::
    "(Model \<Rightarrow> Event \<Rightarrow> Model) option \<Rightarrow> TimelineDecoder \<Rightarrow> TimelineStatus \<times> TimelineDecoder" where
  "SetEventCallback cb d =
     (if cb = None then (TimelineStatus_Fail, d)
      else (TimelineStatus_Success, d\<lparr>m_OnNewEventCallback := cb\<rparr>))"

definition SetLabelCallback ::
    "(Model \<Rightarrow> Label \<Rightarrow> Model) option \<Rightarrow> TimelineDecoder \<Rightarrow> TimelineStatus \<times> TimelineDecoder" where
  "SetLabelCallback cb d =
     (if cb = None then (TimelineStatus_Fail, d)
      else (TimelineStatus_Success, d\<lparr>m_OnNewLabelCallback := cb\<rparr>))"

definition SetRelationshipCallback ::
    "(Model \<Rightarrow> Relationship \<Rightarrow> Model) option \<Rightarrow> TimelineDecoder \<Rightarrow> TimelineStatus \<times> TimelineDecoder" where
  "SetRelationshipCallback cb d =
     (if cb = None then (TimelineStatus_Fail, d)
      else (TimelineStatus_Success, d\<lparr>m_OnNewRelationshipCallback := cb\<rparr>))"

definition SetDefaultCallbacks :: "TimelineDecoder \<Rightarrow> TimelineDecoder" where
  "SetDefaultCallbacks d =
     (let d = snd (SetEntityCallback (Some (\<lambda>model entity.
            model\<lparr>m_Entities := m_Entities model @ [entity]\<rparr>)) d);
          d = snd (SetEventClassCallback (Some (\<lambda>model eventClass.
            model\<lparr>m_EventClasses := m_EventClasses model @ [eventClass]\<rparr>)) d);
          d = snd (SetEventCallback (Some (\<lambda>model event.
            model\<lparr>m_Events := m_Events model @ [event]\<rparr>)) d);
          d = snd (SetLabelCallback (Some (\<lambda>model label.
            model\<lparr>m_Labels := m_Labels model @ [label]\<rparr>)) d)
      in snd (SetRelationshipCallback (Some (\<lambda>model relationship.
            model\<lparr>m_Relationships := m_Relationships model @ [relationship]\<rparr>)) d))"

subsection \<open>Parsing the messages of a packet\<close>

text \<open>
  A read function takes the data, the offset and the decoder and returns the status, the
  new offset and the decoder. The loop over the characters of a label reads
  \<open>nameLength - 1\<close> bytes in unsigned arithmetic.
\<close>

type_synonym parsed = "(TimelineStatus \<times> nat \<times> TimelineDecoder) result"

definition finish :: "TimelineStatus \<times> TimelineDecoder \<Rightarrow> nat \<Rightarrow> parsed" where
  "finish created offset = (case created of (status, d) \<Rightarrow> Inr (status, offset, d))"

lemma finish_Inr [simp]: "finish r p = Inr (s, q, d) \<longleftrightarrow> q = p \<and> r = (s, d)"
  by (auto simp: finish_def split: prod.splits)

lemma finish_eval [simp]: "finish (s, d) p = Inr (s, p, d)"
  by (simp add: finish_def)

definition ReadLabel :: "byte list \<Rightarrow> nat \<Rightarrow> TimelineDecoder \<Rightarrow> parsed" where
  "ReadLabel data offset d =
     bindR (fetch_checked 8 ReadUint64 data offset) (\<lambda>guid.
     let offset = u32_add offset 8 in
     bindR (fetch_checked 4 ReadUint32 data offset) (\<lambda>len.
     let offset = u32_add offset 4; nameLength = unat len; count = u32_sub nameLength 1 in
     bindR (fetch_checked count (\<lambda>b p. ReadBytes b p count) data offset) (\<lambda>chars.
     let uint32WordAmount = nameLength div 4 + (if nameLength mod 4 \<noteq> 0 then 1 else 0);
         offset = u32_add offset (u32_mul uint32WordAmount 4)
     in finish (CreateLabel \<lparr>l_Guid = guid, l_Name = map char_of_byte chars\<rparr> d) offset)))"

definition ReadEntity :: "byte list \<Rightarrow> nat \<Rightarrow> TimelineDecoder \<Rightarrow> parsed" where
  "ReadEntity data offset d =
     bindR (fetch_checked 8 ReadUint64 data offset) (\<lambda>guid.
     finish (CreateEntity \<lparr>e_Guid = guid\<rparr> d) (u32_add offset 8))"

definition ReadEventClass :: "byte list \<Rightarrow> nat \<Rightarrow> TimelineDecoder \<Rightarrow> parsed" where
  "ReadEventClass data offset d =
     bindR (fetch_checked 8 ReadUint64 data offset) (\<lambda>guid.
     let offset = u32_add offset 8 in
     bindR (fetch_checked 8 ReadUint64 data offset) (\<lambda>nameGuid.
     finish (CreateEventClass \<lparr>ec_Guid = guid, ec_NameGuid = nameGuid\<rparr> d) (u32_add offset 8)))"

definition ReadRelationship :: "byte list \<Rightarrow> nat \<Rightarrow> TimelineDecoder \<Rightarrow> parsed" where
  "ReadRelationship data offset d =
     bindR (fetch_checked 4 ReadUint32 data offset) (\<lambda>type.
     let offset = u32_add offset 4 in
     bindR (fetch_checked 8 ReadUint64 data offset) (\<lambda>guid.
     let offset = u32_add offset 8 in
     bindR (fetch_checked 8 ReadUint64 data offset) (\<lambda>headGuid.
     let offset = u32_add offset 8 in
     bindR (fetch_checked 8 ReadUint64 data offset) (\<lambda>tailGuid.
     let offset = u32_add offset 8 in
     bindR (fetch_checked 8 ReadUint64 data offset) (\<lambda>attributeGuid.
     finish (CreateRelationship
           \<lparr>r_RelationshipType = type, r_Guid = guid, r_HeadGuid = headGuid,
            r_TailGuid = tailGuid, r_AttributeGuid = attributeGuid\<rparr> d)
       (u32_add offset 8))))))"

text \<open>
  The thread identifier is read with the size the directory announced; with another size the
  field stays uninitialised, for which the model has 0.
\<close>

definition ReadEvent :: "nat \<Rightarrow> byte list \<Rightarrow> nat \<Rightarrow> TimelineDecoder \<Rightarrow> parsed" where
  "ReadEvent threadIdSize data offset d =
     bindR (fetch_checked 8 ReadUint64 data offset) (\<lambda>timeStamp.
     let offset = u32_add offset 8 in
     bindR (if threadIdSize = 4 then bindR (fetch_checked 4 ReadUint32 data offset) (\<lambda>t. Inr (ucast t))
            else if threadIdSize = 8 then fetch_checked 8 ReadUint64 data offset
            else Inr 0) (\<lambda>threadId.
     let offset = u32_add offset threadIdSize in
     bindR (fetch_checked 8 ReadUint64 data offset) (\<lambda>guid.
     finish (CreateEvent \<lparr>ev_Guid = guid, ev_TimeStamp = timeStamp, ev_ThreadId = threadId\<rparr> d)
       (u32_add offset 8))))"

definition m_ReadFunctions :: "nat \<Rightarrow> nat \<Rightarrow> byte list \<Rightarrow> nat \<Rightarrow> TimelineDecoder \<Rightarrow> parsed" where
  "m_ReadFunctions declId threadIdSize =
     (if declId = 0 then ReadLabel
      else if declId = 1 then ReadEntity
      else if declId = 2 then ReadEventClass
      else if declId = 3 then ReadRelationship
      else if declId = 4 then ReadEvent threadIdSize
      else (\<lambda>data offset d. Inl (UndefinedBehaviour ''index outside m_ReadFunctions'')))"

text \<open>The \<open>while\<close> loop; \<open>None\<close> would be a loop that does not end.\<close>

definition parse_message :: "nat \<Rightarrow> byte list \<Rightarrow> nat \<Rightarrow> TimelineDecoder \<Rightarrow> parsed" where
  "parse_message threadIdSize data offset d =
     bindR (fetch_checked 4 ReadUint32 data offset) (\<lambda>declId.
     m_ReadFunctions (unat declId) threadIdSize data (u32_add offset 4) d)"

partial_function (option) ParseLoop ::
    "nat \<Rightarrow> byte list \<Rightarrow> nat \<Rightarrow> nat \<Rightarrow> TimelineDecoder \<Rightarrow> TimelineDecoder result option" where
  "ParseLoop threadIdSize data packetLength offset d =
     (if offset < packetLength then
        (case parse_message threadIdSize data offset d of
           Inl e \<Rightarrow> Some (Inl e)
         | Inr (status, offset', d') \<Rightarrow>
             if status = TimelineStatus_Fail then Some (Inr d')
             else ParseLoop threadIdSize data packetLength offset' d')
      else Some (Inr d))"

record TimelineCaptureCommandHandler =
  m_TimelineDecoder :: TimelineDecoder
  m_ThreadIdSize :: nat

definition SetThreadIdSize :: "nat \<Rightarrow> TimelineCaptureCommandHandler \<Rightarrow> TimelineCaptureCommandHandler" where
  "SetThreadIdSize sz h = h\<lparr>m_ThreadIdSize := sz\<rparr>"

definition ParseData ::
    "Packet \<Rightarrow> TimelineCaptureCommandHandler \<Rightarrow> TimelineCaptureCommandHandler result option" where
  "ParseData packet h =
     (if m_ThreadIdSize h = 0 then Some (Inr h)
      else if unat (m_Length packet) < 8 then Some (Inr h)
      else
        (case m_Data packet of
           None \<Rightarrow> Some (Inl (UndefinedBehaviour ''null packet data''))
         | Some data \<Rightarrow>
             map_option (\<lambda>r. bindR r (\<lambda>d. Inr (h\<lparr>m_TimelineDecoder := d\<rparr>)))
               (ParseLoop (m_ThreadIdSize h) data (unat (m_Length packet)) 0 (m_TimelineDecoder h))))"

subsection \<open>Parsing the directory\<close>

record SwTraceHeader =
  m_StreamVersion :: byte
  m_PointerBytes :: byte
  m_ThreadIdBytes :: byte

record TimelineDirectoryCaptureCommandHandler =
  m_SwTraceHeader :: SwTraceHeader
  m_SwTraceMessages :: "SwTraceMessage list"
  m_TimelineCaptureCommandHandler :: TimelineCaptureCommandHandler

fun read_declarations ::
    "nat \<Rightarrow> byte list \<Rightarrow> nat \<Rightarrow> nat \<Rightarrow> SwTraceMessage list \<Rightarrow> SwTraceMessage list result" where
  "read_declarations 0 data offset packetLength msgs = Inr msgs"
| "read_declarations (Suc n) data offset packetLength msgs =
     bindR (ReadSwTraceMessage (Some data) offset packetLength) (\<lambda>(m, offset).
     read_declarations n data offset packetLength (msgs @ [m]))"

definition ParseDirectory ::
    "Packet \<Rightarrow> TimelineDirectoryCaptureCommandHandler \<Rightarrow> TimelineDirectoryCaptureCommandHandler result" where
  "ParseDirectory packet h =
     (if unat (m_Length packet) < 8 then Inr h
      else
        (case m_Data packet of
           None \<Rightarrow> Inl (UndefinedBehaviour ''null packet data'')
         | Some data \<Rightarrow>
           bindR (fetch_checked 1 ReadUint8 data 0) (\<lambda>streamVersion.
           bindR (fetch_checked 1 ReadUint8 data 1) (\<lambda>pointerBytes.
           bindR (fetch_checked 1 ReadUint8 data 2) (\<lambda>threadIdBytes.
           bindR (fetch_checked 4 ReadUint32 data 3) (\<lambda>numberOfDeclarations.
           bindR (read_declarations (unat numberOfDeclarations) data 7 (unat (m_Length packet))
             (m_SwTraceMessages h)) (\<lambda>msgs.
           Inr (h\<lparr>m_SwTraceHeader := \<lparr>m_StreamVersion = streamVersion, m_PointerBytes = pointerBytes,
                   m_ThreadIdBytes = threadIdBytes\<rparr>,
                 m_SwTraceMessages := msgs,
                 m_TimelineCaptureCommandHandler :=
                   SetThreadIdSize (unat threadIdBytes) (m_TimelineCaptureCommandHandler h)\<rparr>))))))))"

subsection \<open>The loop ends on every packet\<close>

lemma u32_add_eq: "a + b < 4294967296 \<Longrightarrow> u32_add a b = a + b"
  by (simp add: u32_add_small)

lemma label_words [simp]: "n div 4 + (if 0 < n mod 4 then 1 else 0) = (n + 3) div (4 :: nat)"
  by (cases "n mod 4 = 0") (simp, presburger)+

text \<open>Every read function leaves the offset where it was or moves it forward.\<close>

lemma ReadLabel_advances:
  assumes "ReadLabel data p d = Inr (s, q, d')" "length data + 256 \<le> 4294967296"
  shows "p \<le> q \<and> q \<le> length data + 4"
proof -
  define n where "n = ReadUint32 data (p + 8)"
  have n: "p + 12 \<le> length data" "p + 12 + u32_sub (unat n) 1 \<le> length data"
    "q = u32_add (p + 12) (u32_mul ((unat n + 3) div 4) 4)"
    using assms by (auto simp: ReadLabel_def Let_def u32_add_eq n_def add.commute)
  have "unat n \<noteq> 0"
    using n(2) assms(2) by (intro notI) (simp add: u32_sub_def)
  then have sub: "u32_sub (unat n) 1 = unat n - 1"
    using unsigned_less [where w = n and ?'a = nat] by (intro u32_sub_small) simp_all
  have four: "4 * ((unat n + 3) div 4) \<le> unat n + 3" by presburger
  have small: "unat n + 3 < 4294967296 - p - 12" using n(2) sub assms(2) \<open>unat n \<noteq> 0\<close> by linarith
  then have "u32_mul ((unat n + 3) div 4) 4 = 4 * ((unat n + 3) div 4)"
    using four by (subst u32_mul_small) simp_all
  then have "q = p + 12 + 4 * ((unat n + 3) div 4)"
    using n(3) four small by (simp add: u32_add_eq)
  then show ?thesis using n(1,2) sub four \<open>unat n \<noteq> 0\<close> by auto
qed

lemma Read_advances:
  assumes "m_ReadFunctions k tsz data p d = Inr (s, q, d')" "length data + 256 \<le> 4294967296" "tsz < 256"
  shows "p \<le> q \<and> q \<le> length data + 4"
proof -
  consider "ReadLabel data p d = Inr (s, q, d')" | "ReadEntity data p d = Inr (s, q, d')"
    | "ReadEventClass data p d = Inr (s, q, d')" | "ReadRelationship data p d = Inr (s, q, d')"
    | "ReadEvent tsz data p d = Inr (s, q, d')"
    using assms(1) by (auto simp: m_ReadFunctions_def split: if_splits)
  then show ?thesis
  proof cases
    case 1
    then show ?thesis using ReadLabel_advances assms(2) by blast
  next
    case 2
    then show ?thesis using assms(2)
      by (auto simp: ReadEntity_def u32_add_eq)
  next
    case 3
    then show ?thesis using assms(2)
      by (auto simp: ReadEventClass_def Let_def u32_add_eq)
  next
    case 4
    then show ?thesis using assms(2)
      by (auto simp: ReadRelationship_def Let_def u32_add_eq)
  next
    case 5
    then show ?thesis using assms(2,3)
      by (auto simp: ReadEvent_def Let_def u32_add_eq split: if_splits)
  qed
qed

lemma parse_message_advances:
  assumes "parse_message tsz data p d = Inr (s, q, d')" "length data + 256 \<le> 4294967296" "tsz < 256"
  shows "p + 4 \<le> q \<and> q \<le> length data + 4"
  using assms Read_advances [OF _ assms(2,3), of _ "p + 4"]
  by (auto simp: parse_message_def u32_add_eq)

lemma ParseLoop_returns:
  assumes "length data + 256 \<le> 4294967296" "tsz < 256"
  shows "\<exists>r. ParseLoop tsz data packetLength offset d = Some r"
proof (induction "length data + 5 - offset" arbitrary: offset d rule: less_induct)
  case less
  show ?case
  proof (cases "\<exists>q d'. offset < packetLength \<and>
      parse_message tsz data offset d = Inr (TimelineStatus_Success, q, d')")
    case True
    then obtain q d' where q: "offset < packetLength"
      "parse_message tsz data offset d = Inr (TimelineStatus_Success, q, d')" by blast
    have "length data + 5 - q < length data + 5 - offset"
      using parse_message_advances [OF q(2) assms] by linarith
    from less.hyps [OF this, of d'] show ?thesis
      by (subst ParseLoop.simps) (simp add: q)
  next
    case False
    then show ?thesis
      by (subst ParseLoop.simps) (auto split: sum.splits prod.splits intro: TimelineStatus.exhaust)
  qed
qed

subsection \<open>Reading back what the client wrote\<close>

fun deliver :: "timeline_message \<Rightarrow> TimelineDecoder \<Rightarrow> TimelineStatus \<times> TimelineDecoder" where
  "deliver (LabelMessage guid label) = CreateLabel \<lparr>l_Guid = guid, l_Name = label\<rparr>"
| "deliver (EntityMessage guid) = CreateEntity \<lparr>e_Guid = guid\<rparr>"
| "deliver (EventClassMessage guid nameGuid) = CreateEventClass \<lparr>ec_Guid = guid, ec_NameGuid = nameGuid\<rparr>"
| "deliver (RelationshipMessage type guid headGuid tailGuid attributeGuid) =
     CreateRelationship \<lparr>r_RelationshipType = relationshipTypeUint type, r_Guid = guid,
       r_HeadGuid = headGuid, r_TailGuid = tailGuid, r_AttributeGuid = attributeGuid\<rparr>"
| "deliver (EventMessage timestamp threadId guid) =
     CreateEvent \<lparr>ev_Guid = guid, ev_TimeStamp = timestamp, ev_ThreadId = ucast threadId\<rparr>"

text \<open>What a successful read of a value needs, for the simplifier.\<close>

lemma fetch_at:
  "holds_at b p (le_bytes 8 v64) \<Longrightarrow> fetch_checked 8 ReadUint64 b p = Inr v64"
  "holds_at b p (le_bytes 4 v32) \<Longrightarrow> fetch_checked 4 ReadUint32 b p = Inr v32"
  using u64.read_at u32.read_at by (force dest: holds_at_length)+

lemma ReadLabel_at:
  assumes "IsValidSwTraceString SwTraceCharPolicy label" "length label < 2 ^ 31"
    and at: "holds_at b p (le_bytes 8 guid)" "holds_at b (p + 8) (sw_bytes label)"
    and small: "p + 8 + length (sw_bytes label) < 2 ^ 32"
  shows "ReadLabel b p d =
    finish (CreateLabel \<lparr>l_Guid = guid, l_Name = label\<rparr> d) (p + 8 + length (sw_bytes label))"
proof -
  define n :: "32 word" where "n = of_nat (length label + 1)"
  have len: "unat n = Suc (length label)"
    unfolding n_def using assms(2) by (simp only: unat_of_nat) simp
  have at': "holds_at b (p + 8) (le_bytes 4 n)" "holds_at b (p + 12) (padded label)"
    using at(2) by (simp_all add: sw_bytes_def holds_at_append add.commute n_def)
  then have chars: "holds_at b (p + 12) (map byte_of label)"
    by (simp add: padded_def holds_at_append)
  have words: "(length label + 1) div 4 + (if 0 < (length label + 1) mod 4 then 1 else 0) =
      (length label + 4) div 4"
    using label_words [of "length label + 1"] by simp
  have pos: "u32_add p 8 = p + 8" "u32_add (p + 8) 4 = p + 12" "u32_sub (length label + 1) 1 = length label"
    using small assms(2) by (simp_all add: u32_add_eq u32_sub_small sw_bytes_def)
  have adv: "u32_mul ((length label + 4) div 4) 4 = 4 * ((length label + 4) div 4)"
    "u32_add (p + 12) (4 * ((length label + 4) div 4)) = p + 8 + length (sw_bytes label)"
    using small by (simp_all add: u32_mul_small u32_add_eq length_sw_bytes mult.commute)
  have read: "fetch_checked (length label) (\<lambda>b p. ReadBytes b p (length label)) b (p + 12) =
      Inr (map byte_of label)"
    using ReadBytes_at [OF chars] holds_at_length [OF chars] by simp
  show ?thesis
    by (simp add: ReadLabel_def Let_def fetch_at(1) [OF at(1)] fetch_at(2) [OF at'(1)]
        pos [simplified] len read words [simplified] adv comp_def)
qed

lemma parse_message_at:
  assumes "valid_message m" "holds_at b p (wire_format m)" "p + length (wire_format m) < 2 ^ 32"
  shows "parse_message ThreadIdSize b p d = finish (deliver m d) (p + length (wire_format m))"
proof (cases m)
  case (LabelMessage guid label)
  have ident: "fetch_checked 4 ReadUint32 b p = Inr 0"
    using assms(2) LabelMessage by (intro fetch_at) (simp add: holds_at_append)
  show ?thesis
    using LabelMessage assms ReadLabel_at [of label b "p + 4" guid d]
    by (simp add: ident parse_message_def m_ReadFunctions_def holds_at_append u32_add_eq add.assoc)
next
  case (EntityMessage guid)
  have at: "holds_at b p (le_bytes 4 (1 :: 32 word))" "holds_at b (p + 4) (le_bytes 8 guid)"
    using assms(2) EntityMessage by (simp_all add: holds_at_append)
  show ?thesis using assms(3) EntityMessage
    by (simp add: parse_message_def m_ReadFunctions_def ReadEntity_def u32_add_eq
        fetch_at(2) [OF at(1)] fetch_at(1) [OF at(2)] add.commute)
next
  case (EventClassMessage guid nameGuid)
  have at: "holds_at b p (le_bytes 4 (2 :: 32 word))" "holds_at b (p + 4) (le_bytes 8 guid)"
    "holds_at b (12 + p) (le_bytes 8 nameGuid)"
    using assms(2) EventClassMessage by (simp_all add: holds_at_append add.assoc add.commute)
  show ?thesis using assms(3) EventClassMessage
    by (simp add: parse_message_def m_ReadFunctions_def ReadEventClass_def u32_add_eq Let_def
        fetch_at(2) [OF at(1)] fetch_at(1) [OF at(2)] fetch_at(1) [OF at(3)])
      (simp add: add.commute)
next
  case (RelationshipMessage type guid headGuid tailGuid attributeGuid)
  have at: "holds_at b p (le_bytes 4 (3 :: 32 word))"
    "holds_at b (p + 4) (le_bytes 4 (relationshipTypeUint type))"
    "holds_at b (8 + p) (le_bytes 8 guid)" "holds_at b (16 + p) (le_bytes 8 headGuid)"
    "holds_at b (24 + p) (le_bytes 8 tailGuid)" "holds_at b (32 + p) (le_bytes 8 attributeGuid)"
    using assms(2) RelationshipMessage by (simp_all add: holds_at_append add.assoc add.commute)
  show ?thesis using assms(3) RelationshipMessage
    by (simp add: parse_message_def m_ReadFunctions_def ReadRelationship_def u32_add_eq Let_def
        fetch_at(2) [OF at(1)] fetch_at(2) [OF at(2)] fetch_at(1) [OF at(3)] fetch_at(1) [OF at(4)]
        fetch_at(1) [OF at(5)] fetch_at(1) [OF at(6)])
      (simp add: add.commute)
next
  case (EventMessage timestamp threadId guid)
  have at: "holds_at b p (le_bytes 4 (4 :: 32 word))" "holds_at b (p + 4) (le_bytes 8 timestamp)"
    "holds_at b (12 + p) (le_bytes 4 threadId)" "holds_at b (16 + p) (le_bytes 8 guid)"
    using assms(2) EventMessage by (simp_all add: holds_at_append add.assoc add.commute)
  show ?thesis using assms(3) EventMessage
    by (simp add: parse_message_def m_ReadFunctions_def ReadEvent_def ThreadIdSize_def u32_add_eq
        Let_def fetch_at(2) [OF at(1)] fetch_at(1) [OF at(2)] fetch_at(2) [OF at(3)]
        fetch_at(1) [OF at(4)])
      (simp add: add.commute)
qed

text \<open>What the default callbacks record of a message.\<close>

fun recorded :: "timeline_message \<Rightarrow> Model \<Rightarrow> Model" where
  "recorded (LabelMessage guid label) model =
     model\<lparr>m_Labels := m_Labels model @ [\<lparr>l_Guid = guid, l_Name = label\<rparr>]\<rparr>"
| "recorded (EntityMessage guid) model =
     model\<lparr>m_Entities := m_Entities model @ [\<lparr>e_Guid = guid\<rparr>]\<rparr>"
| "recorded (EventClassMessage guid nameGuid) model =
     model\<lparr>m_EventClasses := m_EventClasses model @ [\<lparr>ec_Guid = guid, ec_NameGuid = nameGuid\<rparr>]\<rparr>"
| "recorded (RelationshipMessage type guid headGuid tailGuid attributeGuid) model =
     model\<lparr>m_Relationships := m_Relationships model @
       [\<lparr>r_RelationshipType = relationshipTypeUint type, r_Guid = guid, r_HeadGuid = headGuid,
         r_TailGuid = tailGuid, r_AttributeGuid = attributeGuid\<rparr>]\<rparr>"
| "recorded (EventMessage timestamp threadId guid) model =
     model\<lparr>m_Events := m_Events model @
       [\<lparr>ev_Guid = guid, ev_TimeStamp = timestamp, ev_ThreadId = ucast threadId\<rparr>]\<rparr>"

lemmas callback_defs = SetEntityCallback_def SetEventClassCallback_def SetEventCallback_def
  SetLabelCallback_def SetRelationshipCallback_def

lemmas create_defs = CreateEntity_def CreateEventClass_def CreateEvent_def CreateLabel_def
  CreateRelationship_def

lemma deliver_default:
  "deliver m (SetDefaultCallbacks d) =
    (TimelineStatus_Success, SetDefaultCallbacks (d\<lparr>m_Model := recorded m (m_Model d)\<rparr>))"
  by (cases m) (simp_all add: SetDefaultCallbacks_def Let_def callback_defs create_defs)

lemma ParseLoop_messages:
  assumes "\<And>m. m \<in> set ms \<Longrightarrow> valid_message m"
    "holds_at data p (concat (map wire_format ms))" "p + length (concat (map wire_format ms)) = n"
    "n < 2 ^ 32"
  shows "ParseLoop ThreadIdSize data n p (SetDefaultCallbacks d) =
    Some (Inr (SetDefaultCallbacks (d\<lparr>m_Model := fold recorded ms (m_Model d)\<rparr>)))"
  using assms
proof (induction ms arbitrary: p d)
  case Nil
  then show ?case by (subst ParseLoop.simps) simp
next
  case (Cons m ms)
  let ?q = "p + length (wire_format m)"
  have at: "holds_at data p (wire_format m)" "holds_at data ?q (concat (map wire_format ms))"
    using Cons.prems(2) by (simp_all add: holds_at_append)
  have "parse_message ThreadIdSize data p (SetDefaultCallbacks d) =
      Inr (TimelineStatus_Success, ?q, SetDefaultCallbacks (d\<lparr>m_Model := recorded m (m_Model d)\<rparr>))"
    using parse_message_at [OF _ at(1)] Cons.prems(1,3,4) deliver_default by simp
  moreover have "p < n" using length_wire_format_pos [of m] Cons.prems(3) by simp
  ultimately show ?case
    using Cons.IH [OF _ at(2)] Cons.prems(1,3,4) by (subst ParseLoop.simps) simp
qed

lemma ParseData_messages:
  assumes "\<And>m. m \<in> set ms \<Longrightarrow> valid_message m" "ms \<noteq> []"
    "data = concat (map wire_format ms)" "length data < 2 ^ 32"
    "m_Data packet = Some data" "m_Length packet = of_nat (length data)"
    "m_ThreadIdSize h = ThreadIdSize" "m_TimelineDecoder h = SetDefaultCallbacks d"
  shows "ParseData packet h =
    Some (Inr (h\<lparr>m_TimelineDecoder := SetDefaultCallbacks (d\<lparr>m_Model := fold recorded ms (m_Model d)\<rparr>)\<rparr>))"
proof -
  have "unat (of_nat (length data) :: 32 word) = length data"
    using assms(4) by (simp add: unat_of_nat)
  moreover have "12 \<le> length data"
    using assms(2,3) length_wire_format_pos by (cases ms) (auto intro: trans_le_add1)
  moreover have "holds_at data 0 (concat (map wire_format ms))"
    by (simp add: holds_at_def assms(3))
  ultimately show ?thesis
    using ParseLoop_messages [of ms data 0 "length data" d] assms(1,3-)
    by (simp add: ParseData_def ThreadIdSize_def)
qed

text \<open>
  The writers called one after the other, each behind what the ones before it have written and with
  the rest of the buffer, as the sender calls them.
\<close>

fun write_all :: "timeline_message list \<Rightarrow> byte list \<Rightarrow> nat \<Rightarrow> (byte list \<times> nat) option" where
  "write_all [] b p = Some (b, p)"
| "write_all (m # ms) b p =
     (case write_message m (Some (drop p b)) (length b - p) of
        (Ok, Some d, n) \<Rightarrow> write_all ms (take p b @ d) (p + n)
      | _ \<Rightarrow> None)"

lemma write_all_bytes:
  assumes "\<And>m. m \<in> set ms \<Longrightarrow> valid_message m" "write_all ms b p = Some (b', n)" "p \<le> length b"
  shows "length b' = length b \<and> n = p + length (concat (map wire_format ms)) \<and> n \<le> length b \<and>
    take n b' = take p b @ concat (map wire_format ms)"
  using assms
proof (induction ms arbitrary: b p)
  case Nil
  then show ?case by simp
next
  case (Cons m ms)
  let ?w = "wire_format m" and ?r = "length b - p"
  have m: "valid_message m" using Cons.prems(1) by simp
  have spec: "write_message m (Some (drop p b)) ?r =
    (if length ?w \<le> ?r then (Ok, Some (overwrite (drop p b) 0 ?w), length ?w)
     else (BufferExhaustion, Some (drop p b), 0))"
    using write_message_spec [OF m, of ?r "drop p b"] by (simp add: Let_def)
  then have fits: "length ?w \<le> ?r" using Cons.prems(2) by (auto split: if_splits)
  let ?d = "take p b @ overwrite (drop p b) 0 ?w"
  have rest: "write_all ms ?d (p + length ?w) = Some (b', n)" using Cons.prems(2) spec fits by simp
  have len: "length ?d = length b" "p + length ?w \<le> length ?d" using fits Cons.prems(3) by simp_all
  have "take (p + length ?w) ?d = take p b @ ?w" using fits Cons.prems(3) by (simp add: overwrite_def)
  moreover have "\<And>m. m \<in> set ms \<Longrightarrow> valid_message m" using Cons.prems(1) by simp
  note Cons.IH [OF this rest len(2)]
  ultimately show ?case using len(1) by (metis add.assoc append.assoc concat.simps(2) length_append list.simps(9))
qed

text \<open>
  C18: The server understands the client. The client's five writers, called one after the other for
  any non-empty sequence of valid messages (labels in ASCII, below 2^31 characters), each behind the
  bytes the ones before it reported: if all of them succeed, then a packet with exactly the bytes
  they reported as its data (fewer than 2^32) is parsed to the end by a handler with the client's
  thread-identifier size, and a decoder with the default callbacks then has exactly these messages,
  in this order, appended to its model.
\<close>

theorem timeline_roundtrip:
  assumes "\<And>m. m \<in> set ms \<Longrightarrow> valid_message m" "ms \<noteq> []"
    "write_all ms buffer 0 = Some (written, n)" "n < 2 ^ 32"
    "Packet_make header (of_nat n) (Some (take n written)) = Inr packet"
    "m_ThreadIdSize h = ThreadIdSize" "m_TimelineDecoder h = SetDefaultCallbacks d"
  shows "\<exists>h'. ParseData packet h = Some (Inr h') \<and>
    m_Model (m_TimelineDecoder h') = fold recorded ms (m_Model d)"
proof -
  have w: "n = length (concat (map wire_format ms))" "take n written = concat (map wire_format ms)"
    using write_all_bytes [OF assms(1,3)] by auto
  have "m_Data packet = Some (concat (map wire_format ms))"
    "m_Length packet = of_nat (length (concat (map wire_format ms)))"
    using assms(5) w by (auto simp: Packet_make_def)
  from ParseData_messages [OF assms(1,2) refl _ this assms(6,7)]
  show ?thesis using assms(4) w(1) by (simp add: SetDefaultCallbacks_def Let_def callback_defs)
qed

definition empty_decoder :: TimelineDecoder where
  "empty_decoder =
     \<lparr>m_Model = \<lparr>m_Entities = [], m_EventClasses = [], m_Events = [], m_Labels = [], m_Relationships = []\<rparr>,
      m_OnNewEntityCallback = None, m_OnNewEventClassCallback = None, m_OnNewEventCallback = None,
      m_OnNewLabelCallback = None, m_OnNewRelationshipCallback = None\<rparr>"

theorem timeline_roundtrip_witness:
  "\<exists>written packet h'. write_all [EntityMessage 7, EventMessage 1 2 3] (replicate 40 0) 0 = Some (written, 36) \<and>
    Packet_make 0 36 (Some (take 36 written)) = Inr packet \<and>
    ParseData packet \<lparr>m_TimelineDecoder = SetDefaultCallbacks empty_decoder, m_ThreadIdSize = 4\<rparr> = Some (Inr h') \<and>
    m_Events (m_Model (m_TimelineDecoder h')) = [\<lparr>ev_Guid = 3, ev_TimeStamp = 1, ev_ThreadId = 2\<rparr>]"
proof -
  let ?ms = "[EntityMessage 7, EventMessage 1 2 3]"
  have valid: "valid_message m" if "m \<in> set ?ms" for m using that by auto
  have "\<exists>written n. write_all ?ms (replicate 40 0) 0 = Some (written, n)"
    by (simp add: WriteTimelineEntityBinary_def WriteTimelineEventBinary_def given_buffer_def ThreadIdSize_def
        write_simps Let_def del: replicate_numeral_Cons)
  then obtain written n where w: "write_all ?ms (replicate 40 0) 0 = Some (written, n)" by blast
  have n: "n = 36" using write_all_bytes [OF valid w] by simp
  obtain packet where packet: "Packet_make 0 (of_nat n) (Some (take n written)) = Inr packet"
    by (simp add: Packet_make_def n)
  have "(n :: nat) < 2 ^ 32" "m_ThreadIdSize \<lparr>m_TimelineDecoder = SetDefaultCallbacks empty_decoder, m_ThreadIdSize = 4\<rparr> = ThreadIdSize"
    by (simp_all add: n ThreadIdSize_def)
  from timeline_roundtrip [OF valid _ w this(1) packet this(2), of empty_decoder]
  obtain h' where h': "ParseData packet \<lparr>m_TimelineDecoder = SetDefaultCallbacks empty_decoder, m_ThreadIdSize = 4\<rparr> = Some (Inr h')"
    "m_Model (m_TimelineDecoder h') = fold recorded ?ms (m_Model empty_decoder)" by auto
  have "m_Events (m_Model (m_TimelineDecoder h')) = [\<lparr>ev_Guid = 3, ev_TimeStamp = 1, ev_ThreadId = 2\<rparr>]"
    by (simp add: h'(2) empty_decoder_def)
  moreover have "Packet_make 0 36 (Some (take 36 written)) = Inr packet" using packet n by simp
  ultimately show ?thesis using w n h'(1) by blast
qed

text \<open>
  C21: The parser ends on every packet, whatever bytes a client sends and whatever
  thread-identifier size was announced: the loop that follows offsets and lengths taken from
  the packet stops, with a result or in a read past the end, for every packet that keeps 256
  bytes below the four-gigabyte range of its 32-bit offsets.
\<close>

theorem ParseData_terminates:
  assumes "m_Data packet = Some data" "length data + 256 \<le> 2 ^ 32" "m_ThreadIdSize h < 256"
  shows "\<exists>r. ParseData packet h = Some r"
proof -
  obtain r where "ParseLoop (m_ThreadIdSize h) data (unat (m_Length packet)) 0 (m_TimelineDecoder h) = Some r"
    using ParseLoop_returns [of data "m_ThreadIdSize h"] assms(2,3) by force
  then show ?thesis by (simp add: ParseData_def assms(1))
qed

theorem ParseData_terminates_witness:
  "\<exists>r. ParseData \<lparr>m_Header = 0, m_PacketFamily = 1, m_PacketId = 1, m_Length = 16, m_Data = Some (replicate 16 255)\<rparr>
     \<lparr>m_TimelineDecoder = empty_decoder, m_ThreadIdSize = 4\<rparr> = Some r"
  by (rule ParseData_terminates [where data = "replicate 16 255"]) simp_all

text \<open>
  The identifier of a message is not validated: a packet whose first word is none of the
  five declared identifiers makes the handler index its array of member functions out of
  bounds.
\<close>

theorem ParseData_unknown_identifier:
  assumes "m_Data packet = Some data" "8 \<le> unat (m_Length packet)" "4 \<le> length data"
    "m_ThreadIdSize h \<noteq> 0" "4 < unat (ReadUint32 data 0)"
  shows "ParseData packet h = Some (Inl (UndefinedBehaviour ''index outside m_ReadFunctions''))"
proof -
  have "parse_message (m_ThreadIdSize h) data 0 (m_TimelineDecoder h) =
      Inl (UndefinedBehaviour ''index outside m_ReadFunctions'')"
    using assms(3,5) by (simp add: parse_message_def fetch_checked_def m_ReadFunctions_def)
  then show ?thesis using assms by (subst ParseData_def, subst ParseLoop.simps) simp
qed

theorem ParseData_unknown_identifier_witness:
  "ParseData \<lparr>m_Header = 0, m_PacketFamily = 1, m_PacketId = 1, m_Length = 8, m_Data = Some (replicate 8 1)\<rparr>
     \<lparr>m_TimelineDecoder = empty_decoder, m_ThreadIdSize = 4\<rparr> =
   Some (Inl (UndefinedBehaviour ''index outside m_ReadFunctions''))"
  by (rule ParseData_unknown_identifier [where data = "replicate 8 1"])
    (simp_all add: ReadUint32_def)

subsection \<open>The directory package\<close>

text \<open>The rows of the directory and their bytes.\<close>

fun row_bytes :: "decl_row \<Rightarrow> byte list" where
  "row_bytes (declId, name, uiName, argTypes, argNames) =
     message_bytes (of_nat declId) name uiName argTypes argNames"

fun row_valid :: "decl_row \<Rightarrow> bool" where
  "row_valid (declId, name, uiName, argTypes, argNames) \<longleftrightarrow>
     IsValidSwTraceString SwTraceNameCharPolicy name \<and> IsValidSwTraceString SwTraceCharPolicy uiName \<and>
     IsValidSwTraceString SwTraceTypeCharPolicy argTypes \<and> IsValidSwTraceString SwTraceCharPolicy argNames"

fun row_message :: "decl_row \<Rightarrow> SwTraceMessage" where
  "row_message (declId, name, uiName, argTypes, argNames) =
     \<lparr>m_Id = of_nat declId, m_Name = name, m_UiName = uiName, m_ArgTypes = argTypes,
      m_ArgNames = getline_loop (CHR '','') [] argNames\<rparr>"

lemma build_declarations_valid:
  assumes "\<And>r. r \<in> set rows \<Longrightarrow> row_valid r"
  shows "\<exists>ws. build_declarations rows buf = Some (buf @ ws) \<and>
    words_bytes ws = concat (map row_bytes rows)"
  using assms
proof (induction rows arbitrary: buf)
  case Nil
  then show ?case by simp
next
  case (Cons r rows)
  obtain k n u t a where r: "r = (k, n, u, t, a)" by (cases r) auto
  have v: "IsValidSwTraceString SwTraceNameCharPolicy n" "IsValidSwTraceString SwTraceCharPolicy u"
    "IsValidSwTraceString SwTraceTypeCharPolicy t" "IsValidSwTraceString SwTraceCharPolicy a"
    using Cons.prems [of r] r by auto
  obtain w1 w2 w3 w4 where w: "StringToSwTraceString SwTraceNameCharPolicy n = (True, w1)"
    "words_bytes w1 = sw_bytes n" "StringToSwTraceString SwTraceCharPolicy u = (True, w2)"
    "words_bytes w2 = sw_bytes u" "StringToSwTraceString SwTraceTypeCharPolicy t = (True, w3)"
    "words_bytes w3 = sw_bytes t" "StringToSwTraceString SwTraceCharPolicy a = (True, w4)"
    "words_bytes w4 = sw_bytes a"
    using StringToSwTraceString_valid [OF v(1)] StringToSwTraceString_valid [OF v(2)]
      StringToSwTraceString_valid [OF v(3)] StringToSwTraceString_valid [OF v(4)] by metis
  let ?ws = "of_nat k # w1 @ w2 @ w3 @ w4"
  have "\<And>r. r \<in> set rows \<Longrightarrow> row_valid r" using Cons.prems by auto
  from Cons.IH [OF this, of "buf @ ?ws"]
  obtain ws where ws: "build_declarations rows (buf @ ?ws) = Some ((buf @ ?ws) @ ws)"
    "words_bytes ws = concat (map row_bytes rows)" by blast
  have "build_declarations (r # rows) buf = build_declarations rows (buf @ ?ws)"
    by (simp add: r ConvertDirectoryComponent_def w)
  moreover have "words_bytes (?ws @ ws) = concat (map row_bytes (r # rows))"
    by (simp add: r w ws message_bytes_def)
  ultimately show ?case using ws(1) by (intro exI [of _ "?ws @ ws"]) simp
qed

lemma directory_rows_valid: "r \<in> set timelineDirectoryMessages \<Longrightarrow> row_valid r"
  by (auto simp: timelineDirectoryMessages_def IsValidSwTraceString_def SwTraceNameCharPolicy_def
      SwTraceCharPolicy_def SwTraceTypeCharPolicy_def isalnum_def)

definition directory_bytes :: "byte list" where
  "directory_bytes = concat (map row_bytes timelineDirectoryMessages)"

lemma length_message_bytes:
  "length (message_bytes k n u t a) = 4 + length (sw_bytes n) + length (sw_bytes u) +
     length (sw_bytes t) + length (sw_bytes a)"
  by (simp add: message_bytes_def)

lemma length_directory_bytes: "length directory_bytes = 440"
  by (simp add: directory_bytes_def timelineDirectoryMessages_def length_message_bytes length_sw_bytes)

text \<open>The whole package: header, stream header, number of declarations, declarations.\<close>

definition directory_package :: "byte list" where
  "directory_package =
     le_bytes 4 (fst (CreateTimelinePacketHeader 1 0 0 0 0 443)) @
     le_bytes 4 (snd (CreateTimelinePacketHeader 1 0 0 0 0 443)) @
     [4, 8, 4] @ le_bytes 4 (5 :: 32 word) @ directory_bytes"

lemma length_directory_package: "length directory_package = 455"
  by (simp add: directory_package_def length_directory_bytes)

lemma WriteDirectory_spec:
  assumes "455 \<le> length b"
  shows "WriteTimelineMessageDirectoryPackage (Some b) remaining =
    (if 451 \<le> remaining then (Ok, Some (overwrite b 0 directory_package), 451)
     else (BufferExhaustion, Some b, 0))"
proof -
  obtain ws where ws: "build_declarations timelineDirectoryMessages [] = Some ws"
    "words_bytes ws = directory_bytes"
    using build_declarations_valid [OF directory_rows_valid, of timelineDirectoryMessages "[]"]
    by (auto simp: directory_bytes_def)
  have len: "length ws = 110"
    using length_words_bytes [of ws] ws(2) length_directory_bytes by simp
  have rows: "length timelineDirectoryMessages = 5" by (simp add: timelineDirectoryMessages_def)
  show ?thesis
  proof (cases "451 \<le> remaining")
    case False
    then show ?thesis
      by (simp add: WriteTimelineMessageDirectoryPackage_def given_buffer_def ws(1) len Let_def)
  next
    case True
    have "write_words (WriteUint32 (WriteUint8 (WriteUint8 (WriteUint8 (WriteUint32 (WriteUint32 b 0 h1) 4 h2)
        8 4) 9 8) 10 4) 11 5) 15 ws =
      overwrite b 0 (le_bytes 4 h1 @ le_bytes 4 h2 @ [4, 8, 4] @ le_bytes 4 (5 :: 32 word) @ directory_bytes)"
      for h1 h2
      using assms by (simp add: write_simps len ws(2) length_directory_bytes)
    then show ?thesis using True
      by (simp add: WriteTimelineMessageDirectoryPackage_def given_buffer_def ws(1) len Let_def
          ThreadIdSize_def rows directory_package_def)
  qed
qed

text \<open>
  \<open>WriteTimelineMessageDirectoryPackage\<close> forgets the word with the number of
  declarations when it computes the size of the package: whenever it reports success it has
  checked for, and reports, four bytes fewer than it has written.
\<close>

theorem directory_package_size:
  assumes "WriteTimelineMessageDirectoryPackage (Some b) remaining = (Ok, Some b', n)"
    "length directory_package \<le> length b"
  shows "b' = directory_package @ drop (length directory_package) b \<and>
    n + 4 = length directory_package \<and> n \<le> remaining"
  using assms WriteDirectory_spec [of b remaining]
  by (auto simp: length_directory_package overwrite_def split: if_splits)

theorem directory_package_size_witness:
  "\<exists>b'. WriteTimelineMessageDirectoryPackage (Some (replicate 500 0)) 451 = (Ok, Some b', 451) \<and>
    451 + 4 = length directory_package"
proof -
  have "WriteTimelineMessageDirectoryPackage (Some (replicate 500 0)) 451 =
      (Ok, Some (overwrite (replicate 500 0) 0 directory_package), 451)"
    by (subst WriteDirectory_spec) (simp_all del: replicate_numeral_Cons)
  with directory_package_size [OF this] show ?thesis
    by (simp add: length_directory_package del: replicate_numeral_Cons)
qed

text \<open>Reading the rows; the padding of the last one may be missing.\<close>

fun row_core :: "decl_row \<Rightarrow> byte list" where
  "row_core (declId, name, uiName, argTypes, argNames) =
     le_bytes 4 (of_nat declId :: 32 word) @ sw_bytes name @ sw_bytes uiName @ sw_bytes argTypes @
     unpadded argNames"

lemma row_core_at: "holds_at b p (row_bytes r) \<Longrightarrow> holds_at b p (row_core r)"
  by (cases r) (auto simp: message_bytes_def holds_at_append intro: unpadded_at)

lemma read_row_at:
  assumes "row_valid r" "holds_at b p (row_core r)" "p + length (row_bytes r) < 2 ^ 32"
    "length (row_bytes r) \<le> packetLength"
  shows "ReadSwTraceMessage (Some b) p packetLength = Inr (row_message r, p + length (row_bytes r))"
proof -
  obtain k n u t a where r: "r = (k, n, u, t, a)" by (cases r) auto
  have "IsValidSwTraceString SwTraceCharPolicy s \<and> length s + 1 \<le> packetLength"
    if "s \<in> {n, u, t, a}" for s
  proof -
    have "length s + 4 \<le> length (sw_bytes s)" by (simp add: sw_bytes_def padded_def)
    moreover have "length (sw_bytes s) \<le> length (row_bytes r)"
      using that by (auto simp: r length_message_bytes)
    ultimately show ?thesis using that assms(1,4) valid_ascii by (auto simp: r)
  qed
  then show ?thesis
    using assms(2,3) ReadSwTraceMessage_at [of n u t a packetLength b p "of_nat k"] by (simp add: r)
qed

lemma read_declarations_at:
  assumes "\<And>r. r \<in> set rows \<Longrightarrow> row_valid r" "holds_at b p (concat (map row_bytes rows))"
    "p + length (concat (map row_bytes rows)) < 2 ^ 32"
    "\<And>r. r \<in> set rows \<Longrightarrow> length (row_bytes r) \<le> packetLength"
  shows "read_declarations (length rows + k) b p packetLength msgs =
    read_declarations k b (p + length (concat (map row_bytes rows))) packetLength
      (msgs @ map row_message rows)"
  using assms
proof (induction rows arbitrary: p msgs)
  case Nil
  then show ?case by simp
next
  case (Cons r rows)
  let ?q = "p + length (row_bytes r)"
  have at: "holds_at b p (row_core r)" "holds_at b ?q (concat (map row_bytes rows))"
    using Cons.prems(2) row_core_at by (simp_all add: holds_at_append)
  have "ReadSwTraceMessage (Some b) p packetLength = Inr (row_message r, ?q)"
    using Cons.prems by (intro read_row_at at) auto
  then show ?case
    using Cons.IH [OF _ at(2)] Cons.prems by (simp add: add.assoc)
qed

lemma directory_split:
  "timelineDirectoryMessages = take 4 timelineDirectoryMessages @ [timelineDirectoryMessages ! 4]"
  by (simp add: timelineDirectoryMessages_def)

lemma directory_truncated:
  "take 436 directory_bytes =
     concat (map row_bytes (take 4 timelineDirectoryMessages)) @ row_core (timelineDirectoryMessages ! 4)"
proof -
  let ?init = "concat (map row_bytes (take 4 timelineDirectoryMessages))"
  let ?last = "timelineDirectoryMessages ! 4"
  have split: "directory_bytes = ?init @ row_bytes ?last"
    unfolding directory_bytes_def by (subst (1) directory_split) (simp only: map_append concat_append, simp)
  have "length ?init = 352"
    by (simp add: timelineDirectoryMessages_def length_message_bytes length_sw_bytes)
  moreover have "row_bytes ?last = row_core ?last @ replicate 4 0"
    by (simp add: timelineDirectoryMessages_def message_bytes_def sw_bytes_def padded_def unpadded_def)
  moreover have "length (row_bytes ?last) = 88"
    by (simp add: timelineDirectoryMessages_def length_message_bytes length_sw_bytes)
  ultimately show ?thesis by (simp add: split)
qed

lemma ParseDirectory_package:
  assumes "m_Data packet = Some (take 443 (drop 8 directory_package))" "m_Length packet = 443"
  shows "ParseDirectory packet h = Inr (h\<lparr>
      m_SwTraceHeader := \<lparr>m_StreamVersion = 4, m_PointerBytes = 8, m_ThreadIdBytes = 4\<rparr>,
      m_SwTraceMessages := m_SwTraceMessages h @ map row_message timelineDirectoryMessages,
      m_TimelineCaptureCommandHandler :=
        SetThreadIdSize ThreadIdSize (m_TimelineCaptureCommandHandler h)\<rparr>)"
proof -
  let ?init = "take 4 timelineDirectoryMessages" and ?last = "timelineDirectoryMessages ! 4"
  define data where "data = [4, 8, 4] @ le_bytes 4 (5 :: 32 word) @ take 436 directory_bytes"
  have packet: "take 443 (drop 8 directory_package) = data"
    by (simp add: directory_package_def data_def)
  have len: "length data = 443" by (simp add: data_def length_directory_bytes)
  have lens: "length (row_bytes r) \<le> 443" if "r \<in> set timelineDirectoryMessages" for r
    using that by (auto simp: timelineDirectoryMessages_def length_message_bytes length_sw_bytes)
  have init: "length (concat (map row_bytes ?init)) = 352"
    by (simp add: timelineDirectoryMessages_def length_message_bytes length_sw_bytes)
  have "holds_at data (length ([4, 8, 4] @ le_bytes 4 (5 :: 32 word)))
      (take 436 directory_bytes)"
    using holds_at_mid [of "[4, 8, 4] @ le_bytes 4 (5 :: 32 word)" "take 436 directory_bytes" "[]"]
    by (simp add: data_def)
  then have at: "holds_at data 7 (concat (map row_bytes ?init))" "holds_at data 359 (row_core ?last)"
    by (simp_all add: directory_truncated holds_at_append init)
  have mem: "set ?init \<subseteq> set timelineDirectoryMessages" "?last \<in> set timelineDirectoryMessages"
    by (auto simp: timelineDirectoryMessages_def)
  have "row_valid r \<and> length (row_bytes r) \<le> 443" if "r \<in> set ?init" for r
    using that mem(1) directory_rows_valid lens by blast
  then have "read_declarations (length ?init + 1) data 7 443 ms =
      read_declarations 1 data (7 + length (concat (map row_bytes ?init))) 443 (ms @ map row_message ?init)" for ms
    using at(1) init by (intro read_declarations_at) simp_all
  moreover have "length ?init + 1 = 5" by (simp add: timelineDirectoryMessages_def)
  ultimately have five: "read_declarations 5 data 7 443 ms =
      read_declarations 1 data (7 + 352) 443 (ms @ map row_message ?init)" for ms
    by (simp only: init)
  have last: "ReadSwTraceMessage (Some data) 359 443 =
      Inr (row_message ?last, 359 + length (row_bytes ?last))"
    using directory_rows_valid [OF mem(2)] at(2) lens [OF mem(2)] by (intro read_row_at) auto
  have read: "read_declarations 5 data 7 443 ms = Inr (ms @ map row_message timelineDirectoryMessages)" for ms
  proof -
    have "read_declarations 5 data 7 443 ms = Inr ((ms @ map row_message ?init) @ [row_message ?last])"
      unfolding five by (simp add: last)
    also have "\<dots> = Inr (ms @ map row_message (?init @ [?last]))" by simp
    finally show ?thesis by (simp only: directory_split [symmetric])
  qed
  have head: "ReadUint8 data 0 = 4" "ReadUint8 data 1 = 8" "ReadUint8 data 2 = 4" "ReadUint32 data 3 = 5"
    using u32.read_encoded [of "[4, 8, 4]" 5 "take 436 directory_bytes"]
    by (simp_all add: ReadUint8_def data_def numeral_3_eq_3)
  show ?thesis
    using read [of "m_SwTraceMessages h"]
    by (simp add: ParseDirectory_def assms packet fetch_checked_def len head
        head(2) [unfolded One_nat_def] ThreadIdSize_def)
qed

lemma ReceivePacket_directory:
  "\<exists>packet. ReceivePacket (Some (take 451 (directory_package @ rest))) 451 = Inr packet \<and>
     m_Data packet = Some (take 443 (drop 8 directory_package)) \<and> m_Length packet = 443"
proof -
  let ?h = "CreateTimelinePacketHeader 1 0 0 0 0 443"
  define data where "data = take 443 (drop 8 directory_package)"
  let ?b = "le_bytes 4 (fst ?h) @ le_bytes 4 (snd ?h) @ data"
  have snd: "snd ?h = 443" by (simp add: CreateTimelinePacketHeader_def)
  have len: "length data = 443" by (simp add: data_def length_directory_package)
  have "take 451 (directory_package @ rest) = ?b"
    by (simp add: length_directory_package data_def) (simp add: directory_package_def)
  moreover have at: "holds_at ?b 0 (le_bytes 4 (fst ?h))" "holds_at ?b 4 (le_bytes 4 (443 :: 32 word))" "holds_at ?b 8 data"
    by (simp_all add: snd holds_at_def)
  moreover have "fetch_checked 443 (\<lambda>b p. ReadBytes b p 443) ?b 8 = Inr data"
    using ReadBytes_at [OF at(3), unfolded len] holds_at_length [OF at(3)] len by (simp add: fetch_checked_def)
  ultimately have "\<exists>packet. ReceivePacket (Some (take 451 (directory_package @ rest))) 451 = Inr packet \<and>
     m_Data packet = Some data \<and> m_Length packet = 443"
    using fetch_at(2) [OF at(1)] fetch_at(2) [OF at(2)] len
    by (simp add: ReceivePacket_def Packet_make_def fetch_checked_def)
  then show ?thesis by (simp only: data_def)
qed

text \<open>
  C24: The directory still arrives whole. Whenever \<open>WriteTimelineMessageDirectoryPackage\<close> succeeds on a
  buffer with room for all the bytes it writes (455, four more than it asks for and reports), the
  bytes up to the reported size are received as a packet, and from that packet the server's handler
  reads the stream header and all five declarations as the client has them, and announces the
  client's thread-identifier size to the handler of the messages: the four bytes cut off are not needed.
\<close>

theorem directory_roundtrip:
  assumes "WriteTimelineMessageDirectoryPackage (Some buffer) remaining = (Ok, Some written, n)"
    "455 \<le> length buffer"
  shows "\<exists>packet. ReceivePacket (Some (take n written)) n = Inr packet \<and>
    ParseDirectory packet h = Inr (h\<lparr>
      m_SwTraceHeader := \<lparr>m_StreamVersion = 4, m_PointerBytes = 8, m_ThreadIdBytes = 4\<rparr>,
      m_SwTraceMessages := m_SwTraceMessages h @ map row_message timelineDirectoryMessages,
      m_TimelineCaptureCommandHandler :=
        SetThreadIdSize ThreadIdSize (m_TimelineCaptureCommandHandler h)\<rparr>)"
proof -
  have "n = 451" "written = directory_package @ drop 455 buffer"
    using assms WriteDirectory_spec [OF assms(2), of remaining]
    by (auto simp: overwrite_def length_directory_package split: if_splits)
  then show ?thesis using ReceivePacket_directory [of "drop 455 buffer"] ParseDirectory_package by blast
qed

theorem directory_roundtrip_witness:
  "\<exists>written packet h'. WriteTimelineMessageDirectoryPackage (Some (replicate 500 0)) 500 = (Ok, Some written, 451) \<and>
    ReceivePacket (Some (take 451 written)) 451 = Inr packet \<and>
    ParseDirectory packet
     \<lparr>m_SwTraceHeader = \<lparr>m_StreamVersion = 0, m_PointerBytes = 0, m_ThreadIdBytes = 0\<rparr>,
      m_SwTraceMessages = [],
      m_TimelineCaptureCommandHandler = \<lparr>m_TimelineDecoder = empty_decoder, m_ThreadIdSize = 0\<rparr>\<rparr> = Inr h' \<and>
    map m_Name (m_SwTraceMessages h') =
      [''declareLabel'', ''declareEntity'', ''declareEventClass'', ''declareRelationship'', ''declareEvent'']"
proof -
  obtain written where w: "WriteTimelineMessageDirectoryPackage (Some (replicate 500 0)) 500 = (Ok, Some written, 451)"
    using WriteDirectory_spec [of "replicate 500 0" 500] by (simp del: replicate_numeral_Cons)
  obtain packet where packet: "ReceivePacket (Some (take 451 written)) 451 = Inr packet"
    "ParseDirectory packet
     \<lparr>m_SwTraceHeader = \<lparr>m_StreamVersion = 0, m_PointerBytes = 0, m_ThreadIdBytes = 0\<rparr>,
      m_SwTraceMessages = [],
      m_TimelineCaptureCommandHandler = \<lparr>m_TimelineDecoder = empty_decoder, m_ThreadIdSize = 0\<rparr>\<rparr> = Inr
     \<lparr>m_SwTraceHeader = \<lparr>m_StreamVersion = 4, m_PointerBytes = 8, m_ThreadIdBytes = 4\<rparr>,
      m_SwTraceMessages = map row_message timelineDirectoryMessages,
      m_TimelineCaptureCommandHandler =
        SetThreadIdSize ThreadIdSize \<lparr>m_TimelineDecoder = empty_decoder, m_ThreadIdSize = 0\<rparr>\<rparr>"
    using directory_roundtrip [OF w, of "\<lparr>m_SwTraceHeader = \<lparr>m_StreamVersion = 0, m_PointerBytes = 0, m_ThreadIdBytes = 0\<rparr>,
      m_SwTraceMessages = [],
      m_TimelineCaptureCommandHandler = \<lparr>m_TimelineDecoder = empty_decoder, m_ThreadIdSize = 0\<rparr>\<rparr>"]
    by (auto simp del: replicate_numeral_Cons)
  then show ?thesis using w
    by (intro exI [of _ written] exI [of _ packet] exI conjI) (auto simp: timelineDirectoryMessages_def)
qed

end
