(* ===== verification/BufferPool.thy ===== *)
theory BufferPool
  imports Bytes "HOL-Library.Multiset"
begin

section \<open>Packet buffers and their pool (profiling/client PacketBuffer.cpp, BufferManager.cpp)\<close>

text \<open>
  The manager keeps a list of available buffers and a queue of committed ones; a buffer that
  is reserved or being read is in the hands of its user. The mutexes make every operation
  atomic, so an execution is a sequence of operations, the relation \<open>pool_step\<close>.
\<close>

subsection \<open>PacketBuffer\<close>

record PacketBuffer =
  pb_MaxSize :: nat
  pb_Size :: nat
  pb_Data :: "byte list option"

definition PacketBuffer_make :: "nat \<Rightarrow> PacketBuffer" where
  "PacketBuffer_make maxSize =
     \<lparr>pb_MaxSize = maxSize, pb_Size = 0, pb_Data = Some (replicate maxSize 0)\<rparr>"

definition PacketBuffer_MarkRead :: "PacketBuffer \<Rightarrow> PacketBuffer" where
  "PacketBuffer_MarkRead b = b\<lparr>pb_Size := 0\<rparr>"

definition PacketBuffer_Commit :: "PacketBuffer \<Rightarrow> nat \<Rightarrow> PacketBuffer result" where
  "PacketBuffer_Commit b sz =
     bindR (throw_if (sz > pb_MaxSize b)
       (ProfilingException ''Cannot commit bytes which is more than the maximum size of the buffer'')) (\<lambda>_.
     Inr (b\<lparr>pb_Size := sz\<rparr>))"

definition PacketBuffer_Release :: "PacketBuffer \<Rightarrow> PacketBuffer" where
  "PacketBuffer_Release b = b\<lparr>pb_Size := 0\<rparr>"

definition PacketBuffer_Destroy :: "PacketBuffer \<Rightarrow> PacketBuffer" where
  "PacketBuffer_Destroy b = b\<lparr>pb_Data := None, pb_Size := 0, pb_MaxSize := 0\<rparr>"

text \<open>The bytes a reader gets: \<open>GetSize\<close> of them from \<open>GetReadableData\<close>.\<close>

definition readable_bytes :: "PacketBuffer \<Rightarrow> byte list" where
  "readable_bytes b = (case pb_Data b of None \<Rightarrow> [] | Some bytes \<Rightarrow> take (pb_Size b) bytes)"

subsection \<open>BufferManager\<close>

text \<open>The consumer is its flag \<open>ready to read\<close>; \<open>None\<close> is no consumer.\<close>

record BufferManager =
  m_MaxBufferSize :: nat
  m_NumberOfBuffers :: nat
  m_MaxNumberOfBuffers :: nat
  m_CurrentNumberOfBuffers :: nat
  m_AvailableList :: "PacketBuffer list"
  m_ReadableList :: "PacketBuffer list"
  m_Consumer :: "bool option"

definition BufferManager_Initialize :: "BufferManager \<Rightarrow> BufferManager" where
  "BufferManager_Initialize m =
     m\<lparr>m_CurrentNumberOfBuffers := m_NumberOfBuffers m,
       m_AvailableList := m_AvailableList m @
         replicate (m_NumberOfBuffers m) (PacketBuffer_make (m_MaxBufferSize m))\<rparr>"

definition BufferManager_make :: "nat \<Rightarrow> nat \<Rightarrow> BufferManager" where
  "BufferManager_make numberOfBuffers maxPacketSize =
     BufferManager_Initialize
       \<lparr>m_MaxBufferSize = maxPacketSize, m_NumberOfBuffers = numberOfBuffers,
        m_MaxNumberOfBuffers = u32_mul numberOfBuffers 3, m_CurrentNumberOfBuffers = numberOfBuffers,
        m_AvailableList = [], m_ReadableList = [], m_Consumer = None\<rparr>"

definition Reserve :: "nat \<Rightarrow> BufferManager \<Rightarrow> (PacketBuffer option \<times> nat) \<times> BufferManager" where
  "Reserve requestedSize m =
     (if requestedSize > m_MaxBufferSize m then ((None, 0), m)
      else if m_AvailableList m = [] then
        (if m_CurrentNumberOfBuffers m < m_MaxNumberOfBuffers m
         then ((Some (PacketBuffer_make (m_MaxBufferSize m)), requestedSize),
               m\<lparr>m_CurrentNumberOfBuffers := u32_add (m_CurrentNumberOfBuffers m) 1\<rparr>)
         else ((None, 0), m))
      else ((Some (last (m_AvailableList m)), requestedSize),
            m\<lparr>m_AvailableList := butlast (m_AvailableList m)\<rparr>))"

definition FlushReadList :: "BufferManager \<Rightarrow> BufferManager" where
  "FlushReadList m = m\<lparr>m_Consumer := map_option (\<lambda>_. True) (m_Consumer m)\<rparr>"

definition Commit :: "PacketBuffer \<Rightarrow> nat \<Rightarrow> bool \<Rightarrow> BufferManager \<Rightarrow> BufferManager result" where
  "Commit packetBuffer sz notifyConsumer m =
     bindR (PacketBuffer_Commit packetBuffer sz) (\<lambda>b.
     let m = m\<lparr>m_ReadableList := m_ReadableList m @ [b]\<rparr> in
     Inr (if notifyConsumer then FlushReadList m else m))"

text \<open>
  The second half of \<open>Release\<close> and of \<open>MarkRead\<close>: the buffer goes back to the list or is
  destroyed.
\<close>

definition give_back :: "PacketBuffer \<Rightarrow> BufferManager \<Rightarrow> BufferManager" where
  "give_back b m =
     (if length (m_AvailableList m) \<le> m_NumberOfBuffers m
      then m\<lparr>m_AvailableList := m_AvailableList m @ [b]\<rparr>
      else if m_CurrentNumberOfBuffers m > m_NumberOfBuffers m
      then m\<lparr>m_CurrentNumberOfBuffers := u32_sub (m_CurrentNumberOfBuffers m) 1\<rparr>
      else m)"

definition Release :: "PacketBuffer \<Rightarrow> BufferManager \<Rightarrow> BufferManager" where
  "Release packetBuffer m = give_back (PacketBuffer_Release packetBuffer) m"

definition MarkRead :: "PacketBuffer \<Rightarrow> BufferManager \<Rightarrow> BufferManager" where
  "MarkRead packetBuffer m = give_back (PacketBuffer_MarkRead packetBuffer) m"

definition BufferManager_Reset :: "BufferManager \<Rightarrow> BufferManager" where
  "BufferManager_Reset m = BufferManager_Initialize (m\<lparr>m_AvailableList := [], m_ReadableList := []\<rparr>)"

definition GetReadableBuffer :: "BufferManager \<Rightarrow> PacketBuffer option \<times> BufferManager" where
  "GetReadableBuffer m =
     (case m_ReadableList m of
        [] \<Rightarrow> (None, m)
      | b # bs \<Rightarrow> (Some b, m\<lparr>m_ReadableList := bs\<rparr>))"

definition SetConsumer :: "bool option \<Rightarrow> BufferManager \<Rightarrow> BufferManager" where
  "SetConsumer consumer m = m\<lparr>m_Consumer := consumer\<rparr>"

subsection \<open>Executions\<close>

text \<open>
  A state is the manager and the buffers in the hands of users. Between the operations a user
  may write into a buffer it holds. \<open>Reset\<close> is for when all threads have been joined, so no
  buffer is out.
\<close>

type_synonym pool = "BufferManager \<times> PacketBuffer multiset"

text \<open>What a reader and a writer see of an operation.\<close>

datatype pool_event = Committed "byte list" | Fetched "byte list" | Discarded

inductive pool_step :: "pool \<Rightarrow> pool_event list \<Rightarrow> pool \<Rightarrow> bool" where
  reserve: "Reserve n m = ((Some b, k), m') \<Longrightarrow> pool_step (m, out) [] (m', add_mset b out)"
| reserve_fail: "Reserve n m = ((None, k), m') \<Longrightarrow> pool_step (m, out) [] (m', out)"
| write_data: "pb_Data b = Some bytes \<Longrightarrow> length bytes' = length bytes \<Longrightarrow>
    pool_step (m, add_mset b out) [] (m, add_mset (b\<lparr>pb_Data := Some bytes'\<rparr>) out)"
| commit: "Commit b n notify m = Inr m' \<Longrightarrow> pb_Data b = Some bytes \<Longrightarrow>
    pool_step (m, add_mset b out) [Committed (take n bytes)] (m', out)"
| release: "pool_step (m, add_mset b out) [] (Release b m, out)"
| get_readable: "GetReadableBuffer m = (Some b, m') \<Longrightarrow>
    pool_step (m, out) [Fetched (readable_bytes b)] (m', add_mset b out)"
| mark_read: "pool_step (m, add_mset b out) [] (MarkRead b m, out)"
| set_consumer: "pool_step (m, out) [] (SetConsumer c m, out)"
| flush: "pool_step (m, out) [] (FlushReadList m, out)"
| reset: "pool_step (m, {#}) [Discarded] (BufferManager_Reset m, {#})"

inductive pool_reachable :: "nat \<Rightarrow> nat \<Rightarrow> pool_event list \<Rightarrow> pool \<Rightarrow> bool" for numberOfBuffers maxPacketSize where
  init: "pool_reachable numberOfBuffers maxPacketSize [] (BufferManager_make numberOfBuffers maxPacketSize, {#})"
| step: "pool_reachable numberOfBuffers maxPacketSize evs p \<Longrightarrow> pool_step p ev q \<Longrightarrow>
    pool_reachable numberOfBuffers maxPacketSize (evs @ ev) q"

text \<open>A buffer of the pool is whole: it has its memory, of the size of the pool.\<close>

definition wf_buffer :: "nat \<Rightarrow> PacketBuffer \<Rightarrow> bool" where
  "wf_buffer maxSize b \<longleftrightarrow>
     pb_MaxSize b = maxSize \<and> pb_Size b \<le> maxSize \<and>
     (case pb_Data b of None \<Rightarrow> False | Some bytes \<Rightarrow> length bytes = maxSize)"

definition wf_pool :: "nat \<Rightarrow> nat \<Rightarrow> pool \<Rightarrow> bool" where
  "wf_pool N sz p \<longleftrightarrow> (case p of (m, out) \<Rightarrow>
     m_MaxBufferSize m = sz \<and> m_NumberOfBuffers m = N \<and> m_MaxNumberOfBuffers m = 3 * N \<and>
     length (m_AvailableList m) + length (m_ReadableList m) + size out = m_CurrentNumberOfBuffers m \<and>
     m_CurrentNumberOfBuffers m \<le> 3 * N \<and> length (m_AvailableList m) \<le> N + 1 \<and>
     (\<forall>b \<in> set (m_AvailableList m). wf_buffer sz b) \<and>
     (\<forall>b \<in> set (m_ReadableList m). wf_buffer sz b) \<and> (\<forall>b \<in># out. wf_buffer sz b))"

lemma wf_buffer_ops:
  "wf_buffer n (PacketBuffer_make n)"
  "wf_buffer n b \<Longrightarrow> wf_buffer n (PacketBuffer_Release b)"
  "wf_buffer n b \<Longrightarrow> wf_buffer n (PacketBuffer_MarkRead b)"
  "wf_buffer n b \<Longrightarrow> PacketBuffer_Commit b k = Inr b' \<Longrightarrow> wf_buffer n b'"
  "wf_buffer n b \<Longrightarrow> length bytes' = n \<Longrightarrow> wf_buffer n (b\<lparr>pb_Data := Some bytes'\<rparr>)"
  by (auto simp: wf_buffer_def PacketBuffer_make_def PacketBuffer_Release_def PacketBuffer_MarkRead_def
      PacketBuffer_Commit_def split: option.splits)

lemma wf_pool_init: "3 * N < 2 ^ 32 \<Longrightarrow> wf_pool N sz (BufferManager_make N sz, {#})"
  by (auto simp: wf_pool_def BufferManager_make_def BufferManager_Initialize_def u32_mul_small
      wf_buffer_ops mult.commute)

lemma wf_pool_give_back:
  assumes "wf_pool N sz (m, add_mset b out)" "3 * N < 2 ^ 32" "wf_buffer sz b'"
  shows "wf_pool N sz (give_back b' m, out)"
  using assms by (auto simp: wf_pool_def give_back_def u32_sub_small)

lemma wf_pool_Reserve:
  assumes "wf_pool N sz (m, out)" "3 * N < 2 ^ 32" "Reserve n m = ((Some b, k), m')"
  shows "wf_pool N sz (m', add_mset b out)"
proof (cases "m_AvailableList m" rule: rev_cases)
  case Nil
  then show ?thesis using assms
    by (auto simp: Reserve_def wf_pool_def u32_add_small wf_buffer_ops split: if_splits)
next
  case (snoc bs b')
  then show ?thesis using assms by (auto simp: Reserve_def wf_pool_def split: if_splits)
qed

lemma wf_pool_step:
  assumes "pool_step p ev q" "wf_pool N sz p" "3 * N < 2 ^ 32"
  shows "wf_pool N sz q"
  using assms
proof (induction rule: pool_step.induct)
  case (reserve n m b k m' out)
  then show ?case using wf_pool_Reserve by blast
next
  case (reserve_fail n m k m' out)
  then have "m' = m" by (auto simp: Reserve_def split: if_splits)
  then show ?case using reserve_fail by simp
next
  case (write_data b bytes bytes' m out)
  then show ?case by (auto simp: wf_pool_def wf_buffer_def)
next
  case (commit b n notify m m' bytes out)
  then show ?case
    by (auto simp: wf_pool_def Commit_def FlushReadList_def Let_def intro: wf_buffer_ops(4) split: if_splits)
next
  case (release m b out)
  then have "wf_buffer sz (PacketBuffer_Release b)" by (auto simp: wf_pool_def wf_buffer_ops)
  then show ?case using release wf_pool_give_back by (auto simp: Release_def)
next
  case (get_readable m b m' out)
  then show ?case by (auto simp: wf_pool_def GetReadableBuffer_def split: list.splits)
next
  case (mark_read m b out)
  then have "wf_buffer sz (PacketBuffer_MarkRead b)" by (auto simp: wf_pool_def wf_buffer_ops)
  then show ?case using mark_read wf_pool_give_back by (auto simp: MarkRead_def)
next
  case (set_consumer m out c)
  then show ?case by (auto simp: wf_pool_def SetConsumer_def)
next
  case (flush m out)
  then show ?case by (auto simp: wf_pool_def FlushReadList_def)
next
  case (reset m)
  then show ?case
    by (auto simp: wf_pool_def BufferManager_Reset_def BufferManager_Initialize_def wf_buffer_ops)
qed

lemma wf_pool_reachable:
  "pool_reachable N sz evs p \<Longrightarrow> 3 * N < 2 ^ 32 \<Longrightarrow> wf_pool N sz p"
  by (induction rule: pool_reachable.induct) (auto intro: wf_pool_init wf_pool_step)

text \<open>
  C19: No buffer of the pool is lost or invented. In every reachable state the buffers in the
  available list, in the readable queue and in the hands of users add up to the counter of
  the manager, which never exceeds three times the configured number; the available list
  holds at most one buffer more than configured; and every buffer still has its memory of
  the configured size.
\<close>

theorem pool_conservation:
  assumes "pool_reachable N maxSize evs (m, out)" "3 * N < 2 ^ 32"
  shows "length (m_AvailableList m) + length (m_ReadableList m) + size out = m_CurrentNumberOfBuffers m \<and>
    m_CurrentNumberOfBuffers m \<le> 3 * N \<and> length (m_AvailableList m) \<le> N + 1 \<and>
    (\<forall>b \<in> set (m_AvailableList m) \<union> set (m_ReadableList m) \<union> set_mset out.
       \<exists>bytes. pb_Data b = Some bytes \<and> length bytes = maxSize \<and> pb_Size b \<le> maxSize)"
proof -
  have "wf_pool N maxSize (m, out)" using wf_pool_reachable assms by blast
  then show ?thesis
    by (auto simp: wf_pool_def wf_buffer_def Ball_def split: option.splits)
qed

lemma pool_reachable_example:
  "pool_reachable 1 4096 [] (BufferManager_make 1 4096 \<lparr>m_AvailableList := []\<rparr>,
     {#PacketBuffer_make 4096#})"
proof -
  have "Reserve 8 (BufferManager_make 1 4096) =
      ((Some (PacketBuffer_make 4096), 8), BufferManager_make 1 4096 \<lparr>m_AvailableList := []\<rparr>)"
    by (simp add: Reserve_def BufferManager_make_def BufferManager_Initialize_def)
  then have "pool_step (BufferManager_make 1 4096, {#}) []
      (BufferManager_make 1 4096 \<lparr>m_AvailableList := []\<rparr>, {#PacketBuffer_make 4096#})"
    by (rule pool_step.reserve)
  then show ?thesis using pool_reachable.step [OF pool_reachable.init] by fastforce
qed

theorem pool_conservation_witness:
  "size {#PacketBuffer_make 4096#} = m_CurrentNumberOfBuffers (BufferManager_make 1 4096)"
  using pool_conservation [OF pool_reachable_example]
  by (simp add: BufferManager_make_def BufferManager_Initialize_def)

text \<open>
  C27: \<open>Reserve\<close> refuses only for cause. In a reachable state a request that fits a buffer
  gets one, of the size of the pool, unless all of the three times the configured number are
  committed or in the hands of users; and then it gets none.
\<close>

theorem Reserve_refuses_iff:
  assumes "pool_reachable N maxSize evs (m, out)" "3 * N < 2 ^ 32" "n \<le> maxSize"
  shows "(case Reserve n m of
      ((None, k), m') \<Rightarrow> k = 0 \<and> m' = m \<and> length (m_ReadableList m) + size out = 3 * N
    | ((Some b, k), m') \<Rightarrow> k = n \<and> pb_MaxSize b = maxSize \<and> m_ReadableList m' = m_ReadableList m \<and>
        length (m_ReadableList m) + size out < 3 * N)"
proof -
  have wf: "wf_pool N maxSize (m, out)" using wf_pool_reachable assms(1,2) by blast
  show ?thesis
  proof (cases "m_AvailableList m" rule: rev_cases)
    case Nil
    then show ?thesis using wf assms(3)
      by (auto simp: Reserve_def wf_pool_def PacketBuffer_make_def)
  next
    case (snoc bs b)
    then show ?thesis using wf assms(3)
      by (auto simp: Reserve_def wf_pool_def wf_buffer_def)
  qed
qed

theorem Reserve_refuses_iff_witness:
  "\<exists>b m'. Reserve 100 (BufferManager_make 1 4096 \<lparr>m_AvailableList := []\<rparr>) = ((Some b, 100), m') \<and>
    pb_MaxSize b = 4096"
proof -
  let ?m = "BufferManager_make 1 4096 \<lparr>m_AvailableList := []\<rparr>"
  have "case Reserve 100 ?m of
      ((None, k), m') \<Rightarrow> k = 0 \<and> m' = ?m \<and> length (m_ReadableList ?m) + size {#PacketBuffer_make 4096#} = 3 * 1
    | ((Some b, k), m') \<Rightarrow> k = 100 \<and> pb_MaxSize b = 4096 \<and> m_ReadableList m' = m_ReadableList ?m \<and>
        length (m_ReadableList ?m) + size {#PacketBuffer_make 4096#} < 3 * 1"
    by (rule Reserve_refuses_iff) (use pool_reachable_example in simp_all)
  then show ?thesis
    by (auto simp: BufferManager_make_def BufferManager_Initialize_def split: prod.splits option.splits)
qed

subsection \<open>The pool is a first-in first-out queue of packets\<close>

text \<open>
  The contract: the packets committed and not yet fetched, in order. \<open>None\<close> is an event the
  contract does not allow.
\<close>

definition queue_spec :: "pool_event \<Rightarrow> byte list list option \<Rightarrow> byte list list option" where
  "queue_spec ev q = (case q of
     None \<Rightarrow> None
   | Some packets \<Rightarrow> (case ev of
        Committed bytes \<Rightarrow> Some (packets @ [bytes])
      | Fetched bytes \<Rightarrow>
          (case packets of [] \<Rightarrow> None | x # xs \<Rightarrow> if x = bytes then Some xs else None)
      | Discarded \<Rightarrow> Some []))"

definition committed :: "BufferManager \<Rightarrow> byte list list" where
  "committed m = map readable_bytes (m_ReadableList m)"

lemma give_back_readable [simp]: "m_ReadableList (give_back b m) = m_ReadableList m"
  by (simp add: give_back_def)

lemma Reserve_readable: "Reserve n m = (r, m') \<Longrightarrow> m_ReadableList m' = m_ReadableList m"
  by (auto simp: Reserve_def split: if_splits)

lemma Commit_committed:
  assumes "Commit b n notify m = Inr m'" "pb_Data b = Some bytes"
  shows "committed m' = committed m @ [take n bytes]"
  using assms by (auto simp: Commit_def PacketBuffer_Commit_def committed_def readable_bytes_def
      FlushReadList_def Let_def)

lemma pool_step_refines:
  assumes "pool_step p ev q"
  shows "fold queue_spec ev (Some (committed (fst p))) = Some (committed (fst q))"
  using assms
proof (induction rule: pool_step.induct)
  case (commit b n notify m m' bytes out)
  then show ?case by (simp add: queue_spec_def Commit_committed)
next
  case (get_readable m b m' out)
  then show ?case by (auto simp: queue_spec_def committed_def GetReadableBuffer_def split: list.splits)
qed (auto simp: committed_def queue_spec_def Release_def MarkRead_def SetConsumer_def FlushReadList_def
    BufferManager_Reset_def BufferManager_Initialize_def dest: Reserve_readable)

text \<open>
  C20: Readers get the packets that writers committed, each once, in the order of the commits
  and with exactly the committed bytes, however reservations, writes into reserved buffers,
  releases and resets are interleaved: every execution of the buffer manager is one of a
  first-in first-out queue, and the queue's content is what is still in the readable list.
\<close>

theorem pool_refines_queue:
  assumes "pool_reachable N maxSize evs (m, out)"
  shows "fold queue_spec evs (Some []) = Some (map readable_bytes (m_ReadableList m))"
proof -
  have "fold queue_spec evs (Some []) = Some (committed (fst p))"
    if "pool_reachable N maxSize evs p" for p
    using that
  proof (induction rule: pool_reachable.induct)
    case init
    then show ?case by (simp add: committed_def BufferManager_make_def BufferManager_Initialize_def)
  next
    case (step evs p ev q)
    then show ?case by (simp add: pool_step_refines)
  qed
  from this [OF assms] show ?thesis by (simp add: committed_def)
qed

lemma pool_reachable_committed:
  "\<exists>m. pool_reachable 1 4096 [Committed (replicate 8 0)] (m, {#})"
proof -
  let ?m = "BufferManager_make 1 4096 \<lparr>m_AvailableList := []\<rparr>"
  obtain m' where "Commit (PacketBuffer_make 4096) 8 True ?m = Inr m'"
    by (simp add: Commit_def PacketBuffer_Commit_def PacketBuffer_make_def)
  then have "pool_step (?m, {#PacketBuffer_make 4096#}) [Committed (take 8 (replicate 4096 0))] (m', {#})"
    by (rule pool_step.commit) (simp add: PacketBuffer_make_def)
  from pool_reachable.step [OF pool_reachable_example this]
  have "pool_reachable 1 4096 [Committed (take 8 (replicate 4096 0))] (m', {#})"
    by (simp only: append_Nil)
  moreover have "take 8 (replicate 4096 (0 :: byte)) = replicate 8 0"
    by (simp add: take_replicate del: replicate_numeral_Cons)
  ultimately show ?thesis by metis
qed

theorem pool_refines_queue_witness:
  "\<exists>m :: BufferManager. map readable_bytes (m_ReadableList m) = [replicate 8 0]"
proof -
  obtain m where "pool_reachable 1 4096 [Committed (replicate 8 0)] (m, {#})"
    using pool_reachable_committed by blast
  from pool_refines_queue [OF this] show ?thesis by (intro exI [of _ m]) (simp add: queue_spec_def)
qed

text \<open>
  A surge buffer that is given back when the list is full is kept: the test against the
  configured number allows equality, so the list grows to one more than configured.
\<close>

lemma Release_keeps_surge_buffer:
  assumes "length (m_AvailableList m) = m_NumberOfBuffers m"
  shows "length (m_AvailableList (Release b m)) = m_NumberOfBuffers m + 1 \<and>
    m_CurrentNumberOfBuffers (Release b m) = m_CurrentNumberOfBuffers m"
  using assms by (simp add: Release_def give_back_def)

end
