(* ===== verification/SendTimeline.thy ===== *)
theory SendTimeline
  imports BufferPool TimelinePackets
begin

section \<open>Sending timeline packets (profiling/client SendTimelinePacket.cpp)\<close>

text \<open>
  \<open>SendTimelinePacket\<close> collects messages in a reserved buffer and commits it, behind a packet
  header, when it is full or on demand. It is written against the interface
  \<open>IBufferManager\<close>, here a record of the operations it calls, and the locale
  \<open>buffer_manager\<close> states what it relies on; \<open>BufferManager\<close> provides it. An operation
  that throws leaves its object and the manager changed, so operations return a result and the
  state they end in.
\<close>

subsection \<open>The interface\<close>

record 's IBufferManager =
  bm_Reserve :: "nat \<Rightarrow> 's \<Rightarrow> (PacketBuffer option \<times> nat) \<times> 's"
  bm_Commit :: "PacketBuffer \<Rightarrow> nat \<Rightarrow> bool \<Rightarrow> 's \<Rightarrow> 's result"

definition MAX_METADATA_PACKET_LENGTH :: nat where
  "MAX_METADATA_PACKET_LENGTH = 4096"

record SendTimelinePacket =
  m_WriteBuffer :: "PacketBuffer option"
  m_Offset :: nat
  m_RemainingBufferSize :: nat
  m_PacketHeader :: "32 word \<times> 32 word"
  m_PacketDataLength :: nat
  m_DirectoryPackage :: bool

definition SendTimelinePacket_make :: SendTimelinePacket where
  "SendTimelinePacket_make =
     \<lparr>m_WriteBuffer = None, m_Offset = 8, m_RemainingBufferSize = 0, m_PacketHeader = (0, 0),
      m_PacketDataLength = 0, m_DirectoryPackage = False\<rparr>"

type_synonym 's sender = "'s \<times> SendTimelinePacket"
type_synonym 's sent = "unit result \<times> 's sender"

definition then_do :: "'s sent \<Rightarrow> ('s sender \<Rightarrow> 's sent) \<Rightarrow> 's sent" where
  "then_do r f = (case r of (Inl e, st) \<Rightarrow> (Inl e, st) | (Inr _, st) \<Rightarrow> f st)"

lemma then_do_simps [simp]:
  "then_do (Inl e, st) f = (Inl e, st)" "then_do (Inr u, st) f = f st"
  by (simp_all add: then_do_def)

subsection \<open>Operations\<close>

text \<open>A write through \<open>GetWritableData()\<close>.\<close>

definition write_data :: "(byte list \<Rightarrow> byte list) \<Rightarrow> PacketBuffer \<Rightarrow> PacketBuffer" where
  "write_data f b = b\<lparr>pb_Data := map_option f (pb_Data b)\<rparr>"

text \<open>\<open>m_BufferManager.Commit(m_WriteBuffer, size)\<close> and the assignments after it.\<close>

definition commit_buffer :: "'s IBufferManager \<Rightarrow> PacketBuffer \<Rightarrow> nat \<Rightarrow> 's sender \<Rightarrow> 's sent" where
  "commit_buffer M b sz st = (case st of (s, p) \<Rightarrow>
     (case bm_Commit M b sz True s of
        Inl e \<Rightarrow> (Inl e, (s, p))
      | Inr s' \<Rightarrow> (Inr (), (s', p\<lparr>m_WriteBuffer := None, m_Offset := 8, m_RemainingBufferSize := 0\<rparr>))))"

definition Timeline_Commit :: "'s IBufferManager \<Rightarrow> 's sender \<Rightarrow> 's sent" where
  "Timeline_Commit M st = (case st of (s, p) \<Rightarrow>
     (case m_WriteBuffer p of
        None \<Rightarrow> (Inr (), st)
      | Some b \<Rightarrow>
        if \<not> m_DirectoryPackage p then
          let dataLength = u32_sub (m_Offset p) 8;
              header = CreateTimelinePacketHeader 1 0 1 0 0 (of_nat dataLength);
              b = write_data (\<lambda>d. WriteUint32 (WriteUint32 d 0 (fst header)) 4 (snd header)) b
          in commit_buffer M b (u32_add dataLength 8)
               (s, p\<lparr>m_WriteBuffer := Some b, m_Offset := 4, m_PacketHeader := header,
                     m_PacketDataLength := dataLength\<rparr>)
        else commit_buffer M b (m_Offset p) (s, p\<lparr>m_DirectoryPackage := False\<rparr>)))"

definition ReserveBuffer :: "'s IBufferManager \<Rightarrow> 's sender \<Rightarrow> 's sent" where
  "ReserveBuffer M st = (case st of (s, p) \<Rightarrow>
     if m_WriteBuffer p \<noteq> None then (Inr (), st)
     else (case bm_Reserve M MAX_METADATA_PACKET_LENGTH s of ((buffer, reserved), s') \<Rightarrow>
       let p = p\<lparr>m_WriteBuffer := buffer\<rparr> in
       if buffer = None then (Inl (BufferExhaustionException ''No free buffers left''), (s', p))
       else if reserved < m_Offset p
       then (Inl (BufferExhaustionException ''Reserved space too small for use''), (s', p))
       else if m_DirectoryPackage p then (Inr (), (s', p\<lparr>m_RemainingBufferSize := reserved\<rparr>))
       else (Inr (), (s', p\<lparr>m_RemainingBufferSize := u32_sub reserved 8\<rparr>))))"

text \<open>
  One call of a writer at \<open>&GetWritableData()[m_Offset]\<close>: its status, the number of bytes
  and the object with the changed buffer.
\<close>

definition call_writer ::
    "(byte list option \<Rightarrow> nat \<Rightarrow> written) \<Rightarrow> PacketBuffer \<Rightarrow> SendTimelinePacket \<Rightarrow>
     TimelinePacketStatus \<times> nat \<times> SendTimelinePacket" where
  "call_writer writer b p =
     (case writer (map_option (drop (m_Offset p)) (pb_Data b)) (m_RemainingBufferSize p) of
        (status, written, n) \<Rightarrow>
          (status, n, p\<lparr>m_WriteBuffer := Some (b\<lparr>pb_Data :=
             (case written of None \<Rightarrow> pb_Data b
              | Some d \<Rightarrow> map_option (\<lambda>d0. take (m_Offset p) d0 @ d) (pb_Data b))\<rparr>)\<rparr>))"

partial_function (option) forward_loop ::
    "'s IBufferManager \<Rightarrow> (byte list option \<Rightarrow> nat \<Rightarrow> written) \<Rightarrow> 's sender \<Rightarrow> 's sent option" where
  "forward_loop M writer st = (case st of (s, p) \<Rightarrow>
     (case m_WriteBuffer p of
        None \<Rightarrow> Some (Inl (AssertionFailure ''m_WriteBuffer''), st)
      | Some b \<Rightarrow>
        (case call_writer writer b p of (status, n, p) \<Rightarrow>
          (case status of
             BufferExhaustion \<Rightarrow>
               (case then_do (Timeline_Commit M (s, p)) (ReserveBuffer M) of
                  (Inl e, st) \<Rightarrow> Some (Inl e, st)
                | (Inr _, st) \<Rightarrow> forward_loop M writer st)
           | Error \<Rightarrow>
               Some (Inl (ProfilingException ''Error processing while sending TimelineBinaryPacket''), (s, p))
           | Ok \<Rightarrow>
               Some (Inr (), (s, p\<lparr>m_Offset := u32_add (m_Offset p) n,
                 m_RemainingBufferSize := u32_sub (m_RemainingBufferSize p) n\<rparr>))))))"

text \<open>The handlers at the end: only unexpected exceptions are replaced.\<close>

fun rethrow :: "exn \<Rightarrow> exn" where
  "rethrow (BufferExhaustionException e) = BufferExhaustionException e"
| "rethrow (ProfilingException e) = ProfilingException e"
| "rethrow (AssertionFailure e) = AssertionFailure e"
| "rethrow (UndefinedBehaviour e) = UndefinedBehaviour e"
| "rethrow _ = ProfilingException ''Unknown Exception thrown while sending TimelineBinaryPacket''"

definition ForwardWriteBinaryFunction ::
    "'s IBufferManager \<Rightarrow> (byte list option \<Rightarrow> nat \<Rightarrow> written) \<Rightarrow> 's sender \<Rightarrow> 's sent option" where
  "ForwardWriteBinaryFunction M writer st =
     map_option (map_prod (map_sum rethrow id) id)
       (case ReserveBuffer M st of
          (Inl e, st) \<Rightarrow> Some (Inl e, st)
        | (Inr _, st) \<Rightarrow> forward_loop M writer st)"

definition SendTimelineEntityBinaryPacket :: "'s IBufferManager \<Rightarrow> 64 word \<Rightarrow> 's sender \<Rightarrow> 's sent option" where
  "SendTimelineEntityBinaryPacket M profilingGuid =
     ForwardWriteBinaryFunction M (WriteTimelineEntityBinary profilingGuid)"

definition SendTimelineEventBinaryPacket ::
    "'s IBufferManager \<Rightarrow> 64 word \<Rightarrow> 32 word \<Rightarrow> 64 word \<Rightarrow> 's sender \<Rightarrow> 's sent option" where
  "SendTimelineEventBinaryPacket M timestamp threadId profilingGuid =
     ForwardWriteBinaryFunction M (WriteTimelineEventBinary timestamp threadId profilingGuid)"

definition SendTimelineEventClassBinaryPacket ::
    "'s IBufferManager \<Rightarrow> 64 word \<Rightarrow> 64 word \<Rightarrow> 's sender \<Rightarrow> 's sent option" where
  "SendTimelineEventClassBinaryPacket M profilingGuid nameGuid =
     ForwardWriteBinaryFunction M (WriteTimelineEventClassBinary profilingGuid nameGuid)"

definition SendTimelineLabelBinaryPacket ::
    "'s IBufferManager \<Rightarrow> 64 word \<Rightarrow> string \<Rightarrow> 's sender \<Rightarrow> 's sent option" where
  "SendTimelineLabelBinaryPacket M profilingGuid label =
     ForwardWriteBinaryFunction M (WriteTimelineLabelBinaryPacket profilingGuid label)"

definition SendTimelineRelationshipBinaryPacket ::
    "'s IBufferManager \<Rightarrow> ProfilingRelationshipType \<Rightarrow> 64 word \<Rightarrow> 64 word \<Rightarrow> 64 word \<Rightarrow> 64 word \<Rightarrow>
     's sender \<Rightarrow> 's sent option" where
  "SendTimelineRelationshipBinaryPacket M type relationshipGuid headGuid tailGuid attributeGuid =
     ForwardWriteBinaryFunction M
       (WriteTimelineRelationshipBinary type relationshipGuid headGuid tailGuid attributeGuid)"

text \<open>The directory package is written at offset 0; every exception becomes the same one.\<close>

definition SendTimelineMessageDirectoryPackage :: "'s IBufferManager \<Rightarrow> 's sender \<Rightarrow> 's sent" where
  "SendTimelineMessageDirectoryPackage M st =
     (case then_do
        (ReserveBuffer M (fst st, (snd st)\<lparr>m_DirectoryPackage := True\<rparr>))
        (\<lambda>(s, p).
           let p = p\<lparr>m_Offset := 0\<rparr> in
           (case m_WriteBuffer p of
              None \<Rightarrow> (Inl (UndefinedBehaviour ''null m_WriteBuffer''), (s, p))
            | Some b \<Rightarrow>
              (case call_writer WriteTimelineMessageDirectoryPackage b p of (status, n, p) \<Rightarrow>
                 if status \<noteq> Ok
                 then (Inl (ProfilingException ''Error processing TimelineMessageDirectoryPackage''), (s, p))
                 else Timeline_Commit M (s, p\<lparr>m_Offset := u32_add (m_Offset p) n,
                   m_RemainingBufferSize := u32_sub (m_RemainingBufferSize p) n\<rparr>)))) of
        (Inl _, st) \<Rightarrow> (Inl (ProfilingException ''Error processing TimelineMessageDirectoryPackage''), st)
      | (Inr _, st) \<Rightarrow> (Inr (), st))"

text \<open>The five calls as one, for the theorems over sequences of messages.\<close>

fun send_message :: "'s IBufferManager \<Rightarrow> timeline_message \<Rightarrow> 's sender \<Rightarrow> 's sent option" where
  "send_message M (LabelMessage guid label) = SendTimelineLabelBinaryPacket M guid label"
| "send_message M (EntityMessage guid) = SendTimelineEntityBinaryPacket M guid"
| "send_message M (EventClassMessage guid nameGuid) = SendTimelineEventClassBinaryPacket M guid nameGuid"
| "send_message M (RelationshipMessage type guid headGuid tailGuid attributeGuid) =
     SendTimelineRelationshipBinaryPacket M type guid headGuid tailGuid attributeGuid"
| "send_message M (EventMessage timestamp threadId guid) =
     SendTimelineEventBinaryPacket M timestamp threadId guid"

lemma send_message_forward: "send_message M m = ForwardWriteBinaryFunction M (write_message m)"
  by (cases m) (simp_all add: SendTimelineLabelBinaryPacket_def SendTimelineEntityBinaryPacket_def
      SendTimelineEventClassBinaryPacket_def SendTimelineRelationshipBinaryPacket_def
      SendTimelineEventBinaryPacket_def)

text \<open>A sequence of calls, up to the first that throws.\<close>

fun send_all :: "'s IBufferManager \<Rightarrow> timeline_message list \<Rightarrow> 's sender \<Rightarrow> 's sent option" where
  "send_all M [] st = Some (Inr (), st)"
| "send_all M (m # ms) st =
     (case send_message M m st of
        None \<Rightarrow> None
      | Some (Inl e, st) \<Rightarrow> Some (Inl e, st)
      | Some (Inr _, st) \<Rightarrow> send_all M ms st)"

subsection \<open>The contract of the buffer manager, and what the sender makes of it\<close>

definition payload :: "timeline_message list \<Rightarrow> byte list" where
  "payload ms = concat (map wire_format ms)"

definition packet_of :: "timeline_message list \<Rightarrow> byte list" where
  "packet_of ms =
     (let header = CreateTimelinePacketHeader 1 0 1 0 0 (of_nat (length (payload ms)))
      in le_bytes 4 (fst header) @ le_bytes 4 (snd header) @ payload ms)"

text \<open>The sender is between two calls, with the messages \<open>ms\<close> in its buffer.\<close>

definition sending :: "SendTimelinePacket \<Rightarrow> timeline_message list \<Rightarrow> bool" where
  "sending p ms \<longleftrightarrow> \<not> m_DirectoryPackage p \<and> m_Offset p = 8 + length (payload ms) \<and>
     (case m_WriteBuffer p of
        None \<Rightarrow> ms = []
      | Some b \<Rightarrow> (\<exists>d. pb_Data b = Some d \<and> length d = pb_MaxSize b \<and> 4096 \<le> length d \<and>
          m_Offset p \<le> 4096 \<and> m_RemainingBufferSize p = 4096 - m_Offset p \<and>
          holds_at d 8 (payload ms)))"

lemma payload_simps [simp]:
  "payload [] = []" "payload (m # ms) = wire_format m @ payload ms"
  "payload (ms @ ns) = payload ms @ payload ns"
  by (simp_all add: payload_def)

text \<open>No buffer left.\<close>

definition exhausted :: "'s IBufferManager \<Rightarrow> 's \<Rightarrow> bool" where
  "exhausted M s \<longleftrightarrow> fst (fst (bm_Reserve M MAX_METADATA_PACKET_LENGTH s)) = None"

locale buffer_manager =
  fixes M :: "'s IBufferManager"
    and packets :: "'s \<Rightarrow> byte list list"
    and inv :: "'s \<Rightarrow> bool"
  assumes reserve: "inv s \<Longrightarrow> bm_Reserve M n s = ((buffer, k), s') \<Longrightarrow>
      inv s' \<and> packets s' = packets s \<and> (buffer = None \<longrightarrow> s' = s) \<and>
      (\<forall>b. buffer = Some b \<longrightarrow> k = n \<and>
         (\<exists>d. pb_Data b = Some d \<and> length d = pb_MaxSize b \<and> n \<le> length d))"
    and commit: "inv s \<Longrightarrow> pb_Data b = Some d \<Longrightarrow> length d = pb_MaxSize b \<Longrightarrow> k \<le> length d \<Longrightarrow>
      \<exists>s'. bm_Commit M b k notify s = Inr s' \<and> inv s' \<and> packets s' = packets s @ [take k d]"
begin

lemma commit_sending:
  assumes "inv s" "sending p ms" "m_WriteBuffer p = Some b"
  obtains s' p' where "Timeline_Commit M (s, p) = (Inr (), (s', p'))" "inv s'"
    "packets s' = packets s @ [packet_of ms]" "sending p' []" "m_WriteBuffer p' = None"
proof -
  let ?n = "length (payload ms)"
  let ?h = "CreateTimelinePacketHeader 1 0 1 0 0 (of_nat ?n)"
  obtain d where d: "pb_Data b = Some d" "length d = pb_MaxSize b" "4096 \<le> length d"
    "m_Offset p = 8 + ?n" "8 + ?n \<le> 4096" "holds_at d 8 (payload ms)" "\<not> m_DirectoryPackage p"
    using assms(2,3) by (auto simp: sending_def)
  let ?d = "WriteUint32 (WriteUint32 d 0 (fst ?h)) 4 (snd ?h)"
  have n: "u32_sub (8 + ?n) 8 = ?n" "u32_add ?n 8 = 8 + ?n"
    using d(5) by (simp_all add: u32_sub_small u32_add_small)
  have dd: "?d = overwrite d 0 (le_bytes 4 (fst ?h) @ le_bytes 4 (snd ?h))"
    using d(3) by (simp add: write_simps)
  have len: "length ?d = length d" using d(3) by (simp add: dd)
  have "take (8 + ?n) ?d = packet_of ms"
    using d(3,5,6) by (simp add: dd overwrite_def packet_of_def Let_def holds_at_def)
  moreover
  let ?b = "write_data (\<lambda>d. WriteUint32 (WriteUint32 d 0 (fst ?h)) 4 (snd ?h)) b"
  have "pb_Data ?b = Some ?d" "length ?d = pb_MaxSize ?b" "8 + ?n \<le> length ?d"
    using d len by (simp_all add: write_data_def)
  from commit [OF assms(1) this, of True] obtain s' where
    "bm_Commit M ?b (8 + ?n) True s = Inr s'" "inv s'" "packets s' = packets s @ [take (8 + ?n) ?d]"
    by blast
  ultimately show ?thesis
    using that d n assms(3)
    by (auto simp: Timeline_Commit_def commit_buffer_def Let_def sending_def)
qed

lemma reserve_sending:
  assumes "inv s" "sending p ms" "m_WriteBuffer p = None"
  obtains (reserved) s' p' b where "ReserveBuffer M (s, p) = (Inr (), (s', p'))" "inv s'"
      "packets s' = packets s" "sending p' []" "m_WriteBuffer p' = Some b"
  | (no_buffer) s' p' where
      "ReserveBuffer M (s, p) = (Inl (BufferExhaustionException ''No free buffers left''), (s', p'))"
      "inv s'" "packets s' = packets s" "sending p' []" "m_WriteBuffer p' = None" "exhausted M s'"
proof -
  obtain buffer k s' where r: "bm_Reserve M MAX_METADATA_PACKET_LENGTH s = ((buffer, k), s')"
    by (metis surj_pair)
  have p: "m_Offset p = 8" "\<not> m_DirectoryPackage p" using assms(2,3) by (auto simp: sending_def)
  show ?thesis
  proof (cases buffer)
    case None
    then show ?thesis
      using no_buffer [of s' "p\<lparr>m_WriteBuffer := None\<rparr>"] reserve [OF assms(1) r] r p assms(1,3)
      by (simp add: ReserveBuffer_def sending_def exhausted_def)
  next
    case (Some b)
    then show ?thesis
      using reserved [of s' "p\<lparr>m_WriteBuffer := Some b, m_RemainingBufferSize := 4088\<rparr>" b]
        reserve [OF assms(1) r] r p assms(3)
      by (auto simp: ReserveBuffer_def sending_def MAX_METADATA_PACKET_LENGTH_def u32_sub_small holds_at_def)
  qed
qed

end

text \<open>A writer at the end of the collected messages.\<close>

lemma call_writer_sending:
  assumes "sending p ms" "m_WriteBuffer p = Some b" "valid_message m"
  shows "if 8 + length (payload (ms @ [m])) \<le> 4096
    then \<exists>p'. call_writer (write_message m) b p = (Ok, length (wire_format m), p') \<and>
      sending (p'\<lparr>m_Offset := u32_add (m_Offset p') (length (wire_format m)),
        m_RemainingBufferSize := u32_sub (m_RemainingBufferSize p') (length (wire_format m))\<rparr>) (ms @ [m])
    else call_writer (write_message m) b p = (BufferExhaustion, 0, p)"
proof -
  let ?n = "length (payload ms)" and ?k = "length (wire_format m)"
  obtain d where d: "pb_Data b = Some d" "length d = pb_MaxSize b" "4096 \<le> length d"
    "m_Offset p = 8 + ?n" "8 + ?n \<le> 4096" "m_RemainingBufferSize p = 4096 - (8 + ?n)"
    "holds_at d 8 (payload ms)" "\<not> m_DirectoryPackage p"
    using assms(1,2) by (auto simp: sending_def)
  have spec: "write_message m (Some (drop (8 + ?n) d)) (4096 - (8 + ?n)) =
    (if ?k \<le> 4096 - (8 + ?n) then (Ok, Some (overwrite (drop (8 + ?n) d) 0 (wire_format m)), ?k)
     else (BufferExhaustion, Some (drop (8 + ?n) d), 0))"
    using write_message_spec [OF assms(3), of "4096 - (8 + ?n)" "drop (8 + ?n) d"] d(3,5)
    by (simp add: Let_def)
  show ?thesis
  proof (cases "8 + length (payload (ms @ [m])) \<le> 4096")
    case False
    have "p\<lparr>m_WriteBuffer := Some (b\<lparr>pb_Data := Some d\<rparr>)\<rparr> = p"
      using assms(2) d(1) by (cases p; cases b) simp
    then show ?thesis using False spec d by (simp add: call_writer_def)
  next
    case True
    let ?d = "take (8 + ?n) d @ overwrite (drop (8 + ?n) d) 0 (wire_format m)"
    have eq: "?d = overwrite d (8 + ?n) (wire_format m)" by (simp add: overwrite_def add.commute)
    have len: "length ?d = length d" using True d(3) by (simp add: eq)
    have "holds_at ?d (8 + ?n) (wire_format m)"
      unfolding eq using True d(3) by (intro holds_at_overwrite) simp
    moreover have "holds_at ?d 8 (payload ms)"
      using overwrite_read_other [of "8 + ?n" "wire_format m" d 8 ?n] d(3,7) True
      by (simp add: holds_at_def len eq)
    ultimately have "holds_at ?d 8 (payload (ms @ [m]))" by (simp add: holds_at_append)
    then show ?thesis using True spec d len assms(2)
      by (auto simp: call_writer_def sending_def u32_add_small u32_sub_small)
  qed
qed

context buffer_manager
begin

lemma forward_fits:
  assumes "sending p ms" "m_WriteBuffer p = Some b" "valid_message m"
    "8 + length (payload (ms @ [m])) \<le> 4096"
  obtains p' where "forward_loop M (write_message m) (s, p) = Some (Inr (), (s, p'))" "sending p' (ms @ [m])"
  using call_writer_sending [OF assms(1-3)] assms(2,4)
  by (subst (asm) forward_loop.simps) auto

end

text \<open>
  One send: the message joins the pending ones, or the pending ones are committed and it
  starts a new buffer, or there is no buffer and nothing is pending any more.
\<close>

definition send_outcome ::
    "bool \<Rightarrow> timeline_message list \<Rightarrow> timeline_message \<Rightarrow> byte list list \<Rightarrow> unit result \<Rightarrow> byte list list \<Rightarrow>
     SendTimelinePacket \<Rightarrow> bool" where
  "send_outcome full ms m before r after p \<longleftrightarrow>
     r = Inr () \<and> after = before \<and> sending p (ms @ [m]) \<or>
     r = Inr () \<and> ms \<noteq> [] \<and> length (payload ms) \<le> 4088 \<and> after = before @ [packet_of ms] \<and>
       sending p [m] \<or>
     r = Inl (BufferExhaustionException ''No free buffers left'') \<and> sending p [] \<and> full \<and>
       (ms = [] \<and> after = before \<or>
        ms \<noteq> [] \<and> length (payload ms) \<le> 4088 \<and> after = before @ [packet_of ms])"

context buffer_manager
begin

lemma forward_full:
  assumes "inv s" "sending p ms" "m_WriteBuffer p = Some b" "valid_message m"
    "8 + length (wire_format m) \<le> 4096" "\<not> 8 + length (payload (ms @ [m])) \<le> 4096"
  shows "\<exists>r s' p'. forward_loop M (write_message m) (s, p) = Some (r, (s', p')) \<and> inv s' \<and>
    send_outcome (exhausted M s') ms m (packets s) r (packets s') p'"
proof -
  have "ms \<noteq> []" using assms(5,6) by auto
  have fits: "length (payload ms) \<le> 4088" using assms(2,3) by (auto simp: sending_def)
  have call: "call_writer (write_message m) b p = (BufferExhaustion, 0, p)"
    using call_writer_sending [OF assms(2-4)] assms(6) by simp
  obtain s1 p1 where c: "Timeline_Commit M (s, p) = (Inr (), (s1, p1))" "inv s1"
    "packets s1 = packets s @ [packet_of ms]" "sending p1 []" "m_WriteBuffer p1 = None"
    by (rule commit_sending [OF assms(1-3)])
  show ?thesis
  proof (rule reserve_sending [OF c(2,4,5)])
    fix s2 p2 b2 assume r: "ReserveBuffer M (s1, p1) = (Inr (), (s2, p2))" "inv s2"
      "packets s2 = packets s1" "sending p2 []" "m_WriteBuffer p2 = Some b2"
    obtain p3 where "forward_loop M (write_message m) (s2, p2) = Some (Inr (), (s2, p3))"
      "sending p3 ([] @ [m])"
      using forward_fits [OF r(4,5) assms(4)] assms(5) by auto
    then show ?thesis using call c r fits \<open>ms \<noteq> []\<close> assms(3)
      by (subst forward_loop.simps) (auto simp: send_outcome_def)
  next
    fix s2 p2 assume "ReserveBuffer M (s1, p1) =
        (Inl (BufferExhaustionException ''No free buffers left''), (s2, p2))" "inv s2"
      "packets s2 = packets s1" "sending p2 []" "m_WriteBuffer p2 = None" "exhausted M s2"
    then show ?thesis using call c fits \<open>ms \<noteq> []\<close> assms(3)
      by (subst forward_loop.simps) (auto simp: send_outcome_def)
  qed
qed

lemma send_message_sending:
  assumes "inv s" "sending p ms" "valid_message m" "8 + length (wire_format m) \<le> 4096"
  shows "\<exists>r s' p'. send_message M m (s, p) = Some (r, (s', p')) \<and> inv s' \<and>
    send_outcome (exhausted M s') ms m (packets s) r (packets s') p'"
proof -
  have forward: "\<exists>r s' p'. forward_loop M (write_message m) (s, p) = Some (r, (s', p')) \<and> inv s' \<and>
    send_outcome (exhausted M s') ms m (packets s) r (packets s') p'"
    if st: "inv s" "sending p ms" "m_WriteBuffer p = Some b" for s p b
  proof (cases "8 + length (payload (ms @ [m])) \<le> 4096")
    case True
    obtain p' where "forward_loop M (write_message m) (s, p) = Some (Inr (), (s, p'))" "sending p' (ms @ [m])"
      using forward_fits [OF st(2,3) assms(3) True] .
    then show ?thesis using st(1) by (auto simp: send_outcome_def)
  qed (use forward_full st assms in blast)
  have ok: "map_prod (map_sum rethrow id) id (r, st) = (r, st)"
    if "send_outcome full ms m xs r ys q" for full r st xs ys q
    using that by (auto simp: send_outcome_def)
  show ?thesis
  proof (cases "m_WriteBuffer p")
    case (Some b)
    obtain r s' p' where f: "forward_loop M (write_message m) (s, p) = Some (r, (s', p'))" "inv s'"
      "send_outcome (exhausted M s') ms m (packets s) r (packets s') p'"
      using forward [OF assms(1,2) Some] by blast
    then show ?thesis using Some ok [OF f(3)]
      by (simp add: send_message_forward ForwardWriteBinaryFunction_def ReserveBuffer_def)
  next
    case None
    then have "ms = []" "sending p []" using assms(2) by (auto simp: sending_def)
    show ?thesis
    proof (rule reserve_sending [OF assms(1) \<open>sending p []\<close> None])
      fix s2 p2 b2 assume r: "ReserveBuffer M (s, p) = (Inr (), (s2, p2))" "inv s2"
        "packets s2 = packets s" "sending p2 []" "m_WriteBuffer p2 = Some b2"
      obtain r' s' p' where f: "forward_loop M (write_message m) (s2, p2) = Some (r', (s', p'))" "inv s'"
        "send_outcome (exhausted M s') ms m (packets s2) r' (packets s') p'"
        using forward [OF r(2) _ r(5)] r(4) \<open>ms = []\<close> by blast
      then show ?thesis using r ok [OF f(3)]
        by (simp add: send_message_forward ForwardWriteBinaryFunction_def)
    next
      fix s2 p2 assume "ReserveBuffer M (s, p) =
          (Inl (BufferExhaustionException ''No free buffers left''), (s2, p2))" "inv s2"
        "packets s2 = packets s" "sending p2 []" "m_WriteBuffer p2 = None" "exhausted M s2"
      then show ?thesis using \<open>ms = []\<close>
        by (simp add: send_message_forward ForwardWriteBinaryFunction_def send_outcome_def)
    qed
  qed
qed

end

text \<open>Messages that fit what is left of the buffer are all sent, without a call of the manager.\<close>

context buffer_manager
begin

lemma send_all_fits:
  assumes "sending p ms" "m_WriteBuffer p = Some b" "\<And>m. m \<in> set ns \<Longrightarrow> valid_message m"
    "8 + length (payload (ms @ ns)) \<le> 4096"
  shows "\<exists>p'. send_all M ns (s, p) = Some (Inr (), (s, p'))"
  using assms
proof (induction ns arbitrary: p ms b)
  case (Cons m ns)
  obtain p' where p': "forward_loop M (write_message m) (s, p) = Some (Inr (), (s, p'))" "sending p' (ms @ [m])"
  proof (rule forward_fits [OF Cons.prems(1,2)])
    show "valid_message m" using Cons.prems(3) by simp
    show "8 + length (payload (ms @ [m])) \<le> 4096" using Cons.prems(4) by simp
  qed
  then obtain b' where "m_WriteBuffer p' = Some b'" by (cases "m_WriteBuffer p'") (auto simp: sending_def)
  then obtain p'' where "send_all M ns (s, p') = Some (Inr (), (s, p''))"
    using Cons.IH [OF p'(2)] Cons.prems(3,4) by auto
  then show ?case using p'(1) Cons.prems(2)
    by (simp add: send_message_forward ForwardWriteBinaryFunction_def ReserveBuffer_def)
qed simp

lemma send_all_first:
  assumes "inv s" "\<not> exhausted M s" "\<And>m. m \<in> set ns \<Longrightarrow> valid_message m" "8 + length (payload ns) \<le> 4096"
    "sending p []" "m_WriteBuffer p = None" "ns \<noteq> []"
  shows "\<exists>st. send_all M ns (s, p) = Some (Inr (), st)"
proof (rule reserve_sending [OF assms(1,5,6)])
  fix s' p' b assume r: "ReserveBuffer M (s, p) = (Inr (), (s', p'))" "sending p' []" "m_WriteBuffer p' = Some b"
  obtain p'' where "send_all M ns (s', p') = Some (Inr (), (s', p''))"
    using send_all_fits [OF r(2,3) assms(3)] assms(4) by auto
  moreover have "send_all M ns (s, p) = send_all M ns (s', p')"
    using assms(7) r by (cases ns) (simp_all add: send_message_forward ForwardWriteBinaryFunction_def ReserveBuffer_def)
  ultimately show ?thesis by auto
next
  fix s' p' assume "ReserveBuffer M (s, p) = (Inl (BufferExhaustionException ''No free buffers left''), (s', p'))"
  then show ?thesis using assms(2,6) by (auto simp: ReserveBuffer_def exhausted_def Let_def split: prod.splits if_splits)
qed

end

text \<open>
  The calls up to the \<open>k\<close>-th message return, and the call for that message throws because no buffer is
  left.
\<close>

definition stopped_at ::
    "'s IBufferManager \<Rightarrow> timeline_message list \<Rightarrow> 's sender \<Rightarrow> nat \<Rightarrow> unit result \<Rightarrow> 's sender \<Rightarrow> bool" where
  "stopped_at M ms st k r st' \<longleftrightarrow> k < length ms \<and>
     r = Inl (BufferExhaustionException ''No free buffers left'') \<and> exhausted M (fst st') \<and>
     (\<exists>before. send_all M (take k ms) st = Some (Inr (), before) \<and> send_message M (ms ! k) before = Some (r, st'))"

lemma stopped_at_Suc:
  "send_message M m st = Some (Inr (), st1) \<Longrightarrow> stopped_at M ms st1 k r st' \<Longrightarrow> stopped_at M (m # ms) st (Suc k) r st'"
  by (auto simp: stopped_at_def)

context buffer_manager
begin

lemma send_all_sending:
  assumes "inv s" "sending p pending"
    "\<And>m. m \<in> set ms \<Longrightarrow> valid_message m \<and> 8 + length (wire_format m) \<le> 4096"
  shows "\<exists>r s' p'. send_all M ms (s, p) = Some (r, (s', p')) \<and> inv s' \<and>
    (\<exists>groups rest. packets s' = packets s @ map packet_of groups \<and>
       (\<forall>g \<in> set groups. g \<noteq> [] \<and> length (payload g) \<le> 4088) \<and>
       sending p' rest \<and> (r = Inr () \<longrightarrow> concat groups @ rest = pending @ ms) \<and>
       (r \<noteq> Inr () \<longrightarrow> rest = [] \<and>
         (\<exists>k. stopped_at M ms (s, p) k r (s', p') \<and> concat groups = pending @ take k ms)))"
  using assms
proof (induction ms arbitrary: s p pending)
  case Nil
  then show ?case by (auto intro!: exI [of _ "[]"] exI [of _ pending])
next
  case (Cons m ms)
  have "valid_message m" "8 + length (wire_format m) \<le> 4096" using Cons.prems(3) by auto
  then obtain r s1 p1 where one: "send_message M m (s, p) = Some (r, (s1, p1))" "inv s1"
    "send_outcome (exhausted M s1) pending m (packets s) r (packets s1) p1"
    using send_message_sending [OF Cons.prems(1,2)] by blast
  have rest: "\<And>m. m \<in> set ms \<Longrightarrow> valid_message m \<and> 8 + length (wire_format m) \<le> 4096"
    using Cons.prems(3) by simp
  consider (joined) "r = Inr ()" "packets s1 = packets s" "sending p1 (pending @ [m])"
    | (fresh) "r = Inr ()" "pending \<noteq> []" "packets s1 = packets s @ [packet_of pending]" "sending p1 [m]"
        "length (payload pending) \<le> 4088"
    | (failed) "r = Inl (BufferExhaustionException ''No free buffers left'')" "sending p1 []"
        "pending = [] \<and> packets s1 = packets s \<or>
          pending \<noteq> [] \<and> length (payload pending) \<le> 4088 \<and> packets s1 = packets s @ [packet_of pending]" "exhausted M s1"
    using one(3) by (auto simp: send_outcome_def)
  then show ?case
  proof cases
    case joined
    from Cons.IH [OF one(2) joined(3) rest]
    obtain r' s' p' groups rs where ih: "send_all M ms (s1, p1) = Some (r', (s', p'))" "inv s'"
      "packets s' = packets s1 @ map packet_of groups"
      "\<forall>g \<in> set groups. g \<noteq> [] \<and> length (payload g) \<le> 4088" "sending p' rs"
      "r' = Inr () \<longrightarrow> concat groups @ rs = (pending @ [m]) @ ms"
      "r' \<noteq> Inr () \<longrightarrow> rs = [] \<and>
        (\<exists>k. stopped_at M ms (s1, p1) k r' (s', p') \<and> concat groups = (pending @ [m]) @ take k ms)" by blast
    have "r' \<noteq> Inr () \<longrightarrow> rs = [] \<and>
        (\<exists>k. stopped_at M (m # ms) (s, p) k r' (s', p') \<and> concat groups = pending @ take k (m # ms))"
    proof
      assume "r' \<noteq> Inr ()"
      then obtain k where "rs = []" "stopped_at M ms (s1, p1) k r' (s', p')" "concat groups = (pending @ [m]) @ take k ms"
        using ih(7) by blast
      moreover from one(1) joined(1) this(2) have "stopped_at M (m # ms) (s, p) (Suc k) r' (s', p')"
        by (intro stopped_at_Suc) simp_all
      ultimately show "rs = [] \<and>
        (\<exists>k. stopped_at M (m # ms) (s, p) k r' (s', p') \<and> concat groups = pending @ take k (m # ms))"
        by (intro conjI exI [of _ "Suc k"]) simp_all
    qed
    moreover have "send_all M (m # ms) (s, p) = Some (r', (s', p'))"
      "packets s' = packets s @ map packet_of groups"
      "r' = Inr () \<longrightarrow> concat groups @ rs = pending @ m # ms"
      using one(1) joined(1,2) ih by auto
    ultimately show ?thesis using ih(2,4,5) by blast
  next
    case fresh
    from Cons.IH [OF one(2) fresh(4) rest]
    obtain r' s' p' groups rs where ih: "send_all M ms (s1, p1) = Some (r', (s', p'))" "inv s'"
      "packets s' = packets s1 @ map packet_of groups" "\<forall>g \<in> set groups. g \<noteq> [] \<and> length (payload g) \<le> 4088" "sending p' rs"
      "r' = Inr () \<longrightarrow> concat groups @ rs = [m] @ ms"
      "r' \<noteq> Inr () \<longrightarrow> rs = [] \<and>
        (\<exists>k. stopped_at M ms (s1, p1) k r' (s', p') \<and> concat groups = [m] @ take k ms)" by blast
    have "r' \<noteq> Inr () \<longrightarrow> rs = [] \<and>
        (\<exists>k. stopped_at M (m # ms) (s, p) k r' (s', p') \<and> concat (pending # groups) = pending @ take k (m # ms))"
    proof
      assume "r' \<noteq> Inr ()"
      then obtain k where "rs = []" "stopped_at M ms (s1, p1) k r' (s', p')" "concat groups = [m] @ take k ms"
        using ih(7) by blast
      moreover from one(1) fresh(1) this(2) have "stopped_at M (m # ms) (s, p) (Suc k) r' (s', p')"
        by (intro stopped_at_Suc) simp_all
      ultimately show "rs = [] \<and>
        (\<exists>k. stopped_at M (m # ms) (s, p) k r' (s', p') \<and> concat (pending # groups) = pending @ take k (m # ms))"
        by (intro conjI exI [of _ "Suc k"]) simp_all
    qed
    moreover have "send_all M (m # ms) (s, p) = Some (r', (s', p'))"
      "packets s' = packets s @ map packet_of (pending # groups)" 
      "\<forall>g \<in> set (pending # groups). g \<noteq> [] \<and> length (payload g) \<le> 4088"
      "r' = Inr () \<longrightarrow> concat (pending # groups) @ rs = pending @ m # ms"
      using one(1) fresh ih by auto
    ultimately show ?thesis using ih(2,5) by blast
  next
    case failed
    define groups where "groups = (if pending = [] then [] else [pending])"
    have "packets s1 = packets s @ map packet_of groups"
      "\<forall>g \<in> set groups. g \<noteq> [] \<and> length (payload g) \<le> 4088"
      "concat groups = pending @ take 0 (m # ms)"
      using failed(3) by (auto simp: groups_def)
    moreover have "send_all M (m # ms) (s, p) = Some (r, (s1, p1))" using one(1) failed(1) by simp
    moreover have "stopped_at M (m # ms) (s, p) 0 r (s1, p1)"
      using one(1) failed(1,4) by (simp add: stopped_at_def)
    ultimately show ?thesis using one(2) failed(1,2) by fastforce
  qed
qed

end

subsection \<open>The buffer manager keeps the contract\<close>

definition BufferManager_ops :: "BufferManager IBufferManager" where
  "BufferManager_ops = \<lparr>bm_Reserve = Reserve, bm_Commit = Commit\<rparr>"

definition wf_manager :: "BufferManager \<Rightarrow> bool" where
  "wf_manager m \<longleftrightarrow> (\<forall>b \<in> set (m_AvailableList m). wf_buffer (m_MaxBufferSize m) b)"

lemma wf_manager_Reserve:
  assumes "wf_manager m" "Reserve n m = ((buffer, k), m')"
  shows "wf_manager m' \<and> committed m' = committed m \<and> (buffer = None \<longrightarrow> m' = m) \<and>
    (\<forall>b. buffer = Some b \<longrightarrow> k = n \<and> (\<exists>d. pb_Data b = Some d \<and> length d = pb_MaxSize b \<and> n \<le> length d))"
proof (cases "m_AvailableList m" rule: rev_cases)
  case Nil
  then show ?thesis using assms
    by (auto simp: Reserve_def wf_manager_def committed_def PacketBuffer_make_def split: if_splits)
next
  case (snoc bs b)
  then show ?thesis using assms
    by (auto simp: Reserve_def wf_manager_def committed_def wf_buffer_def split: if_splits option.splits)
qed

interpretation bm: buffer_manager BufferManager_ops committed wf_manager
proof unfold_locales
  fix s :: BufferManager and n buffer k s'
  assume "wf_manager s" "bm_Reserve BufferManager_ops n s = ((buffer, k), s')"
  then show "wf_manager s' \<and> committed s' = committed s \<and> (buffer = None \<longrightarrow> s' = s) \<and>
    (\<forall>b. buffer = Some b \<longrightarrow> k = n \<and> (\<exists>d. pb_Data b = Some d \<and> length d = pb_MaxSize b \<and> n \<le> length d))"
    using wf_manager_Reserve by (simp add: BufferManager_ops_def)
next
  fix s :: BufferManager and b :: PacketBuffer and d k notify
  assume "wf_manager s" "pb_Data b = Some d" "length d = pb_MaxSize b" "k \<le> length d"
  then show "\<exists>s'. bm_Commit BufferManager_ops b k notify s = Inr s' \<and> wf_manager s' \<and>
      committed s' = committed s @ [take k d]"
    by (auto simp: BufferManager_ops_def Commit_def PacketBuffer_Commit_def wf_manager_def committed_def
        readable_bytes_def FlushReadList_def Let_def)
qed

lemma wf_manager_make: "wf_manager (BufferManager_make N sz)"
  by (auto simp: wf_manager_def BufferManager_make_def BufferManager_Initialize_def wf_buffer_ops)

lemma sending_make: "sending SendTimelinePacket_make []"
  by (simp add: sending_def SendTimelinePacket_make_def)

lemma Timeline_Commit_sending:
  assumes "wf_manager s" "sending p rest"
  shows "\<exists>s' p'. Timeline_Commit BufferManager_ops (s, p) = (Inr (), (s', p')) \<and> sending p' [] \<and>
    (\<exists>last. concat last = rest \<and> (\<forall>g \<in> set last. length (payload g) \<le> 4088) \<and>
       committed s' = committed s @ map packet_of last)"
proof (cases "m_WriteBuffer p")
  case None
  then have "rest = []" "sending p []" using assms(2) by (auto simp: sending_def)
  then show ?thesis using None by (simp add: Timeline_Commit_def)
next
  case (Some b)
  obtain s' p' where "Timeline_Commit BufferManager_ops (s, p) = (Inr (), (s', p'))" "sending p' []"
    "committed s' = committed s @ [packet_of rest]"
    by (rule bm.commit_sending [OF assms Some])
  moreover have "length (payload rest) \<le> 4088" using assms(2) Some by (auto simp: sending_def)
  ultimately show ?thesis by (auto intro!: exI [of _ "[rest]"])
qed

lemma send_all_commit:
  assumes "wf_manager s" "\<And>m. m \<in> set ms \<Longrightarrow> valid_message m \<and> length (wire_format m) \<le> 4088"
  shows "\<exists>r s1 p1 s2 p2 groups.
    send_all BufferManager_ops ms (s, SendTimelinePacket_make) = Some (r, (s1, p1)) \<and>
    Timeline_Commit BufferManager_ops (s1, p1) = (Inr (), (s2, p2)) \<and>
    committed s2 = committed s @ map packet_of groups \<and>
    (\<forall>g \<in> set groups. length (payload g) \<le> 4088) \<and>
    (r = Inr () \<longrightarrow> concat groups = ms) \<and>
    (r \<noteq> Inr () \<longrightarrow> (\<exists>k. stopped_at BufferManager_ops ms (s, SendTimelinePacket_make) k r (s1, p1) \<and>
       concat groups = take k ms))"
proof -
  have "8 + length (wire_format m) \<le> 4096 \<and> valid_message m" if "m \<in> set ms" for m
    using assms(2) [OF that] by simp
  then obtain r s1 p1 groups rest where all:
    "send_all BufferManager_ops ms (s, SendTimelinePacket_make) = Some (r, (s1, p1))" "wf_manager s1"
    "committed s1 = committed s @ map packet_of groups" "sending p1 rest"
    "\<forall>g \<in> set groups. length (payload g) \<le> 4088"
    "r = Inr () \<longrightarrow> concat groups @ rest = ms"
    "r \<noteq> Inr () \<longrightarrow> rest = [] \<and>
       (\<exists>k. stopped_at BufferManager_ops ms (s, SendTimelinePacket_make) k r (s1, p1) \<and> concat groups = take k ms)"
    using bm.send_all_sending [OF assms(1) sending_make, of ms] by fastforce
  obtain s2 p2 last where "Timeline_Commit BufferManager_ops (s1, p1) = (Inr (), (s2, p2))"
    "concat last = rest" "\<forall>g \<in> set last. length (payload g) \<le> 4088"
    "committed s2 = committed s1 @ map packet_of last"
    using Timeline_Commit_sending [OF all(2,4)] by blast
  then show ?thesis using all
    by (intro exI [of _ r] exI [of _ s1] exI [of _ p1] exI [of _ s2] exI [of _ p2] exI [of _ "groups @ last"]) auto
qed

text \<open>
  The sender loses, repeats and reorders nothing. Any sequence of valid messages that fit a
  buffer, sent through a \<open>SendTimelinePacket\<close> with the buffer manager and then committed,
  terminates and appends packets to the manager's queue whose messages, put together, are
  exactly the sequence; if the pool runs out of buffers the call throws, and the packets hold
  exactly the messages sent before that call.
\<close>

theorem timeline_send_complete:
  assumes "wf_manager s" "\<And>m. m \<in> set ms \<Longrightarrow> valid_message m \<and> length (wire_format m) \<le> 4088"
  shows "\<exists>r s1 p1 s2 p2 groups.
    send_all BufferManager_ops ms (s, SendTimelinePacket_make) = Some (r, (s1, p1)) \<and>
    Timeline_Commit BufferManager_ops (s1, p1) = (Inr (), (s2, p2)) \<and>
    map readable_bytes (m_ReadableList s2) = map readable_bytes (m_ReadableList s) @ map packet_of groups \<and>
    (r = Inr () \<longrightarrow> concat groups = ms) \<and>
    (r \<noteq> Inr () \<longrightarrow> (\<exists>k. stopped_at BufferManager_ops ms (s, SendTimelinePacket_make) k r (s1, p1) \<and>
       concat groups = take k ms))"
  using send_all_commit [OF assms] by (simp only: committed_def) blast

theorem timeline_send_complete_witness:
  "\<exists>r st. send_all BufferManager_ops [EntityMessage 1, EventMessage 2 3 4]
     (BufferManager_make 2 4096, SendTimelinePacket_make) = Some (r, st)"
proof -
  have "valid_message m \<and> length (wire_format m) \<le> 4088"
    if "m \<in> set [EntityMessage 1, EventMessage 2 3 4]" for m
    using that by auto
  from timeline_send_complete [OF wf_manager_make [of 2 4096] this] show ?thesis by blast
qed

subsection \<open>A message too long for any buffer\<close>

text \<open>How many buffers the manager can still hand out.\<close>

definition reservable :: "BufferManager \<Rightarrow> nat" where
  "reservable m = length (m_AvailableList m) + (m_MaxNumberOfBuffers m - m_CurrentNumberOfBuffers m)"

lemma Reserve_reservable:
  assumes "Reserve n m = ((Some b, k), m')" "m_MaxNumberOfBuffers m < 2 ^ 32"
  shows "Suc (reservable m') = reservable m \<and> m_MaxNumberOfBuffers m' = m_MaxNumberOfBuffers m"
  using assms by (auto simp: Reserve_def reservable_def u32_add_small split: if_splits)

lemma Reserve_none:
  "Reserve n m = ((None, k), m') \<Longrightarrow> n \<le> m_MaxBufferSize m \<Longrightarrow> reservable m = 0 \<and> m' = m"
  by (auto simp: Reserve_def reservable_def split: if_splits)

lemma Commit_reservable:
  "Commit b n notify m = Inr m' \<Longrightarrow> reservable m' = reservable m \<and>
     m_MaxNumberOfBuffers m' = m_MaxNumberOfBuffers m \<and> m_MaxBufferSize m' = m_MaxBufferSize m"
  by (auto simp: Commit_def reservable_def FlushReadList_def Let_def)

lemma Reserve_MaxBufferSize: "Reserve n m = (r, m') \<Longrightarrow> m_MaxBufferSize m' = m_MaxBufferSize m"
  by (auto simp: Reserve_def split: if_splits)

lemma Timeline_Commit_manager:
  assumes "Timeline_Commit BufferManager_ops (s, p) = (Inr (), (s', p'))" "m_WriteBuffer p = Some b"
  shows "reservable s' = reservable s \<and> m_MaxNumberOfBuffers s' = m_MaxNumberOfBuffers s \<and>
    m_MaxBufferSize s' = m_MaxBufferSize s"
  using assms by (auto simp: Timeline_Commit_def commit_buffer_def BufferManager_ops_def Let_def
      split: sum.splits if_splits dest!: Commit_reservable)

lemma ReserveBuffer_manager:
  assumes "ReserveBuffer BufferManager_ops (s, p) = (r, (s', p'))" "m_WriteBuffer p = None"
    "sending p []" "wf_manager s" "4096 \<le> m_MaxBufferSize s" "m_MaxNumberOfBuffers s < 2 ^ 32"
  shows "m_MaxNumberOfBuffers s' = m_MaxNumberOfBuffers s \<and> m_MaxBufferSize s' = m_MaxBufferSize s \<and>
    (case r of Inr _ \<Rightarrow> Suc (reservable s') = reservable s | Inl e \<Rightarrow> reservable s = 0 \<and> s' = s)"
proof -
  obtain buffer k s1 where r: "Reserve 4096 s = ((buffer, k), s1)" by (metis surj_pair)
  have p: "m_Offset p = 8" "\<not> m_DirectoryPackage p" using assms(3) by (auto simp: sending_def)
  show ?thesis
  proof (cases buffer)
    case None
    then show ?thesis using assms(1,2,5) r Reserve_none [of 4096 s k s1]
      by (auto simp: ReserveBuffer_def BufferManager_ops_def MAX_METADATA_PACKET_LENGTH_def)
  next
    case (Some b)
    then have "k = 4096" using wf_manager_Reserve [OF assms(4)] r by blast
    then show ?thesis using assms(1,2) r Some p Reserve_reservable [of 4096 s b k s1] assms(6)
        Reserve_MaxBufferSize [OF r]
      by (auto simp: ReserveBuffer_def BufferManager_ops_def MAX_METADATA_PACKET_LENGTH_def)
  qed
qed

lemma forward_oversized:
  assumes "valid_message m" "4088 < length (wire_format m)"
    "wf_manager s" "4096 \<le> m_MaxBufferSize s" "m_MaxNumberOfBuffers s < 2 ^ 32"
    "sending p []" "m_WriteBuffer p = Some b"
  shows "\<exists>s' p'. forward_loop BufferManager_ops (write_message m) (s, p) =
      Some (Inl (BufferExhaustionException ''No free buffers left''), (s', p')) \<and>
    committed s' = committed s @ replicate (Suc (reservable s)) (packet_of []) \<and> reservable s' = 0"
  using assms
proof (induction "reservable s" arbitrary: s p b)
  case (0 s p b)
  have call: "call_writer (write_message m) b p = (BufferExhaustion, 0, p)"
    using call_writer_sending [OF 0(7,8,2)] 0(3) by simp
  obtain s1 p1 where c: "Timeline_Commit BufferManager_ops (s, p) = (Inr (), (s1, p1))" "wf_manager s1"
    "committed s1 = committed s @ [packet_of []]" "sending p1 []" "m_WriteBuffer p1 = None"
    by (rule bm.commit_sending [OF 0(4,7,8)])
  note man = Timeline_Commit_manager [OF c(1) 0(8)]
  obtain r s2 p2 where r: "ReserveBuffer BufferManager_ops (s1, p1) = (r, (s2, p2))" by (metis surj_pair)
  have "\<not> (\<exists>u. r = Inr u)"
    using ReserveBuffer_manager [OF r c(5,4,2)] man 0 by (auto split: sum.splits)
  then have "r = Inl (BufferExhaustionException ''No free buffers left'')" "s2 = s1"
    using bm.reserve_sending [OF c(2,4,5)] r ReserveBuffer_manager [OF r c(5,4,2)] man 0
    by (cases r; force)+
  then show ?case using call c r man 0(1,8) by (subst forward_loop.simps) simp
next
  case (Suc n s p b)
  have call: "call_writer (write_message m) b p = (BufferExhaustion, 0, p)"
    using call_writer_sending [OF Suc(8,9,3)] Suc(4) by simp
  obtain s1 p1 where c: "Timeline_Commit BufferManager_ops (s, p) = (Inr (), (s1, p1))" "wf_manager s1"
    "committed s1 = committed s @ [packet_of []]" "sending p1 []" "m_WriteBuffer p1 = None"
    by (rule bm.commit_sending [OF Suc(5,8,9)])
  note man = Timeline_Commit_manager [OF c(1) Suc(9)]
  show ?case
  proof (rule bm.reserve_sending [OF c(2,4,5)])
    fix s2 p2 b2 assume r: "ReserveBuffer BufferManager_ops (s1, p1) = (Inr (), (s2, p2))" "wf_manager s2"
      "committed s2 = committed s1" "sending p2 []" "m_WriteBuffer p2 = Some b2"
    have m2: "n = reservable s2" "4096 \<le> m_MaxBufferSize s2" "m_MaxNumberOfBuffers s2 < 2 ^ 32"
      using ReserveBuffer_manager [OF r(1) c(5,4,2)] man Suc(2,6,7) by auto
    from Suc(1) [OF m2(1) Suc(3,4) r(2) m2(2,3) r(4,5)]
    show ?thesis using call c r Suc(2,9) m2(1) [symmetric] by (subst forward_loop.simps) auto
  next
    fix s2 p2 assume r: "ReserveBuffer BufferManager_ops (s1, p1) =
        (Inl (BufferExhaustionException ''No free buffers left''), (s2, p2))"
    then show ?thesis using ReserveBuffer_manager [OF r c(5,4,2)] man Suc(2,6,7) by simp
  qed
qed

text \<open>
  C26: A label too long for a buffer costs the whole pool. A newly created \<open>SendTimelinePacket\<close> asked to
  send any message that does not fit into the 4088 bytes behind the packet header fails whatever the
  pool (its buffers hold 4096 bytes at least): the call
  commits every buffer the manager can still hand out as a packet without a single message
  and then throws \<open>BufferExhaustion\<close>, with no buffer left for anyone.
\<close>

theorem oversized_message_drains_pool:
  assumes "valid_message m" "4088 < length (wire_format m)" "wf_manager s"
    "4096 \<le> m_MaxBufferSize s" "m_MaxNumberOfBuffers s < 2 ^ 32"
  shows "\<exists>s' p'. send_message BufferManager_ops m (s, SendTimelinePacket_make) =
      Some (Inl (BufferExhaustionException ''No free buffers left''), (s', p')) \<and>
    map readable_bytes (m_ReadableList s') =
      map readable_bytes (m_ReadableList s) @ replicate (reservable s) (packet_of []) \<and>
    fst (Reserve n s') = (None, 0)"
proof -
  let ?p = SendTimelinePacket_make
  have p: "m_WriteBuffer ?p = None" by (simp add: SendTimelinePacket_make_def)
  have none: "fst (Reserve n s') = (None, 0)" if "reservable s' = 0" for s' :: BufferManager
    using that by (auto simp: Reserve_def reservable_def)
  have "\<exists>s' p'. send_message BufferManager_ops m (s, ?p) =
      Some (Inl (BufferExhaustionException ''No free buffers left''), (s', p')) \<and>
    committed s' = committed s @ replicate (reservable s) (packet_of []) \<and> reservable s' = 0"
  proof (rule bm.reserve_sending [OF assms(3) sending_make p])
    fix s2 p2 b2 assume r: "ReserveBuffer BufferManager_ops (s, ?p) = (Inr (), (s2, p2))" "wf_manager s2"
      "committed s2 = committed s" "sending p2 []" "m_WriteBuffer p2 = Some b2"
    note man = ReserveBuffer_manager [OF r(1) p sending_make assms(3-5)]
    then have "4096 \<le> m_MaxBufferSize s2" "m_MaxNumberOfBuffers s2 < 2 ^ 32"
      using assms(4,5) by auto
    from forward_oversized [OF assms(1,2) r(2) this r(4,5)] man
    obtain s' p' where "forward_loop BufferManager_ops (write_message m) (s2, p2) =
        Some (Inl (BufferExhaustionException ''No free buffers left''), (s', p'))"
      "committed s' = committed s2 @ replicate (reservable s) (packet_of [])" "reservable s' = 0"
      by (auto simp del: replicate_Suc)
    then show ?thesis using r man
      by (simp add: send_message_forward ForwardWriteBinaryFunction_def)
  next
    fix s2 p2 assume r: "ReserveBuffer BufferManager_ops (s, ?p) =
        (Inl (BufferExhaustionException ''No free buffers left''), (s2, p2))"
    then show ?thesis using ReserveBuffer_manager [OF r p sending_make assms(3-5)]
      by (simp add: send_message_forward ForwardWriteBinaryFunction_def)
  qed
  then show ?thesis using none by (auto simp: committed_def)
qed

theorem oversized_message_drains_pool_witness:
  "\<exists>s' p'. send_message BufferManager_ops (LabelMessage 1 (replicate 5000 (CHR ''a'')))
      (BufferManager_make 1 4096, SendTimelinePacket_make) =
    Some (Inl (BufferExhaustionException ''No free buffers left''), (s', p')) \<and>
    fst (Reserve 8 s') = (None, 0)"
proof -
  have "valid_message (LabelMessage 1 (replicate 5000 (CHR ''a'')))"
    by (simp add: IsValidSwTraceString_def SwTraceCharPolicy_def list_all_iff del: replicate_numeral_Cons)
  moreover have "4088 < length (wire_format (LabelMessage 1 (replicate 5000 (CHR ''a''))))"
    by (simp add: length_sw_bytes del: replicate_numeral_Cons)
  moreover have "4096 \<le> m_MaxBufferSize (BufferManager_make 1 4096)"
    "m_MaxNumberOfBuffers (BufferManager_make 1 4096) < 2 ^ 32"
    by (simp_all add: BufferManager_make_def BufferManager_Initialize_def u32_mul_def)
  ultimately show ?thesis
    using oversized_message_drains_pool [OF _ _ wf_manager_make [of 1 4096], of _ 8] by blast
qed

end
