(* ===== verification/CounterDirectory.thy ===== *)
theory CounterDirectory
  imports SwTrace
begin

section \<open>The counter directory (profiling/common CounterDirectory.cpp)\<close>

text \<open>
  Categories, devices, counter sets and counters, registered by name and found by unique
  identifier. The hash maps are association lists: \<open>insert\<close> keeps an entry that is there.
  Strings that name things in messages are left out of the exceptions. An operation that
  throws leaves the directory and the uid generator as they were.
\<close>

record Category =
  cat_Name :: string
  cat_Counters :: "16 word list"

record Device =
  dev_Uid :: "16 word"
  dev_Name :: string
  dev_Cores :: "16 word"

record CounterSet =
  set_Uid :: "16 word"
  set_Name :: string
  set_Count :: "16 word"

text \<open>The multiplier is a \<open>double\<close>, kept as its bit pattern.\<close>

record Counter =
  cnt_BackendId :: string
  cnt_Uid :: "16 word"
  cnt_MaxCounterUid :: "16 word"
  cnt_Class :: "16 word"
  cnt_Interpolation :: "16 word"
  cnt_Multiplier :: "64 word"
  cnt_Name :: string
  cnt_Description :: string
  cnt_Units :: string
  cnt_DeviceUid :: "16 word"
  cnt_CounterSetUid :: "16 word"

record CounterDirectory =
  m_Categories :: "Category list"
  m_Devices :: "(16 word \<times> Device) list"
  m_CounterSets :: "(16 word \<times> CounterSet) list"
  m_Counters :: "(16 word \<times> Counter) list"

definition CounterDirectory_make :: CounterDirectory where
  "CounterDirectory_make = \<lparr>m_Categories = [], m_Devices = [], m_CounterSets = [], m_Counters = []\<rparr>"

text \<open>\<open>std::unordered_map::insert\<close>.\<close>

definition map_insert :: "'k \<times> 'v \<Rightarrow> ('k \<times> 'v) list \<Rightarrow> ('k \<times> 'v) list" where
  "map_insert kv xs = (if map_of xs (fst kv) = None then xs @ [kv] else xs)"

subsection \<open>Finding\<close>

definition FindCategory :: "CounterDirectory \<Rightarrow> string \<Rightarrow> Category option" where
  "FindCategory d categoryName = List.find (\<lambda>c. cat_Name c = categoryName) (m_Categories d)"

definition FindDevice :: "CounterDirectory \<Rightarrow> 16 word \<Rightarrow> Device option" where
  "FindDevice d deviceUid = map_of (m_Devices d) deviceUid"

text \<open>
  \<open>std::find_if\<close> with a predicate that asserts something of every entry it is called on. The entries
  of a hash map come in an unspecified order, here the order of insertion; the pointers themselves
  are never null, so only the assertions on the identifiers remain.
\<close>

fun find_if :: "('a \<Rightarrow> bool) \<Rightarrow> string \<Rightarrow> ('a \<Rightarrow> bool) \<Rightarrow> 'a list \<Rightarrow> 'a option result" where
  "find_if asserted msg P [] = Inr None"
| "find_if asserted msg P (x # xs) =
     bindR (throw_if (\<not> asserted x) (AssertionFailure msg)) (\<lambda>_.
     if P x then Inr (Some x) else find_if asserted msg P xs)"

definition FindDevice_name :: "CounterDirectory \<Rightarrow> string \<Rightarrow> (16 word \<times> Device) option result" where
  "FindDevice_name d deviceName =
     find_if (\<lambda>(k, dev). dev_Uid dev = k) ''pair.second->m_Uid == pair.first''
       (\<lambda>(_, dev). dev_Name dev = deviceName) (m_Devices d)"

definition FindCounterSet :: "CounterDirectory \<Rightarrow> 16 word \<Rightarrow> CounterSet option" where
  "FindCounterSet d counterSetUid = map_of (m_CounterSets d) counterSetUid"

definition FindCounterSet_name :: "CounterDirectory \<Rightarrow> string \<Rightarrow> (16 word \<times> CounterSet) option result" where
  "FindCounterSet_name d counterSetName =
     find_if (\<lambda>(k, s). set_Uid s = k) ''pair.second->m_Uid == pair.first''
       (\<lambda>(_, s). set_Name s = counterSetName) (m_CounterSets d)"

definition FindCounter :: "CounterDirectory \<Rightarrow> 16 word \<Rightarrow> Counter option" where
  "FindCounter d counterUid = map_of (m_Counters d) counterUid"

definition FindCounter_name :: "CounterDirectory \<Rightarrow> string \<Rightarrow> (16 word \<times> Counter) option result" where
  "FindCounter_name d counterName =
     find_if (\<lambda>(k, c). k \<ge> cnt_Uid c \<and> k \<le> cnt_MaxCounterUid c)
       ''pair.first >= pair.second->m_Uid && pair.first <= pair.second->m_MaxCounterUid''
       (\<lambda>(_, c). cnt_Name c = counterName) (m_Counters d)"

definition GetCategory :: "CounterDirectory \<Rightarrow> string \<Rightarrow> Category option" where
  "GetCategory d categoryName = FindCategory d categoryName"

definition GetDevice :: "CounterDirectory \<Rightarrow> 16 word \<Rightarrow> Device option result" where
  "GetDevice d deviceUid = (case FindDevice d deviceUid of
     None \<Rightarrow> Inr None
   | Some dev \<Rightarrow> if dev_Uid dev = deviceUid then Inr (Some dev)
                 else Inl (AssertionFailure ''device->m_Uid == deviceUid''))"

definition GetCounterSet :: "CounterDirectory \<Rightarrow> 16 word \<Rightarrow> CounterSet option result" where
  "GetCounterSet d counterSetUid = (case FindCounterSet d counterSetUid of
     None \<Rightarrow> Inr None
   | Some s \<Rightarrow> if set_Uid s = counterSetUid then Inr (Some s)
               else Inl (AssertionFailure ''counterSet->m_Uid == counterSetUid''))"

definition GetCounter :: "CounterDirectory \<Rightarrow> 16 word \<Rightarrow> Counter option result" where
  "GetCounter d counterUid = (case FindCounter d counterUid of
     None \<Rightarrow> Inr None
   | Some c \<Rightarrow> if cnt_Uid c \<le> counterUid \<and> cnt_Uid c \<le> cnt_MaxCounterUid c then Inr (Some c)
               else Inl (AssertionFailure ''counter->m_Uid <= counterUid''))"

definition IsCategoryRegistered :: "CounterDirectory \<Rightarrow> string \<Rightarrow> bool" where
  "IsCategoryRegistered d categoryName \<longleftrightarrow> FindCategory d categoryName \<noteq> None"

definition IsDeviceRegistered :: "CounterDirectory \<Rightarrow> 16 word \<Rightarrow> bool" where
  "IsDeviceRegistered d deviceUid \<longleftrightarrow> FindDevice d deviceUid \<noteq> None"

definition IsDeviceRegistered_name :: "CounterDirectory \<Rightarrow> string \<Rightarrow> bool result" where
  "IsDeviceRegistered_name d deviceName = bindR (FindDevice_name d deviceName) (\<lambda>it. Inr (it \<noteq> None))"

definition IsCounterSetRegistered :: "CounterDirectory \<Rightarrow> 16 word \<Rightarrow> bool" where
  "IsCounterSetRegistered d counterSetUid \<longleftrightarrow> FindCounterSet d counterSetUid \<noteq> None"

definition IsCounterSetRegistered_name :: "CounterDirectory \<Rightarrow> string \<Rightarrow> bool result" where
  "IsCounterSetRegistered_name d counterSetName = bindR (FindCounterSet_name d counterSetName) (\<lambda>it. Inr (it \<noteq> None))"

definition IsCounterRegistered :: "CounterDirectory \<Rightarrow> 16 word \<Rightarrow> bool" where
  "IsCounterRegistered d counterUid \<longleftrightarrow> FindCounter d counterUid \<noteq> None"

definition IsCounterRegistered_name :: "CounterDirectory \<Rightarrow> string \<Rightarrow> bool result" where
  "IsCounterRegistered_name d counterName = bindR (FindCounter_name d counterName) (\<lambda>it. Inr (it \<noteq> None))"

definition Clear :: "CounterDirectory \<Rightarrow> CounterDirectory" where
  "Clear d = CounterDirectory_make"

subsection \<open>Registering\<close>

text \<open>The state is the uid generator's static variable and the directory.\<close>

type_synonym registry = "16 word \<times> CounterDirectory"

definition require :: "bool \<Rightarrow> string \<Rightarrow> unit result" where
  "require ok msg = throw_if (\<not> ok) (InvalidArgumentException msg)"

definition RegisterCategory :: "string \<Rightarrow> registry \<Rightarrow> (Category \<times> registry) result" where
  "RegisterCategory categoryName st = (case st of (uid, d) \<Rightarrow>
     bindR (require (categoryName \<noteq> [] \<and> IsValidSwTraceString SwTraceNameCharPolicy categoryName)
       ''Trying to register a category with an invalid name'') (\<lambda>_.
     bindR (require (\<not> IsCategoryRegistered d categoryName)
       ''Trying to register a category already registered'') (\<lambda>_.
     let category = \<lparr>cat_Name = categoryName, cat_Counters = []\<rparr> in
     Inr (category, (uid, d\<lparr>m_Categories := m_Categories d @ [category]\<rparr>)))))"

text \<open>The checks of an optional parent category, shared by devices and counter sets.\<close>

definition check_parent :: "string \<Rightarrow> CounterDirectory \<Rightarrow> string option \<Rightarrow> unit result" where
  "check_parent what d parentCategoryName = (case parentCategoryName of
     None \<Rightarrow> Inr ()
   | Some name \<Rightarrow>
       bindR (require (name \<noteq> []) (''Trying to connect a '' @ what @ '' to an invalid parent category'')) (\<lambda>_.
       require (FindCategory d name \<noteq> None)
         (''Trying to connect a '' @ what @ '' to a parent category that is not registered'')))"

definition RegisterDevice ::
    "string \<Rightarrow> 16 word \<Rightarrow> string option \<Rightarrow> registry \<Rightarrow> (Device \<times> registry) result" where
  "RegisterDevice deviceName cores parentCategoryName st = (case st of (uid, d) \<Rightarrow>
     bindR (require (deviceName \<noteq> [] \<and> IsValidSwTraceString SwTraceCharPolicy deviceName)
       ''Trying to register a device with an invalid name'') (\<lambda>_.
     bindR (IsDeviceRegistered_name d deviceName) (\<lambda>registered.
     bindR (require (\<not> registered)
       ''Trying to register a device already registered'') (\<lambda>_.
     bindR (check_parent ''device'' d parentCategoryName) (\<lambda>_.
     bindR (GetNextUid False uid) (\<lambda>(deviceUid, uid).
     let device = \<lparr>dev_Uid = deviceUid, dev_Name = deviceName, dev_Cores = cores\<rparr> in
     Inr (device, (uid, d\<lparr>m_Devices := map_insert (deviceUid, device) (m_Devices d)\<rparr>))))))))"

definition RegisterCounterSet ::
    "string \<Rightarrow> 16 word \<Rightarrow> string option \<Rightarrow> registry \<Rightarrow> (CounterSet \<times> registry) result" where
  "RegisterCounterSet counterSetName count parentCategoryName st = (case st of (uid, d) \<Rightarrow>
     bindR (require (counterSetName \<noteq> [] \<and> IsValidSwTraceString SwTraceNameCharPolicy counterSetName)
       ''Trying to register a counter set with an invalid name'') (\<lambda>_.
     bindR (IsCounterSetRegistered_name d counterSetName) (\<lambda>registered.
     bindR (require (\<not> registered)
       ''Trying to register a counter set already registered'') (\<lambda>_.
     bindR (GetNextUid True uid) (\<lambda>(counterSetUidPeek, uid).
     bindR (check_parent ''counter set'' d parentCategoryName) (\<lambda>_.
     bindR (GetNextUid False uid) (\<lambda>(counterSetUid, uid).
     bindR (throw_if (counterSetUid \<noteq> counterSetUidPeek)
       (AssertionFailure ''counterSetUid == counterSetUidPeek'')) (\<lambda>_.
     let counterSet = \<lparr>set_Uid = counterSetUid, set_Name = counterSetName, set_Count = count\<rparr> in
     Inr (counterSet, (uid, d\<lparr>m_CounterSets := map_insert (counterSetUid, counterSet) (m_CounterSets d)\<rparr>))))))))))"

definition GetNumberOfCores :: "CounterDirectory \<Rightarrow> 16 word option \<Rightarrow> 16 word \<Rightarrow> 16 word result" where
  "GetNumberOfCores d numberOfCores deviceUid = (case numberOfCores of
     Some n \<Rightarrow> Inr n
   | None \<Rightarrow>
       if deviceUid > 0 then
         (case FindDevice d deviceUid of
            None \<Rightarrow> Inl (InvalidArgumentException ''Trying to connect a counter to a device that is not registered'')
          | Some device \<Rightarrow> Inr (dev_Cores device))
       else Inr 0)"

text \<open>The loop that looks for the name among the counters of the category.\<close>

fun check_names :: "CounterDirectory \<Rightarrow> string \<Rightarrow> 16 word list \<Rightarrow> unit result" where
  "check_names d name [] = Inr ()"
| "check_names d name (parentCategoryCounterUid # rest) =
     bindR (GetCounter d parentCategoryCounterUid) (\<lambda>parentCategoryCounter.
     (case parentCategoryCounter of
        None \<Rightarrow> Inl (AssertionFailure ''parentCategoryCounter'')
      | Some c \<Rightarrow>
          bindR (require (cnt_Name c \<noteq> name)
            ''Trying to register a counter to category with a name that is already used'') (\<lambda>_.
          check_names d name rest)))"

text \<open>The first category of that name gets the uid; the pointer found before still points to it.\<close>

fun connect :: "string \<Rightarrow> 16 word \<Rightarrow> Category list \<Rightarrow> Category list" where
  "connect name uid [] = []"
| "connect name uid (c # cs) =
     (if cat_Name c = name then c\<lparr>cat_Counters := cat_Counters c @ [uid]\<rparr> # cs
      else c # connect name uid cs)"

definition register_uid :: "string \<Rightarrow> Counter \<Rightarrow> 16 word \<Rightarrow> CounterDirectory \<Rightarrow> CounterDirectory" where
  "register_uid parentCategoryName counter counterUid d =
     d\<lparr>m_Categories := connect parentCategoryName counterUid (m_Categories d),
       m_Counters := map_insert (counterUid, counter) (m_Counters d)\<rparr>"

text \<open>\<open>multiplier == .0f\<close> holds for both zeros.\<close>

definition double_is_zero :: "64 word \<Rightarrow> bool" where
  "double_is_zero x \<longleftrightarrow> x = 0 \<or> x = 0x8000000000000000"

definition RegisterCounter ::
    "string \<Rightarrow> 16 word \<Rightarrow> string \<Rightarrow> 16 word \<Rightarrow> 16 word \<Rightarrow> 64 word \<Rightarrow> string \<Rightarrow> string \<Rightarrow> string option \<Rightarrow>
     16 word option \<Rightarrow> 16 word option \<Rightarrow> 16 word option \<Rightarrow> registry \<Rightarrow> (Counter \<times> registry) result" where
  "RegisterCounter applicationName uid parentCategoryName counterClass interpolation multiplier name
     description units numberOfCores deviceUid counterSetUid st = (case st of (nextUid, d) \<Rightarrow>
     bindR (require (parentCategoryName \<noteq> [] \<and> IsValidSwTraceString SwTraceNameCharPolicy parentCategoryName)
       ''Trying to register a counter with an invalid parent category name'') (\<lambda>_.
     bindR (require (counterClass = 0 \<or> counterClass = 1)
       ''Trying to register a counter with an invalid class'') (\<lambda>_.
     bindR (require (interpolation = 0 \<or> interpolation = 1)
       ''Trying to register a counter with an invalid interpolation'') (\<lambda>_.
     bindR (require (\<not> double_is_zero multiplier)
       ''Trying to register a counter with an invalid multiplier'') (\<lambda>_.
     bindR (require (name \<noteq> [] \<and> IsValidSwTraceString SwTraceCharPolicy name)
       ''Trying to register a counter with an invalid name'') (\<lambda>_.
     bindR (require (description \<noteq> [] \<and> IsValidSwTraceString SwTraceCharPolicy description)
       ''Trying to register a counter with an invalid description'') (\<lambda>_.
     bindR (require (case units of None \<Rightarrow> True | Some u \<Rightarrow> IsValidSwTraceString SwTraceNameCharPolicy u)
       ''Trying to register a counter with a invalid units'') (\<lambda>_.
     (case FindCategory d parentCategoryName of
        None \<Rightarrow> Inl (InvalidArgumentException ''Trying to connect a counter to a category that is not registered'')
      | Some parentCategory \<Rightarrow>
     bindR (check_names d name (cat_Counters parentCategory)) (\<lambda>_.
     let counterSetUidValue = (case counterSetUid of Some u \<Rightarrow> u | None \<Rightarrow> 0) in
     bindR (require (counterSetUidValue > 0 \<longrightarrow> IsCounterSetRegistered d counterSetUidValue)
       ''Trying to connect a counter to a counter set that is not registered'') (\<lambda>_.
     let deviceUidValue = (case deviceUid of Some u \<Rightarrow> u | None \<Rightarrow> 0) in
     bindR (GetNumberOfCores d numberOfCores deviceUidValue) (\<lambda>deviceCores.
     bindR (GetNextCounterUids uid deviceCores) (\<lambda>counterUids.
     bindR (throw_if (counterUids = []) (AssertionFailure ''!counterUids.empty()'')) (\<lambda>_.
     let maxCounterUid = (if deviceCores \<le> 1 then hd counterUids else last counterUids);
         counter = \<lparr>cnt_BackendId = applicationName, cnt_Uid = hd counterUids,
           cnt_MaxCounterUid = maxCounterUid, cnt_Class = counterClass,
           cnt_Interpolation = interpolation, cnt_Multiplier = multiplier, cnt_Name = name,
           cnt_Description = description, cnt_Units = (case units of Some u \<Rightarrow> u | None \<Rightarrow> []),
           cnt_DeviceUid = deviceUidValue, cnt_CounterSetUid = counterSetUidValue\<rparr>
     in Inr (counter, (nextUid, fold (register_uid parentCategoryName counter) counterUids d))))))))))))))))"

subsection \<open>The directory stays consistent\<close>

definition wf_registry :: "registry \<Rightarrow> bool" where
  "wf_registry st \<longleftrightarrow> (case st of (uid, d) \<Rightarrow>
     0 < uid \<and>
     distinct (map cat_Name (m_Categories d)) \<and>
     (\<forall>c \<in> set (m_Categories d). set (cat_Counters c) \<subseteq> fst ` set (m_Counters d)) \<and>
     (\<forall>(k, dev) \<in> set (m_Devices d). dev_Uid dev = k \<and> 0 < k \<and> k < uid) \<and>
     distinct (map (dev_Name \<circ> snd) (m_Devices d)) \<and> distinct (map fst (m_Devices d)) \<and>
     (\<forall>(k, s) \<in> set (m_CounterSets d). set_Uid s = k \<and> 0 < k \<and> k < uid) \<and>
     distinct (map (set_Name \<circ> snd) (m_CounterSets d)) \<and> distinct (map fst (m_CounterSets d)) \<and>
     (\<forall>(k, c) \<in> set (m_Counters d). cnt_Uid c \<le> k \<and> k \<le> cnt_MaxCounterUid c) \<and>
     distinct (map fst (m_Counters d)))"

inductive directory_step :: "registry \<Rightarrow> registry \<Rightarrow> bool" where
  category: "RegisterCategory name st = Inr (c, st') \<Longrightarrow> directory_step st st'"
| device: "RegisterDevice name cores parent st = Inr (dev, st') \<Longrightarrow> directory_step st st'"
| counter_set: "RegisterCounterSet name count parent st = Inr (s, st') \<Longrightarrow> directory_step st st'"
| counter: "RegisterCounter app uid parent cls interp mult name desc units cores dev cset st = Inr (c, st') \<Longrightarrow>
    directory_step st st'"
| clear: "directory_step (uid, d) (uid, Clear d)"

inductive directory_reachable :: "registry \<Rightarrow> bool" where
  start: "directory_reachable (1, CounterDirectory_make)"
| step: "directory_reachable st \<Longrightarrow> directory_step st st' \<Longrightarrow> directory_reachable st'"

lemma find_if_asserted: "\<forall>x \<in> set xs. asserted x \<Longrightarrow> find_if asserted msg P xs = Inr (List.find P xs)"
  by (induction xs) auto

lemma find_if_free:
  "find_if asserted msg P xs = Inr r \<Longrightarrow> \<forall>k v. r \<noteq> Some (k, v) \<Longrightarrow> (k, v) \<in> set xs \<Longrightarrow> \<not> P (k, v)"
  by (induction xs) (auto split: if_splits)

lemma find_None_name: "List.find P xs = None \<longleftrightarrow> (\<forall>x \<in> set xs. \<not> P x)"
  by (auto simp: find_None_iff)

lemma map_insert_fst: "fst ` set (map_insert kv xs) = insert (fst kv) (fst ` set xs)"
  by (auto simp: map_insert_def map_of_eq_None_iff rev_image_eqI)

lemma map_insert_mem: "x \<in> set (map_insert kv xs) \<Longrightarrow> x = kv \<or> x \<in> set xs"
  by (auto simp: map_insert_def split: if_splits)

lemma map_insert_distinct: "distinct (map fst xs) \<Longrightarrow> distinct (map fst (map_insert kv xs))"
  by (auto simp: map_insert_def map_of_eq_None_iff)

lemma GetNextUid_next:
  assumes "GetNextUid peek uid = Inr (u, uid')"
  shows "u = uid \<and> (if peek then uid' = uid else uid' = uid + 1 \<and> uid < uid + 1)"
proof -
  have "ThrowIfCantGenerateNextUid uid 0 = Inr ()"
    using assms by (auto simp: GetNextUid_def)
  then have "unat uid + 1 < 65536" by (simp add: ThrowIfCantGenerateNextUid_iff)
  then have "unat (uid + 1) = unat uid + 1" using unat_add_small16 [of uid 1] by simp
  then have "uid < uid + 1" by (simp add: word_less_nat_alt)
  then show ?thesis using assms by (auto simp: GetNextUid_def split: if_splits)
qed

lemma fresh_uid: "(\<And>k v. (k, v) \<in> set xs \<Longrightarrow> k < uid) \<Longrightarrow> map_of xs (uid :: 16 word) = None"
  by (force simp: map_of_eq_None_iff)

lemma wf_RegisterCategory:
  assumes "RegisterCategory name st = Inr (c, st')" "wf_registry st"
  shows "wf_registry st'"
proof -
  obtain uid d where st: "st = (uid, d)" by (cases st)
  have names: "name \<notin> cat_Name ` set (m_Categories d)"
    and st': "st' = (uid, d\<lparr>m_Categories := m_Categories d @ [\<lparr>cat_Name = name, cat_Counters = []\<rparr>]\<rparr>)"
    using assms(1) by (auto simp: RegisterCategory_def require_def IsCategoryRegistered_def
        FindCategory_def find_None_name st Let_def)
  show ?thesis using assms(2) names by (simp add: wf_registry_def st st')
qed

lemma wf_RegisterDevice:
  assumes "RegisterDevice name cores parent st = Inr (dev, st')" "wf_registry st"
  shows "wf_registry st'"
proof -
  obtain uid d where st: "st = (uid, d)" by (cases st)
  have names: "name \<notin> (dev_Name \<circ> snd) ` set (m_Devices d)"
    using assms(1) by (auto simp: RegisterDevice_def require_def IsDeviceRegistered_name_def
        FindDevice_name_def st dest: find_if_free)
  obtain u uid' where u: "GetNextUid False uid = Inr (u, uid')"
    and st': "st' = (uid', d\<lparr>m_Devices := map_insert (u, \<lparr>dev_Uid = u, dev_Name = name, dev_Cores = cores\<rparr>) (m_Devices d)\<rparr>)"
    using assms(1) by (auto simp: RegisterDevice_def st Let_def)
  have uid: "u = uid" "uid' = uid + 1" "uid < uid + 1" using GetNextUid_next [OF u] by simp_all
  have fresh: "map_of (m_Devices d) uid = None"
    using assms(2) by (intro fresh_uid) (auto simp: wf_registry_def st)
  have "\<forall>k. k < uid \<longrightarrow> k < uid + 1" "0 < uid + 1"
    using uid(3) le_less_trans [OF word_zero_le uid(3)] by (auto intro: less_trans)
  then show ?thesis using assms(2) names fresh uid
    unfolding wf_registry_def st st' by (auto simp: map_insert_def map_of_eq_None_iff)
qed

lemma wf_RegisterCounterSet:
  assumes "RegisterCounterSet name count parent st = Inr (s, st')" "wf_registry st"
  shows "wf_registry st'"
proof -
  obtain uid d where st: "st = (uid, d)" by (cases st)
  have names: "name \<notin> (set_Name \<circ> snd) ` set (m_CounterSets d)"
    using assms(1) by (auto simp: RegisterCounterSet_def require_def IsCounterSetRegistered_name_def
        FindCounterSet_name_def st dest: find_if_free)
  obtain u uid' where u: "GetNextUid False uid = Inr (u, uid')"
    and st': "st' = (uid', d\<lparr>m_CounterSets := map_insert (u, \<lparr>set_Uid = u, set_Name = name, set_Count = count\<rparr>) (m_CounterSets d)\<rparr>)"
    using assms(1) by (auto simp: RegisterCounterSet_def st Let_def dest: GetNextUid_next)
  have uid: "u = uid" "uid' = uid + 1" "uid < uid + 1" using GetNextUid_next [OF u] by simp_all
  have fresh: "map_of (m_CounterSets d) uid = None"
    using assms(2) by (intro fresh_uid) (auto simp: wf_registry_def st)
  have "\<forall>k. k < uid \<longrightarrow> k < uid + 1" "0 < uid + 1"
    using uid(3) le_less_trans [OF word_zero_le uid(3)] by (auto intro: less_trans)
  then show ?thesis using assms(2) names fresh uid
    unfolding wf_registry_def st st' by (auto simp: map_insert_def map_of_eq_None_iff)
qed

text \<open>Connecting uids to the parent category and registering the counter under them.\<close>

lemma connect_names [simp]: "map cat_Name (connect name uid cs) = map cat_Name cs"
  by (induction cs) auto

lemma connect_counters:
  "c \<in> set (connect name uid cs) \<Longrightarrow> \<exists>c0 \<in> set cs. set (cat_Counters c) \<subseteq> insert uid (set (cat_Counters c0))"
  by (induction cs) (auto split: if_splits)

lemma wf_register_uid:
  assumes "wf_registry (n, d)" "cnt_Uid c \<le> u" "u \<le> cnt_MaxCounterUid c"
  shows "wf_registry (n, register_uid name c u d)"
proof -
  let ?d = "register_uid name c u d"
  have "set (cat_Counters cat) \<subseteq> fst ` set (m_Counters ?d)" if mem: "cat \<in> set (m_Categories ?d)" for cat
  proof -
    obtain c0 where "c0 \<in> set (m_Categories d)" "set (cat_Counters cat) \<subseteq> insert u (set (cat_Counters c0))"
      using connect_counters [of cat name u "m_Categories d"] mem by (auto simp: register_uid_def)
    moreover have "set (cat_Counters c0) \<subseteq> fst ` set (m_Counters d)"
      using calculation(1) assms(1) by (auto simp: wf_registry_def)
    ultimately show ?thesis by (auto simp: register_uid_def map_insert_fst)
  qed
  moreover have "cnt_Uid c' \<le> k \<and> k \<le> cnt_MaxCounterUid c'" if "(k, c') \<in> set (m_Counters ?d)" for k c'
    using that assms by (auto simp: register_uid_def wf_registry_def dest: map_insert_mem)
  moreover have "distinct (map fst (m_Counters ?d))"
    using assms(1) by (simp add: register_uid_def wf_registry_def map_insert_distinct)
  moreover have "map cat_Name (m_Categories ?d) = map cat_Name (m_Categories d)"
    "m_Devices ?d = m_Devices d" "m_CounterSets ?d = m_CounterSets d"
    by (simp_all add: register_uid_def)
  ultimately show ?thesis using assms(1) unfolding wf_registry_def by auto
qed

lemma wf_register_uids:
  "wf_registry (n, d) \<Longrightarrow> (\<And>u. u \<in> set us \<Longrightarrow> cnt_Uid c \<le> u \<and> u \<le> cnt_MaxCounterUid c) \<Longrightarrow>
     wf_registry (n, fold (register_uid name c) us d)"
  by (induction us arbitrary: d) (auto intro: wf_register_uid)

lemma GetNextCounterUids_range:
  assumes "GetNextCounterUids uid cores = Inr us" "u \<in> set us"
  shows "hd us \<le> u \<and> u \<le> (if cores \<le> 1 then hd us else last us)"
proof -
  let ?n = "max 1 (unat cores)"
  have us: "map unat us = [unat uid ..< unat uid + ?n]"
    using GetNextCounterUids_cases [of uid cores] assms(1) by simp
  then have ne: "us \<noteq> []" by (metis le_add1 less_irrefl_nat list.map_disc_iff max.cobounded1 not_one_le_zero add_diff_cancel_left' length_map length_upt list.size(3))
  have "unat (hd us) = unat uid" "unat (last us) = unat uid + ?n - 1"
    using us ne by (metis hd_map hd_upt less_add_same_cancel1 less_max_iff_disj zero_less_one,
      metis last_map last_upt less_add_same_cancel1 less_max_iff_disj zero_less_one)
  moreover have "unat u \<in> set (map unat us)" using assms(2) by simp
  ultimately show ?thesis using us
    by (auto simp: word_le_nat_alt max_def split: if_splits)
qed

lemma wf_RegisterCounter:
  assumes "RegisterCounter app uid parent cls interp mult name desc units cores dev cset st = Inr (c, st')"
    "wf_registry st"
  shows "wf_registry st'"
proof -
  obtain n d where st: "st = (n, d)" by (cases st)
  obtain deviceCores us where us: "GetNextCounterUids uid deviceCores = Inr us"
    and c: "cnt_Uid c = hd us" "cnt_MaxCounterUid c = (if deviceCores \<le> 1 then hd us else last us)"
    and st': "st' = (n, fold (register_uid parent c) us d)"
    using assms(1) by (auto simp: RegisterCounter_def st Let_def split: option.splits)
  show ?thesis unfolding st'
    using assms(2) GetNextCounterUids_range [OF us] c by (intro wf_register_uids) (simp_all add: st)
qed

lemma wf_directory_reachable: "directory_reachable st \<Longrightarrow> wf_registry st"
proof (induction rule: directory_reachable.induct)
  case start
  then show ?case by (simp add: wf_registry_def CounterDirectory_make_def)
next
  case (step st st')
  from step.hyps(2) step.IH show ?case
  proof (induction rule: directory_step.induct)
    case (clear uid d)
    then show ?case by (simp add: wf_registry_def Clear_def CounterDirectory_make_def)
  qed (fact wf_RegisterCategory wf_RegisterDevice wf_RegisterCounterSet wf_RegisterCounter)+
qed

text \<open>On a well-formed directory the searches by name find what a plain search finds.\<close>

lemma wf_find_name:
  assumes "wf_registry (n, d)"
  shows "FindDevice_name d name = Inr (List.find (\<lambda>(_, dev). dev_Name dev = name) (m_Devices d))"
    "FindCounterSet_name d name = Inr (List.find (\<lambda>(_, s). set_Name s = name) (m_CounterSets d))"
    "FindCounter_name d name = Inr (List.find (\<lambda>(_, c). cnt_Name c = name) (m_Counters d))"
  using assms unfolding FindDevice_name_def FindCounterSet_name_def FindCounter_name_def
  by (intro find_if_asserted; force simp: wf_registry_def)+

lemma wf_GetCounter:
  assumes "wf_registry (n, d)"
  shows "GetCounter d u = Inr (FindCounter d u)"
    "cat \<in> set (m_Categories d) \<Longrightarrow> u \<in> set (cat_Counters cat) \<Longrightarrow>
      \<exists>c. FindCounter d u = Some c \<and> cnt_Uid c \<le> u \<and> u \<le> cnt_MaxCounterUid c"
proof -
  have counter: "cnt_Uid c \<le> u \<and> u \<le> cnt_MaxCounterUid c" if "FindCounter d u = Some c" for u c
    using assms map_of_SomeD [OF that [unfolded FindCounter_def]] by (auto simp: wf_registry_def)
  then show "GetCounter d u = Inr (FindCounter d u)"
    by (auto simp: GetCounter_def split: option.splits intro: order_trans)
  show "\<exists>c. FindCounter d u = Some c \<and> cnt_Uid c \<le> u \<and> u \<le> cnt_MaxCounterUid c"
    if "cat \<in> set (m_Categories d)" "u \<in> set (cat_Counters cat)"
  proof -
    have "u \<in> fst ` set (m_Counters d)" using assms that by (auto simp: wf_registry_def)
    then obtain c where "FindCounter d u = Some c" by (metis FindCounter_def map_of_eq_None_iff not_None_eq)
    then show ?thesis using counter by blast
  qed
qed

subsubsection \<open>No registration fails an assertion\<close>

lemma GetNextUid_asserts: "GetNextUid peek uid \<noteq> Inl (AssertionFailure msg)"
  by (auto simp: GetNextUid_def ThrowIfCantGenerateNextUid_def throw_if_def split: if_splits)

lemma check_parent_asserts: "check_parent what d parent \<noteq> Inl (AssertionFailure msg)"
  by (auto simp: check_parent_def require_def throw_if_def split: option.splits if_splits)

lemma check_names_asserts:
  assumes "wf_registry (n, d)" "\<And>u. u \<in> set us \<Longrightarrow> FindCounter d u \<noteq> None"
  shows "check_names d name us \<noteq> Inl (AssertionFailure msg)"
  using assms(2)
proof (induction us)
  case (Cons u us)
  then obtain c where "FindCounter d u = Some c" by (metis list.set_intros(1) not_None_eq)
  then show ?case using Cons wf_GetCounter(1) [OF assms(1), of u] by (simp add: require_def)
qed simp

lemma GetNextCounterUids_asserts:
  "GetNextCounterUids uid cores \<noteq> Inl (AssertionFailure msg)" "GetNextCounterUids uid cores \<noteq> Inr []"
proof -
  show "GetNextCounterUids uid cores \<noteq> Inr []"
  proof
    assume "GetNextCounterUids uid cores = Inr []"
    then have "length [unat uid ..< unat uid + max 1 (unat cores)] = 0"
      using GetNextCounterUids_cases [of uid cores] by simp
    then show False by simp
  qed
  show "GetNextCounterUids uid cores \<noteq> Inl (AssertionFailure msg)"
    by (auto simp: GetNextCounterUids_def ThrowIfCantGenerateNextUid_def throw_if_def Let_def split: if_splits)
qed

lemma RegisterDevice_asserts:
  assumes "wf_registry (n, d)"
  shows "RegisterDevice name cores parent (n, d) \<noteq> Inl (AssertionFailure msg)"
  using check_parent_asserts GetNextUid_asserts
  by (auto simp: RegisterDevice_def require_def IsDeviceRegistered_name_def wf_find_name [OF assms] Let_def
      split: prod.splits)

lemma RegisterCounterSet_asserts:
  assumes "wf_registry (n, d)"
  shows "RegisterCounterSet name count parent (n, d) \<noteq> Inl (AssertionFailure msg)"
  using check_parent_asserts GetNextUid_asserts
  by (auto simp: RegisterCounterSet_def require_def IsCounterSetRegistered_name_def wf_find_name [OF assms] Let_def
      split: prod.splits dest!: GetNextUid_next)

lemma RegisterCounter_asserts:
  assumes "wf_registry (n, d)"
  shows "RegisterCounter app uid parent cls interp mult name desc units cores dev cset (n, d) \<noteq>
    Inl (AssertionFailure msg)"
proof
  assume failed: "RegisterCounter app uid parent cls interp mult name desc units cores dev cset (n, d) =
    Inl (AssertionFailure msg)"
  have "check_names d name (cat_Counters cat) \<noteq> Inl (AssertionFailure msg)" if "FindCategory d parent = Some cat" for cat
  proof (rule check_names_asserts [OF assms])
    fix u assume "u \<in> set (cat_Counters cat)"
    moreover have "cat \<in> set (m_Categories d)"
      using that by (auto simp: FindCategory_def find_Some_iff)
    ultimately show "FindCounter d u \<noteq> None" using wf_GetCounter(2) [OF assms] by (metis option.distinct(1))
  qed
  moreover have "GetNumberOfCores d cores k \<noteq> Inl (AssertionFailure msg)" for k
    by (auto simp: GetNumberOfCores_def split: option.splits)
  ultimately show False using failed GetNextCounterUids_asserts
    by (auto simp: RegisterCounter_def require_def Let_def split: option.splits)
qed

text \<open>
  C22: The directory's assertions never fail. After any sequence of successful registrations and
  clears, no further registration, whatever its arguments, fails an assertion, and every lookup of a
  device, counter set or counter, by uid and by name, returns; every uid a category lists belongs to a
  registered counter whose range of uids contains it, so the name check of \<open>RegisterCounter\<close> never meets
  a null pointer; and category, device and counter-set names are unique.
\<close>

theorem directory_consistent:
  assumes "directory_reachable (n, d)"
  shows "is_ok (GetDevice d k) \<and> is_ok (GetCounterSet d k) \<and> is_ok (GetCounter d k) \<and>
    is_ok (FindDevice_name d name) \<and> is_ok (FindCounterSet_name d name) \<and> is_ok (FindCounter_name d name) \<and>
    RegisterCategory name (n, d) \<noteq> Inl (AssertionFailure msg) \<and>
    RegisterDevice name cores parent (n, d) \<noteq> Inl (AssertionFailure msg) \<and>
    RegisterCounterSet name cores parent (n, d) \<noteq> Inl (AssertionFailure msg) \<and>
    RegisterCounter app uid category cls interp mult name desc units core dev cset (n, d) \<noteq> Inl (AssertionFailure msg) \<and>
    (\<forall>cat \<in> set (m_Categories d). \<forall>u \<in> set (cat_Counters cat).
       \<exists>c. GetCounter d u = Inr (Some c) \<and> cnt_Uid c \<le> u \<and> u \<le> cnt_MaxCounterUid c) \<and>
    distinct (map cat_Name (m_Categories d)) \<and>
    distinct (map (dev_Name \<circ> snd) (m_Devices d)) \<and>
    distinct (map (set_Name \<circ> snd) (m_CounterSets d))"
proof -
  have wf: "wf_registry (n, d)" using assms by (rule wf_directory_reachable)
  have "is_ok (GetDevice d k)" "is_ok (GetCounterSet d k)"
    using wf by (auto simp: GetDevice_def GetCounterSet_def FindDevice_def FindCounterSet_def wf_registry_def
        split: option.splits dest!: map_of_SomeD)
  moreover have "\<exists>c. GetCounter d u = Inr (Some c) \<and> cnt_Uid c \<le> u \<and> u \<le> cnt_MaxCounterUid c"
    if "cat \<in> set (m_Categories d)" "u \<in> set (cat_Counters cat)" for cat u
    using wf_GetCounter(2) [OF wf that] wf_GetCounter(1) [OF wf] by auto
  moreover have "RegisterCategory name (n, d) \<noteq> Inl (AssertionFailure msg)"
    by (auto simp: RegisterCategory_def require_def Let_def)
  ultimately show ?thesis
    using wf RegisterDevice_asserts [OF wf] RegisterCounterSet_asserts [OF wf] RegisterCounter_asserts [OF wf]
    by (simp add: wf_registry_def wf_GetCounter(1) [OF wf] wf_find_name [OF wf])
qed

text \<open>A category with one counter for two cores.\<close>

definition one_counter :: Counter where
  "one_counter = \<lparr>cnt_BackendId = ''app'', cnt_Uid = 7, cnt_MaxCounterUid = 8, cnt_Class = 0,
     cnt_Interpolation = 0, cnt_Multiplier = 1, cnt_Name = ''cycles'', cnt_Description = ''cycles'',
     cnt_Units = [], cnt_DeviceUid = 0, cnt_CounterSetUid = 0\<rparr>"

definition one_counter_directory :: CounterDirectory where
  "one_counter_directory = CounterDirectory_make\<lparr>
     m_Categories := [\<lparr>cat_Name = ''backend'', cat_Counters = [7, 8]\<rparr>],
     m_Counters := [(7, one_counter), (8, one_counter)]\<rparr>"

lemma one_counter_reachable: "directory_reachable (1, one_counter_directory)"
proof -
  let ?d = "CounterDirectory_make\<lparr>m_Categories := [\<lparr>cat_Name = ''backend'', cat_Counters = []\<rparr>]\<rparr>"
  have "RegisterCategory ''backend'' (1, CounterDirectory_make) =
      Inr (\<lparr>cat_Name = ''backend'', cat_Counters = []\<rparr>, (1, ?d))"
    by (simp add: RegisterCategory_def require_def IsCategoryRegistered_def FindCategory_def
        CounterDirectory_make_def IsValidSwTraceString_def SwTraceNameCharPolicy_def isalnum_def Let_def)
  then have "directory_reachable (1, ?d)"
    by (rule directory_reachable.step [OF directory_reachable.start directory_step.category])
  moreover have uids: "GetNextCounterUids 7 2 = Inr [7, 8]"
  proof -
    have "[0..<2] = [0, Suc 0]" by (simp add: numeral_2_eq_2)
    then show ?thesis by (simp add: GetNextCounterUids_def ThrowIfCantGenerateNextUid_def throw_if_def)
  qed
  then have "RegisterCounter ''app'' 7 ''backend'' 0 0 1 ''cycles'' ''cycles'' None (Some 2) None None (1, ?d) =
      Inr (one_counter, (1, one_counter_directory))"
    by (simp add: RegisterCounter_def require_def FindCategory_def CounterDirectory_make_def
        IsValidSwTraceString_def SwTraceNameCharPolicy_def SwTraceCharPolicy_def isalnum_def double_is_zero_def
        GetNumberOfCores_def uids one_counter_def one_counter_directory_def
        register_uid_def map_insert_def Let_def word_le_nat_alt)
  ultimately show ?thesis using directory_reachable.step directory_step.counter by blast
qed

theorem directory_consistent_witness:
  "is_ok (GetCounter one_counter_directory 7) \<and> is_ok (FindCounter_name one_counter_directory ''cycles'') \<and>
   (\<exists>c. GetCounter one_counter_directory 8 = Inr (Some c) \<and> cnt_Uid c \<le> 8 \<and> 8 \<le> cnt_MaxCounterUid c) \<and>
   RegisterDevice ''cpu'' 4 None (1, one_counter_directory) \<noteq> Inl (AssertionFailure [])"
  using directory_consistent [OF one_counter_reachable, of 7 _ "[]"]
    directory_consistent [OF one_counter_reachable, of 7 "''cycles''" "[]"]
  by (auto simp: one_counter_directory_def)

text \<open>
  A uid that is taken is not refused: the new counter is returned and its uid is listed in
  the category, but the directory keeps the old counter under it.
\<close>

lemma register_uid_keeps: "FindCounter d u = Some c0 \<Longrightarrow> FindCounter (register_uid name c v d) u = Some c0"
  by (auto simp: FindCounter_def register_uid_def map_insert_def map_add_Some_iff)

lemma RegisterCounter_taken_uid:
  assumes "RegisterCounter app uid parent cls interp mult name desc units cores dev cset (n, d) = Inr (c, (n', d'))"
    "FindCounter d u = Some c0"
  shows "FindCounter d' u = Some c0"
proof -
  obtain deviceCores us where "GetNextCounterUids uid deviceCores = Inr us"
    and d': "d' = fold (register_uid parent c) us d"
    using assms(1) by (auto simp: RegisterCounter_def Let_def split: option.splits)
  have "FindCounter (fold (register_uid parent c) us d) u = Some c0"
    using assms(2) by (induction us arbitrary: d) (auto intro: register_uid_keeps)
  then show ?thesis by (simp add: d')
qed

end
