(* ===== verification/ProfilingState.thy ===== *)
theory ProfilingState
  imports Prelude "HOL-Library.Sublist"
begin

section \<open>The profiling state machine (profiling/client ProfilingStateMachine.cpp)\<close>

text \<open>
  The state is an atomic variable that several threads change with compare-and-exchange
  loops. The sequential function \<open>TransitionToState\<close> is what a call does when nobody
  interferes; \<open>machine_step\<close> has every load, test and exchange of every thread as a step.
\<close>

datatype ProfilingState = Uninitialised | NotConnected | WaitingForAck | Active

fun GetProfilingStateName :: "ProfilingState \<Rightarrow> string" where
  "GetProfilingStateName Uninitialised = ''Uninitialised''"
| "GetProfilingStateName NotConnected = ''NotConnected''"
| "GetProfilingStateName WaitingForAck = ''WaitingForAck''"
| "GetProfilingStateName Active = ''Active''"

text \<open>The variadic template: the arguments after the first are tried in order.\<close>

fun IsOneOfStates :: "ProfilingState \<Rightarrow> ProfilingState list \<Rightarrow> bool" where
  "IsOneOfStates state1 [] = False"
| "IsOneOfStates state1 (state2 # args) = (if state1 = state2 then True else IsOneOfStates state1 args)"

lemma IsOneOfStates_iff [simp]: "IsOneOfStates s ss \<longleftrightarrow> s \<in> set ss"
  by (induction ss) auto

definition ThrowStateTransitionException :: "ProfilingState \<Rightarrow> ProfilingState \<Rightarrow> exn" where
  "ThrowStateTransitionException expectedState newState =
     ProfilingException (''Cannot transition from state ['' @ GetProfilingStateName expectedState @
       ''] to state ['' @ GetProfilingStateName newState @ '']'')"

text \<open>The states each case of the switch accepts.\<close>

fun accepted :: "ProfilingState \<Rightarrow> ProfilingState list" where
  "accepted Uninitialised = [Uninitialised]"
| "accepted NotConnected = [Uninitialised, NotConnected, Active, WaitingForAck]"
| "accepted WaitingForAck = [NotConnected, WaitingForAck]"
| "accepted Active = [WaitingForAck, Active]"

definition TransitionToState :: "ProfilingState \<Rightarrow> ProfilingState \<Rightarrow> ProfilingState result" where
  "TransitionToState newState m_State =
     (if \<not> IsOneOfStates m_State (accepted newState)
      then Inl (ThrowStateTransitionException m_State newState)
      else Inr newState)"

definition Reset :: "ProfilingState \<Rightarrow> ProfilingState" where
  "Reset m_State = Uninitialised"

subsection \<open>Concurrent callers\<close>

text \<open>
  Where a thread is in a call: before the test of the state it has seen, before the exchange,
  or done. The first load is relaxed, so it may see any earlier value: the model lets it see
  any value at all.
\<close>

datatype thread =
    Idle
  | Test ProfilingState ProfilingState
  | Exchange ProfilingState ProfilingState
  | Returned ProfilingState
  | Threw exn

text \<open>
  The shared variable, the threads, and the values the variable has had since it was created
  or last reset, as a ghost. The constructor \<open>ProfilingStateMachine(ProfilingState)\<close> may create the
  machine in any state, the default constructor creates it in \<open>Uninitialised\<close>.
\<close>

record machine =
  m_State :: ProfilingState
  threads :: "thread list"
  history :: "ProfilingState list"

definition ProfilingStateMachine_make :: "ProfilingState \<Rightarrow> nat \<Rightarrow> machine" where
  "ProfilingStateMachine_make state n = \<lparr>m_State = state, threads = replicate n Idle, history = [state]\<rparr>"

definition ProfilingStateMachine_default :: "nat \<Rightarrow> machine" where
  "ProfilingStateMachine_default = ProfilingStateMachine_make Uninitialised"

inductive machine_step :: "machine \<Rightarrow> machine \<Rightarrow> bool" where
  load: "i < length (threads m) \<Longrightarrow> threads m ! i = Idle \<Longrightarrow>
    machine_step m (m\<lparr>threads := (threads m)[i := Test newState seen]\<rparr>)"
| test_fails: "i < length (threads m) \<Longrightarrow> threads m ! i = Test newState current \<Longrightarrow>
    \<not> IsOneOfStates current (accepted newState) \<Longrightarrow>
    machine_step m (m\<lparr>threads := (threads m)[i := Threw (ThrowStateTransitionException current newState)]\<rparr>)"
| test_holds: "i < length (threads m) \<Longrightarrow> threads m ! i = Test newState current \<Longrightarrow>
    IsOneOfStates current (accepted newState) \<Longrightarrow>
    machine_step m (m\<lparr>threads := (threads m)[i := Exchange newState current]\<rparr>)"
| exchange_succeeds: "i < length (threads m) \<Longrightarrow> threads m ! i = Exchange newState current \<Longrightarrow>
    m_State m = current \<Longrightarrow>
    machine_step m (m\<lparr>m_State := newState, threads := (threads m)[i := Returned newState],
      history := history m @ [newState]\<rparr>)"
| exchange_fails: "i < length (threads m) \<Longrightarrow> threads m ! i = Exchange newState current \<Longrightarrow>
    m_State m \<noteq> current \<Longrightarrow>
    machine_step m (m\<lparr>threads := (threads m)[i := Test newState (m_State m)]\<rparr>)"
| next_call: "i < length (threads m) \<Longrightarrow> threads m ! i \<in> {Returned newState, Threw e} \<Longrightarrow>
    machine_step m (m\<lparr>threads := (threads m)[i := Idle]\<rparr>)"
| do_reset: "machine_step m (m\<lparr>m_State := Reset (m_State m), history := [Uninitialised]\<rparr>)"

inductive_cases machine_stepE: "machine_step m m'"

inductive machine_reachable :: "ProfilingState \<Rightarrow> machine \<Rightarrow> bool" for state where
  start: "machine_reachable state (ProfilingStateMachine_make state n)"
| step: "machine_reachable state m \<Longrightarrow> machine_step m m' \<Longrightarrow> machine_reachable state m'"

text \<open>A thread about to exchange has tested the state it expects.\<close>

definition thread_ok :: "thread \<Rightarrow> bool" where
  "thread_ok t \<longleftrightarrow> (case t of Exchange newState current \<Rightarrow> current \<in> set (accepted newState) | _ \<Rightarrow> True)"

definition machine_ok :: "ProfilingState \<Rightarrow> machine \<Rightarrow> bool" where
  "machine_ok state m \<longleftrightarrow> (\<forall>t \<in> set (threads m). thread_ok t) \<and>
     history m \<noteq> [] \<and> hd (history m) \<in> {state, Uninitialised} \<and> last (history m) = m_State m \<and>
     successively (\<lambda>s s'. s \<in> set (accepted s')) (history m)"

lemma thread_update_ok:
  "\<forall>t \<in> set ts. thread_ok t \<Longrightarrow> thread_ok t' \<Longrightarrow> \<forall>t \<in> set (ts[i := t']). thread_ok t"
  by (auto dest: set_update_subset_insert [THEN subsetD])

lemma machine_ok_step:
  assumes "machine_step m m'" "machine_ok state m"
  shows "machine_ok state m'"
  using assms
proof (induction rule: machine_step.induct)
  case (exchange_succeeds i m newState current)
  then have "thread_ok (Exchange newState current)"
    by (metis machine_ok_def nth_mem)
  then show ?case using exchange_succeeds
    by (auto simp: machine_ok_def thread_ok_def successively_append_iff intro: thread_update_ok
        dest: set_update_subset_insert [THEN subsetD])
qed (auto simp: machine_ok_def Reset_def thread_ok_def dest: set_update_subset_insert [THEN subsetD])

lemma machine_ok_make: "machine_ok state (ProfilingStateMachine_make state n)"
  by (simp add: machine_ok_def ProfilingStateMachine_make_def thread_ok_def)

lemma machine_ok_reachable: "machine_reachable state m \<Longrightarrow> machine_ok state m"
  by (induction rule: machine_reachable.induct) (auto intro: machine_ok_make machine_ok_step)

text \<open>The stages a path of accepted transitions from one state to another goes through.\<close>

definition to_NotConnected :: "ProfilingState \<Rightarrow> ProfilingState list" where
  "to_NotConnected s = (if s = NotConnected then [NotConnected] else [s, NotConnected])"

definition to_WaitingForAck :: "ProfilingState \<Rightarrow> ProfilingState list" where
  "to_WaitingForAck s = (if s = WaitingForAck then [WaitingForAck] else to_NotConnected s @ [WaitingForAck])"

definition to_Active :: "ProfilingState \<Rightarrow> ProfilingState list" where
  "to_Active s = (if s = Active then [Active] else to_WaitingForAck s @ [Active])"

fun stages :: "ProfilingState \<Rightarrow> ProfilingState \<Rightarrow> ProfilingState list" where
  "stages s Uninitialised = [Uninitialised]"
| "stages s NotConnected = to_NotConnected s"
| "stages s WaitingForAck = to_WaitingForAck s"
| "stages s Active = to_Active s"

lemmas stage_defs = to_NotConnected_def to_WaitingForAck_def to_Active_def

lemma stages_extend:
  assumes "subseq (stages a s) ss" "s \<in> set (accepted s')" "ss \<noteq> []" "hd ss = a"
    "s = Uninitialised \<Longrightarrow> a = Uninitialised"
  shows "subseq (stages a s') (ss @ [s'])"
proof -
  have start: "subseq [a] ss" using assms(3,4) by (cases ss) auto
  have skip: "subseq xs ss \<Longrightarrow> subseq xs (ss @ [s'])" for xs by (rule subseq_rev_drop_many)
  have add: "subseq xs ss \<Longrightarrow> subseq (xs @ [s']) (ss @ [s'])" for xs
    by (intro list_emb_append_mono) simp_all
  show ?thesis
    using assms(1,2,5) start add [OF start] add [OF assms(1)] skip [OF assms(1)] skip [OF start]
    by (cases s; cases s'; cases a) (simp_all add: stage_defs)
qed

lemma stages_on_path:
  assumes "successively (\<lambda>s s'. s \<in> set (accepted s')) ss" "ss \<noteq> []"
  shows "subseq (stages (hd ss) (last ss)) ss \<and> (last ss = Uninitialised \<longrightarrow> hd ss = Uninitialised)"
  using assms
proof (induction ss rule: rev_induct)
  case (snoc s ss)
  show ?case
  proof (cases "ss = []")
    case True
    then show ?thesis by (cases s) (simp_all add: stage_defs)
  next
    case False
    then have edge: "last ss \<in> set (accepted s)" and ih: "subseq (stages (hd ss) (last ss)) ss"
      "last ss = Uninitialised \<Longrightarrow> hd ss = Uninitialised"
      using snoc by (auto simp: successively_append_iff)
    have "subseq (stages (hd ss) s) (ss @ [s])"
      using stages_extend [OF ih(1) edge False refl] ih(2) by simp
    moreover have "s = Uninitialised \<longrightarrow> hd ss = Uninitialised" using edge ih(2) by (cases "last ss") auto
    ultimately show ?thesis using False by simp
  qed
qed simp

lemma exchange_refines:
  assumes "machine_step m m'" "machine_ok state m"
  shows "history m' = [Uninitialised] \<and> m_State m' = Reset (m_State m) \<or>
    (history m' = history m \<and> m_State m' = m_State m) \<or>
    (history m' = history m @ [m_State m'] \<and> TransitionToState (m_State m') (m_State m) = Inr (m_State m'))"
  using assms
proof (induction rule: machine_step.induct)
  case (exchange_succeeds i m newState current)
  then have "thread_ok (Exchange newState current)" by (metis machine_ok_def nth_mem)
  then show ?case using exchange_succeeds by (simp add: TransitionToState_def thread_ok_def)
qed auto

text \<open>
  Every change of the shared state is one transition the sequential code would make. With
  any number of threads in \<open>TransitionToState\<close> at once, and first loads that may be stale, a
  step of any of them either leaves the state alone, or is a \<open>Reset\<close>, or takes the state to
  the value \<open>TransitionToState\<close> computes from the value it has at that moment.
\<close>

theorem transitions_linearize:
  assumes "machine_reachable state m" "machine_step m m'"
  shows "m_State m' = m_State m \<or> m_State m' = Reset (m_State m) \<or>
    TransitionToState (m_State m') (m_State m) = Inr (m_State m')"
  using exchange_refines [OF assms(2) machine_ok_reachable [OF assms(1)]] by auto

text \<open>
  C23: The handshake cannot be skipped. A machine is created in some state (\<open>Uninitialised\<close> by the
  default constructor) and used by any number of threads. Whatever the interleaving, the values its
  state has had since it was created, or since it was last reset, begin with the state it was created
  in, or with \<open>Uninitialised\<close>; each change between two successive values was an accepted transition; and
  the machine has gone through every stage between that first state and the one it is in: created
  \<open>Uninitialised\<close> or reset, it is \<open>Active\<close> only after \<open>NotConnected\<close> and then \<open>WaitingForAck\<close>, created
  \<open>Active\<close> it is \<open>WaitingForAck\<close> only after \<open>NotConnected\<close>; and it is \<open>Uninitialised\<close> only if it was
  created so or reset.
\<close>

theorem handshake_stages:
  assumes "machine_reachable state m"
  shows "hd (history m) \<in> {state, Uninitialised} \<and> last (history m) = m_State m \<and>
    subseq (stages (hd (history m)) (m_State m)) (history m) \<and>
    (m_State m = Uninitialised \<longrightarrow> hd (history m) = Uninitialised) \<and>
    successively (\<lambda>s s'. TransitionToState s' s = Inr s') (history m)"
proof -
  have ok: "machine_ok state m" using assms by (rule machine_ok_reachable)
  have "subseq (stages (hd (history m)) (last (history m))) (history m) \<and>
      (last (history m) = Uninitialised \<longrightarrow> hd (history m) = Uninitialised)"
    using ok by (intro stages_on_path) (auto simp: machine_ok_def)
  moreover have "successively (\<lambda>s s'. TransitionToState s' s = Inr s') (history m)"
    using ok by (auto simp: machine_ok_def TransitionToState_def elim!: successively_mono)
  ultimately show ?thesis using ok by (simp add: machine_ok_def)
qed

text \<open>One thread that makes one accepted transition after another.\<close>

lemma one_call:
  assumes "machine_reachable state \<lparr>m_State = s, threads = [Idle], history = h\<rparr>" "s \<in> set (accepted s')"
  shows "machine_reachable state \<lparr>m_State = s', threads = [Idle], history = h @ [s']\<rparr>"
proof -
  have 1: "machine_reachable state \<lparr>m_State = s, threads = [Test s' s], history = h\<rparr>"
    using machine_reachable.step [OF assms(1) machine_step.load [of 0 _ s' s]] by simp
  have 2: "machine_reachable state \<lparr>m_State = s, threads = [Exchange s' s], history = h\<rparr>"
    using machine_reachable.step [OF 1 machine_step.test_holds [of 0 _ s' s]] assms(2) by simp
  have 3: "machine_reachable state \<lparr>m_State = s', threads = [Returned s'], history = h @ [s']\<rparr>"
    using machine_reachable.step [OF 2 machine_step.exchange_succeeds [of 0 _ s' s]] by simp
  show ?thesis
    using machine_reachable.step [OF 3 machine_step.next_call [of 0 _ s']] by simp
qed

lemma active_example:
  "machine_reachable Uninitialised \<lparr>m_State = Active, threads = [Idle],
     history = [Uninitialised, NotConnected, WaitingForAck, Active]\<rparr>"
proof -
  have "machine_reachable Uninitialised \<lparr>m_State = Uninitialised, threads = [Idle], history = [Uninitialised]\<rparr>"
    using machine_reachable.start [of Uninitialised 1] by (simp add: ProfilingStateMachine_make_def)
  from one_call [OF one_call [OF one_call [OF this, of NotConnected], of WaitingForAck], of Active]
  show ?thesis by simp
qed

theorem handshake_stages_witness:
  "\<exists>m. machine_reachable Uninitialised m \<and> m_State m = Active \<and> hd (history m) = Uninitialised \<and>
     subseq [Uninitialised, NotConnected, WaitingForAck, Active] (history m)"
  using handshake_stages [OF active_example] active_example
  by (intro exI [of _ "\<lparr>m_State = Active, threads = [Idle],
     history = [Uninitialised, NotConnected, WaitingForAck, Active]\<rparr>"]) (simp add: stage_defs)

theorem transitions_linearize_witness:
  "\<exists>m m'. machine_step m m' \<and> m_State m = Active \<and> m_State m' = Reset Active"
  using transitions_linearize [OF active_example machine_step.do_reset]
    machine_step.do_reset [of "\<lparr>m_State = Active, threads = [Idle],
     history = [Uninitialised, NotConnected, WaitingForAck, Active]\<rparr>"]
  by (intro exI conjI) (assumption, simp_all)

end
