(* ===== verification/ProfilingCommands.thy ===== *)
theory ProfilingCommands
  imports ProfilingState TimelinePackets
begin

section \<open>Commands and their handlers (profiling/common and profiling/client)\<close>

text \<open>
  Keys and versions of command packets, the registry of the handlers, the mapping between
  global and backend counter identifiers, the capture data and its holder.
\<close>

subsection \<open>Keys\<close>

datatype CommandHandlerKey = CommandHandlerKey
  (key_FamilyId: "32 word") (key_PacketId: "32 word") (key_Version: "32 word")

definition CommandHandlerKey_less :: "CommandHandlerKey \<Rightarrow> CommandHandlerKey \<Rightarrow> bool" where
  "CommandHandlerKey_less lhs rhs =
     (if key_FamilyId lhs = key_FamilyId rhs then
        (if key_PacketId lhs = key_PacketId rhs then key_Version lhs < key_Version rhs
         else if key_PacketId lhs > key_PacketId rhs then False else True)
      else if key_FamilyId lhs > key_FamilyId rhs then False else True)"

definition CommandHandlerKey_le :: "CommandHandlerKey \<Rightarrow> CommandHandlerKey \<Rightarrow> bool" where
  "CommandHandlerKey_le lhs rhs \<longleftrightarrow> \<not> CommandHandlerKey_less rhs lhs"

definition CommandHandlerKey_eq :: "CommandHandlerKey \<Rightarrow> CommandHandlerKey \<Rightarrow> bool" where
  "CommandHandlerKey_eq lhs rhs \<longleftrightarrow>
     key_FamilyId lhs = key_FamilyId rhs \<and> key_PacketId lhs = key_PacketId rhs \<and>
     key_Version lhs = key_Version rhs"

text \<open>The operators of the class are a linear order, so keys can be those of an ordered map.\<close>

instantiation CommandHandlerKey :: linorder
begin

definition less_CommandHandlerKey :: "CommandHandlerKey \<Rightarrow> CommandHandlerKey \<Rightarrow> bool" where
  "less_CommandHandlerKey = CommandHandlerKey_less"

definition less_eq_CommandHandlerKey :: "CommandHandlerKey \<Rightarrow> CommandHandlerKey \<Rightarrow> bool" where
  "less_eq_CommandHandlerKey = CommandHandlerKey_le"

instance
  by standard (auto simp: less_CommandHandlerKey_def less_eq_CommandHandlerKey_def
      CommandHandlerKey_less_def CommandHandlerKey_le_def CommandHandlerKey.expand
      split: if_splits)

end

datatype PacketKey = PacketKey (pk_FamilyId: "32 word") (pk_PacketId: "32 word")

definition PacketKey_less :: "PacketKey \<Rightarrow> PacketKey \<Rightarrow> bool" where
  "PacketKey_less lhs rhs =
     (if pk_FamilyId lhs = pk_FamilyId rhs then pk_PacketId lhs < pk_PacketId rhs
      else if pk_FamilyId lhs > pk_FamilyId rhs then False else True)"

definition PacketKey_le :: "PacketKey \<Rightarrow> PacketKey \<Rightarrow> bool" where
  "PacketKey_le lhs rhs \<longleftrightarrow> \<not> PacketKey_less rhs lhs"

instantiation PacketKey :: linorder
begin

definition less_PacketKey :: "PacketKey \<Rightarrow> PacketKey \<Rightarrow> bool" where
  "less_PacketKey = PacketKey_less"

definition less_eq_PacketKey :: "PacketKey \<Rightarrow> PacketKey \<Rightarrow> bool" where
  "less_eq_PacketKey = PacketKey_le"

instance
  by standard (auto simp: less_PacketKey_def less_eq_PacketKey_def PacketKey_less_def PacketKey_le_def
      PacketKey.expand split: if_splits)

end

subsection \<open>Versions\<close>

definition EncodeVersion :: "32 word \<Rightarrow> 32 word \<Rightarrow> 32 word \<Rightarrow> 32 word" where
  "EncodeVersion major minor patch = push_bit 22 major OR push_bit 12 minor OR patch"

record Version =
  m_Major :: "32 word"
  m_Minor :: "32 word"
  m_Patch :: "32 word"

definition Version_decode :: "32 word \<Rightarrow> Version" where
  "Version_decode encodedValue =
     \<lparr>m_Major = drop_bit 22 encodedValue AND 1023, m_Minor = drop_bit 12 encodedValue AND 1023,
      m_Patch = encodedValue AND 4095\<rparr>"

definition GetEncodedValue :: "Version \<Rightarrow> 32 word" where
  "GetEncodedValue v = EncodeVersion (m_Major v) (m_Minor v) (m_Patch v)"

definition ActivateTimeLinePacket :: PacketKey where
  "ActivateTimeLinePacket = PacketKey 0 6"

definition DeactivateTimeLinePacket :: PacketKey where
  "DeactivateTimeLinePacket = PacketKey 0 7"

definition ResolvePacketVersion :: "32 word \<Rightarrow> 32 word \<Rightarrow> Version" where
  "ResolvePacketVersion familyId packetId =
     (let packetKey = PacketKey familyId packetId in
      if packetKey = ActivateTimeLinePacket then \<lparr>m_Major = 1, m_Minor = 1, m_Patch = 0\<rparr>
      else if packetKey = DeactivateTimeLinePacket then \<lparr>m_Major = 1, m_Minor = 1, m_Patch = 0\<rparr>
      else \<lparr>m_Major = 1, m_Minor = 0, m_Patch = 0\<rparr>)"

text \<open>Every encoded value decodes and encodes back to itself: the three fields cover all bits.\<close>

lemma mask_numerals: "(1023 :: 32 word) = mask 10" "(4095 :: 32 word) = mask 12"
  by (simp_all add: mask_eq_exp_minus_1)

lemma bit_field:
  "bit (push_bit k (drop_bit k w AND mask n) :: 32 word) i \<longleftrightarrow> k \<le> i \<and> i < k + n \<and> bit w i"
  by (auto simp: bit_simps dest: bit_imp_le_length)

lemma Version_roundtrip: "GetEncodedValue (Version_decode w) = w"
proof (rule bit_word_eqI)
  fix i assume "i < LENGTH(32)"
  then show "bit (GetEncodedValue (Version_decode w)) i = bit w i"
    using bit_field [of 22 w 10 i] bit_field [of 12 w 10 i] bit_field [of 0 w 12 i]
    by (simp add: GetEncodedValue_def Version_decode_def EncodeVersion_def bit_or_iff mask_numerals) linarith
qed

subsection \<open>The registry of handlers\<close>

text \<open>A functor is an address, here any value; \<open>None\<close> is a null pointer.\<close>

type_synonym 'f handler_registry = "CommandHandlerKey \<Rightarrow> 'f option option"

definition RegisterFunctor ::
    "'f option \<Rightarrow> 32 word \<Rightarrow> 32 word \<Rightarrow> 32 word \<Rightarrow> 'f handler_registry \<Rightarrow> 'f handler_registry result" where
  "RegisterFunctor functor familyId packetId version registry =
     bindR (throw_if (functor = None) (AssertionFailure ''Provided functor should not be a nullptr'')) (\<lambda>_.
     Inr (registry(CommandHandlerKey familyId packetId version \<mapsto> functor)))"

definition GetFunctor ::
    "32 word \<Rightarrow> 32 word \<Rightarrow> 32 word \<Rightarrow> 'f handler_registry \<Rightarrow> 'f result" where
  "GetFunctor familyId packetId version registry =
     (case registry (CommandHandlerKey familyId packetId version) of
        None \<Rightarrow> Inl (ProfilingException ''Functor with requested PacketId and Version does not exist'')
      | Some None \<Rightarrow> Inl (ProfilingException ''Invalid functor registered for PacketId and Version'')
      | Some (Some functor) \<Rightarrow> Inr functor)"

lemma GetFunctor_RegisterFunctor:
  assumes "RegisterFunctor f fam pid ver r = Inr r'"
  shows "GetFunctor fam' pid' ver' r' =
    (if fam' = fam \<and> pid' = pid \<and> ver' = ver then Inr (the f) else GetFunctor fam' pid' ver' r)"
  using assms by (cases f) (auto simp: RegisterFunctor_def GetFunctor_def)

text \<open>
  The functor \<open>HandleCommands\<close> calls for a packet: the version follows from the packet key.
\<close>

definition dispatch :: "'f handler_registry \<Rightarrow> Packet \<Rightarrow> 'f result" where
  "dispatch registry packet =
     GetFunctor (m_PacketFamily packet) (m_PacketId packet)
       (GetEncodedValue (ResolvePacketVersion (m_PacketFamily packet) (m_PacketId packet))) registry"

subsection \<open>Counter identifiers\<close>

record CounterIdMap =
  m_GlobalCounterIdMap :: "16 word \<Rightarrow> (16 word \<times> string) option"
  m_BackendCounterIdMap :: "16 word \<times> string \<Rightarrow> 16 word option"

definition CounterIdMap_make :: CounterIdMap where
  "CounterIdMap_make = \<lparr>m_GlobalCounterIdMap = Map.empty, m_BackendCounterIdMap = Map.empty\<rparr>"

definition RegisterMapping :: "16 word \<Rightarrow> 16 word \<Rightarrow> string \<Rightarrow> CounterIdMap \<Rightarrow> CounterIdMap" where
  "RegisterMapping globalCounterId backendCounterId backendId m =
     m\<lparr>m_GlobalCounterIdMap := (m_GlobalCounterIdMap m)(globalCounterId \<mapsto> (backendCounterId, backendId)),
       m_BackendCounterIdMap := (m_BackendCounterIdMap m)((backendCounterId, backendId) \<mapsto> globalCounterId)\<rparr>"

definition CounterIdMap_Reset :: "CounterIdMap \<Rightarrow> CounterIdMap" where
  "CounterIdMap_Reset m = m\<lparr>m_GlobalCounterIdMap := Map.empty, m_BackendCounterIdMap := Map.empty\<rparr>"

definition GetGlobalId :: "16 word \<Rightarrow> string \<Rightarrow> CounterIdMap \<Rightarrow> 16 word result" where
  "GetGlobalId backendCounterId backendId m =
     (case m_BackendCounterIdMap m (backendCounterId, backendId) of
        None \<Rightarrow> Inl (ProfilingException ''No Backend Counter registered'')
      | Some globalId \<Rightarrow> Inr globalId)"

definition GetBackendId :: "16 word \<Rightarrow> CounterIdMap \<Rightarrow> (16 word \<times> string) result" where
  "GetBackendId globalCounterId m =
     (case m_GlobalCounterIdMap m globalCounterId of
        None \<Rightarrow> Inl (ProfilingException ''No Global Counter ID registered'')
      | Some backend \<Rightarrow> Inr backend)"

text \<open>
  The two maps are inverse to each other as long as no identifier is registered twice;
  \<open>RegisterMapping\<close> does not remove the old pair, so a second registration of a global
  identifier leaves the first backend counter pointing at it.
\<close>

definition id_maps_inverse :: "CounterIdMap \<Rightarrow> bool" where
  "id_maps_inverse m \<longleftrightarrow> (\<forall>g b. m_GlobalCounterIdMap m g = Some b \<longleftrightarrow> m_BackendCounterIdMap m b = Some g)"

lemma RegisterMapping_inverse:
  assumes "id_maps_inverse m" "m_GlobalCounterIdMap m g = None" "m_BackendCounterIdMap m (b, backendId) = None"
  shows "id_maps_inverse (RegisterMapping g b backendId m)"
proof -
  have none: "m_BackendCounterIdMap m c \<noteq> Some g" "m_GlobalCounterIdMap m h \<noteq> Some (b, backendId)" for c h
    using assms unfolding id_maps_inverse_def by (metis option.distinct(1))+
  show ?thesis
    unfolding id_maps_inverse_def
  proof (intro allI)
    fix h c
    show "m_GlobalCounterIdMap (RegisterMapping g b backendId m) h = Some c \<longleftrightarrow>
      m_BackendCounterIdMap (RegisterMapping g b backendId m) c = Some h"
      using assms(1) [unfolded id_maps_inverse_def, rule_format, of h c] none(1) [of c] none(2) [of h]
      by (cases "h = g"; cases "c = (b, backendId)") (simp_all add: RegisterMapping_def)
  qed
qed

lemma RegisterMapping_stale:
  assumes "(b, backend) \<noteq> (b', backend')"
  shows "let m = RegisterMapping g b' backend' (RegisterMapping g b backend CounterIdMap_make) in
    GetGlobalId b backend m = Inr g \<and> GetBackendId g m = Inr (b', backend')"
  using assms by (auto simp: RegisterMapping_def CounterIdMap_make_def GetGlobalId_def GetBackendId_def Let_def)

subsection \<open>Capture data\<close>

record CaptureData =
  m_CapturePeriod :: "32 word"
  m_CounterIds :: "16 word list"
  m_ActiveBackends :: "string set"

definition IsCounterIdInCaptureData :: "16 word \<Rightarrow> CaptureData \<Rightarrow> bool" where
  "IsCounterIdInCaptureData counterId d \<longleftrightarrow> list_ex (\<lambda>c. c = counterId) (m_CounterIds d)"

text \<open>The holder's mutex makes the three assignments one step.\<close>

definition SetCaptureData :: "32 word \<Rightarrow> 16 word list \<Rightarrow> string set \<Rightarrow> CaptureData \<Rightarrow> CaptureData" where
  "SetCaptureData capturePeriod counterIds activeBackends d =
     d\<lparr>m_CapturePeriod := capturePeriod, m_CounterIds := counterIds, m_ActiveBackends := activeBackends\<rparr>"

lemma IsCounterIdInCaptureData_set:
  "IsCounterIdInCaptureData c (SetCaptureData period ids backends d) \<longleftrightarrow> c \<in> set ids"
  by (auto simp: IsCounterIdInCaptureData_def SetCaptureData_def list_ex_iff)

end
