(* ===== verification/GraphSort.thy ===== *)
theory GraphSort
  imports Prelude
begin

section \<open>Sorting a graph of nodes (src/armnnUtils/GraphTopologicalSort.hpp)\<close>

text \<open>
  The depth-first search that the parsers use to order the operators of a model. The graph is the
  caller's function \<open>getIncomingEdges\<close>; \<open>nodeStates\<close> is the \<open>std::map\<close>, the head of
  \<open>nodeStack\<close> the top of the \<open>std::stack\<close>. The loop may run forever on an infinite graph, so it
  is a partial function and termination is part of the theorem.
\<close>

subsection \<open>The search\<close>

datatype NodeState = Visiting | Visited

type_synonym 'n states = "'n \<Rightarrow> NodeState option"

fun next_child_loop :: "'n states \<Rightarrow> 'n list \<Rightarrow> 'n option" where
  "next_child_loop nodeStates [] = None"
| "next_child_loop nodeStates (childNode # rest) =
     (case nodeStates childNode of
        None \<Rightarrow> Some childNode
      | Some Visiting \<Rightarrow> Some childNode
      | Some Visited \<Rightarrow> next_child_loop nodeStates rest)"

definition GetNextChild :: "'n \<Rightarrow> ('n \<Rightarrow> 'n list) \<Rightarrow> 'n states \<Rightarrow> 'n option" where
  "GetNextChild node getIncomingEdges nodeStates = next_child_loop nodeStates (getIncomingEdges node)"

text \<open>The end of the loop body: pop the node and output it.\<close>

partial_function (option) sort_loop ::
    "('n \<Rightarrow> 'n list) \<Rightarrow> 'n list \<Rightarrow> 'n list \<Rightarrow> 'n states \<Rightarrow> (bool \<times> 'n list \<times> 'n states) option" where
  "sort_loop getIncomingEdges nodeStack outSorted nodeStates =
     (case nodeStack of
        [] \<Rightarrow> Some (True, outSorted, nodeStates)
      | current # rest \<Rightarrow>
          let nodeStates = nodeStates(current \<mapsto> Visiting);
              child = GetNextChild current getIncomingEdges nodeStates
          in if child \<noteq> None \<and> nodeStates (the child) = None
             then sort_loop getIncomingEdges (the child # current # rest) outSorted nodeStates
             else if child \<noteq> None \<and> nodeStates (the child) = Some Visiting
             then Some (False, outSorted, nodeStates)
             else sort_loop getIncomingEdges rest (outSorted @ [current]) (nodeStates(current \<mapsto> Visited)))"

definition TopologicallySort ::
    "'n \<Rightarrow> ('n \<Rightarrow> 'n list) \<Rightarrow> 'n list \<Rightarrow> 'n states \<Rightarrow> (bool \<times> 'n list \<times> 'n states) option" where
  "TopologicallySort initialNode getIncomingEdges outSorted nodeStates =
     sort_loop getIncomingEdges (if nodeStates initialNode = None then [initialNode] else [])
       outSorted nodeStates"

fun sort_targets ::
    "('n \<Rightarrow> 'n list) \<Rightarrow> 'n list \<Rightarrow> 'n list \<Rightarrow> 'n states \<Rightarrow> (bool \<times> 'n list) option" where
  "sort_targets getIncomingEdges [] outSorted nodeStates = Some (True, outSorted)"
| "sort_targets getIncomingEdges (targetNode # rest) outSorted nodeStates =
     (case TopologicallySort targetNode getIncomingEdges outSorted nodeStates of
        None \<Rightarrow> None
      | Some (ok, outSorted, nodeStates) \<Rightarrow>
          if \<not> ok then Some (False, outSorted) else sort_targets getIncomingEdges rest outSorted nodeStates)"

definition GraphTopologicalSort :: "'n list \<Rightarrow> ('n \<Rightarrow> 'n list) \<Rightarrow> (bool \<times> 'n list) option" where
  "GraphTopologicalSort targetNodes getIncomingEdges = sort_targets getIncomingEdges targetNodes [] Map.empty"

subsection \<open>The graph and the orders of it\<close>

definition edges :: "('n \<Rightarrow> 'n list) \<Rightarrow> ('n \<times> 'n) set" where
  "edges g = {(n, c). c \<in> set (g n)}"

definition needed :: "('n \<Rightarrow> 'n list) \<Rightarrow> 'n set \<Rightarrow> 'n set" where
  "needed g ts = (edges g)\<^sup>* `` ts"

text \<open>An order in which everything a node needs comes before it.\<close>

fun in_order :: "('n \<Rightarrow> 'n list) \<Rightarrow> 'n set \<Rightarrow> 'n list \<Rightarrow> bool" where
  "in_order g done [] \<longleftrightarrow> True"
| "in_order g done (n # ns) \<longleftrightarrow>
     n \<notin> done \<and> set (g n) \<subseteq> done \<and> in_order g (insert n done) ns"

lemma in_order_snoc:
  "in_order g D (ns @ [n]) \<longleftrightarrow> in_order g D ns \<and> n \<notin> D \<union> set ns \<and> set (g n) \<subseteq> D \<union> set ns"
  by (induction ns arbitrary: D) auto

lemma in_order_distinct: "in_order g D ns \<Longrightarrow> distinct ns \<and> D \<inter> set ns = {}"
  by (induction ns arbitrary: D) auto

lemma in_order_before:
  "in_order g D ns \<Longrightarrow> i < length ns \<Longrightarrow> c \<in> set (g (ns ! i)) \<Longrightarrow> c \<in> D \<or> (\<exists>j < i. ns ! j = c)"
proof (induction ns arbitrary: D i)
  case Nil
  then show ?case by simp
next
  case (Cons n ns)
  show ?case
  proof (cases i)
    case 0
    then show ?thesis using Cons.prems by auto
  next
    case (Suc k)
    then have "c \<in> insert n D \<or> (\<exists>j < k. ns ! j = c)"
      using Cons.IH [of "insert n D" k] Cons.prems by simp
    then show ?thesis
      by (metis (no_types) Suc Suc_less_eq insert_iff nth_Cons_0 nth_Cons_Suc zero_less_Suc)
  qed
qed

lemma in_order_closed: "in_order g {} ns \<Longrightarrow> n \<in> set ns \<Longrightarrow> set (g n) \<subseteq> set ns"
  by (induction ns rule: rev_induct) (auto simp: in_order_snoc)

lemma in_order_no_cycle:
  assumes "in_order g {} ns" "n \<in> set ns"
  shows "(n, n) \<notin> (edges g)\<^sup>+"
proof -
  have step: "\<exists>j < i. ns ! j = c" if "i < length ns" "(ns ! i, c) \<in> edges g" for i c
    using in_order_before [OF assms(1) that(1)] that(2) by (auto simp: edges_def)
  have "\<exists>j < i. ns ! j = c" if "i < length ns" "(ns ! i, c) \<in> (edges g)\<^sup>+" for i c
    using that(2)
  proof (induction rule: trancl_induct)
    case (base y)
    then show ?case using step that(1) by blast
  next
    case (step y z)
    then obtain j where j: "j < i" "ns ! j = y" by blast
    then show ?case using \<open>\<And>i c. \<lbrakk>i < length ns; (ns ! i, c) \<in> edges g\<rbrakk> \<Longrightarrow> \<exists>j<i. ns ! j = c\<close> [of j z]
      step.hyps that(1) by (metis less_trans)
  qed
  moreover obtain i where "i < length ns" "ns ! i = n" using assms(2) by (meson in_set_conv_nth)
  ultimately show ?thesis
    using in_order_distinct [OF assms(1)] by (metis nat_neq_iff nth_eq_iff_index_eq order.strict_trans)
qed


subsection \<open>The loop\<close>

lemma next_child_loop_None [simp]:
  "next_child_loop st cs = None \<longleftrightarrow> (\<forall>c \<in> set cs. st c = Some Visited)"
  by (induction cs) (auto split: option.splits NodeState.splits)

lemma next_child_loop_Some:
  "next_child_loop st cs = Some c \<Longrightarrow> c \<in> set cs \<and> st c \<noteq> Some Visited"
  by (induction cs) (auto split: option.splits NodeState.splits)

text \<open>
  The nodes on the stack form a path of the graph, those below its top are being visited, and the
  output is an order of the visited nodes.
\<close>

definition search_inv :: "('n \<Rightarrow> 'n list) \<Rightarrow> 'n set \<Rightarrow> 'n list \<Rightarrow> 'n list \<Rightarrow> 'n states \<Rightarrow> bool" where
  "search_inv g R stack out st \<longleftrightarrow>
     in_order g {} out \<and> (\<forall>n. st n = Some Visited \<longleftrightarrow> n \<in> set out) \<and> dom st \<subseteq> R \<and> set stack \<subseteq> R \<and>
     distinct stack \<and> set stack \<inter> set out = {} \<and> (\<forall>n. st n = Some Visiting \<longrightarrow> n \<in> set stack) \<and>
     (\<forall>n \<in> set (tl stack). st n = Some Visiting) \<and> successively (\<lambda>a b. (b, a) \<in> edges g) stack"

lemma path_reaches:
  assumes "successively (\<lambda>a b. (b, a) \<in> r) (a # as)" "b \<in> set as"
  shows "(b, a) \<in> r\<^sup>+"
  using assms
proof (induction as arbitrary: a)
  case Nil
  then show ?case by simp
next
  case (Cons c cs)
  have "(c, a) \<in> r" using Cons.prems(1) by simp
  moreover have "b = c \<or> (b, c) \<in> r\<^sup>+" using Cons by auto
  ultimately show ?case by (meson r_into_trancl trancl.trancl_into_trancl)
qed

definition search_done :: "('n \<Rightarrow> 'n list) \<Rightarrow> 'n set \<Rightarrow> 'n list \<Rightarrow> 'n list \<Rightarrow> bool \<times> 'n list \<times> 'n states \<Rightarrow> bool" where
  "search_done g R stack out r = (case r of (ok, out', st') \<Rightarrow>
     if ok then search_inv g R [] out' st' \<and> set out \<union> set stack \<subseteq> set out'
     else \<exists>n \<in> R. (n, n) \<in> (edges g)\<^sup>+)"

lemma search_done_mono:
  "search_done g R stack' out' r \<Longrightarrow> set out \<union> set stack \<subseteq> set out' \<union> set stack' \<Longrightarrow>
   search_done g R stack out r"
  by (auto simp: search_done_def split: prod.splits if_splits)

lemma sort_loop_correct:
  assumes "finite R" "edges g `` R \<subseteq> R" "search_inv g R stack out st"
  shows "\<exists>r. sort_loop g stack out st = Some r \<and> search_done g R stack out r"
  using assms(3)
proof (induction "2 * card (R - set out) - length stack" arbitrary: stack out st rule: less_induct)
  case less
  note inv = less.prems [unfolded search_inv_def]
  show ?case
  proof (cases stack)
    case Nil
    then show ?thesis using less.prems by (subst sort_loop.simps) (simp add: search_done_def)
  next
    case (Cons current rest)
    let ?st = "st(current \<mapsto> Visiting)" and ?child = "GetNextChild current g (st(current \<mapsto> Visiting))"
    have current: "current \<in> R" "current \<notin> set out" "current \<notin> set rest" using inv Cons by auto
    have out: "set out \<subseteq> R" using inv by (auto simp: domI)
    have "card (set stack) \<le> card (R - set out)"
      using inv assms(1) by (intro card_mono) auto
    then have room: "length stack \<le> card (R - set out)" using inv by (simp add: distinct_card)
    have tl: "set (tl rest) \<subseteq> set rest" by (cases rest) auto
    have visited: "?st n = Some Visited \<longleftrightarrow> n \<in> set out" for n using inv current(2) by auto
    show ?thesis
    proof (cases "?child")
      case None
      have "set (g current) \<subseteq> set out"
        using None visited by (auto simp: GetNextChild_def)
      then have inv': "search_inv g R rest (out @ [current]) (?st(current \<mapsto> Visited))"
        using inv Cons current by (auto simp: search_inv_def in_order_snoc successively_Cons dest: subsetD [OF tl])
      have "card (R - set (out @ [current])) < card (R - set out)"
        using assms(1) current by (intro psubset_card_mono) auto
      then have "2 * card (R - set (out @ [current])) - length rest < 2 * card (R - set out) - length stack"
        using room Cons by simp
      from less.hyps [OF this inv'] obtain r
        where "sort_loop g rest (out @ [current]) (?st(current \<mapsto> Visited)) = Some r"
          "search_done g R rest (out @ [current]) r" by blast
      then show ?thesis using None Cons
        by (subst sort_loop.simps) (auto simp: Let_def intro: search_done_mono)
    next
      case (Some child)
      have c: "child \<in> set (g current)" "?st child \<noteq> Some Visited"
        using next_child_loop_Some [OF Some [unfolded GetNextChild_def]] by auto
      have edge: "(current, child) \<in> edges g" using c(1) by (simp add: edges_def)
      have R: "child \<in> R" using edge current(1) assms(2) by blast
      show ?thesis
      proof (cases "?st child")
        case None
        have fresh: "child \<noteq> current" "child \<notin> set rest" "child \<notin> set out"
          using None inv Cons visited [of child] by (auto split: if_splits)
        have inv': "search_inv g R (child # current # rest) out ?st"
          using inv Cons current R fresh edge by (auto simp: search_inv_def successively_Cons)
        have "length (child # stack) \<le> card (R - set out)"
          using assms(1) Cons card_mono [of "R - set out" "set (child # stack)"] inv' inv
          by (simp add: search_inv_def distinct_card [symmetric] disjoint_iff subset_iff)
        then have "2 * card (R - set out) - length (child # current # rest)
            < 2 * card (R - set out) - length stack"
          using Cons by simp
        from less.hyps [OF this inv'] obtain r
          where "sort_loop g (child # current # rest) out ?st = Some r"
            "search_done g R (child # current # rest) out r" by blast
        then show ?thesis using Some None Cons
          by (subst sort_loop.simps) (auto simp: Let_def intro: search_done_mono)
      next
        case (Some s)
        then have s: "s = Visiting" using c(2) by (cases s) auto
        have "child = current \<or> child \<in> set rest" using Some s inv Cons by (auto split: if_splits)
        then have "(child, child) \<in> (edges g)\<^sup>+"
          using path_reaches [of "edges g" current rest child] inv Cons edge
          by (metis r_into_trancl trancl.trancl_into_trancl)
        then have "search_done g R stack out (False, out, ?st)" using R by (auto simp: search_done_def)
        then show ?thesis using \<open>?child = Some child\<close> Some s Cons
          by (subst sort_loop.simps) (simp add: Let_def)
      qed
    qed
  qed
qed


subsection \<open>The whole search\<close>

lemma search_inv_push:
  assumes "search_inv g R [] out st" "n \<in> R"
  shows "search_inv g R (if st n = None then [n] else []) out st"
proof -
  have "st n = None \<Longrightarrow> n \<notin> set out" using assms(1) by (metis option.distinct(1) search_inv_def)
  then show ?thesis using assms by (auto simp: search_inv_def)
qed

lemma sort_targets_correct:
  assumes "finite R" "edges g `` R \<subseteq> R" "set ts \<subseteq> R" "search_inv g R [] out st"
  shows "\<exists>ok out'. sort_targets g ts out st = Some (ok, out') \<and>
    (if ok then in_order g {} out' \<and> set out' \<subseteq> R \<and> set out \<union> set ts \<subseteq> set out'
     else \<exists>n \<in> R. (n, n) \<in> (edges g)\<^sup>+)"
  using assms(3,4)
proof (induction ts arbitrary: out st)
  case Nil
  then have "in_order g {} out" "set out \<subseteq> R" by (auto simp: search_inv_def)
  then show ?case by (intro exI [of _ True] exI [of _ out]) simp
next
  case (Cons t ts)
  let ?stack = "if st t = None then [t] else []"
  have inv: "search_inv g R ?stack out st" using search_inv_push Cons.prems by fastforce
  obtain ok out' st' where r: "sort_loop g ?stack out st = Some (ok, out', st')"
    "search_done g R ?stack out (ok, out', st')"
    using sort_loop_correct [OF assms(1,2) inv] by auto
  show ?case
  proof (cases ok)
    case False
    then show ?thesis using r by (auto simp: TopologicallySort_def search_done_def)
  next
    case True
    have inv': "search_inv g R [] out' st'" and grows: "set out \<union> set ?stack \<subseteq> set out'"
      using r(2) True by (auto simp: search_done_def)
    have "t \<in> set out'"
    proof (cases "st t")
      case None
      then show ?thesis using grows by auto
    next
      case (Some s)
      then have "s = Visited" using Cons.prems(2) by (cases s) (auto simp: search_inv_def)
      then show ?thesis using Some grows Cons.prems(2) by (auto simp: search_inv_def)
    qed
    moreover obtain ok2 out2 where r2: "sort_targets g ts out' st' = Some (ok2, out2)"
      "if ok2 then in_order g {} out2 \<and> set out2 \<subseteq> R \<and> set out' \<union> set ts \<subseteq> set out2
       else \<exists>n \<in> R. (n, n) \<in> (edges g)\<^sup>+"
      using Cons.IH [OF _ inv'] Cons.prems(1) by auto
    moreover have "sort_targets g (t # ts) out st = Some (ok2, out2)"
      using r(1) r2(1) True by (simp add: TopologicallySort_def)
    moreover have "set out \<subseteq> set out'" using grows by simp
    ultimately show ?thesis by (intro exI [of _ ok2] exI [of _ out2]) (cases ok2; simp; blast)
  qed
qed

lemma needed_closed: "edges g `` needed g ts \<subseteq> needed g ts"
  by (auto simp: needed_def intro: rtrancl.rtrancl_into_rtrancl)

lemma closed_needed: "(\<And>n. n \<in> S \<Longrightarrow> set (g n) \<subseteq> S) \<Longrightarrow> ts \<subseteq> S \<Longrightarrow> needed g ts \<subseteq> S"
proof
  fix n
  assume S: "\<And>n. n \<in> S \<Longrightarrow> set (g n) \<subseteq> S" "ts \<subseteq> S" and n: "n \<in> needed g ts"
  then obtain t where "(t, n) \<in> (edges g)\<^sup>*" "t \<in> S" by (auto simp: needed_def)
  then show "n \<in> S" by (induction rule: rtrancl_induct) (use S(1) in \<open>auto simp: edges_def\<close>)
qed

text \<open>
  C28: The search decides and solves the ordering problem. If only finitely many nodes are needed
  for the targets, it returns; it reports success exactly when the needed nodes have no cycle,
  and then its output lists the needed nodes, each once, every node after all the nodes it needs.
\<close>

theorem GraphTopologicalSort_correct:
  assumes "finite (needed g (set targets))"
  shows "\<exists>ok out. GraphTopologicalSort targets g = Some (ok, out) \<and>
    (ok \<longleftrightarrow> (\<forall>n \<in> needed g (set targets). (n, n) \<notin> (edges g)\<^sup>+)) \<and>
    (ok \<longrightarrow> distinct out \<and> set out = needed g (set targets) \<and>
      (\<forall>i < length out. \<forall>c \<in> set (g (out ! i)). \<exists>j < i. out ! j = c))"
proof -
  let ?R = "needed g (set targets)"
  have "search_inv g ?R [] [] Map.empty" by (simp add: search_inv_def)
  moreover have "set targets \<subseteq> ?R" by (auto simp: needed_def)
  ultimately obtain ok out where r: "GraphTopologicalSort targets g = Some (ok, out)"
    "if ok then in_order g {} out \<and> set out \<subseteq> ?R \<and> set targets \<subseteq> set out
     else \<exists>n \<in> ?R. (n, n) \<in> (edges g)\<^sup>+"
    using sort_targets_correct [OF assms needed_closed] unfolding GraphTopologicalSort_def
    by (metis Un_subset_iff empty_set)
  show ?thesis
  proof (cases ok)
    case False
    then show ?thesis using r by auto
  next
    case True
    then have o: "in_order g {} out" "set out \<subseteq> ?R" "set targets \<subseteq> set out" using r(2) by auto
    have eq: "set out = ?R"
      using closed_needed [of "set out" g "set targets"] in_order_closed [OF o(1)] o(2,3) by blast
    have "\<exists>j < i. out ! j = c" if "i < length out" "c \<in> set (g (out ! i))" for i c
      using in_order_before [OF o(1) that] by simp
    then show ?thesis
      using True r(1) eq in_order_distinct [OF o(1)] in_order_no_cycle [OF o(1)] by auto
  qed
qed

definition diamond :: "nat \<Rightarrow> nat list" where
  "diamond n = (if n = 3 then [1, 2] else if n = 1 \<or> n = 2 then [0] else [])"

lemma diamond_needed: "needed diamond {3} \<subseteq> {0, 1, 2, 3}"
  by (rule closed_needed) (auto simp: diamond_def)

theorem GraphTopologicalSort_correct_witness:
  "\<exists>ok out. GraphTopologicalSort [3] diamond = Some (ok, out) \<and>
    (ok \<longleftrightarrow> (\<forall>n \<in> needed diamond {3}. (n, n) \<notin> (edges diamond)\<^sup>+)) \<and>
    (ok \<longrightarrow> distinct out \<and> set out = needed diamond {3} \<and>
      (\<forall>i < length out. \<forall>c \<in> set (diamond (out ! i)). \<exists>j < i. out ! j = c))"
  using GraphTopologicalSort_correct [of diamond "[3]"] finite_subset [OF diamond_needed] by simp

lemma GraphTopologicalSort_diamond:
  "GraphTopologicalSort [3] diamond = Some (True, [0, 1, 2, 3])"
  by (simp add: GraphTopologicalSort_def TopologicallySort_def sort_loop.simps GetNextChild_def
      diamond_def Let_def)

end
