(* ===== verification/GraphModel.thy ===== *)
theory GraphModel
  imports TensorShapes
begin

section \<open>The graph of layers (src/armnn/Graph.hpp, Graph.cpp, Layer.hpp, Layer.cpp)\<close>

text \<open>
  A layer is its address, a natural number; a slot is the pair of its layer's address and its
  index. The fields of the slots are functions from slots, so that an assignment to a field of one
  slot is an update at one argument and pointers may alias. \<open>m_LayerOf\<close> holds the live layers.
  The observers of the graph (\<open>m_Views\<close>) and the profiler are not modelled.
\<close>

subsection \<open>Data\<close>

text \<open>
  The enumerators of \<open>LayerType\<close> carry the name of the class of the layer, so that they do not
  clash with the operations of the same name. (The plugins of the datatype package that are switched
  off take minutes on an enumeration of this size; the simplifier evaluates equality.)
\<close>

datatype (plugins only: size) LayerType =
    ActivationLayer | AdditionLayer | ArgMinMaxLayer | BatchNormalizationLayer
   | BatchToSpaceNdLayer | ComparisonLayer | ConcatLayer | ConstantLayer
   | ConvertFp16ToFp32Layer | ConvertFp32ToFp16Layer | Convolution2dLayer | DebugLayer
   | DepthToSpaceLayer | DepthwiseConvolution2dLayer | DequantizeLayer
   | DetectionPostProcessLayer | DivisionLayer | ElementwiseUnaryLayer | FakeQuantizationLayer
   | FillLayer | FloorLayer | FullyConnectedLayer | GatherLayer | InputLayer
   | InstanceNormalizationLayer | L2NormalizationLayer | LogicalBinaryLayer | LogSoftmaxLayer
   | LstmLayer | QLstmLayer | MapLayer | MaximumLayer | MeanLayer | MemCopyLayer
   | MemImportLayer | MergeLayer | MinimumLayer | MultiplicationLayer | NormalizationLayer
   | OutputLayer | PadLayer | PermuteLayer | Pooling2dLayer | PreCompiledLayer | PreluLayer
   | QuantizeLayer | QuantizedLstmLayer | ReshapeLayer | RankLayer | ResizeLayer | ReduceLayer
   | SliceLayer | SoftmaxLayer | SpaceToBatchNdLayer | SpaceToDepthLayer | SplitterLayer
   | StackLayer | StandInLayer | StridedSliceLayer | SubtractionLayer | SwitchLayer
   | TransposeLayer | TransposeConvolution2dLayer | UnmapLayer | CastLayer | ShapeLayer
   | UnidirectionalSequenceLstmLayer | ChannelShuffleLayer | Convolution3dLayer | Pooling3dLayer
   | GatherNdLayer | BatchMatMulLayer | ElementwiseBinaryLayer | ReverseV2Layer | TileLayer
   | FusedLayer | BroadcastToLayer

datatype EdgeStrategy = Undefined | DirectCompatibility | ExportToTarget | CopyToTarget

datatype ShapeInferenceMethod = ValidateOnly | InferAndValidate

type_synonym slot = "nat \<times> nat"

record Layer =
  m_LayerName :: string
  m_Type :: LayerType
  m_NumInputSlots :: nat
  m_NumOutputSlots :: nat
  m_BindingId :: int
  m_BackendId :: string
  m_ShapeInferenceMethod :: ShapeInferenceMethod
  m_AllowExpandedDims :: bool

record Graph =
  m_LayerOf :: "nat \<Rightarrow> Layer option"
  m_Connection :: "slot \<Rightarrow> slot option"
  m_OverriddenTensorInfo :: "slot \<Rightarrow> TensorInfo option"
  m_Connections :: "slot \<Rightarrow> slot list"
  m_EdgeStrategies :: "slot \<Rightarrow> EdgeStrategy list"
  m_TensorInfo :: "slot \<Rightarrow> TensorInfo"
  m_bTensorInfoSet :: "slot \<Rightarrow> bool"
  m_Layers :: "nat list"
  m_LayersInOrder :: bool
  m_InputIds :: "int list"
  m_OutputIds :: "int list"
  m_GraphAllowExpandedDims :: bool
  m_GraphShapeInferenceMethod :: ShapeInferenceMethod

definition Graph_make :: "bool \<Rightarrow> bool \<Rightarrow> Graph" where
  "Graph_make shapeInferenceMethod allowExpandedDims =
     \<lparr>m_LayerOf = Map.empty, m_Connection = Map.empty, m_OverriddenTensorInfo = Map.empty,
      m_Connections = (\<lambda>_. []), m_EdgeStrategies = (\<lambda>_. []), m_TensorInfo = (\<lambda>_. TensorInfo_default),
      m_bTensorInfoSet = (\<lambda>_. False), m_Layers = [], m_LayersInOrder = True,
      m_InputIds = [], m_OutputIds = [], m_GraphAllowExpandedDims = allowExpandedDims,
      m_GraphShapeInferenceMethod = (if shapeInferenceMethod then InferAndValidate else ValidateOnly)\<rparr>"

definition GetLayer :: "Graph \<Rightarrow> nat \<Rightarrow> Layer result" where
  "GetLayer g l = (case m_LayerOf g l of
     None \<Rightarrow> Inl (UndefinedBehaviour ''dangling layer pointer'') | Some layer \<Rightarrow> Inr layer)"

definition layer_type :: "Graph \<Rightarrow> nat \<Rightarrow> LayerType option" where
  "layer_type g l = map_option m_Type (m_LayerOf g l)"

text \<open>\<open>GetInputSlot(index)\<close> and \<open>GetOutputSlot(index)\<close> are \<open>at\<close> of a vector.\<close>

definition GetInputSlot :: "Graph \<Rightarrow> nat \<Rightarrow> nat \<Rightarrow> slot result" where
  "GetInputSlot g l index = bindR (GetLayer g l) (\<lambda>layer.
     bindR (throw_if (index \<ge> m_NumInputSlots layer) (StdOutOfRange ''m_InputSlots.at'')) (\<lambda>_.
     Inr (l, index)))"

definition GetOutputSlot :: "Graph \<Rightarrow> nat \<Rightarrow> nat \<Rightarrow> slot result" where
  "GetOutputSlot g l index = bindR (GetLayer g l) (\<lambda>layer.
     bindR (throw_if (index \<ge> m_NumOutputSlots layer) (StdOutOfRange ''m_OutputSlots.at'')) (\<lambda>_.
     Inr (l, index)))"


subsection \<open>Slots\<close>

text \<open>\<open>InputSlot::SetConnection\<close>.\<close>

definition SetConnection :: "slot \<Rightarrow> slot option \<Rightarrow> Graph \<Rightarrow> Graph result" where
  "SetConnection r source g =
     bindR (throw_if (m_Connection g r \<noteq> None \<and> source \<noteq> None)
       (InvalidArgumentException ''Tried to connect an output slot to an input slot, but the latter already has a connection'')) (\<lambda>_.
     Inr (g\<lparr>m_Connection := (m_Connection g)(r := source)\<rparr>))"

definition SetTensorInfo :: "slot \<Rightarrow> TensorInfo \<Rightarrow> Graph \<Rightarrow> Graph" where
  "SetTensorInfo o' tensorInfo g =
     g\<lparr>m_TensorInfo := (m_TensorInfo g)(o' := tensorInfo),
       m_bTensorInfoSet := (m_bTensorInfoSet g)(o' := True)\<rparr>"

text \<open>\<open>OutputSlot::Connect\<close> returns the index of the new connection.\<close>

definition Connect :: "slot \<Rightarrow> slot \<Rightarrow> Graph \<Rightarrow> (nat \<times> Graph) result" where
  "Connect o' destination g =
     bindR (SetConnection destination (Some o') g) (\<lambda>g.
     Inr (length (m_Connections g o'),
          g\<lparr>m_Connections := (m_Connections g)(o' := m_Connections g o' @ [destination]),
            m_EdgeStrategies := (m_EdgeStrategies g)(o' := m_EdgeStrategies g o' @ [Undefined])\<rparr>))"

text \<open>The index \<open>std::find\<close> gives, the length of the list when the element is missing.\<close>

definition find_index :: "'a \<Rightarrow> 'a list \<Rightarrow> nat" where
  "find_index x xs = length (takeWhile (\<lambda>y. y \<noteq> x) xs)"

text \<open>\<open>OutputSlot::Disconnect\<close>; the reset of the connection to \<open>nullptr\<close> cannot throw.\<close>

definition Disconnect :: "slot \<Rightarrow> slot \<Rightarrow> Graph \<Rightarrow> Graph" where
  "Disconnect o' r g =
     (let g = g\<lparr>m_Connection := (m_Connection g)(r := None)\<rparr>;
          idx = find_index r (m_Connections g o')
      in if idx = length (m_Connections g o') then g
         else g\<lparr>m_Connections := (m_Connections g)(o' := filter (\<lambda>c. c \<noteq> r) (m_Connections g o')),
                m_EdgeStrategies := (m_EdgeStrategies g)(o' :=
                  take idx (m_EdgeStrategies g o') @ drop (Suc idx) (m_EdgeStrategies g o'))\<rparr>)"

lemma find_index_less [simp]: "find_index x xs < length xs \<longleftrightarrow> x \<in> set xs"
  by (induction xs) (auto simp: find_index_def)

lemma find_index_neq [simp]: "find_index x xs = length xs \<longleftrightarrow> x \<notin> set xs"
  by (metis (no_types, lifting) find_index_def find_index_less length_takeWhile_le nat_less_le)

lemma filter_neq_id [simp]: "x \<notin> set xs \<Longrightarrow> filter (\<lambda>y. y \<noteq> x) xs = xs"
  by (induction xs) auto

lemma Disconnect_Connections [simp]:
  "m_Connections (Disconnect o' r g) p =
     (if p = o' then filter (\<lambda>c. c \<noteq> r) (m_Connections g o') else m_Connections g p)"
  by (auto simp: Disconnect_def Let_def)

lemma Disconnect_Connection [simp]:
  "m_Connection (Disconnect o' r g) = (m_Connection g)(r := None)"
  by (simp add: Disconnect_def Let_def)

lemma Disconnect_frame [simp]:
  "m_LayerOf (Disconnect o' r g) = m_LayerOf g" "m_Layers (Disconnect o' r g) = m_Layers g"
  "m_LayersInOrder (Disconnect o' r g) = m_LayersInOrder g"
  "m_InputIds (Disconnect o' r g) = m_InputIds g" "m_OutputIds (Disconnect o' r g) = m_OutputIds g"
  "m_TensorInfo (Disconnect o' r g) = m_TensorInfo g"
  "m_bTensorInfoSet (Disconnect o' r g) = m_bTensorInfoSet g"
  "m_OverriddenTensorInfo (Disconnect o' r g) = m_OverriddenTensorInfo g"
  by (simp_all add: Disconnect_def Let_def)

text \<open>\<open>OutputSlot::DisconnectAll\<close>: every round removes at least the first connection.\<close>

function DisconnectAll :: "slot \<Rightarrow> Graph \<Rightarrow> Graph" where
  "DisconnectAll o' g =
     (case m_Connections g o' of [] \<Rightarrow> g | connection # _ \<Rightarrow> DisconnectAll o' (Disconnect o' connection g))"
  by pat_completeness auto
termination
  by (relation "measure (\<lambda>(o', g). length (m_Connections g o'))")
    (auto simp: less_Suc_eq_le)

declare DisconnectAll.simps [simp del]

text \<open>
  \<open>OutputSlot::MoveAllConnections\<close>. Moving the connections of a slot to itself never ends, so the
  loop is a partial function. A strategy vector shorter than the connections would be read outside.
\<close>

partial_function (option) MoveAllConnections :: "slot \<Rightarrow> slot \<Rightarrow> Graph \<Rightarrow> Graph result option" where
  "MoveAllConnections o' destination g =
     (case m_Connections g o' of
        [] \<Rightarrow> Some (Inr g)
      | connection # _ \<Rightarrow>
          (case m_EdgeStrategies g o' of
             [] \<Rightarrow> Some (Inl (UndefinedBehaviour ''m_EdgeStrategies[0]''))
           | strategy # _ \<Rightarrow>
               if strategy \<noteq> Undefined then
                 Some (Inl (AssertionFailure ''Cannot move connections once memory strategies have be established.''))
               else
                 (case Connect destination connection (Disconnect o' connection g) of
                    Inl e \<Rightarrow> Some (Inl e)
                  | Inr (_, g) \<Rightarrow>
                      MoveAllConnections o' destination
                        (SetTensorInfo destination (m_TensorInfo g o') g))))"


text \<open>\<open>AssertNumberOfInputSlots\<close>.\<close>

definition AssertNumberOfInputSlots :: "Layer \<Rightarrow> unit result" where
  "AssertNumberOfInputSlots layer =
     (if m_Type layer = Convolution2dLayer \<or> m_Type layer = DepthwiseConvolution2dLayer \<or>
         m_Type layer = FullyConnectedLayer
      then throw_if (\<not> (m_NumInputSlots layer = 2 \<or> m_NumInputSlots layer = 3))
             (AssertionFailure ''layer.GetNumInputSlots() == 2 || layer.GetNumInputSlots() == 3'')
      else throw_if (m_NumInputSlots layer \<noteq> 1) (AssertionFailure ''layer.GetNumInputSlots() == 1''))"

definition SetEdgeStrategy :: "slot \<Rightarrow> nat \<Rightarrow> EdgeStrategy \<Rightarrow> Graph \<Rightarrow> Graph" where
  "SetEdgeStrategy o' connectionIndex strategy g =
     g\<lparr>m_EdgeStrategies := (m_EdgeStrategies g)(o' := (m_EdgeStrategies g o')[connectionIndex := strategy])\<rparr>"

text \<open>\<open>InputSlot::Insert\<close>: put the single-output layer \<open>l\<close> before the input slot \<open>r\<close>.\<close>

definition Insert :: "slot \<Rightarrow> nat \<Rightarrow> Graph \<Rightarrow> Graph result" where
  "Insert r l g =
     bindR (GetLayer g l) (\<lambda>layer.
     bindR (throw_if (m_NumOutputSlots layer \<noteq> 1) (AssertionFailure ''layer.GetNumOutputSlots() == 1'')) (\<lambda>_.
     bindR (case m_Connection g r of
              None \<Rightarrow> Inr g
            | Some prevSlot \<Rightarrow>
                let g = Disconnect prevSlot r g in
                bindR (AssertNumberOfInputSlots layer) (\<lambda>_.
                bindR (GetInputSlot g l 0) (\<lambda>input.
                bindR (Connect prevSlot input g) (\<lambda>(idx, g).
                let g = SetEdgeStrategy prevSlot idx Undefined g in
                Inr (SetTensorInfo (l, 0) (m_TensorInfo g prevSlot) g))))) (\<lambda>g.
     bindR (GetOutputSlot g l 0) (\<lambda>output.
     bindR (Connect output r g) (\<lambda>(_, g).
     Inr (SetEdgeStrategy output 0 Undefined g))))))"

definition CalculateIndexOnOwner :: "Graph \<Rightarrow> slot \<Rightarrow> nat result" where
  "CalculateIndexOnOwner g o' =
     bindR (GetLayer g (fst o')) (\<lambda>layer.
     case find (\<lambda>i. m_Connections g (fst o', i) = m_Connections g o') [0..<m_NumOutputSlots layer] of
       None \<Rightarrow> Inl (AssertionFailure ''Did not find slot on owner.'')
     | Some i \<Rightarrow> Inr i)"

text \<open>\<open>OutputSlot::GetConnection(index)\<close>.\<close>

definition GetConnection :: "Graph \<Rightarrow> slot \<Rightarrow> nat \<Rightarrow> slot result" where
  "GetConnection g o' index =
     bindR (throw_if (index \<ge> length (m_Connections g o'))
       (InvalidArgumentException ''GetConnection: Invalid index provided'')) (\<lambda>_.
     Inr (m_Connections g o' ! index))"

definition OverrideTensorInfo :: "slot \<Rightarrow> TensorInfo \<Rightarrow> Graph \<Rightarrow> Graph" where
  "OverrideTensorInfo r tensorInfo g =
     g\<lparr>m_OverriddenTensorInfo := (m_OverriddenTensorInfo g)(r \<mapsto> tensorInfo)\<rparr>"

text \<open>\<open>InputSlot::GetTensorInfo\<close>; without an override a missing connection is a null pointer.\<close>

definition GetInputTensorInfo :: "Graph \<Rightarrow> slot \<Rightarrow> TensorInfo result" where
  "GetInputTensorInfo g r =
     (case m_OverriddenTensorInfo g r of
        Some tensorInfo \<Rightarrow> Inr tensorInfo
      | None \<Rightarrow> (case m_Connection g r of
                   None \<Rightarrow> Inl (UndefinedBehaviour ''GetConnection() is null'')
                 | Some o' \<Rightarrow> Inr (m_TensorInfo g o')))"

subsection \<open>Layers in the graph\<close>

abbreviation GetNumInputs :: "Graph \<Rightarrow> nat" where "GetNumInputs g \<equiv> length (m_InputIds g)"
abbreviation GetNumOutputs :: "Graph \<Rightarrow> nat" where "GetNumOutputs g \<equiv> length (m_OutputIds g)"

definition GetInputLayers :: "Graph \<Rightarrow> nat list" where
  "GetInputLayers g = take (GetNumInputs g) (m_Layers g)"

definition GetOutputLayers :: "Graph \<Rightarrow> nat list" where
  "GetOutputLayers g = drop (length (m_Layers g) - GetNumOutputs g) (m_Layers g)"

definition GetPosInGraph :: "Graph \<Rightarrow> nat \<Rightarrow> nat result" where
  "GetPosInGraph g l =
     bindR (throw_if (l \<notin> set (m_Layers g)) (AssertionFailure ''it != m_PosInGraphMap.end()'')) (\<lambda>_.
     Inr (find_index l (m_Layers g)))"

function ForwardToEndOfInputsAndConstants :: "Graph \<Rightarrow> nat \<Rightarrow> nat" where
  "ForwardToEndOfInputsAndConstants g it =
     (if it < length (m_Layers g) \<and>
         (layer_type g (m_Layers g ! it) = Some InputLayer \<or> layer_type g (m_Layers g ! it) = Some ConstantLayer)
      then ForwardToEndOfInputsAndConstants g (Suc it) else it)"
  by pat_completeness auto
termination by (relation "measure (\<lambda>(g, it). length (m_Layers g) - it)") auto

declare ForwardToEndOfInputsAndConstants.simps [simp del]

fun RewindToBeginOfOutputs :: "Graph \<Rightarrow> nat \<Rightarrow> nat" where
  "RewindToBeginOfOutputs g 0 = 0"
| "RewindToBeginOfOutputs g (Suc it) =
     (if layer_type g (m_Layers g ! it) = Some OutputLayer then RewindToBeginOfOutputs g it else Suc it)"

text \<open>
  Where the constructors of \<open>LayerInGraph\<close> put the layer: inputs and constants after the inputs,
  outputs at the end, other layers before the outputs or near a given position.
\<close>

definition insert_position :: "Graph \<Rightarrow> LayerType \<Rightarrow> nat option \<Rightarrow> nat" where
  "insert_position g t insertBefore =
     (if t = InputLayer \<or> t = ConstantLayer then GetNumInputs g
      else if t = OutputLayer then length (m_Layers g)
      else (case insertBefore of
              None \<Rightarrow> length (m_Layers g) - GetNumOutputs g
            | Some it \<Rightarrow> ForwardToEndOfInputsAndConstants g (RewindToBeginOfOutputs g it)))"

definition insert_at :: "nat \<Rightarrow> 'a \<Rightarrow> 'a list \<Rightarrow> 'a list" where
  "insert_at k x xs = take k xs @ x # drop k xs"

text \<open>
  The construction of a layer at a fresh address \<open>l\<close>. An input or output whose binding identifier is
  taken throws, and the destructor of its base class takes it out of the graph again.
\<close>

definition clear :: "nat \<Rightarrow> (slot \<Rightarrow> 'a) \<Rightarrow> 'a \<Rightarrow> slot \<Rightarrow> 'a" where
  "clear l f v s = (if fst s = l then v else f s)"

definition LayerInGraph :: "nat \<Rightarrow> Layer \<Rightarrow> nat option \<Rightarrow> Graph \<Rightarrow> Graph result" where
  "LayerInGraph l layer insertBefore g =
     (let h = g\<lparr>m_LayerOf := (m_LayerOf g)(l \<mapsto> layer),
               m_Connection := clear l (m_Connection g) None,
               m_OverriddenTensorInfo := clear l (m_OverriddenTensorInfo g) None,
               m_Connections := clear l (m_Connections g) [],
               m_EdgeStrategies := clear l (m_EdgeStrategies g) [],
               m_TensorInfo := clear l (m_TensorInfo g) TensorInfo_default,
               m_bTensorInfoSet := clear l (m_bTensorInfoSet g) False,
               m_Layers := insert_at (insert_position g (m_Type layer) insertBefore) l (m_Layers g)\<rparr>
      in if m_Type layer = InputLayer then
           bindR (throw_if (m_BindingId layer \<in> set (m_InputIds g))
             (InvalidArgumentException ''A layer already exists with the specified id'')) (\<lambda>_.
           Inr (h\<lparr>m_InputIds := m_BindingId layer # m_InputIds g\<rparr>))
         else if m_Type layer = OutputLayer then
           bindR (throw_if (m_BindingId layer \<in> set (m_OutputIds g))
             (InvalidArgumentException ''A layer already exists with the specified id'')) (\<lambda>_.
           Inr (h\<lparr>m_OutputIds := m_BindingId layer # m_OutputIds g\<rparr>))
         else Inr h)"

definition AddLayer :: "nat \<Rightarrow> Layer \<Rightarrow> Graph \<Rightarrow> Graph result" where
  "AddLayer l layer g =
     bindR (LayerInGraph l layer None
       (g\<lparr>m_LayersInOrder := (m_LayersInOrder g \<and> (m_Type layer = InputLayer \<or> m_Type layer = OutputLayer))\<rparr>)) (\<lambda>g.
     Inr (g\<lparr>m_LayerOf := (m_LayerOf g)(l \<mapsto>
       layer\<lparr>m_ShapeInferenceMethod := m_GraphShapeInferenceMethod g,
             m_AllowExpandedDims := m_GraphAllowExpandedDims g\<rparr>)\<rparr>))"

definition InsertNewLayer_before :: "nat \<Rightarrow> Layer \<Rightarrow> slot \<Rightarrow> Graph \<Rightarrow> Graph result" where
  "InsertNewLayer_before l layer insertBefore g =
     bindR (case m_Connection g insertBefore of
              Some parentOut \<Rightarrow> bindR (GetPosInGraph g (fst parentOut)) (\<lambda>pos. Inr (Suc pos))
            | None \<Rightarrow> GetPosInGraph g (fst insertBefore)) (\<lambda>pos.
     bindR (LayerInGraph l layer (Some pos) g) (Insert insertBefore l))"

definition InsertNewLayer_after :: "nat \<Rightarrow> Layer \<Rightarrow> slot \<Rightarrow> Graph \<Rightarrow> Graph result option" where
  "InsertNewLayer_after l layer insertAfter g =
     (case bindR (GetPosInGraph g (fst insertAfter)) (\<lambda>pos.
           bindR (LayerInGraph l layer (Some (Suc pos)) g) (\<lambda>g.
           bindR (throw_if (m_NumInputSlots layer \<noteq> 1) (AssertionFailure ''layer->GetNumInputSlots() == 1'')) (\<lambda>_.
           bindR (GetOutputSlot g l 0) (\<lambda>output. Inr (output, g))))) of
        Inl e \<Rightarrow> Some (Inl e)
      | Inr (output, g) \<Rightarrow>
          (case MoveAllConnections insertAfter output g of
             None \<Rightarrow> None
           | Some (Inl e) \<Rightarrow> Some (Inl e)
           | Some (Inr g) \<Rightarrow>
               Some (bindR (GetInputSlot g l 0) (\<lambda>input.
                     bindR (Connect insertAfter input g) (\<lambda>(_, g). Inr g)))))"

text \<open>
  Deleting a layer runs the destructors of \<open>LayerInGraph\<close>, of its base class and of the slots: the
  binding identifier and the list entry go, then the output slots and the input slots disconnect.
\<close>

definition disconnect_input :: "slot \<Rightarrow> Graph \<Rightarrow> Graph" where
  "disconnect_input r g = (case m_Connection g r of None \<Rightarrow> g | Some o' \<Rightarrow> Disconnect o' r g)"

definition EraseLayer :: "nat \<Rightarrow> Graph \<Rightarrow> Graph result" where
  "EraseLayer l g =
     bindR (GetPosInGraph g l) (\<lambda>_.
     bindR (GetLayer g l) (\<lambda>layer.
     bindR (throw_if (m_Type layer = InputLayer \<and> m_BindingId layer \<notin> set (m_InputIds g))
       (AssertionFailure ''numErased == 1'')) (\<lambda>_.
     bindR (throw_if (m_Type layer = OutputLayer \<and> m_BindingId layer \<notin> set (m_OutputIds g))
       (AssertionFailure ''numErased == 1'')) (\<lambda>_.
     let g = g\<lparr>m_InputIds := (if m_Type layer = InputLayer then remove1 (m_BindingId layer) (m_InputIds g)
                              else m_InputIds g),
               m_OutputIds := (if m_Type layer = OutputLayer then remove1 (m_BindingId layer) (m_OutputIds g)
                               else m_OutputIds g),
               m_Layers := remove1 l (m_Layers g)\<rparr>;
         g = fold (\<lambda>i. DisconnectAll (l, i)) [0..<m_NumOutputSlots layer] g;
         g = fold (\<lambda>i. disconnect_input (l, i)) [0..<m_NumInputSlots layer] g
     in Inr (g\<lparr>m_LayerOf := (m_LayerOf g)(l := None)\<rparr>)))))"

end
