(* ===== verification/GraphLinks.thy ===== *)
theory GraphLinks
  imports GraphModel "HOL-Library.Multiset"
begin

section \<open>The consistency of a graph\<close>

text \<open>
  The invariant of the graph and its preservation by every operation: the two ends of a connection
  know each other, connections lead from existing to existing slots, the list holds the live layers,
  inputs first and outputs last as \<open>GetInputLayers\<close> and \<open>GetOutputLayers\<close> assume, and the binding
  identifiers are those of the inputs and outputs.
\<close>

named_theorems link_intros \<open>preservation of the link invariant\<close>

text \<open>Slots stay pairs: a quantifier over slots is not split into two.\<close>

declare split_paired_All [simp del] split_paired_Ex [simp del]

subsection \<open>Links\<close>

definition valid_in :: "Graph \<Rightarrow> slot \<Rightarrow> bool" where
  "valid_in g r \<longleftrightarrow> (\<exists>L. m_LayerOf g (fst r) = Some L \<and> snd r < m_NumInputSlots L)"

definition valid_out :: "Graph \<Rightarrow> slot \<Rightarrow> bool" where
  "valid_out g p \<longleftrightarrow> (\<exists>L. m_LayerOf g (fst p) = Some L \<and> snd p < m_NumOutputSlots L)"

definition wf_links :: "Graph \<Rightarrow> bool" where
  "wf_links g \<longleftrightarrow>
     (\<forall>p r. r \<in> set (m_Connections g p) \<longleftrightarrow> m_Connection g r = Some p) \<and>
     (\<forall>p. distinct (m_Connections g p)) \<and>
     (\<forall>p. length (m_EdgeStrategies g p) = length (m_Connections g p)) \<and>
     (\<forall>p r. m_Connection g r = Some p \<longrightarrow> valid_in g r \<and> valid_out g p)"

lemma wf_links_mem [simp]: "wf_links g \<Longrightarrow> r \<in> set (m_Connections g p) \<longleftrightarrow> m_Connection g r = Some p"
  unfolding wf_links_def by blast

lemma wf_links_distinct [simp]: "wf_links g \<Longrightarrow> distinct (m_Connections g p)"
  unfolding wf_links_def by blast

lemma wf_links_strategies [simp]:
  "wf_links g \<Longrightarrow> length (m_EdgeStrategies g p) = length (m_Connections g p)"
  unfolding wf_links_def by blast

lemma wf_links_valid:
  "wf_links g \<Longrightarrow> m_Connection g r = Some p \<Longrightarrow> valid_in g r \<and> valid_out g p"
  unfolding wf_links_def by blast

lemma valid_cong:
  assumes "m_LayerOf h = m_LayerOf g"
  shows "valid_in h = valid_in g" "valid_out h = valid_out g"
  by (simp_all add: valid_in_def valid_out_def fun_eq_iff assms)

lemmas valid_frame [simp] =
  valid_cong [of "Disconnect p r g" g for p r g, OF Disconnect_frame(1)]
  valid_cong [of "m_Connection_update f g" g for f g, simplified]
  valid_cong [of "m_Connections_update f g" g for f g, simplified]
  valid_cong [of "m_EdgeStrategies_update f g" g for f g, simplified]
  valid_cong [of "m_TensorInfo_update f g" g for f g, simplified]
  valid_cong [of "m_bTensorInfoSet_update f g" g for f g, simplified]
  valid_cong [of "m_Layers_update f g" g for f g, simplified]
  valid_cong [of "m_InputIds_update f g" g for f g, simplified]
  valid_cong [of "m_OutputIds_update f g" g for f g, simplified]
  valid_cong [of "m_LayersInOrder_update f g" g for f g, simplified]

lemma Connect_simps:
  "Connect p r g = Inr (i, h) \<longleftrightarrow> m_Connection g r = None \<and> i = length (m_Connections g p) \<and>
     h = g\<lparr>m_Connection := (m_Connection g)(r \<mapsto> p),
           m_Connections := (m_Connections g)(p := m_Connections g p @ [r]),
           m_EdgeStrategies := (m_EdgeStrategies g)(p := m_EdgeStrategies g p @ [Undefined])\<rparr>"
  by (auto simp: Connect_def SetConnection_def)

lemma Connect_fails_iff: "is_ok (Connect p r g) \<longleftrightarrow> m_Connection g r = None"
  by (auto simp: Connect_def SetConnection_def is_ok_def throw_if_def)

lemma wf_linksI:
  assumes "\<And>p r. r \<in> set (m_Connections g p) \<longleftrightarrow> m_Connection g r = Some p"
    "\<And>p. distinct (m_Connections g p)"
    "\<And>p. length (m_EdgeStrategies g p) = length (m_Connections g p)"
    "\<And>p r. m_Connection g r = Some p \<Longrightarrow> valid_in g r \<and> valid_out g p"
  shows "wf_links g"
  using assms unfolding wf_links_def by blast

lemma Connect_links [link_intros]:
  assumes "wf_links g" "Connect p r g = Inr (i, h)" "valid_out g p" "valid_in g r"
  shows "wf_links h"
proof (rule wf_linksI)
  have r: "m_Connection g r = None" using assms(2) by (simp add: Connect_simps)
  then have "r \<notin> set (m_Connections g p)" using assms(1) by simp
  then show "distinct (m_Connections h q)" for q using assms(1,2) by (simp add: Connect_simps)
  show "s \<in> set (m_Connections h q) \<longleftrightarrow> m_Connection h s = Some q" for q s
    using assms(1,2) r by (auto simp: Connect_simps)
  show "length (m_EdgeStrategies h q) = length (m_Connections h q)" for q
    using assms(1,2) by (simp add: Connect_simps)
  show "valid_in h s \<and> valid_out h q" if "m_Connection h s = Some q" for q s
    using assms that wf_links_valid [OF assms(1)] by (auto simp: Connect_simps split: if_splits)
qed

lemma length_filter_neq:
  "distinct xs \<Longrightarrow> x \<in> set xs \<Longrightarrow> Suc (length (filter (\<lambda>y. y \<noteq> x) xs)) = length xs"
  by (induction xs) auto

lemma Disconnect_strategies_length:
  assumes "wf_links g"
  shows "length (m_EdgeStrategies (Disconnect p r g) q) = length (m_Connections (Disconnect p r g) q)"
proof (cases "r \<in> set (m_Connections g p)")
  case False
  then show ?thesis using assms by (auto simp: Disconnect_def Let_def)
next
  case True
  have "find_index r (m_Connections g p) < length (m_Connections g p)" using True by simp
  then have "Suc (find_index r (m_Connections g p)) \<le> length (m_EdgeStrategies g p)"
    using assms by (simp add: Suc_le_eq del: find_index_less)
  then show ?thesis
    using assms True length_filter_neq [of "m_Connections g p" r]
    by (auto simp: Disconnect_def Let_def)
qed

lemma Disconnect_links [link_intros]:
  assumes "wf_links g" "m_Connection g r = Some p \<or> m_Connection g r = None"
  shows "wf_links (Disconnect p r g)"
proof -
  have "s \<in> set (m_Connections (Disconnect p r g) q) \<longleftrightarrow> m_Connection (Disconnect p r g) s = Some q" for s q
    using assms by auto
  moreover have "distinct (m_Connections (Disconnect p r g) q)" for q using assms(1) by simp
  moreover have "m_Connection (Disconnect p r g) s = Some q \<longrightarrow>
      valid_in (Disconnect p r g) s \<and> valid_out (Disconnect p r g) q" for s q
    using wf_links_valid [OF assms(1)] by simp
  ultimately show ?thesis
    using Disconnect_strategies_length [OF assms(1)] unfolding wf_links_def by blast
qed

text \<open>
  Disconnecting a slot that hangs on another output slot breaks the graph: the input slot forgets
  the connection, the other output slot keeps it.
\<close>

lemma Disconnect_wrong_slot:
  assumes "wf_links g" "m_Connection g r = Some q" "p \<noteq> q"
  shows "m_Connection (Disconnect p r g) r = None \<and> r \<in> set (m_Connections (Disconnect p r g) q)"
  using assms by simp

lemma DisconnectAll_induct:
  assumes step: "\<And>h c cs. P h \<Longrightarrow> m_Connections h p = c # cs \<Longrightarrow> P (Disconnect p c h)" and "P g"
  shows "P (DisconnectAll p g) \<and> m_Connections (DisconnectAll p g) p = []"
  using assms(2)
proof (induction "length (m_Connections g p)" arbitrary: g rule: less_induct)
  case less
  show ?case
  proof (cases "m_Connections g p")
    case Nil
    then show ?thesis using less.prems by (subst (1 2) DisconnectAll.simps) simp
  next
    case (Cons c cs)
    have "length (m_Connections (Disconnect p c g) p) < length (m_Connections g p)"
      using Cons by (simp add: less_Suc_eq_le)
    then show ?thesis using less.hyps step [OF less.prems Cons] Cons
      by (subst (1 2) DisconnectAll.simps) simp
  qed
qed

lemma DisconnectAll_links [link_intros]:
  assumes "wf_links g"
  shows "wf_links (DisconnectAll p g)"
proof -
  have "wf_links (Disconnect p c h)" if "wf_links h" "m_Connections h p = c # cs" for h c cs
  proof (rule Disconnect_links [OF that(1)])
    have "c \<in> set (m_Connections h p)" using that(2) by simp
    then show "m_Connection h c = Some p \<or> m_Connection h c = None"
      using that(1) by (simp del: wf_links_mem add: wf_links_mem [OF that(1)])
  qed
  then show ?thesis using DisconnectAll_induct [of wf_links p g] assms by blast
qed

lemma DisconnectAll_frame [simp]:
  "m_LayerOf (DisconnectAll p g) = m_LayerOf g" "m_Layers (DisconnectAll p g) = m_Layers g"
  "m_InputIds (DisconnectAll p g) = m_InputIds g" "m_OutputIds (DisconnectAll p g) = m_OutputIds g"
  "m_LayersInOrder (DisconnectAll p g) = m_LayersInOrder g"
proof -
  let ?P = "\<lambda>h. m_LayerOf h = m_LayerOf g \<and> m_Layers h = m_Layers g \<and> m_InputIds h = m_InputIds g \<and>
    m_OutputIds h = m_OutputIds g \<and> m_LayersInOrder h = m_LayersInOrder g"
  have "?P (DisconnectAll p g)" using DisconnectAll_induct [of ?P p g] by simp
  then show "m_LayerOf (DisconnectAll p g) = m_LayerOf g" "m_Layers (DisconnectAll p g) = m_Layers g"
    "m_InputIds (DisconnectAll p g) = m_InputIds g" "m_OutputIds (DisconnectAll p g) = m_OutputIds g"
    "m_LayersInOrder (DisconnectAll p g) = m_LayersInOrder g"
    by simp_all
qed

lemma DisconnectAll_Connections:
  "m_Connections (DisconnectAll p g) q = (if q = p then [] else m_Connections g q)"
  using DisconnectAll_induct [of "\<lambda>h. q \<noteq> p \<longrightarrow> m_Connections h q = m_Connections g q" p g] by simp

lemma DisconnectAll_Connection:
  "m_Connection g r = None \<Longrightarrow> m_Connection (DisconnectAll p g) r = None"
  using DisconnectAll_induct [of "\<lambda>h. m_Connection h r = None" p g] by simp

text \<open>
  Moving the connections of a slot with no edge strategies to another slot ends, empties the one
  and appends to the other.
\<close>

lemma MoveAllConnections_correct:
  assumes "wf_links g" "p \<noteq> d" "valid_out g d" "\<forall>s \<in> set (m_EdgeStrategies g p). s = Undefined"
  shows "\<exists>h. MoveAllConnections p d g = Some (Inr h) \<and> wf_links h \<and>
    m_Connections h = (m_Connections g)(p := [], d := m_Connections g d @ m_Connections g p) \<and>
    m_LayerOf h = m_LayerOf g \<and> m_Layers h = m_Layers g \<and> m_InputIds h = m_InputIds g \<and>
    m_OutputIds h = m_OutputIds g \<and> m_LayersInOrder h = m_LayersInOrder g"
  using assms
proof (induction "length (m_Connections g p)" arbitrary: g rule: less_induct)
  case less
  note wf = less.prems(1)
  show ?case
  proof (cases "m_Connections g p")
    case Nil
    have "(m_Connections g)(p := [], d := m_Connections g d @ m_Connections g p) = m_Connections g"
      using Nil by auto
    then show ?thesis using Nil wf by (subst MoveAllConnections.simps) simp
  next
    case (Cons c cs)
    obtain es where es: "m_EdgeStrategies g p = Undefined # es"
      using Cons less.prems(4) wf_links_strategies [OF wf, of p]
      by (cases "m_EdgeStrategies g p") auto
    have c: "m_Connection g c = Some p"
      using wf_links_mem [OF wf, of c p] Cons by simp
    have c_notin: "c \<notin> set cs" "\<And>y. y \<in> set cs \<Longrightarrow> y \<noteq> c"
      using wf_links_distinct [OF wf, of p] Cons by auto
    define g1 where "g1 = Disconnect p c g"
    have wf1: "wf_links g1" using Disconnect_links [OF wf] c by (simp add: g1_def)
    obtain i g2 where g2: "Connect d c g1 = Inr (i, g2)"
      by (metis Connect_simps Disconnect_Connection fun_upd_same g1_def)
    have "valid_in g1 c" "valid_out g1 d"
      using wf_links_valid [OF wf c] less.prems(3) by (simp_all add: g1_def)
    then have wf2: "wf_links g2" using Connect_links [OF wf1 g2] by simp
    define g3 where "g3 = SetTensorInfo d (m_TensorInfo g2 p) g2"
    have wf3: "wf_links g3" using wf2 unfolding wf_links_def g3_def SetTensorInfo_def by simp
    have cs1: "m_Connections g1 p = cs"
      using Cons c_notin by (simp add: g1_def)
    have conns: "m_Connections g3 = (m_Connections g)(p := cs, d := m_Connections g d @ [c])"
      using g2 cs1 less.prems(2) by (auto simp: g3_def SetTensorInfo_def Connect_simps g1_def)
    have strategies: "m_EdgeStrategies g3 p = es"
      using g2 es Cons less.prems(2)
      by (auto simp: g3_def SetTensorInfo_def Connect_simps g1_def Disconnect_def Let_def find_index_def)
    have frame: "m_LayerOf g3 = m_LayerOf g" "m_Layers g3 = m_Layers g" "m_InputIds g3 = m_InputIds g"
      "m_OutputIds g3 = m_OutputIds g" "m_LayersInOrder g3 = m_LayersInOrder g"
      using g2 by (auto simp: g3_def SetTensorInfo_def Connect_simps g1_def)
    have v3: "valid_out g3 d" using less.prems(3) valid_cong(2) [OF frame(1)] by simp
    obtain h where h: "MoveAllConnections p d g3 = Some (Inr h)" "wf_links h"
      "m_Connections h = (m_Connections g3)(p := [], d := m_Connections g3 d @ m_Connections g3 p)"
      "m_LayerOf h = m_LayerOf g3" "m_Layers h = m_Layers g3" "m_InputIds h = m_InputIds g3"
      "m_OutputIds h = m_OutputIds g3" "m_LayersInOrder h = m_LayersInOrder g3"
      using less.hyps [of g3] wf3 less.prems(2,4) v3 strategies es conns Cons by auto
    have "MoveAllConnections p d g = Some (Inr h)"
      using Cons es g2 h(1) by (subst MoveAllConnections.simps) (simp add: g1_def g3_def)
    moreover have "m_Connections h = (m_Connections g)(p := [], d := m_Connections g d @ m_Connections g p)"
      using h(3) conns Cons less.prems(2) by (auto simp: fun_upd_twist)
    ultimately show ?thesis using h frame by auto
  qed
qed


lemma wf_links_same:
  assumes "wf_links g" "m_LayerOf h = m_LayerOf g" "m_Connection h = m_Connection g"
    "m_Connections h = m_Connections g"
    "\<And>p. length (m_EdgeStrategies h p) = length (m_EdgeStrategies g p)"
  shows "wf_links h"
  using assms valid_cong [OF assms(2)] unfolding wf_links_def by simp

lemma SetTensorInfo_links [link_intros]: "wf_links g \<Longrightarrow> wf_links (SetTensorInfo p t g)"
  by (rule wf_links_same [of g]) (simp_all add: SetTensorInfo_def)

lemma SetEdgeStrategy_links [link_intros]: "wf_links g \<Longrightarrow> wf_links (SetEdgeStrategy p i s g)"
  by (rule wf_links_same [of g]) (simp_all add: SetEdgeStrategy_def)

text \<open>What an operation that only rewires slots leaves alone.\<close>

definition same_layers :: "Graph \<Rightarrow> Graph \<Rightarrow> bool" where
  "same_layers g h \<longleftrightarrow> m_LayerOf h = m_LayerOf g \<and> m_Layers h = m_Layers g \<and>
     m_InputIds h = m_InputIds g \<and> m_OutputIds h = m_OutputIds g \<and> m_LayersInOrder h = m_LayersInOrder g"

lemma same_layers_refl [simp]: "same_layers g g"
  by (simp add: same_layers_def)

lemma same_layers_trans [trans]: "same_layers g h \<Longrightarrow> same_layers h k \<Longrightarrow> same_layers g k"
  by (simp add: same_layers_def)

lemma same_layers_ops [simp]:
  "same_layers g (Disconnect p r g)" "same_layers g (DisconnectAll p g)"
  "same_layers g (SetTensorInfo p t g)" "same_layers g (SetEdgeStrategy p i s g)"
  "Connect p r g = Inr (j, h) \<Longrightarrow> same_layers g h"
  by (auto simp: same_layers_def SetTensorInfo_def SetEdgeStrategy_def Connect_simps)

lemma same_layers_valid:
  "same_layers g h \<Longrightarrow> valid_in h = valid_in g \<and> valid_out h = valid_out g"
  using valid_cong [of h g] by (simp add: same_layers_def)

lemma GetLayer_Inr [simp]: "GetLayer g l = Inr L \<longleftrightarrow> m_LayerOf g l = Some L"
  by (simp add: GetLayer_def split: option.splits)

lemma GetInputSlot_Inr [simp]: "GetInputSlot g l i = Inr r \<longleftrightarrow> r = (l, i) \<and> valid_in g r"
  by (auto simp: GetInputSlot_def valid_in_def)

lemma GetOutputSlot_Inr [simp]: "GetOutputSlot g l i = Inr p \<longleftrightarrow> p = (l, i) \<and> valid_out g p"
  by (auto simp: GetOutputSlot_def valid_out_def)

text \<open>
  \<open>InputSlot::Insert\<close> leaves a consistent graph; the new layer then feeds the slot and takes over
  its old source.
\<close>

lemma Insert_links:
  assumes "wf_links g" "valid_in g r" "r \<noteq> (l, 0)" "Insert r l g = Inr h"
  shows "wf_links h \<and> same_layers g h \<and> m_Connection h =
    (if m_Connection g r = None then (m_Connection g)(r \<mapsto> (l, 0))
     else (m_Connection g)((l, 0) := m_Connection g r, r \<mapsto> (l, 0)))"
proof -
  let ?before = "case m_Connection g r of None \<Rightarrow> Inr g
    | Some prevSlot \<Rightarrow> let g = Disconnect prevSlot r g in
        bindR (AssertNumberOfInputSlots (the (m_LayerOf g l))) (\<lambda>_.
        bindR (GetInputSlot g l 0) (\<lambda>input.
        bindR (Connect prevSlot input g) (\<lambda>(idx, g).
        let g = SetEdgeStrategy prevSlot idx Undefined g in
        Inr (SetTensorInfo (l, 0) (m_TensorInfo g prevSlot) g))))"
  obtain L where L: "m_LayerOf g l = Some L"
    using assms(4) by (auto simp: Insert_def)
  have "bindR ?before (\<lambda>g. bindR (GetOutputSlot g l 0) (\<lambda>output. bindR (Connect output r g) (\<lambda>(_, g).
      Inr (SetEdgeStrategy output 0 Undefined g)))) = Inr h"
    using assms(4) L unfolding Insert_def bindR_eq_Inr GetLayer_Inr
    by (auto simp: Let_def split: option.splits)
  then obtain g2 where g2: "?before = Inr g2" and out: "valid_out g2 (l, 0)"
    and h: "\<exists>j g3. Connect (l, 0) r g2 = Inr (j, g3) \<and> h = SetEdgeStrategy (l, 0) 0 Undefined g3"
    unfolding bindR_eq_Inr by auto
  have step: "wf_links g2 \<and> same_layers g g2 \<and>
      m_Connection g2 = (case m_Connection g r of None \<Rightarrow> m_Connection g
        | Some prev \<Rightarrow> (m_Connection g)(r := None, (l, 0) \<mapsto> prev))"
  proof (cases "m_Connection g r")
    case None
    then show ?thesis using g2 assms(1) by simp
  next
    case (Some prev)
    then obtain i g1 where c: "Connect prev (l, 0) (Disconnect prev r g) = Inr (i, g1)" "valid_in g (l, 0)"
      and eq: "g2 = SetTensorInfo (l, 0) (m_TensorInfo g1 prev) (SetEdgeStrategy prev i Undefined g1)"
      using g2 by (auto simp: Let_def SetEdgeStrategy_def)
    have "wf_links (Disconnect prev r g)" using Disconnect_links [OF assms(1)] Some by simp
    then have "wf_links g1"
      using Connect_links [OF _ c(1)] wf_links_valid [OF assms(1) Some] c(2) by simp
    then have "wf_links g2" unfolding eq by (intro SetTensorInfo_links SetEdgeStrategy_links)
    moreover have "same_layers g g1"
      using same_layers_trans [OF same_layers_ops(1) same_layers_ops(5) [OF c(1)]] .
    ultimately show ?thesis
      using c(1) Some unfolding eq
      by (auto simp: same_layers_def SetTensorInfo_def SetEdgeStrategy_def Connect_simps)
  qed
  obtain j g3 where g3: "Connect (l, 0) r g2 = Inr (j, g3)" "h = SetEdgeStrategy (l, 0) 0 Undefined g3"
    using h by blast
  have "wf_links g3"
    using Connect_links [OF _ g3(1) out] step assms(2) same_layers_valid by metis
  then have "wf_links h" unfolding g3(2) by (rule SetEdgeStrategy_links)
  moreover have "same_layers g g3" using step same_layers_ops(5) [OF g3(1)] same_layers_trans by blast
  ultimately show ?thesis
    using step g3 assms(3)
    by (auto simp: same_layers_def SetEdgeStrategy_def Connect_simps split: option.splits)
qed


subsection \<open>New and deleted layers\<close>

lemma wf_links_dead:
  assumes "wf_links g" "m_LayerOf g l = None"
  shows "m_Connection g (l, i) = None" "m_Connections g (l, i) = []" "m_Connection g r \<noteq> Some (l, i)"
proof -
  show c: "m_Connection g r \<noteq> Some (l, i)" for r
    using wf_links_valid [OF assms(1), of r "(l, i)"] assms(2) by (auto simp: valid_out_def)
  show "m_Connection g (l, i) = None"
    using wf_links_valid [OF assms(1), of "(l, i)"] assms(2)
    by (cases "m_Connection g (l, i)") (auto simp: valid_in_def)
  have "r \<notin> set (m_Connections g (l, i))" for r using wf_links_mem [OF assms(1)] c by simp
  then show "m_Connections g (l, i) = []" by (cases "m_Connections g (l, i)") auto
qed

text \<open>What \<open>LayerInGraph\<close> returns.\<close>

lemma LayerInGraph_Inr:
  assumes "LayerInGraph l L k g = Inr h"
  shows "m_LayerOf h = (m_LayerOf g)(l \<mapsto> L)" "m_Connection h = clear l (m_Connection g) None"
    "m_Connections h = clear l (m_Connections g) []" "m_EdgeStrategies h = clear l (m_EdgeStrategies g) []"
    "m_Layers h = insert_at (insert_position g (m_Type L) k) l (m_Layers g)"
    "m_LayersInOrder h = m_LayersInOrder g"
    "m_InputIds h = (if m_Type L = InputLayer then m_BindingId L # m_InputIds g else m_InputIds g)"
    "m_OutputIds h = (if m_Type L = OutputLayer then m_BindingId L # m_OutputIds g else m_OutputIds g)"
    "m_Type L = InputLayer \<longrightarrow> m_BindingId L \<notin> set (m_InputIds g)"
    "m_Type L = OutputLayer \<longrightarrow> m_BindingId L \<notin> set (m_OutputIds g)"
  using assms by (auto simp: LayerInGraph_def Let_def split: if_splits)

lemma LayerInGraph_links [link_intros]:
  assumes "wf_links g" "m_LayerOf g l = None" "LayerInGraph l L k g = Inr h"
  shows "wf_links h"
proof (rule wf_linksI)
  note h = LayerInGraph_Inr [OF assms(3)] and dead = wf_links_dead [OF assms(1,2)]
  show "r \<in> set (m_Connections h p) \<longleftrightarrow> m_Connection h r = Some p" for p r
    using dead(1) [of "snd r"] dead(3) [of r "snd p"] assms(1)
    by (cases p; cases r) (auto simp: h clear_def)
  show "distinct (m_Connections h p)" "length (m_EdgeStrategies h p) = length (m_Connections h p)" for p
    using assms(1) by (simp_all add: h clear_def)
  show "valid_in h r \<and> valid_out h p" if "m_Connection h r = Some p" for p r
  proof -
    have "m_Connection g r = Some p" "fst r \<noteq> l" using that by (auto simp: h clear_def split: if_splits)
    moreover from this have "fst p \<noteq> l" using dead(3) [of r "snd p"] by auto
    ultimately show ?thesis
      using wf_links_valid [OF assms(1)] by (auto simp: valid_in_def valid_out_def h)
  qed
qed

lemma disconnect_input_links [link_intros]: "wf_links g \<Longrightarrow> wf_links (disconnect_input r g)"
  by (auto simp: disconnect_input_def intro: Disconnect_links split: option.splits)

lemma disconnect_input_simps [simp]:
  "same_layers g (disconnect_input r g)"
  "m_Connection (disconnect_input r g) = (m_Connection g)(r := None)"
  by (auto simp: disconnect_input_def fun_upd_idem split: option.splits)

lemma disconnect_input_Connections:
  "m_Connections g p = [] \<Longrightarrow> m_Connections (disconnect_input r g) p = []"
  by (auto simp: disconnect_input_def split: option.splits)

text \<open>The destructors of the slots cut every link of the layer.\<close>

lemma fold_DisconnectAll:
  "wf_links g \<Longrightarrow> wf_links (fold (\<lambda>i. DisconnectAll (l, i)) is g) \<and>
    same_layers g (fold (\<lambda>i. DisconnectAll (l, i)) is g) \<and>
    (\<forall>i \<in> set is. m_Connections (fold (\<lambda>i. DisconnectAll (l, i)) is g) (l, i) = []) \<and>
    (\<forall>p. m_Connections g p = [] \<longrightarrow> m_Connections (fold (\<lambda>i. DisconnectAll (l, i)) is g) p = [])"
proof (induction "is" arbitrary: g)
  case Nil
  then show ?case by simp
next
  case (Cons i "is")
  have "wf_links (DisconnectAll (l, i) g)" using Cons.prems by (rule DisconnectAll_links)
  from Cons.IH [OF this] show ?case
    using same_layers_trans [OF same_layers_ops(2) [of g "(l, i)"]]
    by (auto simp: DisconnectAll_Connections)
qed

lemma fold_disconnect_input:
  "wf_links g \<Longrightarrow> wf_links (fold (\<lambda>i. disconnect_input (l, i)) is g) \<and>
    same_layers g (fold (\<lambda>i. disconnect_input (l, i)) is g) \<and>
    (\<forall>i \<in> set is. m_Connection (fold (\<lambda>i. disconnect_input (l, i)) is g) (l, i) = None) \<and>
    (\<forall>r. m_Connection g r = None \<longrightarrow> m_Connection (fold (\<lambda>i. disconnect_input (l, i)) is g) r = None) \<and>
    (\<forall>p. m_Connections g p = [] \<longrightarrow> m_Connections (fold (\<lambda>i. disconnect_input (l, i)) is g) p = [])"
proof (induction "is" arbitrary: g)
  case Nil
  then show ?case by simp
next
  case (Cons i "is")
  have "wf_links (disconnect_input (l, i) g)" using Cons.prems by (rule disconnect_input_links)
  from Cons.IH [OF this] show ?case
    using same_layers_trans [OF disconnect_input_simps(1) [of g "(l, i)"]] disconnect_input_Connections
    by (auto simp: disconnect_input_simps)
qed

lemma EraseLayer_links:
  assumes "wf_links g" "EraseLayer l g = Inr h"
  shows "wf_links h \<and> m_LayerOf h = (m_LayerOf g)(l := None) \<and> m_Layers h = remove1 l (m_Layers g) \<and>
    m_LayersInOrder h = m_LayersInOrder g \<and> l \<in> set (m_Layers g) \<and>
    (\<exists>L. m_LayerOf g l = Some L \<and>
      m_InputIds h = (if m_Type L = InputLayer then remove1 (m_BindingId L) (m_InputIds g) else m_InputIds g) \<and>
      m_OutputIds h = (if m_Type L = OutputLayer then remove1 (m_BindingId L) (m_OutputIds g) else m_OutputIds g))"
proof -
  obtain L where L: "m_LayerOf g l = Some L" "l \<in> set (m_Layers g)"
    using assms(2) by (auto simp: EraseLayer_def GetPosInGraph_def)
  define g0 where "g0 = g\<lparr>m_InputIds := (if m_Type L = InputLayer then remove1 (m_BindingId L) (m_InputIds g)
        else m_InputIds g),
      m_OutputIds := (if m_Type L = OutputLayer then remove1 (m_BindingId L) (m_OutputIds g) else m_OutputIds g),
      m_Layers := remove1 l (m_Layers g)\<rparr>"
  define g1 where "g1 = fold (\<lambda>i. DisconnectAll (l, i)) [0..<m_NumOutputSlots L] g0"
  define g2 where "g2 = fold (\<lambda>i. disconnect_input (l, i)) [0..<m_NumInputSlots L] g1"
  have h: "h = g2\<lparr>m_LayerOf := (m_LayerOf g2)(l := None)\<rparr>"
    using assms(2) L by (auto simp: EraseLayer_def GetPosInGraph_def g0_def g1_def g2_def Let_def)
  have "wf_links g0" using wf_links_same [OF assms(1), of g0] by (simp add: g0_def)
  note g1 = fold_DisconnectAll [OF this, of l "[0..<m_NumOutputSlots L]", folded g1_def]
  note g2 = fold_disconnect_input [of g1 l "[0..<m_NumInputSlots L]", folded g2_def]
  have wf2: "wf_links g2" and same: "same_layers g0 g2" using g1 g2 same_layers_trans by blast+
  have LayerOf: "m_LayerOf g2 = m_LayerOf g" using same by (simp add: same_layers_def g0_def)
  have cut: "m_Connection g2 (l, i) = None" "m_Connection g2 r \<noteq> Some (l, i)" for i r
  proof -
    show "m_Connection g2 (l, i) = None"
      using g1 g2 L wf_links_valid [OF wf2, of "(l, i)"] LayerOf
      by (cases "m_Connection g2 (l, i)") (auto simp: valid_in_def)
    have "m_Connections g2 (l, i) = []" if "i < m_NumOutputSlots L" for i
      using g1 g2 that by simp
    then show "m_Connection g2 r \<noteq> Some (l, i)"
      using wf_links_valid [OF wf2, of r "(l, i)"] LayerOf L wf_links_mem [OF wf2, of r "(l, i)"]
      by (auto simp: valid_out_def)
  qed
  have "wf_links h"
  proof (rule wf_linksI)
    show "r \<in> set (m_Connections h p) \<longleftrightarrow> m_Connection h r = Some p" for p r using wf2 by (simp add: h)
    show "distinct (m_Connections h p)" "length (m_EdgeStrategies h p) = length (m_Connections h p)" for p
      using wf2 by (simp_all add: h)
    show "valid_in h r \<and> valid_out h p" if "m_Connection h r = Some p" for p r
      using that cut(1) [of "snd r"] cut(2) [of r "snd p"] wf_links_valid [OF wf2, of r p]
      by (cases p; cases r) (auto simp: h valid_in_def valid_out_def)
  qed
  then show ?thesis using same L by (auto simp: h LayerOf same_layers_def g0_def)
qed


subsection \<open>The list of layers\<close>

text \<open>The slots that the classes of inputs, outputs and constants have.\<close>

definition slots_of_type :: "Layer \<Rightarrow> bool" where
  "slots_of_type L \<longleftrightarrow>
     (m_Type L = InputLayer \<longrightarrow> m_NumInputSlots L = 0 \<and> m_NumOutputSlots L = 1) \<and>
     (m_Type L = OutputLayer \<longrightarrow> m_NumInputSlots L = 1 \<and> m_NumOutputSlots L = 0) \<and>
     (m_Type L = ConstantLayer \<longrightarrow> m_NumInputSlots L = 0 \<and> m_NumOutputSlots L = 1)"

definition is_type :: "Graph \<Rightarrow> LayerType \<Rightarrow> nat \<Rightarrow> bool" where
  "is_type g t l \<longleftrightarrow> layer_type g l = Some t"

definition binding :: "Graph \<Rightarrow> nat \<Rightarrow> int" where
  "binding g l = m_BindingId (the (m_LayerOf g l))"

definition wf_list :: "Graph \<Rightarrow> nat list \<Rightarrow> nat list \<Rightarrow> nat list \<Rightarrow> bool" where
  "wf_list g ins mids outs \<longleftrightarrow>
     m_Layers g = ins @ mids @ outs \<and> distinct (m_Layers g) \<and> set (m_Layers g) = dom (m_LayerOf g) \<and>
     list_all (is_type g InputLayer) ins \<and> list_all (is_type g OutputLayer) outs \<and>
     list_all (\<lambda>l. \<not> is_type g InputLayer l \<and> \<not> is_type g OutputLayer l) mids \<and>
     mset (m_InputIds g) = mset (map (binding g) ins) \<and> mset (m_OutputIds g) = mset (map (binding g) outs)"

definition wf_graph :: "Graph \<Rightarrow> bool" where
  "wf_graph g \<longleftrightarrow> wf_links g \<and> (\<forall>l L. m_LayerOf g l = Some L \<longrightarrow> slots_of_type L) \<and>
     (\<exists>ins mids outs. wf_list g ins mids outs)"

lemma wf_list_lengths:
  assumes "wf_list g ins mids outs"
  shows "GetNumInputs g = length ins" "GetNumOutputs g = length outs"
    "length (m_Layers g) = length ins + length mids + length outs"
  using assms unfolding wf_list_def by (metis length_map size_mset, metis length_map size_mset, simp)

lemma wf_list_cong:
  assumes "layer_type h = layer_type g" "binding h = binding g" "dom (m_LayerOf h) = dom (m_LayerOf g)"
    "m_Layers h = m_Layers g" "m_InputIds h = m_InputIds g" "m_OutputIds h = m_OutputIds g"
  shows "wf_list h = wf_list g"
  by (simp add: fun_eq_iff wf_list_def is_type_def [abs_def] assms)

lemma same_layers_list:
  assumes "same_layers g h"
  shows "wf_list h = wf_list g" "m_LayerOf h = m_LayerOf g"
  using assms
  by (auto simp: fun_eq_iff same_layers_def wf_list_def is_type_def [abs_def] binding_def [abs_def] layer_type_def)

lemma same_layers_graph:
  "wf_graph g \<Longrightarrow> same_layers g h \<Longrightarrow> wf_links h \<Longrightarrow> wf_graph h"
  by (simp add: wf_graph_def same_layers_list)

lemma wf_graph_dom: "wf_graph g \<Longrightarrow> l \<in> set (m_Layers g) \<longleftrightarrow> (\<exists>L. m_LayerOf g l = Some L)"
  by (auto simp: wf_graph_def wf_list_def)

text \<open>Where the positions of the constructors lead.\<close>

lemma Forward_bounds:
  "k \<le> length (m_Layers g) \<Longrightarrow> k \<le> ForwardToEndOfInputsAndConstants g k \<and>
     ForwardToEndOfInputsAndConstants g k \<le> length (m_Layers g) \<and>
     (\<forall>i. k \<le> i \<and> i < ForwardToEndOfInputsAndConstants g k \<longrightarrow>
        is_type g InputLayer (m_Layers g ! i) \<or> is_type g ConstantLayer (m_Layers g ! i)) \<and>
     (ForwardToEndOfInputsAndConstants g k < length (m_Layers g) \<longrightarrow>
        \<not> is_type g InputLayer (m_Layers g ! ForwardToEndOfInputsAndConstants g k))"
proof (induction g k rule: ForwardToEndOfInputsAndConstants.induct)
  case (1 g k)
  show ?case
  proof (cases "k < length (m_Layers g) \<and>
      (layer_type g (m_Layers g ! k) = Some InputLayer \<or> layer_type g (m_Layers g ! k) = Some ConstantLayer)")
    case True
    then have eq: "ForwardToEndOfInputsAndConstants g k = ForwardToEndOfInputsAndConstants g (Suc k)"
      by (subst ForwardToEndOfInputsAndConstants.simps) simp
    have "is_type g InputLayer (m_Layers g ! i) \<or> is_type g ConstantLayer (m_Layers g ! i)"
      if "k \<le> i" "i < ForwardToEndOfInputsAndConstants g (Suc k)" for i
      using 1(1) [OF True] True that by (cases "i = k") (auto simp: is_type_def)
    then show ?thesis using 1(1) [OF True] True by (simp add: eq)
  next
    case False
    then have "ForwardToEndOfInputsAndConstants g k = k"
      by (subst ForwardToEndOfInputsAndConstants.simps) (simp only: False if_False)
    then show ?thesis using False 1(2) by (auto simp: is_type_def)
  qed
qed

lemma Rewind_bounds:
  "RewindToBeginOfOutputs g k \<le> k \<and>
   (\<forall>i. RewindToBeginOfOutputs g k \<le> i \<and> i < k \<longrightarrow> is_type g OutputLayer (m_Layers g ! i)) \<and>
   (RewindToBeginOfOutputs g k > 0 \<longrightarrow> \<not> is_type g OutputLayer (m_Layers g ! (RewindToBeginOfOutputs g k - 1)))"
proof (induction k)
  case 0
  then show ?case by simp
next
  case (Suc k)
  then show ?case by (auto simp: is_type_def less_Suc_eq)
qed


lemma middle_position:
  assumes "wf_list g ins mids outs" "k \<le> length (m_Layers g)"
  defines "f \<equiv> ForwardToEndOfInputsAndConstants g (RewindToBeginOfOutputs g k)"
  shows "length ins \<le> f \<and> f \<le> length ins + length mids"
proof -
  let ?r = "RewindToBeginOfOutputs g k"
  have layers: "m_Layers g = ins @ mids @ outs" using assms(1) by (simp add: wf_list_def)
  have ins_type: "is_type g InputLayer (m_Layers g ! i)" if "i < length ins" for i
    using assms(1) that by (simp add: wf_list_def nth_append list_all_length)
  have outs_type: "is_type g OutputLayer (m_Layers g ! i)"
    if "length ins + length mids \<le> i" "i < length (m_Layers g)" for i
    using assms(1) that by (simp add: wf_list_def nth_append list_all_length)
  have r: "?r \<le> k" "?r > 0 \<Longrightarrow> \<not> is_type g OutputLayer (m_Layers g ! (?r - 1))"
    using Rewind_bounds [of g k] by auto
  have r_le: "?r \<le> length ins + length mids"
  proof (rule ccontr)
    assume "\<not> ?r \<le> length ins + length mids"
    then have "length ins + length mids \<le> ?r - 1" "?r - 1 < length (m_Layers g)" "?r > 0"
      using r(1) assms(2) by linarith+
    then show False using r(2) outs_type [of "?r - 1"] by blast
  qed
  have fr: "?r \<le> f" "f \<le> length (m_Layers g)"
    "\<And>i. ?r \<le> i \<Longrightarrow> i < f \<Longrightarrow> is_type g InputLayer (m_Layers g ! i) \<or> is_type g ConstantLayer (m_Layers g ! i)"
    "f < length (m_Layers g) \<Longrightarrow> \<not> is_type g InputLayer (m_Layers g ! f)"
    using Forward_bounds [of ?r g] r(1) assms(2) unfolding f_def by auto
  have "f \<le> length ins + length mids"
  proof (rule ccontr)
    assume "\<not> f \<le> length ins + length mids"
    then have "length ins + length mids \<le> f - 1" "f - 1 < length (m_Layers g)" "?r \<le> f - 1" "f - 1 < f"
      using r_le fr(2) by linarith+
    then show False using fr(3) [of "f - 1"] outs_type [of "f - 1"] by (auto simp: is_type_def)
  qed
  moreover have "length ins \<le> f" using fr(4) ins_type [of f] layers by (cases "f < length ins") auto
  ultimately show ?thesis by simp
qed

lemma is_type_insert:
  assumes "m_LayerOf h = (m_LayerOf g)(l \<mapsto> L)" "m \<noteq> l"
  shows "is_type h t m = is_type g t m" "binding h m = binding g m"
  using assms by (simp_all add: is_type_def layer_type_def binding_def)

lemma wf_list_insert:
  assumes "wf_list g ins mids outs" "m_LayerOf g l = None"
    "m_LayerOf h = (m_LayerOf g)(l \<mapsto> L)" "mset (m_Layers h) = add_mset l (mset (m_Layers g))"
    "m_Layers h = ins' @ mids' @ outs'" "set ins' \<subseteq> insert l (set ins)" "set mids' \<subseteq> insert l (set mids)"
    "set outs' \<subseteq> insert l (set outs)"
    "l \<in> set ins' \<longrightarrow> m_Type L = InputLayer" "l \<in> set outs' \<longrightarrow> m_Type L = OutputLayer"
    "l \<in> set mids' \<longrightarrow> m_Type L \<noteq> InputLayer \<and> m_Type L \<noteq> OutputLayer"
    "mset (m_InputIds h) = mset (map (binding h) ins')" "mset (m_OutputIds h) = mset (map (binding h) outs')"
  shows "wf_list h ins' mids' outs'"
proof -
  have fresh: "l \<notin> set (m_Layers g)" using assms(1,2) unfolding wf_list_def by (metis domIff)
  have "distinct (m_Layers h)"
    using assms(1,4) fresh by (metis distinct.simps(2) mset.simps(2) mset_eq_imp_distinct_iff wf_list_def)
  moreover have "set (m_Layers h) = insert l (set (m_Layers g))"
    using assms(4) by (metis set_mset_add_mset_insert set_mset_mset)
  moreover have old: "list_all (is_type g InputLayer) ins" "list_all (is_type g OutputLayer) outs"
    "list_all (\<lambda>l. \<not> is_type g InputLayer l \<and> \<not> is_type g OutputLayer l) mids"
    "set (m_Layers g) = dom (m_LayerOf g)"
    using assms(1) unfolding wf_list_def by blast+
  have new: "is_type h t l \<longleftrightarrow> m_Type L = t" for t by (simp add: is_type_def layer_type_def assms(3))
  note other = is_type_insert(1) [OF assms(3)]
  have "list_all (is_type h InputLayer) ins'"
    using assms(6,9) old(1) new other unfolding list_all_iff by (metis insert_iff subsetD)
  moreover have "list_all (is_type h OutputLayer) outs'"
    using assms(8,10) old(2) new other unfolding list_all_iff by (metis insert_iff subsetD)
  moreover have "list_all (\<lambda>l. \<not> is_type h InputLayer l \<and> \<not> is_type h OutputLayer l) mids'"
    using assms(7,11) old(3) new other unfolding list_all_iff by (metis insert_iff subsetD)
  ultimately show ?thesis using assms(3,5,12,13) old(4) unfolding wf_list_def by auto
qed


lemma LayerInGraph_list:
  assumes "wf_list g ins mids outs" "m_LayerOf g l = None" "LayerInGraph l L k g = Inr h"
    "case k of None \<Rightarrow> True | Some it \<Rightarrow> it \<le> length (m_Layers g)"
  shows "\<exists>ins' mids' outs'. wf_list h ins' mids' outs'"
proof -
  note h = LayerInGraph_Inr [OF assms(3)] and len = wf_list_lengths [OF assms(1)]
  have layers: "m_Layers g = ins @ mids @ outs" and ids:
    "mset (m_InputIds g) = mset (map (binding g) ins)" "mset (m_OutputIds g) = mset (map (binding g) outs)"
    using assms(1) unfolding wf_list_def by blast+
  have mset_h: "mset (m_Layers h) = add_mset l (mset (m_Layers g))"
  proof -
    have "mset (insert_at n l xs) = add_mset l (mset xs)" for n and xs :: "nat list"
      by (simp add: insert_at_def) (metis append_take_drop_id mset_append)
    then show ?thesis by (simp add: h(5))
  qed
  have fresh: "l \<notin> set ins" "l \<notin> set outs" "l \<notin> set mids"
    using assms(1,2) unfolding wf_list_def by (metis Un_iff domIff set_append)+
  have binding: "binding h m = binding g m" if "m \<noteq> l" for m
    using is_type_insert(2) [OF h(1) that] .
  have same_ids: "map (binding h) ins = map (binding g) ins" "map (binding h) outs = map (binding g) outs"
    using fresh binding by (metis map_cong)+
  have ids': "mset (m_InputIds g) = image_mset (binding h) (mset ins)"
    "mset (m_OutputIds g) = image_mset (binding h) (mset outs)"
    using ids same_ids by (metis mset_map)+
  have bl: "binding h l = m_BindingId L" by (simp add: binding_def h(1))
  note insert = wf_list_insert [OF assms(1,2) h(1) mset_h]
  consider (inp) "m_Type L = InputLayer" | (outp) "m_Type L = OutputLayer"
    | (mid) "m_Type L \<noteq> InputLayer" "m_Type L \<noteq> OutputLayer" by blast
  then show ?thesis
  proof cases
    case inp
    have "m_Layers h = (ins @ [l]) @ mids @ outs"
      using inp layers len by (simp add: h(5) insert_at_def insert_position_def)
    then have "wf_list h (ins @ [l]) mids outs"
      using inp fresh ids' bl by (intro insert) (auto simp: h(7,8))
    then show ?thesis by blast
  next
    case outp
    have "m_Layers h = ins @ mids @ outs @ [l]"
      using outp layers by (simp add: h(5) insert_at_def insert_position_def)
    then have "wf_list h ins mids (outs @ [l])"
      using outp fresh ids' bl by (intro insert) (auto simp: h(7,8))
    then show ?thesis by blast
  next
    case mid
    obtain j where j: "insert_position g (m_Type L) k = length ins + j" "j \<le> length mids"
    proof -
      have "length ins \<le> insert_position g (m_Type L) k \<and>
          insert_position g (m_Type L) k \<le> length ins + length mids"
        using mid middle_position [OF assms(1)] assms(4) len
        by (auto simp: insert_position_def split: option.splits)
      then show ?thesis using that [of "insert_position g (m_Type L) k - length ins"] by auto
    qed
    have "m_Layers h = ins @ insert_at j l mids @ outs"
      using j layers by (simp add: h(5) insert_at_def)
    moreover have "set (insert_at j l mids) \<subseteq> insert l (set mids)"
      by (auto simp: insert_at_def dest: in_set_takeD in_set_dropD)
    ultimately have "wf_list h ins (insert_at j l mids) outs"
      using mid fresh ids' by (intro insert) (auto simp: h(7,8))
    then show ?thesis by blast
  qed
qed

lemma LayerInGraph_graph:
  assumes "wf_graph g" "m_LayerOf g l = None" "slots_of_type L" "LayerInGraph l L k g = Inr h"
    "case k of None \<Rightarrow> True | Some it \<Rightarrow> it \<le> length (m_Layers g)"
  shows "wf_graph h"
  using assms LayerInGraph_links [OF _ assms(2,4)] LayerInGraph_list [OF _ assms(2,4,5)]
    LayerInGraph_Inr(1) [OF assms(4)]
  by (auto simp: wf_graph_def)

lemma GetPosInGraph_Inr:
  "GetPosInGraph g l = Inr k \<longleftrightarrow> l \<in> set (m_Layers g) \<and> k = find_index l (m_Layers g)"
  by (auto simp: GetPosInGraph_def)

lemma GetPosInGraph_less: "GetPosInGraph g l = Inr k \<Longrightarrow> k < length (m_Layers g)"
  by (simp add: GetPosInGraph_Inr)

lemma AddLayer_graph:
  assumes "wf_graph g" "m_LayerOf g l = None" "slots_of_type L" "AddLayer l L g = Inr h"
  shows "wf_graph h"
proof -
  let ?g = "g\<lparr>m_LayersInOrder := (m_LayersInOrder g \<and> (m_Type L = InputLayer \<or> m_Type L = OutputLayer))\<rparr>"
  obtain k where k: "LayerInGraph l L None ?g = Inr k"
    and h: "h = k\<lparr>m_LayerOf := (m_LayerOf k)(l \<mapsto> L\<lparr>m_ShapeInferenceMethod := m_GraphShapeInferenceMethod k,
      m_AllowExpandedDims := m_GraphAllowExpandedDims k\<rparr>)\<rparr>"
    using assms(4) by (auto simp: AddLayer_def)
  have "wf_list ?g = wf_list g"
    by (simp add: fun_eq_iff wf_list_def is_type_def [abs_def] binding_def [abs_def] layer_type_def)
  then have "wf_graph ?g"
    using assms(1) wf_links_same [of g ?g] by (simp add: wf_graph_def)
  then have wfk: "wf_graph k" using LayerInGraph_graph [OF _ _ assms(3) k] assms(2) by simp
  have kl: "m_LayerOf k l = Some L" using LayerInGraph_Inr(1) [OF k] by simp
  have "valid_in h r = valid_in k r" "valid_out h r = valid_out k r" for r
    by (cases "fst r = l"; simp add: valid_in_def valid_out_def h kl)+
  then have "wf_links h" using wfk unfolding wf_graph_def wf_links_def by (simp add: h)
  moreover have "wf_list h = wf_list k"
  proof -
    have "layer_type h = layer_type k" "binding h = binding k" "dom (m_LayerOf h) = dom (m_LayerOf k)"
      using kl by (auto simp: fun_eq_iff layer_type_def binding_def h)
    then show ?thesis by (rule wf_list_cong) (simp_all add: h)
  qed
  then have "\<exists>ins mids outs. wf_list h ins mids outs" using wfk by (simp add: wf_graph_def)
  moreover have "slots_of_type M" if "m_LayerOf h m = Some M" for m M
    using that wfk assms(3) by (auto simp: wf_graph_def slots_of_type_def h split: if_splits)
  ultimately show ?thesis unfolding wf_graph_def by blast
qed

lemma Insert_graph:
  assumes "wf_graph g" "valid_in g r" "r \<noteq> (l, 0)" "Insert r l g = Inr h"
  shows "wf_graph h"
proof -
  have "wf_links g" using assms(1) by (simp add: wf_graph_def)
  then show ?thesis using Insert_links [OF _ assms(2-4)] same_layers_graph [OF assms(1)] by blast
qed

lemma InsertNewLayer_before_graph:
  assumes "wf_graph g" "m_LayerOf g l = None" "slots_of_type L" "valid_in g r"
    "InsertNewLayer_before l L r g = Inr h"
  shows "wf_graph h"
proof -
  have "\<exists>pos k. pos \<le> length (m_Layers g) \<and> LayerInGraph l L (Some pos) g = Inr k \<and> Insert r l k = Inr h"
  proof (cases "m_Connection g r")
    case None
    then obtain pos k where "GetPosInGraph g (fst r) = Inr pos" "LayerInGraph l L (Some pos) g = Inr k"
      "Insert r l k = Inr h"
      using assms(5) by (auto simp: InsertNewLayer_before_def)
    then show ?thesis using GetPosInGraph_less less_imp_le by blast
  next
    case (Some p)
    then obtain pos k where "GetPosInGraph g (fst p) = Inr pos" "LayerInGraph l L (Some (Suc pos)) g = Inr k"
      "Insert r l k = Inr h"
      using assms(5) by (auto simp: InsertNewLayer_before_def)
    then show ?thesis using GetPosInGraph_less Suc_leI by blast
  qed
  then obtain pos k where pos: "pos \<le> length (m_Layers g)" and k: "LayerInGraph l L (Some pos) g = Inr k"
    and h: "Insert r l k = Inr h" by blast
  have "r \<noteq> (l, 0)" using assms(2,4) by (auto simp: valid_in_def)
  moreover have "valid_in k r"
    using assms(2,4) LayerInGraph_Inr(1) [OF k] by (auto simp: valid_in_def)
  ultimately show ?thesis
    using Insert_graph [OF LayerInGraph_graph [OF assms(1-3) k] _ _ h] pos by simp
qed

text \<open>
  \<open>InsertNewLayer\<close> after an output slot without edge strategies always returns and keeps the graph
  consistent.
\<close>

lemma InsertNewLayer_after_graph:
  assumes "wf_graph g" "m_LayerOf g l = None" "slots_of_type L" "valid_out g p"
    "\<forall>s \<in> set (m_EdgeStrategies g p). s = Undefined"
  shows "\<exists>r. InsertNewLayer_after l L p g = Some r \<and> (\<forall>h. r = Inr h \<longrightarrow> wf_graph h)"
proof -
  have p: "fst p \<noteq> l" "fst p \<in> set (m_Layers g)"
    using assms(2,4) wf_graph_dom [OF assms(1)] by (auto simp: valid_out_def)
  define pos where "pos = find_index (fst p) (m_Layers g)"
  have pos: "GetPosInGraph g (fst p) = Inr pos" "Suc pos \<le> length (m_Layers g)"
    using p(2) GetPosInGraph_less [of g "fst p" pos] by (simp_all add: GetPosInGraph_Inr pos_def Suc_le_eq)
  show ?thesis
  proof (cases "LayerInGraph l L (Some (Suc pos)) g")
    case (Inl e)
    then show ?thesis using pos by (simp add: InsertNewLayer_after_def)
  next
    case (Inr k)
    note ins = LayerInGraph_Inr [OF Inr]
    have wfk: "wf_graph k" using LayerInGraph_graph [OF assms(1-3) Inr] pos(2) by simp
    show ?thesis
    proof (cases "m_NumInputSlots L = 1 \<and> valid_out k (l, 0)")
      case False
      then have "bindR (throw_if (m_NumInputSlots L \<noteq> 1) (AssertionFailure ''layer->GetNumInputSlots() == 1''))
          (\<lambda>_. bindR (GetOutputSlot k l 0) (\<lambda>output. Inr (output, k))) \<noteq> Inr (q, m)" for q m
        by auto
      then show ?thesis using pos(1) Inr
        by (auto simp: InsertNewLayer_after_def split: sum.splits)
    next
      case True
      have ne: "p \<noteq> (l, 0)" using p(1) by (cases p) auto
      have strategies: "\<forall>s \<in> set (m_EdgeStrategies k p). s = Undefined"
        using assms(5) p(1) by (simp add: ins(4) clear_def)
      obtain m where m: "MoveAllConnections p (l, 0) k = Some (Inr m)" "wf_links m" "same_layers k m"
        using MoveAllConnections_correct [OF _ ne _ strategies] wfk True
        by (auto simp: wf_graph_def same_layers_def)
      have "wf_graph m" using same_layers_graph [OF wfk m(3,2)] .
      moreover have valid: "valid_in m (l, 0)" "valid_out m p"
        using same_layers_valid [OF m(3)] True assms(4) p(1) by (auto simp: valid_in_def valid_out_def ins(1))
      ultimately have "wf_graph h" if "Connect p (l, 0) m = Inr (j, h)" for j h
        using same_layers_graph [OF _ same_layers_ops(5) [OF that]] Connect_links [OF m(2) that] by blast
      moreover have slots: "GetOutputSlot k l 0 = Inr (l, 0)" "GetInputSlot m l 0 = Inr (l, 0)"
        using True valid by simp_all
      moreover have "InsertNewLayer_after l L p g = Some (bindR (Connect p (l, 0) m) (\<lambda>(_, g). Inr g))"
        using True pos(1) Inr m(1) by (simp add: InsertNewLayer_after_def slots)
      ultimately show ?thesis by auto
    qed
  qed
qed

text \<open>
  Whatever it is called with, a move of connections that returns leaves the graph consistent.
\<close>

definition moved :: "slot \<Rightarrow> slot \<Rightarrow> Graph \<Rightarrow> Graph \<Rightarrow> bool" where
  "moved p d g h \<longleftrightarrow> wf_links h \<and> same_layers g h \<and>
     m_Connection h = (\<lambda>r. if m_Connection g r = Some p then Some d else m_Connection g r) \<and>
     m_TensorInfo h = (if m_Connections g p = [] then m_TensorInfo g else (m_TensorInfo g)(d := m_TensorInfo g p))"

lemma moved_step:
  assumes "wf_links g" "valid_out g d" "m_Connections g p = c # cs"
    "Connect d c (Disconnect p c g) = Inr (i, g2)" "g3 = SetTensorInfo d (m_TensorInfo g2 p) g2"
    "wf_links g3 \<Longrightarrow> valid_out g3 d \<Longrightarrow> moved p d g3 h"
  shows "moved p d g h"
proof -
  define g1 where "g1 = Disconnect p c g"
  have c: "m_Connection g c = Some p" using wf_links_mem [OF assms(1), of c p] assms(3) by simp
  have wf1: "wf_links g1" using Disconnect_links [OF assms(1)] c by (simp add: g1_def)
  have v: "valid_in g1 c" "valid_out g1 d" using wf_links_valid [OF assms(1) c] assms(2) by (simp_all add: g1_def)
  have g: "Connect d c g1 = Inr (i, g2)" using assms(4) by (simp add: g1_def)
  have wf3: "wf_links g3" unfolding assms(5) by (rule SetTensorInfo_links) (rule Connect_links [OF wf1 g v(2,1)])
  have same: "same_layers g g3"
    unfolding assms(5)
    by (rule same_layers_trans [OF same_layers_ops(1) same_layers_trans [OF same_layers_ops(5) [OF assms(4)] same_layers_ops(3)]])
  have v3: "valid_out g3 d" using assms(2) same_layers_valid [OF same] by simp
  have g3: "m_Connection g3 = (m_Connection g)(c \<mapsto> d)" "m_TensorInfo g3 = (m_TensorInfo g)(d := m_TensorInfo g p)"
    using g assms(5) by (auto simp: Connect_simps g1_def SetTensorInfo_def)
  have IH: "moved p d g3 h" by (rule assms(6) [OF wf3 v3])
  have "same_layers g h" using same IH same_layers_trans unfolding moved_def by blast
  then show ?thesis
    using IH assms(3) g3 c fun_cong [OF g3(2), of p] by (auto simp: moved_def fun_eq_iff)
qed

lemma MoveAllConnections_Inr:
  assumes "MoveAllConnections p d g = Some (Inr h)" "wf_links g" "valid_out g d"
  shows "moved p d g h"
proof -
  let ?P = "\<lambda>p d g (r :: Graph result). \<forall>h. r = Inr h \<longrightarrow> wf_links g \<longrightarrow> valid_out g d \<longrightarrow> moved p d g h"
  have "?P p d g (Inr h)"
  proof (rule MoveAllConnections.raw_induct [where P = ?P, OF _ assms(1)])
    fix MoveAll p d g r
    assume IH: "\<And>p d g r. MoveAll p d g = Some r \<Longrightarrow> ?P p d g r"
      and r: "(case m_Connections g p of
        [] \<Rightarrow> Some (Inr g)
      | connection # _ \<Rightarrow>
          (case m_EdgeStrategies g p of
             [] \<Rightarrow> Some (Inl (UndefinedBehaviour ''m_EdgeStrategies[0]''))
           | strategy # _ \<Rightarrow>
               if strategy \<noteq> Undefined then
                 Some (Inl (AssertionFailure ''Cannot move connections once memory strategies have be established.''))
               else
                 (case Connect d connection (Disconnect p connection g) of
                    Inl e \<Rightarrow> Some (Inl e)
                  | Inr (_, g) \<Rightarrow> MoveAll p d (SetTensorInfo d (m_TensorInfo g p) g)))) = Some r"
    show "?P p d g r"
    proof (intro allI impI)
    fix h assume wf: "r = Inr h" "wf_links g" "valid_out g d"
    show "moved p d g h"
    proof (cases "m_Connections g p")
      case Nil
      have "m_Connection g r \<noteq> Some p" for r using wf_links_mem [OF wf(2), of r p] Nil by simp
      then show ?thesis using r wf Nil by (auto simp: moved_def fun_eq_iff)
    next
      case (Cons c cs)
      then obtain i g2 where "Connect d c (Disconnect p c g) = Inr (i, g2)"
        "MoveAll p d (SetTensorInfo d (m_TensorInfo g2 p) g2) = Some (Inr h)"
        using r wf(1) by (auto split: list.splits if_splits sum.splits)
      then show ?thesis using moved_step [OF wf(2,3) Cons _ refl] IH by blast
    qed
    qed
  qed
  then show ?thesis using assms(2,3) by simp
qed

lemma InsertNewLayer_after_wf:
  assumes "wf_graph g" "m_LayerOf g l = None" "slots_of_type L" "valid_out g p"
    "InsertNewLayer_after l L p g = Some (Inr h)"
  shows "wf_graph h"
proof -
  have "fst p \<noteq> l" using assms(2,4) by (auto simp: valid_out_def)
  obtain pos k q m i r where pos: "GetPosInGraph g (fst p) = Inr pos"
    and k: "LayerInGraph l L (Some (Suc pos)) g = Inr k"
    and q: "GetOutputSlot k l 0 = Inr q" and m: "MoveAllConnections p q k = Some (Inr m)"
    and r: "GetInputSlot m l 0 = Inr r" and i: "Connect p r m = Inr (i, h)"
    using assms(5) by (auto simp: InsertNewLayer_after_def split: sum.splits option.splits)
  have "Suc pos \<le> length (m_Layers g)" using GetPosInGraph_less [OF pos] by simp
  then have wfk: "wf_graph k" using LayerInGraph_graph [OF assms(1-3) k] by simp
  have vq: "valid_out k q" using q by (metis GetOutputSlot_Inr)
  have "moved p q k m" using MoveAllConnections_Inr [OF m _ vq] wfk by (simp add: wf_graph_def)
  then have same: "same_layers k m" "wf_links m" by (simp_all add: moved_def)
  have wfm: "wf_graph m" using same_layers_graph [OF wfk same] .
  have "valid_in m r" using r by (metis GetInputSlot_Inr)
  moreover have "valid_out m p"
    using same_layers_valid [OF same(1)] assms(4) \<open>fst p \<noteq> l\<close> LayerInGraph_Inr [OF k] by (auto simp: valid_out_def)
  ultimately have "wf_links h" using Connect_links [OF same(2) i] by blast
  then show ?thesis using same_layers_graph [OF wfm same_layers_ops(5) [OF i]] by blast
qed

lemma mset_map_filter_neq:
  "distinct xs \<Longrightarrow> mset (map f (filter (\<lambda>y. y \<noteq> x) xs)) =
     (if x \<in> set xs then mset (map f xs) - {#f x#} else mset (map f xs))"
  by (induction xs) auto

lemma EraseLayer_graph:
  assumes "wf_graph g" "EraseLayer l g = Inr h"
  shows "wf_graph h"
proof -
  obtain ins mids outs where wf: "wf_list g ins mids outs" and links: "wf_links g"
    using assms(1) by (auto simp: wf_graph_def)
  note e = EraseLayer_links [OF links assms(2)]
  obtain L where L: "m_LayerOf g l = Some L" using e by blast
  have layers: "m_Layers g = ins @ mids @ outs" "distinct (ins @ mids @ outs)"
    and types: "list_all (is_type g InputLayer) ins" "list_all (is_type g OutputLayer) outs"
      "list_all (\<lambda>l. \<not> is_type g InputLayer l \<and> \<not> is_type g OutputLayer l) mids"
    and ids: "mset (m_InputIds g) = mset (map (binding g) ins)" "mset (m_OutputIds g) = mset (map (binding g) outs)"
    using wf unfolding wf_list_def by auto
  let ?rm = "filter (\<lambda>m. m \<noteq> l)"
  have list: "remove1 l (m_Layers g) = ?rm ins @ ?rm mids @ ?rm outs"
    using layers by (simp add: distinct_remove1_removeAll removeAll_filter_not_eq [of l] neq_commute [of l])
  have other: "is_type h t m = is_type g t m" "binding h m = binding g m" if "m \<noteq> l" for t m
    using e that by (simp_all add: is_type_def layer_type_def binding_def)
  have rm: "mset (map (binding h) (?rm xs)) =
      (if l \<in> set xs then mset (map (binding g) xs) - {#m_BindingId L#} else mset (map (binding g) xs))"
    if "distinct xs" for xs
  proof -
    have "map (binding h) (?rm xs) = map (binding g) (?rm xs)" using other(2) by (intro map_cong) auto
    moreover have "binding g l = m_BindingId L" by (simp add: binding_def L)
    ultimately show ?thesis using mset_map_filter_neq [OF that, of "binding g" l] by (simp only:)
  qed
  have mem: "l \<in> set ins \<longleftrightarrow> m_Type L = InputLayer" "l \<in> set outs \<longleftrightarrow> m_Type L = OutputLayer"
  proof -
    have "l \<in> set ins \<or> l \<in> set mids \<or> l \<in> set outs" using e layers(1) by auto
    moreover have "is_type g t l \<longleftrightarrow> m_Type L = t" for t by (simp add: is_type_def layer_type_def L)
    ultimately show "l \<in> set ins \<longleftrightarrow> m_Type L = InputLayer" "l \<in> set outs \<longleftrightarrow> m_Type L = OutputLayer"
      using types unfolding list_all_iff by force+
  qed
  have d: "distinct ins" "distinct outs" using layers(2) by auto
  have ids_e: "m_InputIds h = (if m_Type L = InputLayer then remove1 (m_BindingId L) (m_InputIds g) else m_InputIds g)"
    "m_OutputIds h = (if m_Type L = OutputLayer then remove1 (m_BindingId L) (m_OutputIds g) else m_OutputIds g)"
    using e L by auto
  have ids_h: "mset (m_InputIds h) = mset (map (binding h) (?rm ins))"
    "mset (m_OutputIds h) = mset (map (binding h) (?rm outs))"
    unfolding rm [OF d(1)] rm [OF d(2)] ids_e mem using ids by (simp_all add: mset_remove1)
  have types_h: "list_all (is_type h InputLayer) (?rm ins)" "list_all (is_type h OutputLayer) (?rm outs)"
    "list_all (\<lambda>l. \<not> is_type h InputLayer l \<and> \<not> is_type h OutputLayer l) (?rm mids)"
    using types other(1) by (auto simp: list_all_iff)
  have "m_Layers h = ?rm ins @ ?rm mids @ ?rm outs" using e list by simp
  moreover have "distinct (m_Layers h)" "set (m_Layers h) = dom (m_LayerOf h)"
    using e wf unfolding wf_list_def by (auto simp: distinct_remove1)
  ultimately have "wf_list h (?rm ins) (?rm mids) (?rm outs)"
    using ids_h types_h unfolding wf_list_def by blast
  then show ?thesis using e assms(1) unfolding wf_graph_def by (metis fun_upd_apply option.distinct(1))
qed

end
