(* ===== verification/GraphOrder.thy ===== *)
theory GraphOrder
  imports GraphLinks
begin

section \<open>The order of the layers (Layer::GetPriority, Graph::TopologicalSort)\<close>

text \<open>
  The list of layers is sorted by a priority: zero for inputs, the largest 32-bit number for
  outputs, one more than the largest priority of its sources for any other layer. The recursion
  remembers the priorities and marks the layers it is in the middle of; \<open>fuel\<close> bounds its depth, and
  one more than the number of layers is enough.
\<close>

subsection \<open>Priorities\<close>

record priorities =
  m_Priority :: "nat \<Rightarrow> nat"
  m_Visiting :: "nat \<Rightarrow> bool"

definition outputPrio :: nat where
  "outputPrio = 4294967295"

definition set_priority :: "nat \<Rightarrow> nat \<Rightarrow> priorities \<Rightarrow> priorities" where
  "set_priority l p s = s\<lparr>m_Priority := (m_Priority s)(l := p)\<rparr>"

definition set_visiting :: "nat \<Rightarrow> bool \<Rightarrow> priorities \<Rightarrow> priorities" where
  "set_visiting l b s = s\<lparr>m_Visiting := (m_Visiting s)(l := b)\<rparr>"

definition input_slots :: "nat \<Rightarrow> Layer \<Rightarrow> slot list" where
  "input_slots l layer = map (Pair l) [0..<m_NumInputSlots layer]"

fun GetPriority :: "nat \<Rightarrow> Graph \<Rightarrow> nat \<Rightarrow> priorities \<Rightarrow> (nat \<times> priorities) result option"
  and max_priority :: "nat \<Rightarrow> Graph \<Rightarrow> slot list \<Rightarrow> nat \<Rightarrow> priorities \<Rightarrow> (nat \<times> priorities) result option"
where
  "GetPriority 0 g l s = None"
| "GetPriority (Suc fuel) g l s =
     (case m_LayerOf g l of
        None \<Rightarrow> Some (Inl (UndefinedBehaviour ''dangling layer pointer''))
      | Some layer \<Rightarrow>
          if m_Type layer = InputLayer then Some (Inr (0, set_priority l 0 s))
          else if m_Type layer = OutputLayer then Some (Inr (outputPrio, set_priority l outputPrio s))
          else if m_Priority s l = 0 then
            if m_Visiting s l then
              Some (Inl (GraphValidationException ''Graph has circular dependencies: cannot walk''))
            else
              (case max_priority fuel g (input_slots l layer) 0 (set_visiting l True s) of
                 None \<Rightarrow> None
               | Some (Inl e) \<Rightarrow> Some (Inl e)
               | Some (Inr (parentPrio, s)) \<Rightarrow>
                   if parentPrio \<ge> outputPrio then
                     Some (Inl (GraphValidationException ''Graph has too many edges''))
                   else Some (Inr (parentPrio + 1, set_priority l (parentPrio + 1) (set_visiting l False s))))
          else Some (Inr (m_Priority s l, s)))"
| "max_priority fuel g [] prio s = Some (Inr (prio, s))"
| "max_priority fuel g (slot # rest) prio s =
     (case m_Connection g slot of
        None \<Rightarrow> max_priority fuel g rest prio s
      | Some outputSlot \<Rightarrow>
          (case GetPriority fuel g (fst outputSlot) s of
             None \<Rightarrow> None
           | Some (Inl e) \<Rightarrow> Some (Inl e)
           | Some (Inr (p, s)) \<Rightarrow> max_priority fuel g rest (max prio p) s))"

text \<open>\<open>ResetPriority\<close> of every layer.\<close>

definition ResetPriorities :: priorities where
  "ResetPriorities = \<lparr>m_Priority = (\<lambda>_. 0), m_Visiting = (\<lambda>_. False)\<rparr>"

fun priorities_of :: "Graph \<Rightarrow> nat list \<Rightarrow> priorities \<Rightarrow> priorities result option" where
  "priorities_of g [] s = Some (Inr s)"
| "priorities_of g (l # ls) s =
     (case GetPriority (Suc (length (m_Layers g))) g l s of
        None \<Rightarrow> None
      | Some (Inl e) \<Rightarrow> Some (Inl e)
      | Some (Inr (_, s)) \<Rightarrow> priorities_of g ls s)"

text \<open>
  \<open>std::list::sort\<close> is stable, and it compares every element of a list of two or more; the model
  asks for the priorities in the order of the list. Which of two possible exceptions comes first,
  and the order of the list after an exception, depend on the library's algorithm.
\<close>

definition TopologicalSort :: "Graph \<Rightarrow> Graph result option" where
  "TopologicalSort g =
     (if m_LayersInOrder g then Some (Inr g)
      else if length (m_Layers g) < 2 then Some (Inr (g\<lparr>m_LayersInOrder := True\<rparr>))
      else (case priorities_of g (m_Layers g) ResetPriorities of
              None \<Rightarrow> None
            | Some (Inl e) \<Rightarrow> Some (Inl e)
            | Some (Inr s) \<Rightarrow>
                Some (Inr (g\<lparr>m_Layers := sort_key (m_Priority s) (m_Layers g), m_LayersInOrder := True\<rparr>))))"

definition SetLayersOutOfOrder :: "Graph \<Rightarrow> Graph" where
  "SetLayersOutOfOrder g = g\<lparr>m_LayersInOrder := False\<rparr>"

subsection \<open>The relation the sort follows\<close>

definition sources :: "Graph \<Rightarrow> nat \<Rightarrow> nat set" where
  "sources g l = {fst p | p i. m_Connection g (l, i) = Some p}"

definition feeds :: "Graph \<Rightarrow> (nat \<times> nat) set" where
  "feeds g = {(l, m). m \<in> sources g l}"

definition middle :: "Graph \<Rightarrow> nat \<Rightarrow> bool" where
  "middle g l \<longleftrightarrow> (\<exists>L. m_LayerOf g l = Some L \<and> m_Type L \<noteq> InputLayer \<and> m_Type L \<noteq> OutputLayer)"

lemma source_type:
  assumes "wf_graph g" "m \<in> sources g l"
  shows "middle g m \<or> is_type g InputLayer m" "m \<in> set (m_Layers g)" "l \<in> set (m_Layers g)"
    "\<not> is_type g InputLayer l"
proof -
  obtain p i where p: "m_Connection g (l, i) = Some p" "m = fst p"
    using assms(2) by (auto simp: sources_def)
  have "valid_in g (l, i)" "valid_out g p"
    using wf_links_valid p assms(1) by (auto simp: wf_graph_def)
  then obtain L M where lm: "m_LayerOf g l = Some L" "i < m_NumInputSlots L"
    "m_LayerOf g m = Some M" "snd p < m_NumOutputSlots M"
    by (auto simp: valid_in_def valid_out_def p(2))
  have slots: "slots_of_type L" "slots_of_type M" using assms(1) lm by (auto simp: wf_graph_def)
  show "m \<in> set (m_Layers g)" "l \<in> set (m_Layers g)" using wf_graph_dom [OF assms(1)] lm by auto
  show "middle g m \<or> is_type g InputLayer m"
    using slots(2) lm by (auto simp: middle_def is_type_def layer_type_def slots_of_type_def)
  show "\<not> is_type g InputLayer l"
    using slots(1) lm by (auto simp: is_type_def layer_type_def slots_of_type_def)
qed

lemma input_slots_sources:
  assumes "wf_graph g" "m_LayerOf g l = Some L"
  shows "m \<in> sources g l \<longleftrightarrow> (\<exists>r \<in> set (input_slots l L). \<exists>p. m_Connection g r = Some p \<and> m = fst p)"
proof
  assume "m \<in> sources g l"
  then obtain p i where p: "m_Connection g (l, i) = Some p" "m = fst p" by (auto simp: sources_def)
  then have "i < m_NumInputSlots L"
    using wf_links_valid [of g "(l, i)" p] assms by (auto simp: wf_graph_def valid_in_def)
  then show "\<exists>r \<in> set (input_slots l L). \<exists>p. m_Connection g r = Some p \<and> m = fst p"
    using p by (intro bexI [of _ "(l, i)"]) (auto simp: input_slots_def)
qed (auto simp: input_slots_def sources_def)

subsection \<open>Correctness of the priorities\<close>

definition ranked :: "Graph \<Rightarrow> priorities \<Rightarrow> nat set" where
  "ranked g s = {l. middle g l \<and> m_Priority s l \<noteq> 0}"

definition priority_inv :: "Graph \<Rightarrow> priorities \<Rightarrow> bool" where
  "priority_inv g s \<longleftrightarrow>
     (\<forall>l. is_type g InputLayer l \<longrightarrow> m_Priority s l = 0) \<and>
     (\<forall>l \<in> ranked g s. \<forall>m \<in> sources g l. m_Priority s m < m_Priority s l \<and> (middle g m \<longrightarrow> m \<in> ranked g s)) \<and>
     (\<forall>l \<in> ranked g s. m_Priority s l \<le> card (ranked g s)) \<and>
     (\<forall>l. m_Visiting s l \<longrightarrow> middle g l \<and> m_Priority s l = 0)"

text \<open>What a call may change: it only adds priorities.\<close>

definition extends :: "Graph \<Rightarrow> priorities \<Rightarrow> priorities \<Rightarrow> bool" where
  "extends g s t \<longleftrightarrow> priority_inv g t \<and> m_Visiting t = m_Visiting s \<and>
     (\<forall>l \<in> ranked g s. m_Priority t l = m_Priority s l) \<and>
     (\<forall>l. is_type g OutputLayer l \<and> m_Priority s l = outputPrio \<longrightarrow> m_Priority t l = outputPrio)"

lemma extends_ranked: "extends g s t \<Longrightarrow> ranked g s \<subseteq> ranked g t"
  by (auto simp: extends_def ranked_def)

lemma extends_trans: "extends g s t \<Longrightarrow> extends g t u \<Longrightarrow> extends g s u"
  using extends_ranked [of g s t] by (auto simp: extends_def subset_iff)

lemma extends_refl: "priority_inv g s \<Longrightarrow> extends g s s"
  by (simp add: extends_def)

lemma ranked_finite [simp]:
  assumes "wf_graph g"
  shows "finite (ranked g s)" "card (ranked g s) \<le> length (m_Layers g)"
proof -
  have sub: "ranked g s \<subseteq> set (m_Layers g)"
    using wf_graph_dom [OF assms] by (auto simp: ranked_def middle_def)
  then show "finite (ranked g s)" using finite_subset by blast
  have "card (ranked g s) \<le> card (set (m_Layers g))" using sub by (intro card_mono) auto
  then show "card (ranked g s) \<le> length (m_Layers g)" using card_length le_trans by blast
qed


definition outcome ::
    "Graph \<Rightarrow> priorities \<Rightarrow> (nat \<Rightarrow> priorities \<Rightarrow> bool) \<Rightarrow> (nat \<times> priorities) result option \<Rightarrow> bool" where
  "outcome g s P r = (case r of
     None \<Rightarrow> False
   | Some (Inl e) \<Rightarrow> e = GraphValidationException ''Graph has circular dependencies: cannot walk'' \<and>
       (\<exists>l \<in> set (m_Layers g). (l, l) \<in> (feeds g)\<^sup>+)
   | Some (Inr (p, t)) \<Rightarrow> extends g s t \<and> P p t)"

definition unvisited :: "Graph \<Rightarrow> priorities \<Rightarrow> nat" where
  "unvisited g s = card {l \<in> set (m_Layers g). \<not> m_Visiting s l}"

lemma unvisited_visit:
  assumes "l \<in> set (m_Layers g)" "\<not> m_Visiting s l"
  shows "Suc (unvisited g (set_visiting l True s)) = unvisited g s"
proof -
  have "{m \<in> set (m_Layers g). \<not> m_Visiting s m} =
      insert l {m \<in> set (m_Layers g). \<not> m_Visiting (set_visiting l True s) m}"
    using assms by (auto simp: set_visiting_def)
  moreover have "l \<notin> {m \<in> set (m_Layers g). \<not> m_Visiting (set_visiting l True s) m}"
    by (simp add: set_visiting_def)
  ultimately show ?thesis by (simp add: unvisited_def)
qed

lemma unvisited_extends: "extends g s t \<Longrightarrow> unvisited g t = unvisited g s"
  by (simp add: extends_def unvisited_def)

lemma ranked_visit [simp]: "ranked g (set_visiting l b s) = ranked g s"
  by (simp add: ranked_def set_visiting_def)

lemma priority_inv_visit:
  assumes "priority_inv g s" "middle g l" "m_Priority s l = 0"
  shows "priority_inv g (set_visiting l b s)"
  using assms by (auto simp: priority_inv_def set_visiting_def ranked_def)

lemma middle_not_input: "middle g l \<Longrightarrow> \<not> is_type g InputLayer l"
  by (auto simp: middle_def is_type_def layer_type_def)

text \<open>Giving a layer its priority once those of its sources are known.\<close>

lemma priority_inv_set:
  assumes "wf_graph g" "priority_inv g t" "middle g l" "m_Priority t l = 0" "\<not> m_Visiting t l"
    "\<And>m. m \<in> sources g l \<Longrightarrow> m_Priority t m \<le> p \<and> (middle g m \<longrightarrow> m \<in> ranked g t)" "p \<le> card (ranked g t)"
  shows "priority_inv g (set_priority l (p + 1) t)" "ranked g (set_priority l (p + 1) t) = insert l (ranked g t)"
proof -
  let ?u = "set_priority l (p + 1) t"
  have l: "l \<notin> ranked g t" using assms(4) by (simp add: ranked_def)
  show r: "ranked g ?u = insert l (ranked g t)"
    using assms(3) by (auto simp: ranked_def set_priority_def)
  have no_self: "m \<noteq> l" if "m \<in> sources g l" for m
    using assms(3) assms(6) [of m] that l by auto
  have card: "card (ranked g ?u) = Suc (card (ranked g t))" using r l assms(1) by simp
  have other: "m_Priority ?u m = m_Priority t m" if "m \<noteq> l" for m using that by (simp add: set_priority_def)
  have new: "m_Priority ?u l = p + 1" by (simp add: set_priority_def)
  show "priority_inv g ?u"
    unfolding priority_inv_def
  proof (intro conjI allI ballI impI)
    show "m_Priority ?u m = 0" if "is_type g InputLayer m" for m
      using that assms(2,3) middle_not_input other by (metis priority_inv_def)
    show "m_Priority ?u m \<le> card (ranked g ?u)" if "m \<in> ranked g ?u" for m
      using that assms(2,7) r card other new by (cases "m = l") (auto simp: priority_inv_def le_SucI)
    fix m n assume m: "m \<in> ranked g ?u" and n: "n \<in> sources g m"
    show "m_Priority ?u n < m_Priority ?u m"
    proof (cases "m = l")
      case True
      then show ?thesis using assms(6) n no_self other new by (simp add: le_imp_less_Suc)
    next
      case False
      then have mt: "m \<in> ranked g t" using m r by simp
      have "n \<noteq> l" using assms(2,3) mt n l by (auto simp: priority_inv_def)
      then show ?thesis using assms(2) mt n other False by (simp add: priority_inv_def)
    qed
    show "n \<in> ranked g ?u" if "middle g n"
      using that assms(2,6) m n r by (auto simp: priority_inv_def)
  next
    fix m assume "m_Visiting ?u m"
    then have "m_Visiting t m" "m \<noteq> l" using assms(5) by (auto simp: set_priority_def)
    then show "middle g m" "m_Priority ?u m = 0" using assms(2) other by (auto simp: priority_inv_def)
  qed
qed

lemma set_priority_zero: "m_Priority s l = 0 \<Longrightarrow> set_priority l 0 s = s"
  by (simp add: set_priority_def fun_upd_idem)

lemma extends_output:
  assumes "wf_graph g" "priority_inv g s" "is_type g OutputLayer l"
  shows "extends g s (set_priority l outputPrio s)"
proof -
  have l: "\<not> middle g l" "\<not> is_type g InputLayer l"
    using assms(3) by (auto simp: middle_def is_type_def layer_type_def)
  have r: "ranked g (set_priority l outputPrio s) = ranked g s"
    using l by (auto simp: ranked_def set_priority_def)
  let ?u = "set_priority l outputPrio s"
  have "m \<noteq> l" if "m \<in> sources g n" for m n
    using source_type(1) [OF assms(1) that] l by blast
  then have "priority_inv g ?u"
    using assms(2) l unfolding priority_inv_def r
    by (auto simp: set_priority_def) (auto simp: ranked_def)
  then show ?thesis using l by (auto simp: extends_def set_priority_def ranked_def)
qed

lemma finish_layer:
  assumes "wf_graph g" "priority_inv g s" "middle g l" "m_Priority s l = 0" "\<not> m_Visiting s l"
    "extends g (set_visiting l True s) t" "p \<le> card (ranked g t)"
    "\<And>m. m \<in> sources g l \<Longrightarrow> m_Priority t m \<le> p \<and> (middle g m \<longrightarrow> m \<in> ranked g t)"
  defines "u \<equiv> set_priority l (p + 1) (set_visiting l False t)"
  shows "extends g s u \<and> p + 1 = m_Priority u l \<and> l \<in> ranked g u"
proof -
  let ?t = "set_visiting l False t"
  have inv: "priority_inv g t" and vis: "m_Visiting t = (m_Visiting s)(l := True)"
    and old: "\<And>x. x \<in> ranked g s \<Longrightarrow> m_Priority t x = m_Priority s x"
    and outs: "\<And>x. is_type g OutputLayer x \<Longrightarrow> m_Priority s x = outputPrio \<Longrightarrow> m_Priority t x = outputPrio"
    using assms(6) by (auto simp: extends_def set_visiting_def ranked_def)
  have zero: "m_Priority t l = 0" using inv vis by (simp add: priority_inv_def)
  have inv': "priority_inv g ?t" using priority_inv_visit [OF inv assms(3) zero] .
  have same: "m_Priority ?t = m_Priority t" "m_Visiting ?t = m_Visiting s"
    using vis assms(5) by (simp_all add: set_visiting_def fun_upd_idem)
  have u: "priority_inv g u" "ranked g u = insert l (ranked g t)"
    using priority_inv_set [OF assms(1) inv' assms(3), of p] zero assms(5,7,8) same unfolding u_def by simp_all
  have "m_Priority u x = m_Priority s x" if "x \<in> ranked g s" for x
  proof -
    have "x \<noteq> l" using that assms(4) by (auto simp: ranked_def)
    then show ?thesis using old [OF that] same by (simp add: u_def set_priority_def)
  qed
  moreover have "m_Priority u x = outputPrio" if "is_type g OutputLayer x" "m_Priority s x = outputPrio" for x
  proof -
    have "x \<noteq> l" using that(1) assms(3) by (auto simp: middle_def is_type_def layer_type_def)
    then show ?thesis using outs [OF that] same by (simp add: u_def set_priority_def)
  qed
  ultimately show ?thesis
    using u same by (simp add: extends_def u_def set_priority_def)
qed

lemma outcome_mono:
  assumes "outcome g t P r" "extends g s t" "\<And>p u. extends g t u \<Longrightarrow> P p u \<Longrightarrow> Q p u"
  shows "outcome g s Q r"
  using assms extends_trans [OF assms(2)] by (auto simp: outcome_def split: option.splits sum.splits)

lemma GetPriority_outcome:
  "wf_graph g \<Longrightarrow> length (m_Layers g) < outputPrio \<Longrightarrow> priority_inv g s \<Longrightarrow> l \<in> set (m_Layers g) \<Longrightarrow>
    unvisited g s < fuel \<Longrightarrow> (\<And>v. m_Visiting s v \<Longrightarrow> (v, l) \<in> (feeds g)\<^sup>+) \<Longrightarrow>
    outcome g s (\<lambda>p t. (\<not> is_type g OutputLayer l \<longrightarrow> p = m_Priority t l) \<and> (middle g l \<longrightarrow> l \<in> ranked g t))
      (GetPriority fuel g l s)"
  "wf_graph g \<Longrightarrow> length (m_Layers g) < outputPrio \<Longrightarrow> priority_inv g s \<Longrightarrow> (\<And>r. r \<in> set slots \<Longrightarrow> fst r = a) \<Longrightarrow>
    unvisited g s < fuel \<Longrightarrow> (\<And>v. m_Visiting s v \<Longrightarrow> v = a \<or> (v, a) \<in> (feeds g)\<^sup>+) \<Longrightarrow>
    outcome g s (\<lambda>p t. prio \<le> p \<and> p \<le> max prio (card (ranked g t)) \<and>
        (\<forall>r \<in> set slots. \<forall>q. m_Connection g r = Some q \<longrightarrow>
          m_Priority t (fst q) \<le> p \<and> (middle g (fst q) \<longrightarrow> fst q \<in> ranked g t)))
      (max_priority fuel g slots prio s)"
proof (induction fuel g l s and fuel g slots prio s arbitrary: and a rule: GetPriority_max_priority.induct)
  case (1 g l s)
  then show ?case by simp
next
  case (2 fuel g l s)
  note wf = 2(2) and small = 2(3) and inv = 2(4) and mem = 2(5) and fuel = 2(6) and path = 2(7)
  obtain L where L: "m_LayerOf g l = Some L" using mem wf_graph_dom [OF wf] by blast
  consider (inp) "m_Type L = InputLayer" | (outp) "m_Type L = OutputLayer"
    | (mid) "m_Type L \<noteq> InputLayer" "m_Type L \<noteq> OutputLayer" by blast
  then show ?case
  proof cases
    case inp
    then have "m_Priority s l = 0" "\<not> middle g l"
      using inv L by (auto simp: priority_inv_def is_type_def layer_type_def middle_def)
    then show ?thesis
      using inp L inv by (simp add: outcome_def set_priority_zero extends_refl)
  next
    case outp
    then have "is_type g OutputLayer l" "\<not> middle g l"
      using L by (auto simp: is_type_def layer_type_def middle_def)
    then show ?thesis
      using outp L extends_output [OF wf inv] by (simp add: outcome_def)
  next
    case mid
    then have middle: "middle g l" using L by (auto simp: middle_def)
    show ?thesis
    proof (cases "m_Priority s l = 0")
      case False
      then have "l \<in> ranked g s" using middle by (simp add: ranked_def)
      then show ?thesis using False mid L inv by (simp add: outcome_def extends_refl)
    next
      case True
      show ?thesis
      proof (cases "m_Visiting s l")
        case True
        then show ?thesis using \<open>m_Priority s l = 0\<close> mid L mem path by (auto simp: outcome_def)
      next
        case False
        let ?s = "set_visiting l True s"
        have inv1: "priority_inv g ?s" using priority_inv_visit [OF inv middle True] .
        have "unvisited g ?s < fuel" using fuel unvisited_visit [OF mem False] by simp
        moreover have "v = l \<or> (v, l) \<in> (feeds g)\<^sup>+" if "m_Visiting ?s v" for v
          using that path by (auto simp: set_visiting_def split: if_splits)
        moreover have "fst r = l" if "r \<in> set (input_slots l L)" for r
          using that by (auto simp: input_slots_def)
        ultimately have o: "outcome g ?s (\<lambda>p t. p \<le> card (ranked g t) \<and> (\<forall>r \<in> set (input_slots l L). \<forall>q.
            m_Connection g r = Some q \<longrightarrow> m_Priority t (fst q) \<le> p \<and> (middle g (fst q) \<longrightarrow> fst q \<in> ranked g t)))
            (max_priority fuel g (input_slots l L) 0 ?s)"
          using 2(1) [OF L mid True False wf small inv1, of l] by simp
        show ?thesis
        proof (cases "max_priority fuel g (input_slots l L) 0 ?s")
          case None
          then show ?thesis using o by (simp add: outcome_def)
        next
          case (Some r)
          show ?thesis
          proof (cases r)
            case (Inl e)
            then show ?thesis using o Some mid L True False by (simp add: outcome_def)
          next
            case (Inr pt)
            obtain p t where pt: "pt = (p, t)" by (cases pt)
            have res: "max_priority fuel g (input_slots l L) 0 ?s = Some (Inr (p, t))" using Some Inr pt by simp
            have ext: "extends g ?s t" and p: "p \<le> card (ranked g t)"
              and src: "\<forall>r \<in> set (input_slots l L). \<forall>q. m_Connection g r = Some q \<longrightarrow>
                m_Priority t (fst q) \<le> p \<and> (middle g (fst q) \<longrightarrow> fst q \<in> ranked g t)"
              using o res by (auto simp: outcome_def)
            have "\<not> p \<ge> outputPrio" using p ranked_finite(2) [OF wf, of t] small by simp
            then have eq: "GetPriority (Suc fuel) g l s =
                Some (Inr (p + 1, set_priority l (p + 1) (set_visiting l False t)))"
              using L mid True False res by simp
            show ?thesis
              unfolding eq using finish_layer [OF wf inv middle True False ext p] src
                input_slots_sources [OF wf L] by (auto simp: outcome_def)
          qed
        qed
      qed
    qed
  qed
next
  case (3 fuel g prio s)
  then show ?case by (simp add: outcome_def extends_refl)
next
  case (4 fuel g slot rest prio s)
  note wf = 4(4) and small = 4(5) and inv = 4(6) and owner = 4(7) and fuel = 4(8) and path = 4(9)
  have owner': "\<And>r. r \<in> set rest \<Longrightarrow> fst r = a" using owner by simp
  show ?case
  proof (cases "m_Connection g slot")
    case None
    then show ?thesis using 4(1) [OF None wf small inv owner' fuel path] by (simp add: outcome_def)
  next
    case (Some q)
    have src: "fst q \<in> sources g a"
      using Some owner [of slot] by (cases slot) (auto simp: sources_def)
    have path': "(v, fst q) \<in> (feeds g)\<^sup>+" if "m_Visiting s v" for v
    proof -
      have "(a, fst q) \<in> feeds g" using src by (simp add: feeds_def)
      then show ?thesis using path [OF that] by (meson r_into_trancl trancl_into_trancl)
    qed
    note call = 4(2) [OF Some wf small inv source_type(2) [OF wf src] fuel path']
    have not_output: "\<not> is_type g OutputLayer (fst q)"
      using source_type(1) [OF wf src] by (auto simp: middle_def is_type_def layer_type_def)
    show ?thesis
    proof (cases "GetPriority fuel g (fst q) s")
      case None
      then show ?thesis using call by (simp add: outcome_def)
    next
      case (Some r)
      show ?thesis
      proof (cases r)
        case (Inl e)
        then show ?thesis using call Some \<open>m_Connection g slot = Some q\<close> by (simp add: outcome_def)
      next
        case (Inr pt)
        obtain p t where res: "GetPriority fuel g (fst q) s = Some (Inr (p, t))"
          using Some Inr by (cases pt) auto
        have ext: "extends g s t" and p: "p = m_Priority t (fst q)" "middle g (fst q) \<longrightarrow> fst q \<in> ranked g t"
          using call res not_output by (auto simp: outcome_def)
        have inv_t: "priority_inv g t" and vis: "m_Visiting t = m_Visiting s" using ext by (simp_all add: extends_def)
        have p_le: "p \<le> card (ranked g t)"
          using p source_type(1) [OF wf src] inv_t by (auto simp: priority_inv_def)
        have loop: "outcome g t (\<lambda>p' u. max prio p \<le> p' \<and> p' \<le> max (max prio p) (card (ranked g u)) \<and>
            (\<forall>r \<in> set rest. \<forall>q. m_Connection g r = Some q \<longrightarrow>
              m_Priority u (fst q) \<le> p' \<and> (middle g (fst q) \<longrightarrow> fst q \<in> ranked g u)))
            (max_priority fuel g rest (max prio p) t)"
          using 4(3) [OF \<open>m_Connection g slot = Some q\<close> res refl refl wf small inv_t owner'] fuel path vis
            unvisited_extends [OF ext] by simp
        have keep: "m_Priority u (fst q) = p \<and> (middle g (fst q) \<longrightarrow> fst q \<in> ranked g u) \<and>
            card (ranked g t) \<le> card (ranked g u)" if "extends g t u" for u
          using that source_type(1) [OF wf src] inv_t p extends_ranked [OF that] wf
          by (auto simp: extends_def priority_inv_def intro!: card_mono)
        have eq: "max_priority fuel g (slot # rest) prio s = max_priority fuel g rest (max prio p) t"
          using res \<open>m_Connection g slot = Some q\<close> by simp
        show ?thesis
          unfolding eq
        proof (rule outcome_mono [OF loop ext])
          fix p' u assume "extends g t u" and "max prio p \<le> p' \<and> p' \<le> max (max prio p) (card (ranked g u)) \<and>
            (\<forall>r \<in> set rest. \<forall>q. m_Connection g r = Some q \<longrightarrow>
              m_Priority u (fst q) \<le> p' \<and> (middle g (fst q) \<longrightarrow> fst q \<in> ranked g u))"
          with keep [of u] p_le \<open>m_Connection g slot = Some q\<close>
          show "prio \<le> p' \<and> p' \<le> max prio (card (ranked g u)) \<and>
            (\<forall>r \<in> set (slot # rest). \<forall>q. m_Connection g r = Some q \<longrightarrow>
              m_Priority u (fst q) \<le> p' \<and> (middle g (fst q) \<longrightarrow> fst q \<in> ranked g u))"
            by auto
        qed
      qed
    qed
  qed
qed


subsection \<open>The sort\<close>

lemma priorities_of_outcome:
  assumes "wf_graph g" "length (m_Layers g) < outputPrio" "priority_inv g s" "set ls \<subseteq> set (m_Layers g)"
    "\<And>l. \<not> m_Visiting s l"
  shows "\<exists>r. priorities_of g ls s = Some r \<and> (case r of
      Inl e \<Rightarrow> e = GraphValidationException ''Graph has circular dependencies: cannot walk'' \<and>
        (\<exists>l \<in> set (m_Layers g). (l, l) \<in> (feeds g)\<^sup>+)
    | Inr t \<Rightarrow> extends g s t \<and> (\<forall>l \<in> set ls. middle g l \<longrightarrow> l \<in> ranked g t) \<and>
        (\<forall>l \<in> set ls. is_type g OutputLayer l \<longrightarrow> m_Priority t l = outputPrio))"
  using assms(3-5)
proof (induction ls arbitrary: s)
  case Nil
  then show ?case by (simp add: extends_refl)
next
  case (Cons l ls)
  have "unvisited g s \<le> card (set (m_Layers g))"
    unfolding unvisited_def by (intro card_mono) auto
  then have fuel: "unvisited g s < Suc (length (m_Layers g))"
    using card_length [of "m_Layers g"] by linarith
  have l: "l \<in> set (m_Layers g)" "set ls \<subseteq> set (m_Layers g)" using Cons.prems(2) by auto
  note call = GetPriority_outcome(1) [OF assms(1,2) Cons.prems(1) l(1) fuel]
  show ?case
  proof (cases "GetPriority (Suc (length (m_Layers g))) g l s")
    case None
    then show ?thesis using call Cons.prems(3) by (simp add: outcome_def del: GetPriority.simps)
  next
    case (Some r)
    show ?thesis
    proof (cases r)
      case (Inl e)
      then show ?thesis using call Some Cons.prems(3) by (simp add: outcome_def del: GetPriority.simps)
    next
      case (Inr pt)
      obtain p t where res: "GetPriority (Suc (length (m_Layers g))) g l s = Some (Inr (p, t))"
        using Some Inr by (cases pt) auto
      have ext: "extends g s t" and rk: "middle g l \<longrightarrow> l \<in> ranked g t"
        using call res Cons.prems(3) by (auto simp: outcome_def simp del: GetPriority.simps)
      have out: "m_Priority t l = outputPrio" if "is_type g OutputLayer l"
        using that res by (auto simp: is_type_def layer_type_def set_priority_def)
      have inv: "priority_inv g t" "\<And>l. \<not> m_Visiting t l" using ext Cons.prems(3) by (simp_all add: extends_def)
      obtain r' where r': "priorities_of g ls t = Some r'" "case r' of
          Inl e \<Rightarrow> e = GraphValidationException ''Graph has circular dependencies: cannot walk'' \<and>
            (\<exists>l \<in> set (m_Layers g). (l, l) \<in> (feeds g)\<^sup>+)
        | Inr u \<Rightarrow> extends g t u \<and> (\<forall>l \<in> set ls. middle g l \<longrightarrow> l \<in> ranked g u) \<and>
            (\<forall>l \<in> set ls. is_type g OutputLayer l \<longrightarrow> m_Priority u l = outputPrio)"
        using Cons.IH [OF inv(1) l(2) inv(2)] by blast
      have eq: "priorities_of g (l # ls) s = Some r'" using res r'(1) by (simp del: GetPriority.simps)
      show ?thesis
      proof (cases r')
        case (Inl e)
        then show ?thesis using eq r'(2) by auto
      next
        case (Inr u)
        then have u: "extends g t u" "\<forall>l \<in> set ls. middle g l \<longrightarrow> l \<in> ranked g u"
          "\<forall>l \<in> set ls. is_type g OutputLayer l \<longrightarrow> m_Priority u l = outputPrio"
          using r'(2) by auto
        have "middle g l \<longrightarrow> l \<in> ranked g u" using rk extends_ranked [OF u(1)] by blast
        moreover have "is_type g OutputLayer l \<longrightarrow> m_Priority u l = outputPrio"
          using out u(1) by (simp add: extends_def)
        ultimately show ?thesis using eq u extends_trans [OF ext u(1)] Inr by auto
      qed
    qed
  qed
qed

lemma feeds_source: "(l, m) \<in> feeds g \<longleftrightarrow> m \<in> sources g l"
  by (simp add: feeds_def)

text \<open>Complete priorities decrease along the sources, so the graph has no cycle.\<close>

lemma ranked_no_cycle:
  assumes "wf_graph g" "priority_inv g t" "\<And>l. middle g l \<Longrightarrow> l \<in> ranked g t"
  shows "(l, l) \<notin> (feeds g)\<^sup>+"
proof -
  have down: "m_Priority t m < m_Priority t l" if "(l, m) \<in> feeds g" "middle g l" for l m
    using that assms(2,3) by (auto simp: feeds_source priority_inv_def)
  have chain: "m_Priority t m < m_Priority t l \<or> \<not> middle g l" if "(l, m) \<in> (feeds g)\<^sup>+" for l m
    using that
  proof (induction rule: trancl_induct)
    case (base m)
    then show ?case using down by blast
  next
    case (step m n)
    obtain x where "(x, m) \<in> feeds g" using step.hyps(1) by (meson tranclE)
    then have "middle g m" using step.hyps(2) source_type(1,4) [OF assms(1)] by (auto simp: feeds_source)
    then show ?case using step down by fastforce
  qed
  show ?thesis
  proof
    assume cycle: "(l, l) \<in> (feeds g)\<^sup>+"
    obtain x y where "(x, l) \<in> feeds g" "(l, y) \<in> feeds g" using cycle by (meson tranclD tranclE)
    then have "middle g l" using source_type(1,4) [OF assms(1)] by (auto simp: feeds_source)
    then show False using chain [OF cycle] by simp
  qed
qed


definition ordered :: "Graph \<Rightarrow> bool" where
  "ordered g \<longleftrightarrow> (\<forall>i < length (m_Layers g). \<forall>m \<in> sources g (m_Layers g ! i). \<exists>j < i. m_Layers g ! j = m)"

lemma sorted_split3:
  fixes f :: "nat \<Rightarrow> nat"
  assumes "sorted (map f xs)" "\<forall>x \<in> set xs. f x \<le> M" "0 < M"
  shows "xs = filter (\<lambda>x. f x = 0) xs @ filter (\<lambda>x. 0 < f x \<and> f x < M) xs @ filter (\<lambda>x. f x = M) xs"
  using assms
proof (induction xs)
  case Nil
  then show ?case by simp
next
  case (Cons x xs)
  have le: "f x \<le> f y" if "y \<in> set xs" for y using that Cons.prems(1) by auto
  consider "f x = 0" | "0 < f x" "f x < M" | "f x = M" using Cons.prems(2) by fastforce
  then show ?case
  proof cases
    case 2
    then have "filter (\<lambda>x. f x = 0) xs = []" using le by (fastforce simp: filter_empty_conv)
    then show ?thesis using 2 Cons by simp
  next
    case 3
    then have "f y = M" if "y \<in> set xs" for y using le [OF that] that Cons.prems(2) by fastforce
    then have "filter (\<lambda>x. f x = 0) xs = []" "filter (\<lambda>x. 0 < f x \<and> f x < M) xs = []"
      "filter (\<lambda>x. f x = M) xs = xs"
      using Cons.prems(3) by (auto simp: filter_empty_conv filter_id_conv)
    then show ?thesis using 3 Cons.prems(3) by simp
  qed (use Cons in simp)
qed

text \<open>Any reordering of the list that keeps inputs first and outputs last.\<close>

lemma wf_list_reorder:
  assumes "wf_list g ins mids outs" "mset xs = mset (m_Layers g)"
    "xs = filter (is_type g InputLayer) xs @ filter (\<lambda>l. \<not> is_type g InputLayer l \<and> \<not> is_type g OutputLayer l) xs @
          filter (is_type g OutputLayer) xs"
    "h = g\<lparr>m_Layers := xs, m_LayersInOrder := b\<rparr>"
  shows "\<exists>ins' mids' outs'. wf_list h ins' mids' outs'"
proof -
  let ?mid = "\<lambda>l. \<not> is_type g InputLayer l \<and> \<not> is_type g OutputLayer l"
  have same: "is_type h = is_type g" "binding h = binding g" "m_LayerOf h = m_LayerOf g"
    by (auto simp: fun_eq_iff is_type_def layer_type_def binding_def assms(4))
  have layers: "m_Layers g = ins @ mids @ outs"
    and types: "list_all (is_type g InputLayer) ins" "list_all (is_type g OutputLayer) outs" "list_all ?mid mids"
    and ids: "mset (m_InputIds g) = mset (map (binding g) ins)" "mset (m_OutputIds g) = mset (map (binding g) outs)"
    and dist: "distinct (m_Layers g)" "set (m_Layers g) = dom (m_LayerOf g)"
    using assms(1) unfolding wf_list_def by auto
  have excl: "is_type g InputLayer l \<Longrightarrow> \<not> is_type g OutputLayer l" for l by (auto simp: is_type_def)
  have "filter (is_type g InputLayer) (m_Layers g) = ins" "filter (is_type g OutputLayer) (m_Layers g) = outs"
    using types excl unfolding layers list_all_iff
    by (auto simp: filter_empty_conv filter_id_conv)
  then have "mset (filter (is_type g InputLayer) xs) = mset ins" "mset (filter (is_type g OutputLayer) xs) = mset outs"
    using assms(2) by (metis mset_filter)+
  moreover have "distinct xs" "set xs = set (m_Layers g)"
    using assms(2) dist(1) by (metis mset_eq_imp_distinct_iff, metis mset_eq_setD)
  moreover have "m_Layers h = xs" "m_InputIds h = m_InputIds g" "m_OutputIds h = m_OutputIds g"
    by (simp_all add: assms(4))
  ultimately have "wf_list h (filter (is_type g InputLayer) xs) (filter ?mid xs) (filter (is_type g OutputLayer) xs)"
    using ids dist(2) assms(3) unfolding wf_list_def same
    by (auto simp: list_all_iff)
  then show ?thesis by blast
qed


lemma layer_cases:
  assumes "wf_graph g" "l \<in> set (m_Layers g)"
  shows "is_type g InputLayer l \<or> is_type g OutputLayer l \<or> middle g l"
  using assms wf_graph_dom by (auto simp: is_type_def layer_type_def middle_def)

lemma middle_iff:
  assumes "wf_graph g" "l \<in> set (m_Layers g)"
  shows "middle g l \<longleftrightarrow> \<not> is_type g InputLayer l \<and> \<not> is_type g OutputLayer l"
  using layer_cases [OF assms] by (auto simp: is_type_def layer_type_def middle_def)

lemma sort_with_priorities:
  assumes wf: "wf_graph g" and small: "length (m_Layers g) < outputPrio" and inv: "priority_inv g t"
    and mids: "\<forall>l \<in> set (m_Layers g). middle g l \<longrightarrow> l \<in> ranked g t"
    and outs: "\<forall>l \<in> set (m_Layers g). is_type g OutputLayer l \<longrightarrow> m_Priority t l = outputPrio"
    and h: "h = g\<lparr>m_Layers := sort_key (m_Priority t) (m_Layers g), m_LayersInOrder := True\<rparr>"
  shows "wf_graph h \<and> ordered h \<and> mset (m_Layers h) = mset (m_Layers g)"
proof -
  let ?p = "m_Priority t" and ?xs = "sort_key (m_Priority t) (m_Layers g)"
  have xs: "set ?xs = set (m_Layers g)" "sorted (map ?p ?xs)" "mset ?xs = mset (m_Layers g)" by simp_all
  have prio: "?p l = 0 \<longleftrightarrow> is_type g InputLayer l" "0 < ?p l \<and> ?p l < outputPrio \<longleftrightarrow> middle g l"
    "?p l = outputPrio \<longleftrightarrow> is_type g OutputLayer l" "?p l \<le> outputPrio"
    if "l \<in> set (m_Layers g)" for l
  proof -
    have "middle g l \<Longrightarrow> 0 < ?p l \<and> ?p l < outputPrio"
      using mids that inv ranked_finite(2) [OF wf, of t] small
      by (fastforce simp: ranked_def priority_inv_def)
    moreover have "is_type g InputLayer l \<Longrightarrow> ?p l = 0" using inv by (simp add: priority_inv_def)
    moreover have "is_type g OutputLayer l \<Longrightarrow> ?p l = outputPrio" using outs that by simp
    moreover have "0 < outputPrio" by (simp add: outputPrio_def)
    ultimately show "?p l = 0 \<longleftrightarrow> is_type g InputLayer l" "0 < ?p l \<and> ?p l < outputPrio \<longleftrightarrow> middle g l"
      "?p l = outputPrio \<longleftrightarrow> is_type g OutputLayer l" "?p l \<le> outputPrio"
      using layer_cases [OF wf that] middle_iff [OF wf that] by fastforce+
  qed
  have "?xs = filter (\<lambda>x. ?p x = 0) ?xs @ filter (\<lambda>x. 0 < ?p x \<and> ?p x < outputPrio) ?xs @
      filter (\<lambda>x. ?p x = outputPrio) ?xs"
    using sorted_split3 [OF xs(2)] prio(4) by (simp add: outputPrio_def)
  also have "filter (\<lambda>x. ?p x = 0) ?xs = filter (is_type g InputLayer) ?xs"
    using prio(1) by (intro filter_cong) auto
  also have "filter (\<lambda>x. 0 < ?p x \<and> ?p x < outputPrio) ?xs =
      filter (\<lambda>l. \<not> is_type g InputLayer l \<and> \<not> is_type g OutputLayer l) ?xs"
    using prio(2) middle_iff [OF wf] by (intro filter_cong) auto
  also have "filter (\<lambda>x. ?p x = outputPrio) ?xs = filter (is_type g OutputLayer) ?xs"
    using prio(3) by (intro filter_cong) auto
  finally have split: "?xs = filter (is_type g InputLayer) ?xs @
      filter (\<lambda>l. \<not> is_type g InputLayer l \<and> \<not> is_type g OutputLayer l) ?xs @ filter (is_type g OutputLayer) ?xs" .
  obtain ins ms os where "wf_list g ins ms os" using wf by (auto simp: wf_graph_def)
  from wf_list_reorder [OF this xs(3) split h] have list: "\<exists>ins' mids' outs'. wf_list h ins' mids' outs'" .
  have "wf_links h" using wf wf_links_same [of g h] by (simp add: wf_graph_def h)
  then have "wf_graph h" using wf list by (simp add: wf_graph_def h)
  moreover have "ordered h"
    unfolding ordered_def
  proof (intro allI impI ballI)
    fix i m assume i: "i < length (m_Layers h)" and m: "m \<in> sources h (m_Layers h ! i)"
    have eq: "m_Layers h = ?xs" by (simp add: h)
    have src: "m \<in> sources g (?xs ! i)" using m by (simp add: sources_def h)
    obtain j where j: "j < length ?xs" "?xs ! j = m"
      using source_type(2) [OF wf src] xs(1) by (metis in_set_conv_nth)
    have l: "?xs ! i \<in> set (m_Layers g)" using i eq xs(1) nth_mem by metis
    have "?p m < ?p (?xs ! i)"
      using src mids inv l prio source_type [OF wf src] layer_cases [OF wf l] middle_iff [OF wf]
      by (metis le_neq_implies_less priority_inv_def)
    then have "j < i" using xs(2) i j eq sorted_nth_mono [OF xs(2), of i j] by (fastforce simp: not_less)
    then show "\<exists>j < i. m_Layers h ! j = m" using j eq by auto
  qed
  ultimately show ?thesis by (simp add: h)
qed


lemma TopologicalSort_outcome:
  assumes "wf_graph g" "\<not> m_LayersInOrder g" "2 \<le> length (m_Layers g)" "length (m_Layers g) < 4294967295"
  shows "\<exists>r. TopologicalSort g = Some r \<and> (case r of
      Inl e \<Rightarrow> e = GraphValidationException ''Graph has circular dependencies: cannot walk'' \<and>
        (\<exists>l \<in> set (m_Layers g). (l, l) \<in> (feeds g)\<^sup>+)
    | Inr h \<Rightarrow> wf_graph h \<and> ordered h \<and> mset (m_Layers h) = mset (m_Layers g) \<and>
        m_LayersInOrder h \<and> feeds h = feeds g \<and> (\<forall>l. (l, l) \<notin> (feeds g)\<^sup>+))"
proof -
  have small: "length (m_Layers g) < outputPrio" using assms(4) by (simp add: outputPrio_def)
  have inv: "priority_inv g ResetPriorities" "\<And>l. \<not> m_Visiting ResetPriorities l"
    by (auto simp: priority_inv_def ResetPriorities_def ranked_def)
  obtain r where r: "priorities_of g (m_Layers g) ResetPriorities = Some r" "case r of
      Inl e \<Rightarrow> e = GraphValidationException ''Graph has circular dependencies: cannot walk'' \<and>
        (\<exists>l \<in> set (m_Layers g). (l, l) \<in> (feeds g)\<^sup>+)
    | Inr t \<Rightarrow> extends g ResetPriorities t \<and> (\<forall>l \<in> set (m_Layers g). middle g l \<longrightarrow> l \<in> ranked g t) \<and>
        (\<forall>l \<in> set (m_Layers g). is_type g OutputLayer l \<longrightarrow> m_Priority t l = outputPrio)"
    using priorities_of_outcome [OF assms(1) small inv(1) order_refl inv(2)] by blast
  show ?thesis
  proof (cases r)
    case (Inl e)
    then show ?thesis using r assms(2,3) by (auto simp: TopologicalSort_def)
  next
    case (Inr t)
    then have t: "priority_inv g t" "\<forall>l \<in> set (m_Layers g). middle g l \<longrightarrow> l \<in> ranked g t"
      "\<forall>l \<in> set (m_Layers g). is_type g OutputLayer l \<longrightarrow> m_Priority t l = outputPrio"
      using r(2) by (simp_all add: extends_def)
    define h where "h = g\<lparr>m_Layers := sort_key (m_Priority t) (m_Layers g), m_LayersInOrder := True\<rparr>"
    have "TopologicalSort g = Some (Inr h)"
      using r(1) Inr assms(2,3) by (simp add: TopologicalSort_def h_def)
    moreover have "wf_graph h \<and> ordered h \<and> mset (m_Layers h) = mset (m_Layers g)"
      by (rule sort_with_priorities [OF assms(1) small t h_def])
    moreover have "m_LayersInOrder h" "feeds h = feeds g"
      by (simp_all add: h_def feeds_def sources_def)
    moreover have "middle g l \<Longrightarrow> l \<in> set (m_Layers g)" for l
      using wf_graph_dom [OF assms(1)] by (auto simp: middle_def)
    then have "(l, l) \<notin> (feeds g)\<^sup>+" for l
      using ranked_no_cycle [OF assms(1) t(1)] t(2) by blast
    ultimately show ?thesis by (intro exI [of _ "Inr h"]) simp
  qed
qed

text \<open>
  C3: \<open>TopologicalSort\<close> on a consistent graph (of fewer than 2^32 - 1 layers, so that the priorities
  do not wrap around) always returns. A graph whose flag \<open>m_LayersInOrder\<close> is set, or that has fewer
  than two layers, is left with the list it has and nothing is checked, not even for cycles. For any
  other graph there are two outcomes. If it throws, the exception says that the graph has circular
  dependencies and the graph does have a cycle; otherwise there is none, every layer comes after all
  the layers that feed it, the list has the same layers as before, the connections are the same, and
  the graph is still consistent, its inputs in front and its outputs at the end.
\<close>

theorem TopologicalSort_correct:
  assumes "wf_graph g" "length (m_Layers g) < 4294967295"
  shows "\<exists>r. TopologicalSort g = Some r \<and>
    (if m_LayersInOrder g \<or> length (m_Layers g) < 2 then r = Inr (g\<lparr>m_LayersInOrder := True\<rparr>)
     else case r of
      Inl e \<Rightarrow> e = GraphValidationException ''Graph has circular dependencies: cannot walk'' \<and>
        (\<exists>l \<in> set (m_Layers g). (l, l) \<in> (feeds g)\<^sup>+)
    | Inr h \<Rightarrow> wf_graph h \<and> ordered h \<and> mset (m_Layers h) = mset (m_Layers g) \<and>
        m_LayersInOrder h \<and> feeds h = feeds g \<and> (\<forall>l. (l, l) \<notin> (feeds g)\<^sup>+))"
proof (cases "m_LayersInOrder g \<or> length (m_Layers g) < 2")
  case True
  then show ?thesis by (auto simp: TopologicalSort_def)
next
  case False
  then show ?thesis using TopologicalSort_outcome [OF assms(1) _ _ assms(2)] by auto
qed

text \<open>An input that feeds a floor layer, built in the wrong order.\<close>

definition layer_of :: "LayerType \<Rightarrow> nat \<Rightarrow> nat \<Rightarrow> int \<Rightarrow> Layer" where
  "layer_of t i o' b =
     \<lparr>m_LayerName = [], m_Type = t, m_NumInputSlots = i, m_NumOutputSlots = o', m_BindingId = b,
      m_BackendId = [], m_ShapeInferenceMethod = ValidateOnly, m_AllowExpandedDims = False\<rparr>"

definition two_floors :: Graph where
  "two_floors = (Graph_make False False)\<lparr>
     m_LayerOf := [0 \<mapsto> layer_of FloorLayer 1 1 0, 1 \<mapsto> layer_of FloorLayer 1 1 0],
     m_Layers := [0, 1], m_LayersInOrder := False,
     m_Connection := [(0, 0) \<mapsto> (1, 0)], m_Connections := (\<lambda>_. [])((1, 0) := [(0, 0)]),
     m_EdgeStrategies := (\<lambda>_. [])((1, 0) := [Undefined])\<rparr>"

lemma two_floors_wf: "wf_graph two_floors"
proof -
  have "wf_links two_floors"
    by (auto simp: wf_links_def two_floors_def Graph_make_def valid_in_def valid_out_def layer_of_def split: if_splits)
  moreover have "wf_list two_floors [] [0, 1] []"
    by (auto simp: wf_list_def two_floors_def Graph_make_def is_type_def layer_type_def layer_of_def)
  ultimately show ?thesis
    by (auto simp: wf_graph_def two_floors_def slots_of_type_def layer_of_def split: if_splits)
qed

lemma two_floors_sorted:
  "TopologicalSort two_floors = Some (Inr (two_floors\<lparr>m_Layers := [1, 0], m_LayersInOrder := True\<rparr>))"
  by (simp add: TopologicalSort_def two_floors_def Graph_make_def layer_of_def ResetPriorities_def
      set_priority_def set_visiting_def input_slots_def outputPrio_def)

theorem TopologicalSort_correct_witness:
  "\<exists>h. TopologicalSort two_floors = Some (Inr h) \<and> wf_graph h \<and> ordered h \<and>
     mset (m_Layers h) = mset (m_Layers two_floors) \<and> m_LayersInOrder h \<and> feeds h = feeds two_floors \<and>
     (\<forall>l. (l, l) \<notin> (feeds two_floors)\<^sup>+)"
proof -
  have two: "\<not> m_LayersInOrder two_floors" "\<not> length (m_Layers two_floors) < 2"
    "length (m_Layers two_floors) < 4294967295"
    by (simp_all add: two_floors_def Graph_make_def)
  then show ?thesis
    using TopologicalSort_correct [OF two_floors_wf two(3)] two_floors_sorted by auto
qed

subsection \<open>Inserting a layer keeps the order\<close>

lemma find_index_insert_at:
  assumes "l \<notin> set xs" "k \<le> length xs"
  shows "find_index l (insert_at k l xs) = k"
    "x \<noteq> l \<Longrightarrow> find_index x (insert_at k l xs) =
      (if find_index x xs < k then find_index x xs else Suc (find_index x xs))"
  using assms
proof (induction xs arbitrary: k)
  case Nil
  { case 1 then show ?case by (simp add: insert_at_def find_index_def) }
  { case 2 then show ?case by (simp add: insert_at_def find_index_def) }
next
  case (Cons y xs)
  { case 1
    then show ?case using Cons.IH(1) [of "k - 1"]
      by (cases k) (auto simp: insert_at_def find_index_def) }
  { case 2
    then show ?case using Cons.IH(2) [of "k - 1"]
      by (cases k) (auto simp: insert_at_def find_index_def) }
qed

lemma nth_find_index [simp]: "x \<in> set xs \<Longrightarrow> xs ! find_index x xs = x"
  by (induction xs) (auto simp: find_index_def)

text \<open>The order of a list without repetitions, by the positions of its elements.\<close>

lemma ordered_iff:
  assumes "wf_graph g"
  shows "ordered g \<longleftrightarrow> (\<forall>l m. m \<in> sources g l \<longrightarrow> find_index m (m_Layers g) < find_index l (m_Layers g))"
proof -
  have dist: "distinct (m_Layers g)" using assms by (auto simp: wf_graph_def wf_list_def)
  have nth: "m_Layers g ! find_index l (m_Layers g) = l" if "l \<in> set (m_Layers g)" for l
    using that by simp
  have index: "find_index (m_Layers g ! i) (m_Layers g) = i" if "i < length (m_Layers g)" for i
    using nth [OF nth_mem [OF that]] dist that nth_mem [OF that] find_index_less [of "m_Layers g ! i" "m_Layers g"]
    by (metis nth_eq_iff_index_eq)
  show ?thesis
  proof
    assume o: "ordered g"
    show "\<forall>l m. m \<in> sources g l \<longrightarrow> find_index m (m_Layers g) < find_index l (m_Layers g)"
    proof (intro allI impI)
      fix l m assume m: "m \<in> sources g l"
      have l: "l \<in> set (m_Layers g)" using source_type(3) [OF assms m] .
      then obtain j where "j < find_index l (m_Layers g)" "m_Layers g ! j = m"
        using o m nth [OF l] unfolding ordered_def by (metis find_index_less)
      then show "find_index m (m_Layers g) < find_index l (m_Layers g)"
        using index [of j] l by (metis find_index_less order.strict_trans)
    qed
  next
    assume o: "\<forall>l m. m \<in> sources g l \<longrightarrow> find_index m (m_Layers g) < find_index l (m_Layers g)"
    show "ordered g"
      unfolding ordered_def
    proof (intro allI impI ballI)
      fix i m assume "i < length (m_Layers g)" and m: "m \<in> sources g (m_Layers g ! i)"
      then show "\<exists>j < i. m_Layers g ! j = m"
        using o index [of i] nth [OF source_type(2) [OF assms m]] by metis
    qed
  qed
qed

lemma ordered_insert:
  assumes "wf_graph g" "ordered g" "wf_graph h" "m_Layers h = insert_at k l (m_Layers g)"
    "k \<le> length (m_Layers g)" "l \<notin> set (m_Layers g)"
    "\<And>x m. m \<in> sources h x \<Longrightarrow> (x \<noteq> l \<and> m \<noteq> l \<and> m \<in> sources g x) \<or>
       (m = l \<and> x \<noteq> l \<and> k \<le> find_index x (m_Layers g)) \<or>
       (x = l \<and> m \<noteq> l \<and> find_index m (m_Layers g) < k)"
  shows "ordered h"
  unfolding ordered_iff [OF assms(3)]
proof (intro allI impI)
  fix x m assume "m \<in> sources h x"
  moreover have "m \<in> sources g x \<Longrightarrow> find_index m (m_Layers g) < find_index x (m_Layers g)"
    using assms(1,2) by (simp add: ordered_iff)
  ultimately show "find_index m (m_Layers h) < find_index x (m_Layers h)"
    using assms(7) [of m x] find_index_insert_at [OF assms(6,5)] by (auto simp: assms(4))
qed

text \<open>
  The position next to a layer with outputs: right after it, or after the constants that follow, and
  before every layer with inputs that comes later.
\<close>

lemma position_after:
  assumes "k \<le> length (m_Layers g)" "k = 0 \<or> \<not> is_type g OutputLayer (m_Layers g ! (k - 1))"
  shows "k \<le> ForwardToEndOfInputsAndConstants g (RewindToBeginOfOutputs g k)"
proof -
  have "RewindToBeginOfOutputs g k = k" using assms(2) by (cases k) (auto simp: is_type_def)
  then show ?thesis using Forward_bounds [OF assms(1)] by simp
qed

lemma position_before:
  assumes "wf_graph g" "k \<le> length (m_Layers g)"
    "m_LayerOf g l = Some L" "0 < m_NumInputSlots L" "k \<le> find_index l (m_Layers g)"
  shows "ForwardToEndOfInputsAndConstants g (RewindToBeginOfOutputs g k) \<le> find_index l (m_Layers g)"
proof -
  have r: "RewindToBeginOfOutputs g k \<le> k" using Rewind_bounds [of g k] by simp
  note fw = Forward_bounds [OF le_trans [OF r assms(2)]]
  have "l \<in> set (m_Layers g)" using wf_graph_dom [OF assms(1)] assms(3) by blast
  then have at: "m_Layers g ! find_index l (m_Layers g) = l" by simp
  have "slots_of_type L" using assms(1,3) by (auto simp: wf_graph_def)
  then have "\<not> is_type g InputLayer l" "\<not> is_type g ConstantLayer l"
    using assms(3,4) by (auto simp: is_type_def layer_type_def slots_of_type_def)
  then show ?thesis using fw r assms(5) at by (metis le_trans not_le)
qed

lemma inputs_before:
  assumes "wf_graph g" "l \<in> set (m_Layers g)" "\<not> is_type g InputLayer l"
  shows "GetNumInputs g \<le> find_index l (m_Layers g)"
proof (rule ccontr)
  assume less: "\<not> GetNumInputs g \<le> find_index l (m_Layers g)"
  obtain ins ms os where wf: "wf_list g ins ms os" using assms(1) by (auto simp: wf_graph_def)
  then have "find_index l (m_Layers g) < length ins" using wf_list_lengths(1) less by force
  then have "is_type g InputLayer (m_Layers g ! find_index l (m_Layers g))"
    using wf unfolding wf_list_def by (simp add: nth_append list_all_length)
  then show False using assms(2,3) by simp
qed

text \<open>
  C4: Inserting a layer before an input slot does what its comment promises: when it succeeds on a
  consistent graph, the new layer sits between the slot and its former source, the graph is still
  consistent, and if the list was in topological order it still is.
\<close>

theorem InsertNewLayer_keeps_order:
  assumes "wf_graph g" "m_LayerOf g l = None" "slots_of_type L" "valid_in g r"
    "InsertNewLayer_before l L r g = Inr h"
  shows "wf_graph h \<and> m_Connection h r = Some (l, 0) \<and> m_Connection h (l, 0) = m_Connection g r \<and>
    (\<forall>s. s \<noteq> r \<and> s \<noteq> (l, 0) \<longrightarrow> m_Connection h s = m_Connection g s) \<and> (ordered g \<longrightarrow> ordered h)"
proof -
  have links: "wf_links g" using assms(1) by (simp add: wf_graph_def)
  have r: "fst r \<noteq> l" "r \<noteq> (l, 0)" "fst r \<in> set (m_Layers g)"
    using assms(2,4) wf_graph_dom [OF assms(1)] by (auto simp: valid_in_def)
  obtain R where R: "m_LayerOf g (fst r) = Some R" "0 < m_NumInputSlots R"
    using assms(4) by (auto simp: valid_in_def)
  define pos where "pos = (case m_Connection g r of None \<Rightarrow> find_index (fst r) (m_Layers g)
    | Some p \<Rightarrow> Suc (find_index (fst p) (m_Layers g)))"
  obtain k where k: "LayerInGraph l L (Some pos) g = Inr k" and ins: "Insert r l k = Inr h"
    using assms(5) by (auto simp: InsertNewLayer_before_def GetPosInGraph_Inr pos_def split: option.splits)
  note new = LayerInGraph_Inr [OF k]
  have wfh: "wf_graph h" using InsertNewLayer_before_graph [OF assms] .
  have "wf_links k" using LayerInGraph_links [OF links assms(2) k] .
  moreover have "valid_in k r" using R r(1) assms(4) by (auto simp: valid_in_def new(1))
  ultimately have i: "same_layers k h" "m_Connection h = (if m_Connection k r = None then (m_Connection k)(r \<mapsto> (l, 0))
      else (m_Connection k)((l, 0) := m_Connection k r, r \<mapsto> (l, 0)))"
    using Insert_links [OF _ _ r(2) ins] by blast+
  have old: "m_Connection k s = m_Connection g s" for s
    using wf_links_dead(1) [OF links assms(2)] by (cases s) (auto simp: new(2) clear_def)
  have conn: "m_Connection h = (m_Connection g)((l, 0) := m_Connection g r, r \<mapsto> (l, 0))"
    using i(2) old wf_links_dead(1) [OF links assms(2), of 0] by (auto simp: fun_eq_iff)
  have "ordered h" if o: "ordered g"
  proof -
    let ?n = "insert_position g (m_Type L) (Some pos)"
    have fresh: "l \<notin> set (m_Layers g)" using assms(2) wf_graph_dom [OF assms(1)] by auto
    have layers: "m_Layers h = insert_at ?n l (m_Layers g)" using i(1) new(5) by (simp add: same_layers_def)
    have source: "find_index (fst p) (m_Layers g) < find_index (fst r) (m_Layers g)"
      "fst p \<in> set (m_Layers g)" "\<not> is_type g OutputLayer (fst p)"
      if "m_Connection g r = Some p" for p
    proof -
      have s: "fst p \<in> sources g (fst r)" using that by (cases r) (auto simp: sources_def)
      show "find_index (fst p) (m_Layers g) < find_index (fst r) (m_Layers g)"
        using o s ordered_iff [OF assms(1)] by blast
      show "fst p \<in> set (m_Layers g)" using source_type(2) [OF assms(1) s] .
      show "\<not> is_type g OutputLayer (fst p)"
        using source_type(1) [OF assms(1) s] by (auto simp: middle_def is_type_def layer_type_def)
    qed
    have pos: "pos \<le> length (m_Layers g)" "pos \<le> find_index (fst r) (m_Layers g)"
      using r(3) source by (auto simp: pos_def Suc_le_eq less_imp_le split: option.splits)
    have n: "?n \<le> length (m_Layers g)" "?n \<le> find_index (fst r) (m_Layers g)"
      "\<And>p. m_Connection g r = Some p \<Longrightarrow> find_index (fst p) (m_Layers g) < ?n"
    proof -
      have lh: "m_LayerOf h l = Some L" using i(1) new(1) by (simp add: same_layers_def)
      have links_h: "wf_links h" using wfh by (simp add: wf_graph_def)
      have out: "m_Type L \<noteq> OutputLayer"
        using wf_links_valid [OF links_h, of r "(l, 0)"] conn lh assms(3) r(2)
        by (auto simp: valid_out_def slots_of_type_def)
      have no_prev: "m_Connection g r = None" if "m_Type L = InputLayer \<or> m_Type L = ConstantLayer"
      proof (rule ccontr)
        assume "m_Connection g r \<noteq> None"
        then obtain q where "m_Connection h (l, 0) = Some q" using conn r(2) by auto
        then show False
          using wf_links_valid [OF links_h, of "(l, 0)" q] lh assms(3) that
          by (auto simp: valid_in_def slots_of_type_def)
      qed
      have "slots_of_type R" using assms(1) R(1) by (auto simp: wf_graph_def)
      then have "\<not> is_type g InputLayer (fst r)"
        using R by (auto simp: is_type_def layer_type_def slots_of_type_def)
      note front = inputs_before [OF assms(1) r(3) this]
      have n_cases: "?n = (if m_Type L = InputLayer \<or> m_Type L = ConstantLayer then GetNumInputs g
          else ForwardToEndOfInputsAndConstants g (RewindToBeginOfOutputs g pos))"
        using out by (simp add: insert_position_def)
      show "?n \<le> find_index (fst r) (m_Layers g)"
        using n_cases front position_before [OF assms(1) pos(1) R pos(2)] by simp
      then show "?n \<le> length (m_Layers g)" using r(3) find_index_less by (metis le_trans less_imp_le)
      show "find_index (fst p) (m_Layers g) < ?n" if "m_Connection g r = Some p" for p
      proof -
        have "pos = Suc (find_index (fst p) (m_Layers g))" using that by (simp add: pos_def)
        then show ?thesis
          using n_cases no_prev that position_after [OF pos(1)] source(2,3) [OF that] by (auto simp: Suc_le_eq)
      qed
    qed
    show ?thesis
    proof (rule ordered_insert [OF assms(1) o wfh layers n(1) fresh])
      fix x m assume m: "m \<in> sources h x"
      then obtain p j where p: "m_Connection h (x, j) = Some p" "m = fst p" by (auto simp: sources_def)
      have dead: "m_Connection g s \<noteq> Some q" if "fst q = l" for s q
        using wf_links_dead(3) [OF links assms(2), of s "snd q"] that by (cases q) auto
      show "(x \<noteq> l \<and> m \<noteq> l \<and> m \<in> sources g x) \<or>
        (m = l \<and> x \<noteq> l \<and> ?n \<le> find_index x (m_Layers g)) \<or>
        (x = l \<and> m \<noteq> l \<and> find_index m (m_Layers g) < ?n)"
      proof (cases "(x, j) = r")
        case True
        then show ?thesis using p r(1) n(2) by (auto simp: conn)
      next
        case False
        note other = this
        have m: "m \<noteq> l \<and> m_Connection g (if x = l then r else (x, j)) = Some p"
        proof (cases "(x, j) = (l, 0)")
          case True
          then have q: "m_Connection g r = Some p" using p(1) other r(2) by (simp add: conn)
          have "fst p \<noteq> l" using dead [of p r] q by blast
          then show ?thesis using True q p(2) by auto
        next
          case False
          then have q: "m_Connection g (x, j) = Some p" using p(1) other by (auto simp: conn split: if_splits)
          then have "x \<noteq> l" using wf_links_dead(1) [OF links assms(2), of j] by auto
          moreover have "fst p \<noteq> l" using dead [of p "(x, j)"] q by blast
          ultimately show ?thesis using q p(2) by auto
        qed
        show ?thesis
        proof (cases "x = l")
          case True
          then show ?thesis using m n(3) p(2) by simp
        next
          case False
          then show ?thesis using m p(2) by (auto simp: sources_def)
        qed
      qed
    qed
  qed
  then show ?thesis using wfh conn r(2) by auto
qed

lemma sorted_floors:
  "wf_graph (two_floors\<lparr>m_Layers := [1, 0], m_LayersInOrder := True\<rparr>) \<and>
   ordered (two_floors\<lparr>m_Layers := [1, 0], m_LayersInOrder := True\<rparr>)"
  using TopologicalSort_outcome [OF two_floors_wf] two_floors_sorted
  by (simp add: two_floors_def Graph_make_def)

lemma insert_floor_ok:
  "\<exists>h. InsertNewLayer_before 2 (layer_of FloorLayer 1 1 0) (0, 0)
     (two_floors\<lparr>m_Layers := [1, 0], m_LayersInOrder := True\<rparr>) = Inr h"
  by (simp add: InsertNewLayer_before_def two_floors_def Graph_make_def layer_of_def GetPosInGraph_def
      LayerInGraph_def insert_position_def Insert_def GetLayer_def clear_def Disconnect_def Let_def find_index_def
      Connect_def SetConnection_def AssertNumberOfInputSlots_def GetInputSlot_def GetOutputSlot_def
      SetEdgeStrategy_def SetTensorInfo_def)

theorem InsertNewLayer_keeps_order_witness:
  "\<exists>h. InsertNewLayer_before 2 (layer_of FloorLayer 1 1 0) (0, 0)
      (two_floors\<lparr>m_Layers := [1, 0], m_LayersInOrder := True\<rparr>) = Inr h \<and>
    wf_graph h \<and> m_Connection h (0, 0) = Some (2, 0) \<and> m_Connection h (2, 0) = Some (1, 0) \<and> ordered h"
proof -
  obtain h where h: "InsertNewLayer_before 2 (layer_of FloorLayer 1 1 0) (0, 0)
      (two_floors\<lparr>m_Layers := [1, 0], m_LayersInOrder := True\<rparr>) = Inr h"
    using insert_floor_ok by blast
  have "slots_of_type (layer_of FloorLayer 1 1 0)" by (simp add: slots_of_type_def layer_of_def)
  moreover have "m_LayerOf two_floors 2 = None" "valid_in two_floors (0, 0)" "m_Connection two_floors (0, 0) = Some (1, 0)"
    by (simp_all add: two_floors_def Graph_make_def valid_in_def layer_of_def)
  ultimately show ?thesis
    using InsertNewLayer_keeps_order [OF _ _ _ _ h] sorted_floors h by (simp add: valid_in_def)
qed

end
