(* ===== verification/GraphSteps.thy ===== *)
theory GraphSteps
  imports GraphOrder
begin

section \<open>Editing a graph\<close>

text \<open>
  The graphs that the editing operations build from an empty graph: a step relation with one rule
  per operation, its reachable states, and what holds of all of them.
\<close>

inductive graph_step :: "Graph \<Rightarrow> Graph \<Rightarrow> bool" where
  add: "m_LayerOf g l = None \<Longrightarrow> slots_of_type L \<Longrightarrow> AddLayer l L g = Inr h \<Longrightarrow> graph_step g h"
| connect: "GetOutputSlot g l i = Inr p \<Longrightarrow> GetInputSlot g k j = Inr r \<Longrightarrow> Connect p r g = Inr (n, h) \<Longrightarrow>
    graph_step g h"
| disconnect: "m_Connection g r = Some p \<or> m_Connection g r = None \<Longrightarrow> graph_step g (Disconnect p r g)"
| disconnect_all: "graph_step g (DisconnectAll p g)"
| move_all: "GetOutputSlot g l i = Inr d \<Longrightarrow> MoveAllConnections p d g = Some (Inr h) \<Longrightarrow> graph_step g h"
| insert_before: "m_LayerOf g l = None \<Longrightarrow> slots_of_type L \<Longrightarrow> GetInputSlot g k j = Inr r \<Longrightarrow>
    InsertNewLayer_before l L r g = Inr h \<Longrightarrow> graph_step g h"
| insert_after: "m_LayerOf g l = None \<Longrightarrow> slots_of_type L \<Longrightarrow> GetOutputSlot g k j = Inr p \<Longrightarrow>
    InsertNewLayer_after l L p g = Some (Inr h) \<Longrightarrow> graph_step g h"
| erase: "EraseLayer l g = Inr h \<Longrightarrow> graph_step g h"
| sort: "length (m_Layers g) < 4294967295 \<Longrightarrow> TopologicalSort g = Some (Inr h) \<Longrightarrow> graph_step g h"
| out_of_order: "graph_step g (SetLayersOutOfOrder g)"
| set_info: "graph_step g (SetTensorInfo p t g)"
| override_info: "graph_step g (OverrideTensorInfo r t g)"
| set_strategy: "graph_step g (SetEdgeStrategy p i s g)"

inductive_simps graph_step_iff: "graph_step g h"

inductive graph_reachable :: "Graph \<Rightarrow> bool" where
  start: "graph_reachable (Graph_make s a)"
| step: "graph_reachable g \<Longrightarrow> graph_step g h \<Longrightarrow> graph_reachable h"

subsection \<open>Every step keeps the graph consistent\<close>

lemma Graph_make_wf: "wf_graph (Graph_make s a)"
proof -
  have "wf_list (Graph_make s a) [] [] []" by (simp add: wf_list_def Graph_make_def)
  moreover have "wf_links (Graph_make s a)" by (simp add: wf_links_def Graph_make_def)
  moreover have "m_LayerOf (Graph_make s a) l = None" for l by (simp add: Graph_make_def)
  ultimately show ?thesis unfolding wf_graph_def by (metis option.distinct(1))
qed

lemma same_layers_wf: "wf_graph g \<Longrightarrow> same_layers g h \<Longrightarrow> (wf_links g \<Longrightarrow> wf_links h) \<Longrightarrow> wf_graph h"
  using same_layers_graph wf_graph_def by blast

lemma wf_graph_flag: "wf_graph (g\<lparr>m_LayersInOrder := b\<rparr>) = wf_graph g"
proof -
  have "wf_list (g\<lparr>m_LayersInOrder := b\<rparr>) = wf_list g"
    by (simp add: fun_eq_iff wf_list_def is_type_def [abs_def] binding_def [abs_def] layer_type_def)
  moreover have "wf_links (g\<lparr>m_LayersInOrder := b\<rparr>) = wf_links g"
    using wf_links_same [of g "g\<lparr>m_LayersInOrder := b\<rparr>"] wf_links_same [of "g\<lparr>m_LayersInOrder := b\<rparr>" g] by auto
  ultimately show ?thesis by (simp add: wf_graph_def)
qed

lemma TopologicalSort_wf:
  assumes "wf_graph g" "length (m_Layers g) < 4294967295" "TopologicalSort g = Some (Inr h)"
  shows "wf_graph h"
proof (cases "\<not> m_LayersInOrder g \<and> 2 \<le> length (m_Layers g)")
  case True
  then show ?thesis using TopologicalSort_outcome [OF assms(1)] assms(2,3) by auto
next
  case False
  then show ?thesis using assms(1,3) by (auto simp: TopologicalSort_def wf_graph_flag split: if_splits)
qed

lemma graph_step_wf: "graph_step g h \<Longrightarrow> wf_graph g \<Longrightarrow> wf_graph h"
proof (induction rule: graph_step.induct)
  case (add g l L h)
  then show ?case using AddLayer_graph by blast
next
  case (connect g l i p k j r n h)
  then have v: "valid_out g p" "valid_in g r" by (metis GetOutputSlot_Inr, metis GetInputSlot_Inr)
  then show ?case
    using connect same_layers_wf [OF connect(4) same_layers_ops(5) [OF connect(3)]] Connect_links by blast
next
  case (disconnect g r p)
  then show ?case using same_layers_wf [OF _ same_layers_ops(1)] Disconnect_links by blast
next
  case (disconnect_all g p)
  then show ?case using same_layers_wf [OF _ same_layers_ops(2)] DisconnectAll_links by blast
next
  case (move_all g l i d p h)
  have "moved p d g h"
    using MoveAllConnections_Inr [OF move_all(2)] move_all(1,3) by (metis GetOutputSlot_Inr wf_graph_def)
  then show ?case using same_layers_wf [OF move_all(3)] by (auto simp: moved_def)
next
  case (insert_before g l L k j r h)
  then have "valid_in g r" by (metis GetInputSlot_Inr)
  then show ?case using InsertNewLayer_before_graph insert_before by blast
next
  case (insert_after g l L k j p h)
  then have "valid_out g p" by (metis GetOutputSlot_Inr)
  then show ?case using InsertNewLayer_after_wf insert_after by blast
next
  case (erase l g h)
  then show ?case using EraseLayer_graph by blast
next
  case (sort g h)
  then show ?case using TopologicalSort_wf by blast
next
  case (out_of_order g)
  then show ?case by (simp add: SetLayersOutOfOrder_def wf_graph_flag)
next
  case (set_info g p t)
  then show ?case using same_layers_wf [OF _ same_layers_ops(3)] SetTensorInfo_links by blast
next
  case (override_info g r t)
  then have "wf_links g" by (simp add: wf_graph_def)
  then have "wf_links (OverrideTensorInfo r t g)"
    by (rule wf_links_same) (simp_all add: OverrideTensorInfo_def)
  moreover have "same_layers g (OverrideTensorInfo r t g)"
    by (simp add: same_layers_def OverrideTensorInfo_def)
  ultimately show ?case using same_layers_wf override_info by blast
next
  case (set_strategy g p i s)
  then show ?case using same_layers_wf [OF _ same_layers_ops(4)] SetEdgeStrategy_links by blast
qed

lemma reachable_wf: "graph_reachable g \<Longrightarrow> wf_graph g"
  by (induction rule: graph_reachable.induct) (simp_all add: Graph_make_wf graph_step_wf)

lemma wf_list_input_output:
  assumes "wf_list g ins mids outs"
  shows "GetInputLayers g = ins" "GetOutputLayers g = outs"
  using wf_list_lengths [OF assms] assms
  by (simp_all add: GetInputLayers_def GetOutputLayers_def wf_list_def)

text \<open>
  C2: In every graph that successful calls build from an empty one - adding, inserting and erasing
  layers, connecting, disconnecting one or all connections of an output slot, moving connections
  (whatever their edge strategies, to any output slot of the graph), sorting (fewer than 2^32 - 1
  layers), and setting tensor infos and strategies - both ends of every connection agree: an input
  slot is in the list of an output slot exactly when that output slot is its source, both slots exist,
  there is one edge strategy per connection, and \<open>GetInputLayers\<close> and \<open>GetOutputLayers\<close>, which take
  the first and the last layers of the list by the number of binding identifiers, are exactly the
  input and the output layers of the graph. One call is excluded: \<open>Disconnect\<close> of an input slot that
  hangs on another output slot than the one it is called on, after which the ends do disagree.
\<close>

theorem reachable_graph_consistent:
  assumes "graph_reachable g"
  shows "(r \<in> set (m_Connections g p)) = (m_Connection g r = Some p) \<and>
    (m_Connection g r = Some p \<longrightarrow> valid_in g r \<and> valid_out g p) \<and>
    length (m_EdgeStrategies g p) = length (m_Connections g p) \<and>
    set (GetInputLayers g) = {l. layer_type g l = Some InputLayer} \<and>
    set (GetOutputLayers g) = {l. layer_type g l = Some OutputLayer} \<and>
    distinct (m_Layers g) \<and> set (m_Layers g) = dom (m_LayerOf g)"
proof -
  have wf: "wf_graph g" using reachable_wf [OF assms] .
  then have links: "wf_links g" by (simp add: wf_graph_def)
  obtain ins mids outs where list: "wf_list g ins mids outs" using wf by (auto simp: wf_graph_def)
  then have parts: "m_Layers g = ins @ mids @ outs" "distinct (m_Layers g)" "set (m_Layers g) = dom (m_LayerOf g)"
    "\<And>l. l \<in> set ins \<Longrightarrow> layer_type g l = Some InputLayer"
    "\<And>l. l \<in> set outs \<Longrightarrow> layer_type g l = Some OutputLayer"
    "\<And>l. l \<in> set mids \<Longrightarrow> layer_type g l \<noteq> Some InputLayer \<and> layer_type g l \<noteq> Some OutputLayer"
    unfolding wf_list_def by (auto simp: list_all_iff is_type_def)
  have live: "l \<in> set ins \<or> l \<in> set mids \<or> l \<in> set outs" if "layer_type g l = Some t" for l t
    using that parts(1,3) by (auto simp: layer_type_def dom_def)
  have "set ins = {l. layer_type g l = Some InputLayer}"
    using parts(4-6) live by fastforce
  moreover have "set outs = {l. layer_type g l = Some OutputLayer}"
    using parts(4-6) live by fastforce
  ultimately show ?thesis
    using links parts(2,3) wf_links_valid [OF links] by (simp add: wf_list_input_output [OF list])
qed

text \<open>Two floor layers added to an empty graph, the first connected to the second.\<close>

definition a_floor :: Layer where
  "a_floor = layer_of FloorLayer 1 1 0"

definition one_floor :: Graph where
  "one_floor = (Graph_make False False)\<lparr>m_LayerOf := [0 \<mapsto> a_floor], m_Layers := [0], m_LayersInOrder := False\<rparr>"

definition floors_added :: Graph where
  "floors_added = one_floor\<lparr>m_LayerOf := [0 \<mapsto> a_floor, 1 \<mapsto> a_floor], m_Layers := [0, 1]\<rparr>"

definition connected_floors :: Graph where
  "connected_floors = floors_added\<lparr>m_Connection := [(1, 0) \<mapsto> (0, 0)],
     m_Connections := (\<lambda>_. [])((0, 0) := [(1, 0)]), m_EdgeStrategies := (\<lambda>_. [])((0, 0) := [Undefined])\<rparr>"

lemmas floor_graphs = one_floor_def floors_added_def connected_floors_def Graph_make_def a_floor_def layer_of_def

lemma one_floor_step: "graph_step (Graph_make False False) one_floor"
proof -
  have "AddLayer 0 a_floor (Graph_make False False) = Inr one_floor"
    by (simp add: AddLayer_def LayerInGraph_def Let_def floor_graphs insert_position_def insert_at_def clear_def fun_eq_iff)
  then show ?thesis by (intro graph_step.add) (simp_all add: floor_graphs slots_of_type_def)
qed

lemma floors_added_step: "graph_step one_floor floors_added"
proof -
  have "AddLayer 1 a_floor one_floor = Inr floors_added"
    by (simp add: AddLayer_def LayerInGraph_def Let_def floor_graphs insert_position_def insert_at_def clear_def fun_eq_iff)
  then show ?thesis by (intro graph_step.add) (simp_all add: floor_graphs slots_of_type_def)
qed

lemma connected_floors_step: "graph_step floors_added connected_floors"
proof -
  have slots: "GetOutputSlot floors_added 0 0 = Inr (0, 0)" "GetInputSlot floors_added 1 0 = Inr (1, 0)"
    by (simp_all add: GetOutputSlot_Inr GetInputSlot_Inr valid_out_def valid_in_def floor_graphs)
  have "Connect (0, 0) (1, 0) floors_added = Inr (0, connected_floors)"
    by (simp add: Connect_def SetConnection_def floor_graphs fun_eq_iff)
  then show ?thesis using graph_step.connect slots by blast
qed

lemma connected_floors_reachable: "graph_reachable connected_floors"
  using graph_reachable.intros one_floor_step floors_added_step connected_floors_step by metis

theorem reachable_graph_consistent_witness:
  "((1, 0) \<in> set (m_Connections connected_floors (0, 0))) = (m_Connection connected_floors (1, 0) = Some (0, 0)) \<and>
   m_Connection connected_floors (1, 0) = Some (0, 0) \<and>
   valid_in connected_floors (1, 0) \<and> valid_out connected_floors (0, 0) \<and>
   length (m_EdgeStrategies connected_floors (0, 0)) = 1 \<and>
   set (GetInputLayers connected_floors) = {l. layer_type connected_floors l = Some InputLayer} \<and>
   set (m_Layers connected_floors) = dom (m_LayerOf connected_floors)"
proof -
  have "m_Connection connected_floors (1, 0) = Some (0, 0)" "length (m_Connections connected_floors (0, 0)) = 1"
    by (simp_all add: floor_graphs)
  then show ?thesis
    using reachable_graph_consistent [OF connected_floors_reachable, of "(1, 0)" "(0, 0)"] by simp
qed

end
