(* ===== verification/Kernels.thy ===== *)
theory Kernels
  imports TensorShapes Indexing
begin

section \<open>Loops over tensor memory\<close>

text \<open>
  What the reference kernels share. A tensor in memory is the list of its elements; \<open>peek\<close> and
  \<open>poke\<close> read and write one of them, and are undefined outside, as in the program. \<open>emit\<close> writes at a
  running position. Nested \<open>for\<close> loops over ranges are nested \<open>foldR\<close>, and \<open>foldR_loops\<close> turns them into
  one loop over a list of indices. \<open>for_int\<close> is a loop over a signed index with any stride, which
  may never end.
\<close>

subsection \<open>Memory\<close>

definition peek :: "'a list \<Rightarrow> nat \<Rightarrow> 'a result" where
  "peek xs k = (if k < length xs then Inr (xs ! k) else Inl (UndefinedBehaviour ''read outside a tensor''))"

definition poke :: "nat \<Rightarrow> 'a \<Rightarrow> 'a list \<Rightarrow> 'a list result" where
  "poke k v xs = (if k < length xs then Inr (xs[k := v]) else Inl (UndefinedBehaviour ''write outside a tensor''))"

definition emit :: "'a \<Rightarrow> nat \<times> 'a list \<Rightarrow> (nat \<times> 'a list) result" where
  "emit v s = bindR (poke (fst s) v (snd s)) (\<lambda>xs. Inr (fst s + 1, xs))"

lemma peek_simps [simp]:
  "k < length xs \<Longrightarrow> peek xs k = Inr (xs ! k)" "peek xs k = Inr v \<longleftrightarrow> k < length xs \<and> v = xs ! k"
  by (auto simp: peek_def)

lemma poke_simps [simp]:
  "k < length xs \<Longrightarrow> poke k v xs = Inr (xs[k := v])"
  "poke k v xs = Inr ys \<longleftrightarrow> k < length xs \<and> ys = xs[k := v]"
  by (auto simp: poke_def)

lemma bindR_return [simp]: "bindR m Inr = m"
  by (cases m) auto

lemma u32_mod_simps:
  "u32_add (a mod 4294967296) b = (a + b) mod 4294967296" "u32_mul (a mod 4294967296) b = (a * b) mod 4294967296"
  "u32_add a b = (a + b) mod 4294967296" "u32_mul a b = (a * b) mod 4294967296"
  by (simp_all add: u32_add_def u32_mul_def mod_add_left_eq mod_mult_left_eq)

text \<open>Unsigned division, undefined for zero.\<close>

definition divR :: "nat \<Rightarrow> nat \<Rightarrow> nat result" where
  "divR a b = (if b = 0 then Inl (UndefinedBehaviour ''division by zero'') else Inr (a div b))"

definition modR :: "nat \<Rightarrow> nat \<Rightarrow> nat result" where
  "modR a b = (if b = 0 then Inl (UndefinedBehaviour ''division by zero'') else Inr (a mod b))"

lemma divR_simps [simp]: "0 < b \<Longrightarrow> divR a b = Inr (a div b)" "0 < b \<Longrightarrow> modR a b = Inr (a mod b)"
  by (simp_all add: divR_def modR_def)

text \<open>Writing every cell of a prefix in order, and writing through a permutation of the cells.\<close>

lemma write_all_fill:
  assumes "n \<le> length dst"
  shows "write_all (map (\<lambda>k. (k, v k)) [0..<n]) dst = map v [0..<n] @ drop n dst"
  using assms
proof (induction n)
  case (Suc n)
  have "(map v [0..<n] @ drop n dst)[n := v n] = map v [0..<n] @ v n # drop (Suc n) dst"
    using Suc.prems by (simp add: list_update_append Cons_nth_drop_Suc [symmetric])
  then show ?case using Suc by simp
qed simp

lemma write_all_permuted:
  assumes "\<And>k. k < n \<Longrightarrow> p k < n" "\<And>k. k < n \<Longrightarrow> p (p k) = k" "length dst = n"
  shows "write_all (map (\<lambda>k. (p k, v k)) [0..<n]) dst = map (\<lambda>k. v (p k)) [0..<n]"
proof (rule nth_equalityI)
  fix k
  assume "k < length (write_all (map (\<lambda>k. (p k, v k)) [0..<n]) dst)"
  then have k: "k < n" using assms(3) by simp
  have "inj_on p {0..<n}" using assms(2) by (metis atLeastLessThan_iff inj_onI)
  then have "distinct (map fst (map (\<lambda>k. (p k, v k)) [0..<n]))" by (simp add: distinct_map comp_def)
  moreover have "(k, v (p k)) \<in> set (map (\<lambda>k. (p k, v k)) [0..<n])"
    using k assms(1,2) by (auto simp: image_iff intro!: bexI [of _ "p k"])
  ultimately have "write_all (map (\<lambda>k. (p k, v k)) [0..<n]) dst ! k = v (p k)"
    using k assms(3) by (intro write_all_nth) auto
  then show "write_all (map (\<lambda>k. (p k, v k)) [0..<n]) dst ! k = map (\<lambda>k. v (p k)) [0..<n] ! k"
    using k by simp
qed (simp add: assms(3))

subsection \<open>Nested loops\<close>

lemma foldR_concat: "foldR f (concat xss) = foldR (foldR f) xss"
proof
  show "foldR f (concat xss) s = foldR (foldR f) xss s" for s
    by (induction xss arbitrary: s) (auto simp: foldR_append intro!: bindR_cong)
qed

lemma foldR_map: "foldR f (map g xs) = foldR (\<lambda>x. f (g x)) xs"
proof
  show "foldR f (map g xs) s = foldR (\<lambda>x. f (g x)) xs s" for s
    by (induction xs arbitrary: s) (auto intro!: bindR_cong)
qed

lemma foldR_cong [fundef_cong]:
  "(\<And>x t. x \<in> set xs \<Longrightarrow> f x t = g x t) \<Longrightarrow> foldR f xs s = foldR g xs s"
  by (induction xs arbitrary: s) (auto intro!: bindR_cong)

lemma foldR_loops:
  "foldR f (product_lists (xs # xss)) = foldR (\<lambda>x. foldR (\<lambda>js. f (x # js)) (product_lists xss)) xs"
  by (simp add: foldR_concat foldR_map)

lemma foldR_loops_end: "foldR f (product_lists []) = f []"
proof
  show "foldR f (product_lists []) s = f [] s" for s by (cases "f [] s") simp_all
qed

lemma loop4:
  "foldR (\<lambda>a. foldR (\<lambda>b. foldR (\<lambda>c. foldR (\<lambda>d. f a b c d) ds) cs) bs) as s =
   foldR (\<lambda>js. f (js ! 0) (js ! 1) (js ! 2) (js ! 3)) (product_lists [as, bs, cs, ds]) s"
  unfolding foldR_loops foldR_loops_end by (simp add: numeral_eq_Suc)

lemma box_product: "box ns = product_lists (map (upt 0) ns)"
  by (induction ns) auto

text \<open>A loop that copies elements to given cells, and one that appends them.\<close>

lemma foldR_copy:
  assumes "\<And>x. x \<in> set xs \<Longrightarrow> from x < length src \<and> to x < length dst"
  shows "foldR (\<lambda>x s. bindR (peek src (from x)) (\<lambda>v. poke (to x) (g v) s)) xs dst =
    Inr (write_all (map (\<lambda>x. (to x, g (src ! from x))) xs) dst)"
  using assms by (induction xs arbitrary: dst) simp_all

lemma foldR_poke:
  assumes "\<And>x. x \<in> set xs \<Longrightarrow> to x < length dst"
  shows "foldR (\<lambda>x. poke (to x) (v x)) xs dst = Inr (write_all (map (\<lambda>x. (to x, v x)) xs) dst)"
  using assms by (induction xs arbitrary: dst) simp_all

lemma mapR_snoc: "mapR f (xs @ [x]) = bindR (mapR f xs) (\<lambda>ys. bindR (f x) (\<lambda>y. Inr (ys @ [y])))"
  by (induction xs) (simp_all add: bindR_assoc)

lemma foldR_Nil: "foldR f [] = Inr"
  by (rule ext) simp

lemma foldR_poke_result:
  assumes "n \<le> length dst"
  shows "foldR (\<lambda>k out. bindR (h k) (\<lambda>v. poke k v out)) [0..<n] dst =
    bindR (mapR h [0..<n]) (\<lambda>vs. Inr (vs @ drop n dst))"
  using assms
proof (induction n)
  case (Suc n)
  have step: "poke n v (vs @ drop n dst) = Inr ((vs @ [v]) @ drop (Suc n) dst)" if "length vs = n" for v vs
    using Suc.prems that by (simp add: poke_def list_update_append Cons_nth_drop_Suc [symmetric])
  have "foldR (\<lambda>k out. bindR (h k) (\<lambda>v. poke k v out)) [0..<Suc n] dst =
      bindR (mapR h [0..<n]) (\<lambda>vs. bindR (h n) (\<lambda>v. poke n v (vs @ drop n dst)))"
    using Suc by (simp add: foldR_append bindR_assoc foldR_Nil)
  also have "\<dots> = bindR (mapR h [0..<n]) (\<lambda>vs. bindR (h n) (\<lambda>v. Inr ((vs @ [v]) @ drop (Suc n) dst)))"
    using mapR_length [of h "[0..<n]"] step by (intro bindR_cong) auto
  also have "\<dots> = bindR (mapR h [0..<Suc n]) (\<lambda>vs. Inr (vs @ drop (Suc n) dst))"
    by (simp add: mapR_snoc bindR_assoc)
  finally show ?case .
qed simp

definition emitted :: "'a list \<Rightarrow> nat \<times> 'a list \<Rightarrow> nat \<times> 'a list" where
  "emitted vs s = (fst s + length vs, take (fst s) (snd s) @ vs @ drop (fst s + length vs) (snd s))"

lemma emitted_Nil [simp]: "emitted [] s = s"
  by (cases s) (simp add: emitted_def)

lemma emit_eq: "fst s < length (snd s) \<Longrightarrow> emit v s = Inr (emitted [v] s)"
  by (simp add: emit_def emitted_def upd_conv_take_nth_drop)

lemma emitted_append:
  assumes "fst s + length vs \<le> length (snd s)"
  shows "emitted ws (emitted vs s) = emitted (vs @ ws) s"
  using assms by (cases s; cases vs) (auto simp: emitted_def min_def ac_simps)

lemma emitted_length [simp]:
  "fst s + length vs \<le> length (snd s) \<Longrightarrow> length (snd (emitted vs s)) = length (snd s)"
  "fst (emitted vs s) = fst s + length vs"
  by (simp_all add: emitted_def)

lemma foldR_emit:
  assumes "\<And>x. x \<in> set xs \<Longrightarrow> val x = Inr (v x)" "fst s + length xs \<le> length (snd s)"
  shows "foldR (\<lambda>x s. bindR (val x) (\<lambda>v. emit v s)) xs s = Inr (emitted (map v xs) s)"
  using assms
proof (induction xs arbitrary: s)
  case Nil
  then show ?case by simp
next
  case (Cons x xs)
  have first: "emit (v x) s = Inr (emitted [v x] s)" using Cons.prems(2) by (intro emit_eq) simp
  have "foldR (\<lambda>x s. bindR (val x) (\<lambda>v. emit v s)) xs (emitted [v x] s) =
      Inr (emitted (map v xs) (emitted [v x] s))"
    using Cons.prems by (intro Cons.IH) auto
  then show ?case using Cons.prems first emitted_append [of s "[v x]" "map v xs"] by simp
qed

subsection \<open>Loops over a signed index\<close>

definition int32 :: "int \<Rightarrow> bool" where
  "int32 i \<longleftrightarrow> - 2147483648 \<le> i \<and> i \<le> 2147483647"

text \<open>Signed arithmetic that leaves the range of \<open>int\<close> is undefined.\<close>

definition int_check :: "int \<Rightarrow> int result" where
  "int_check i = (if int32 i then Inr i else Inl (UndefinedBehaviour ''signed overflow''))"

lemma int_check_Inr [simp]: "int_check i = Inr j \<longleftrightarrow> int32 i \<and> j = i"
  by (auto simp: int_check_def)

lemma int_check_ok [simp]: "int32 i \<Longrightarrow> int_check i = Inr i"
  by simp

partial_function (option) for_int ::
    "(int \<Rightarrow> bool) \<Rightarrow> int \<Rightarrow> (int \<Rightarrow> 's \<Rightarrow> 's result option) \<Rightarrow> int \<Rightarrow> 's \<Rightarrow> 's result option" where
  "for_int stop stride body index s =
     (if stop index then Some (Inr s)
      else (case body index s of
              None \<Rightarrow> None
            | Some (Inl e) \<Rightarrow> Some (Inl e)
            | Some (Inr s) \<Rightarrow>
                (case int_check (index + stride) of
                   Inl e \<Rightarrow> Some (Inl e)
                 | Inr index \<Rightarrow> for_int stop stride body index s)))"

text \<open>A loop that runs for the given indices and then stops.\<close>

fun runs :: "(int \<Rightarrow> bool) \<Rightarrow> int \<Rightarrow> int \<Rightarrow> nat \<Rightarrow> bool" where
  "runs stop stride index 0 \<longleftrightarrow> stop index"
| "runs stop stride index (Suc n) \<longleftrightarrow>
     \<not> stop index \<and> int32 (index + stride) \<and> runs stop stride (index + stride) n"

definition steps :: "int \<Rightarrow> int \<Rightarrow> nat \<Rightarrow> int list" where
  "steps index stride n = map (\<lambda>k. index + int k * stride) [0..<n]"

lemma steps_simps [simp]:
  "steps index stride 0 = []" "length (steps index stride n) = n"
  "steps index stride (Suc n) = index # steps (index + stride) stride n"
proof -
  show "steps index stride (Suc n) = index # steps (index + stride) stride n"
    by (rule nth_equalityI)
      (auto simp: steps_def nth_Cons algebra_simps simp del: upt_Suc split: nat.split)
qed (simp_all add: steps_def)

lemma steps_nth: "k < n \<Longrightarrow> steps index stride n ! k = index + int k * stride"
  by (simp add: steps_def)

lemma for_int_runs:
  assumes "runs stop stride index n" "\<And>i t. i \<in> set (steps index stride n) \<Longrightarrow> body i t = Some (f i t)"
  shows "for_int stop stride body index s = Some (foldR f (steps index stride n) s)"
  using assms
proof (induction n arbitrary: index s)
  case 0
  then show ?case by (simp add: for_int.simps)
next
  case (Suc n)
  have "body index s = Some (f index s)" using Suc.prems(2) by simp
  moreover have "for_int stop stride body (index + stride) t =
      Some (foldR f (steps (index + stride) stride n) t)" for t
    using Suc.prems by (intro Suc.IH) auto
  ultimately show ?case
    using Suc.prems(1) by (subst for_int.simps) (cases "f index s"; simp)
qed

end
