(* ===== verification/TensorUtils.thy ===== *)
theory TensorUtils
  imports Kernels
begin

section \<open>Shape utilities (src/armnnUtils/TensorUtils.cpp)\<close>

text \<open>
  Reading a size of a shape may throw, so every loop over the sizes is a loop that may fail.
  \<open>Dequantize\<close> takes the product of an integer, converted to \<open>float\<close>, and a scale as a parameter \<open>scaled\<close>,
  because the model has no floating-point arithmetic.
\<close>

subsection \<open>Definitions\<close>

definition GetTensorShape :: "nat \<Rightarrow> nat \<Rightarrow> nat \<Rightarrow> nat \<Rightarrow> DataLayout \<Rightarrow> TensorShape result" where
  "GetTensorShape numberOfBatches numberOfChannels height width dataLayout =
     (case dataLayout of
        NCHW \<Rightarrow> TensorShape_of_list [numberOfBatches, numberOfChannels, height, width]
      | NHWC \<Rightarrow> TensorShape_of_list [numberOfBatches, height, width, numberOfChannels]
      | _ \<Rightarrow> Inl (InvalidArgumentException ''Unknown data layout''))"

definition GetTensorInfo4 :: "nat \<Rightarrow> nat \<Rightarrow> nat \<Rightarrow> nat \<Rightarrow> DataLayout \<Rightarrow> DataType \<Rightarrow> TensorInfo result" where
  "GetTensorInfo4 numberOfBatches numberOfChannels height width dataLayout dataType =
     bindR (GetTensorShape numberOfBatches numberOfChannels height width dataLayout) (\<lambda>s.
     Inr (TensorInfo_of_shape s dataType float_one 0 False))"

definition GetTensorInfo5 :: "nat \<Rightarrow> nat \<Rightarrow> nat \<Rightarrow> nat \<Rightarrow> nat \<Rightarrow> DataLayout \<Rightarrow> DataType \<Rightarrow> TensorInfo result" where
  "GetTensorInfo5 numberOfBatches numberOfChannels depth height width dataLayout dataType =
     bindR (case dataLayout of
        NDHWC \<Rightarrow> TensorShape_of_list [numberOfBatches, depth, height, width, numberOfChannels]
      | NCDHW \<Rightarrow> TensorShape_of_list [numberOfBatches, numberOfChannels, depth, height, width]
      | _ \<Rightarrow> Inl (InvalidArgumentException ''Unknown data layout'')) (\<lambda>s.
     Inr (TensorInfo_of_shape s dataType float_one 0 False))"

text \<open>All sizes of a shape, read one by one.\<close>

definition read_dims :: "TensorShape \<Rightarrow> nat list result" where
  "read_dims s = bindR (GetNumDimensions s) (\<lambda>n. mapR (TensorShape_get s) [0..<n])"

definition ReduceDims_step :: "TensorShape \<Rightarrow> nat \<Rightarrow> nat \<Rightarrow> nat list \<times> nat \<times> bool \<Rightarrow> (nat list \<times> nat \<times> bool) result" where
  "ReduceDims_step tensorShape dimsToSkip i st =
     (case st of (newShape, dimsSkipped, insertRemainder) \<Rightarrow>
     bindR (TensorShape_get tensorShape i) (\<lambda>d.
     if d = 1 \<and> dimsSkipped < dimsToSkip \<and> \<not> insertRemainder
     then Inr (newShape, dimsSkipped + 1, insertRemainder)
     else Inr (newShape @ [d], dimsSkipped, True)))"

definition ReduceDims :: "TensorShape \<Rightarrow> nat \<Rightarrow> TensorShape result" where
  "ReduceDims tensorShape dimensions =
     bindR (GetNumDimensions tensorShape) (\<lambda>n.
     if n \<le> dimensions then Inr tensorShape
     else bindR (foldR (ReduceDims_step tensorShape (n - dimensions)) [0..<n] ([], 0, False))
            (\<lambda>(newShape, _, _). TensorShape_of_list newShape))"

definition ReduceDims_info :: "TensorInfo \<Rightarrow> nat \<Rightarrow> TensorInfo result" where
  "ReduceDims_info tensorInfo dimensions =
     bindR (ReduceDims (m_Shape tensorInfo) dimensions) (\<lambda>s. Inr (SetShape tensorInfo s))"

definition ExpandDims :: "TensorShape \<Rightarrow> int \<Rightarrow> TensorShape result" where
  "ExpandDims tensorShape axis =
     bindR (GetNumDimensions tensorShape) (\<lambda>n.
     let outputDim = n + 1 in
     bindR (throw_if (axis < - int outputDim \<or> axis > int n)
       (InvalidArgumentException ''Invalid expansion axis'')) (\<lambda>_.
     let axis = (if axis < 0 then int outputDim + axis else axis) in
     bindR (read_dims tensorShape) (\<lambda>ds.
     TensorShape_of_list (take (nat axis) ds @ 1 # drop (nat axis) ds))))"

definition ExpandDimsToRank :: "TensorShape \<Rightarrow> nat \<Rightarrow> TensorShape result" where
  "ExpandDimsToRank tensorShape rank =
     bindR (GetNumDimensions tensorShape) (\<lambda>n.
     if n \<ge> rank then Inr tensorShape
     else bindR (read_dims tensorShape) (\<lambda>ds. TensorShape_of_list (replicate (rank - n) 1 @ ds)))"

definition SqueezeDims :: "TensorShape \<Rightarrow> nat list result" where
  "SqueezeDims tensorShape = bindR (read_dims tensorShape) (\<lambda>ds. Inr (filter (\<lambda>d. d \<noteq> 1) ds))"

definition product_step :: "TensorShape \<Rightarrow> nat \<Rightarrow> nat \<Rightarrow> nat result" where
  "product_step shape i count = bindR (TensorShape_get shape i) (\<lambda>d. Inr (u32_mul count d))"

definition GetNumElementsBetween :: "TensorShape \<Rightarrow> nat \<Rightarrow> nat \<Rightarrow> nat result" where
  "GetNumElementsBetween shape firstAxisInclusive lastAxisExclusive =
     bindR (throw_if (firstAxisInclusive > lastAxisExclusive)
       (InvalidArgumentException ''GetNumElementsBetween: firstAxisInclusive is greater than lastAxisExclusive'')) (\<lambda>_.
     bindR (GetNumDimensions shape) (\<lambda>n.
     bindR (throw_if (lastAxisExclusive > n)
       (InvalidArgumentException ''lastAxisExclusive is greater than the number of dimensions'')) (\<lambda>_.
     foldR (product_step shape) [firstAxisInclusive..<lastAxisExclusive] 1)))"

text \<open>\<open>numeric_cast\<close> to \<open>int\<close>.\<close>

definition int_cast :: "nat \<Rightarrow> int result" where
  "int_cast n = (if int n \<le> 2147483647 then Inr (int n) else Inl (BadNumericCast ''numeric_cast<int>''))"

definition GetUnsignedAxis :: "nat \<Rightarrow> int \<Rightarrow> nat result" where
  "GetUnsignedAxis inputDimension axis =
     bindR (int_cast inputDimension) (\<lambda>d.
     bindR (throw_if (axis \<ge> d) (InvalidArgumentException ''axis index is not less than the number of dimensions'')) (\<lambda>_.
     bindR (throw_if (axis < - d) (InvalidArgumentException ''axis index lower than the negative of the number of dimensions'')) (\<lambda>_.
     Inr (if axis < 0 then inputDimension - nat \<bar>axis\<bar> else nat axis))))"

definition GetNumElementsAfter :: "TensorShape \<Rightarrow> nat \<Rightarrow> nat result" where
  "GetNumElementsAfter shape axis =
     bindR (GetNumDimensions shape) (\<lambda>numDim.
     bindR (throw_if (axis \<ge> numDim) (InvalidArgumentException ''axis index indexes beyond the number of dimesions'')) (\<lambda>_.
     foldR (product_step shape) [axis + 1..<numDim] 1))"

definition GetPerAxisParams :: "TensorInfo \<Rightarrow> (nat \<times> float32 list) result" where
  "GetPerAxisParams info =
     bindR (throw_if (\<not> HasPerAxisQuantization info)
       (InvalidArgumentException ''Per-axis quantization params not set'')) (\<lambda>_.
     case m_QuantizationDim (m_Quantization info) of
       None \<Rightarrow> Inl (BadOptionalAccessException ''Optional has no value'')
     | Some dim \<Rightarrow> bindR (GetNumElementsAfter (m_Shape info) dim) (\<lambda>axisFactor.
         Inr (axisFactor, m_Scales (m_Quantization info))))"

definition CheckSizes :: "nat \<Rightarrow> TensorInfo \<Rightarrow> nat \<Rightarrow> unit result" where
  "CheckSizes dataSize tensorInfo size' =
     bindR (GetNumElements (m_Shape tensorInfo)) (\<lambda>n.
     throw_if (dataSize div size' \<noteq> n)
       (InvalidArgumentException ''The data does not contain the expected number of elements''))"

text \<open>
  \<open>armnn::Dequantize\<close> (\<open>src/armnn/TypesUtils.cpp\<close>) of a value of an integer type. The difference is
  computed in \<open>int\<close> for the types up to 32 bits and in 64 bits for \<open>int64_t\<close> (\<open>bits\<close>); its overflow is
  undefined behaviour. The test of the value for NaN never succeeds, an integer is none.
\<close>

definition difference :: "nat \<Rightarrow> int \<Rightarrow> int \<Rightarrow> int result" where
  "difference bits value offset =
     (if - (2 ^ (bits - 1)) \<le> value - offset \<and> value - offset < 2 ^ (bits - 1) then Inr (value - offset)
      else Inl (UndefinedBehaviour ''signed overflow''))"

definition Dequantize :: "(int \<Rightarrow> float32 \<Rightarrow> 'f) \<Rightarrow> nat \<Rightarrow> int \<Rightarrow> float32 \<Rightarrow> int \<Rightarrow> 'f result" where
  "Dequantize scaled bits value scale offset =
     bindR (throw_if (float_zero scale) (InvalidArgumentException ''Dequantize: Scale cannot be 0.f'')) (\<lambda>_.
     bindR (difference bits value offset) (\<lambda>d.
     Inr (scaled d scale)))"

definition per_axis_element ::
    "(int \<Rightarrow> float32 \<Rightarrow> 'f) \<Rightarrow> nat \<Rightarrow> int list \<Rightarrow> TensorInfo \<Rightarrow> nat \<Rightarrow> nat \<Rightarrow> nat \<Rightarrow> 'f result" where
  "per_axis_element scaled bits data tensorInfo axisDimensionality axisFactor i =
     bindR (if i < axisFactor then Inr 0
            else if axisFactor = 0 \<or> axisDimensionality = 0 then Inl (UndefinedBehaviour ''division by zero'')
            else Inr (i div axisFactor mod axisDimensionality)) (\<lambda>axisIndex.
     bindR (peek data i) (\<lambda>x.
     bindR (peek (m_Scales (m_Quantization tensorInfo)) axisIndex) (\<lambda>scale.
     Dequantize scaled bits x scale (GetQuantizationOffset tensorInfo))))"

text \<open>\<open>GetQuantizationScale\<close> is read again for every element.\<close>

definition ToFloatArray ::
    "(int \<Rightarrow> float32 \<Rightarrow> 'f) \<Rightarrow> nat \<Rightarrow> int list \<Rightarrow> TensorInfo \<Rightarrow> 'f list result" where
  "ToFloatArray scaled bits data tensorInfo =
     bindR (CheckSizes (length data) tensorInfo 1) (\<lambda>_.
     bindR (GetNumElements (m_Shape tensorInfo)) (\<lambda>n.
     if HasPerAxisQuantization tensorInfo then
       (case m_QuantizationDim (m_Quantization tensorInfo) of
          None \<Rightarrow> Inl (BadOptionalAccessException ''Optional has no value'')
        | Some axis \<Rightarrow>
            bindR (TensorShape_get (m_Shape tensorInfo) axis) (\<lambda>axisDimensionality.
            bindR (GetNumElementsAfter (m_Shape tensorInfo) axis) (\<lambda>axisFactor.
            mapR (per_axis_element scaled bits data tensorInfo axisDimensionality axisFactor) [0..<n])))
     else
       mapR (\<lambda>i. bindR (peek data i) (\<lambda>x.
                  bindR (GetQuantizationScale tensorInfo) (\<lambda>scale.
                  Dequantize scaled bits x scale (GetQuantizationOffset tensorInfo)))) [0..<n]))"

text \<open>
  The overload for bytes: they are copied over a zeroed buffer of as many integers as the tensor has
  elements and read back as integers of \<open>k\<close> bytes (little endian). \<open>memcpy\<close> copies \<open>data.size()\<close> bytes.
\<close>

fun le_value :: "8 word list \<Rightarrow> int" where
  "le_value [] = 0"
| "le_value (b # bs) = uint b + 256 * le_value bs"

definition signed_value :: "8 word list \<Rightarrow> int" where
  "signed_value bs = (let v = le_value bs in if v < 2 ^ (8 * length bs - 1) then v else v - 2 ^ (8 * length bs))"

definition memcpy_values :: "nat \<Rightarrow> nat \<Rightarrow> 8 word list \<Rightarrow> int list result" where
  "memcpy_values k n data =
     (if length data > n * k then Inl (UndefinedBehaviour ''memcpy past the end of the buffer'')
      else Inr (map (\<lambda>i. signed_value (take k (drop (i * k) (data @ replicate (n * k - length data) 0)))) [0..<n]))"

definition ToFloatArray_bytes :: "(int \<Rightarrow> float32 \<Rightarrow> 'f) \<Rightarrow> 8 word list \<Rightarrow> TensorInfo \<Rightarrow> 'f list result" where
  "ToFloatArray_bytes scaled data tensorInfo =
     (let copied = (\<lambda>k bits.
            bindR (CheckSizes (length data) tensorInfo k) (\<lambda>_.
            bindR (GetNumElements (m_Shape tensorInfo)) (\<lambda>n.
            bindR (memcpy_values k n data) (\<lambda>buffer. ToFloatArray scaled bits buffer tensorInfo))))
      in if m_DataType tensorInfo = QAsymmS8 \<or> m_DataType tensorInfo = QSymmS8 then copied 1 32
         else if m_DataType tensorInfo = QAsymmU8 then
           bindR (CheckSizes (length data) tensorInfo 1) (\<lambda>_. ToFloatArray scaled 32 (map uint data) tensorInfo)
         else if m_DataType tensorInfo = Signed32 then copied 4 32
         else if m_DataType tensorInfo = Signed64 then copied 8 64
         else Inl (InvalidArgumentException ''Unsupported datatype''))"

subsection \<open>What they compute\<close>

lemma read_dims_specified [simp]: "specified_shape s ds \<Longrightarrow> read_dims s = Inr ds"
proof -
  assume s: "specified_shape s ds"
  have "mapR (TensorShape_get s) [0..<length ds] = Inr (map ((!) ds) [0..<length ds])"
    using s by (intro mapR_pure) simp
  then show ?thesis using s by (simp add: read_dims_def map_nth)
qed

lemma SqueezeDims_specified:
  "specified_shape s ds \<Longrightarrow> SqueezeDims s = Inr (filter (\<lambda>d. d \<noteq> 1) ds)"
  by (simp add: SqueezeDims_def)

lemma specified_shape_mk [simp]:
  "specified_shape \<lparr>m_Dimensions = ds, m_DimensionsSpecificity = replicate (length ds) True, m_Dimensionality = Specified\<rparr> ds"
  by (simp add: specified_shape_def)

lemma TensorShape_of_list_Inr:
  "1 \<le> length ds \<Longrightarrow> length ds \<le> MaxNumOfTensorDimensions \<Longrightarrow>
   \<exists>s. TensorShape_of_list ds = Inr s \<and> specified_shape s ds"
  using TensorShape_of_list_ok [of ds] by (auto simp: specified_shape_def)

lemma specified_shape_fun: "specified_shape s ds \<Longrightarrow> specified_shape s es \<Longrightarrow> ds = es"
  by (simp add: specified_shape_def)

text \<open>The leading ones that \<open>ReduceDims\<close> drops: as many as there are, at most the surplus.\<close>

fun drop_ones :: "nat \<Rightarrow> nat list \<Rightarrow> nat list" where
  "drop_ones (Suc k) (d # ds) = (if d = 1 then drop_ones k ds else d # ds)"
| "drop_ones _ ds = ds"

lemma ReduceDims_kept:
  assumes "specified_shape s ds" "i \<le> length ds" "rem \<or> dimsToSkip \<le> k"
  shows "\<exists>r. foldR (ReduceDims_step s dimsToSkip) [i..<length ds] (acc, k, rem) = Inr (acc @ drop i ds, k, r)"
  using assms
proof (induction "length ds - i" arbitrary: i acc rem)
  case 0
  then show ?case by simp
next
  case (Suc n)
  then have i: "i < length ds" by simp
  have step: "ReduceDims_step s dimsToSkip i (acc, k, rem) = Inr (acc @ [ds ! i], k, True)"
    using Suc.prems i by (auto simp: ReduceDims_step_def)
  have "\<exists>r. foldR (ReduceDims_step s dimsToSkip) [Suc i..<length ds] (acc @ [ds ! i], k, True) =
      Inr ((acc @ [ds ! i]) @ drop (Suc i) ds, k, r)"
    using Suc i by (intro Suc.hyps) auto
  then show ?case using i step by (auto simp: upt_conv_Cons Cons_nth_drop_Suc)
qed

lemma ReduceDims_loop:
  assumes "specified_shape s ds" "i \<le> length ds" "k \<le> dimsToSkip"
  shows "\<exists>j r. foldR (ReduceDims_step s dimsToSkip) [i..<length ds] ([], k, False) =
    Inr (drop_ones (dimsToSkip - k) (drop i ds), j, r)"
  using assms
proof (induction "length ds - i" arbitrary: i k)
  case 0
  then show ?case by (cases "dimsToSkip - k") auto
next
  case (Suc n)
  then have i: "i < length ds" by simp
  have list: "[i..<length ds] = i # [Suc i..<length ds]" "drop i ds = ds ! i # drop (Suc i) ds"
    using i by (simp_all add: upt_conv_Cons Cons_nth_drop_Suc)
  show ?case
  proof (cases "ds ! i = 1 \<and> k < dimsToSkip")
    case True
    then have "\<exists>j r. foldR (ReduceDims_step s dimsToSkip) [Suc i..<length ds] ([], Suc k, False) =
        Inr (drop_ones (dimsToSkip - Suc k) (drop (Suc i) ds), j, r)"
      using Suc i by (intro Suc.hyps) auto
    moreover have "dimsToSkip - k = Suc (dimsToSkip - Suc k)" using True by linarith
    ultimately show ?thesis using True Suc.prems i by (simp add: list ReduceDims_step_def)
  next
    case False
    then have "ReduceDims_step s dimsToSkip i ([], k, False) = Inr ([ds ! i], k, True)"
      using Suc.prems i by (auto simp: ReduceDims_step_def)
    moreover have "drop_ones (dimsToSkip - k) (drop i ds) = drop i ds"
      using False Suc.prems(3) list by (cases "dimsToSkip - k") auto
    moreover have "\<exists>r. foldR (ReduceDims_step s dimsToSkip) [Suc i..<length ds] ([ds ! i], k, True) =
        Inr ([ds ! i] @ drop (Suc i) ds, k, r)"
      using Suc.prems(1) i by (intro ReduceDims_kept) auto
    ultimately show ?thesis using list by auto
  qed
qed

lemma drop_ones_prod: "prod_list (drop_ones k ds) = prod_list ds"
  by (induction k ds rule: drop_ones.induct) auto

lemma drop_ones_length: "length ds - k \<le> length (drop_ones k ds)" "length (drop_ones k ds) \<le> length ds"
  by (induction k ds rule: drop_ones.induct) auto

lemma drop_ones_replicate: "drop_ones k (replicate k 1 @ ds) = ds"
  by (induction k) (auto split: list.split)

lemma ReduceDims_specified:
  assumes "specified_shape s ds" "length ds \<le> MaxNumOfTensorDimensions" "0 < n" "n < length ds"
  shows "\<exists>t. ReduceDims s n = Inr t \<and> specified_shape t (drop_ones (length ds - n) ds)"
proof -
  obtain j r where "foldR (ReduceDims_step s (length ds - n)) [0..<length ds] ([], 0, False) =
      Inr (drop_ones (length ds - n) ds, j, r)"
    using ReduceDims_loop [OF assms(1), of 0 0 "length ds - n"] by auto
  then show ?thesis
    using assms TensorShape_of_list_Inr [of "drop_ones (length ds - n) ds"] drop_ones_length [where ds = ds and k = "length ds - n"]
    by (simp add: ReduceDims_def)
qed

lemma ExpandDimsToRank_specified:
  assumes "specified_shape s ds" "length ds < rank" "rank \<le> MaxNumOfTensorDimensions"
  shows "\<exists>t. ExpandDimsToRank s rank = Inr t \<and> specified_shape t (replicate (rank - length ds) 1 @ ds)"
  using assms TensorShape_of_list_Inr [of "replicate (rank - length ds) 1 @ ds"]
  by (simp add: ExpandDimsToRank_def)

lemma ExpandDims_specified:
  assumes "specified_shape s ds" "length ds < MaxNumOfTensorDimensions"
    "- int (length ds) - 1 \<le> axis" "axis \<le> int (length ds)"
  defines "k \<equiv> nat (if axis < 0 then int (length ds + 1) + axis else axis)"
  shows "\<exists>t. ExpandDims s axis = Inr t \<and> specified_shape t (take k ds @ 1 # drop k ds)"
proof -
  have "ExpandDims s axis = TensorShape_of_list (take k ds @ 1 # drop k ds)"
    using assms(1,3,4) by (simp add: ExpandDims_def Let_def k_def)
  moreover have "length (take k ds @ 1 # drop k ds) \<le> MaxNumOfTensorDimensions"
    using assms(2) by simp
  ultimately show ?thesis using TensorShape_of_list_Inr [of "take k ds @ 1 # drop k ds"] by simp
qed

lemma product_loop:
  assumes "specified_shape s ds" "b \<le> length ds" "a \<le> b" "c < 2 ^ 32"
  shows "foldR (product_step s) [a..<b] c = Inr (u32 (c * prod_list (drop a (take b ds))))"
  using assms
proof (induction "b - a" arbitrary: a c)
  case 0
  then show ?case by (simp add: u32_def)
next
  case (Suc n)
  then have a: "a < b" "a < length ds" by auto
  have "foldR (product_step s) [Suc a..<b] (u32_mul c (ds ! a)) =
      Inr (u32 (u32_mul c (ds ! a) * prod_list (drop (Suc a) (take b ds))))"
    using Suc a by (intro Suc.hyps) auto
  moreover have "product_step s a c = Inr (u32_mul c (ds ! a))"
    using Suc.prems a by (simp add: product_step_def)
  moreover have "drop a (take b ds) = ds ! a # drop (Suc a) (take b ds)"
    using a by (metis Cons_nth_drop_Suc length_take min_less_iff_conj nth_take)
  ultimately show ?case
    using a by (simp add: upt_conv_Cons u32_def u32_mul_def mod_mult_left_eq mult.assoc)
qed

lemma GetNumElementsBetween_specified:
  assumes "specified_shape s ds" "a \<le> b" "b \<le> length ds"
  shows "GetNumElementsBetween s a b = Inr (u32 (prod_list (drop a (take b ds))))"
  using assms product_loop [OF assms(1,3,2), of 1] by (simp add: GetNumElementsBetween_def)

lemma GetNumElementsAfter_specified:
  assumes "specified_shape s ds" "axis < length ds"
  shows "GetNumElementsAfter s axis = Inr (u32 (prod_list (drop (Suc axis) ds)))"
  using assms product_loop [OF assms(1) order_refl, of "Suc axis" 1] by (simp add: GetNumElementsAfter_def)

lemma GetUnsignedAxis_iff:
  assumes "n < 2147483648"
  shows "GetUnsignedAxis n axis = Inr k \<longleftrightarrow>
    - int n \<le> axis \<and> axis < int n \<and> k = nat (if axis < 0 then int n + axis else axis)"
  using assms by (auto simp: GetUnsignedAxis_def int_cast_def split: if_splits)

text \<open>The index of an element on an axis, from its position in memory.\<close>

lemma unflat_axis:
  assumes "k < length ds" "i < prod_list ds"
  shows "unflat ds i ! k = i div prod_list (drop (Suc k) ds) mod (ds ! k)"
  using assms
proof (induction ds arbitrary: i k)
  case Nil
  then show ?case by simp
next
  case (Cons d ds)
  show ?case
  proof (cases k)
    case 0
    have "i div prod_list ds < d" using Cons.prems(2) by (simp add: less_mult_imp_div_less)
    then show ?thesis using 0 by simp
  next
    case (Suc j)
    have pos: "0 < prod_list ds" using Cons.prems(2) by (cases "prod_list ds") auto
    have j: "j < length ds" using Cons.prems(1) Suc by simp
    have split: "prod_list ds = prod_list (take j ds) * (ds ! j * prod_list (drop (Suc j) ds))"
      using j by (metis Cons_nth_drop_Suc prod_list.Cons prod_list_take_drop)
    let ?m = "prod_list (drop (Suc j) ds)"
    have "unflat (d # ds) i ! k = (i mod prod_list ds) div ?m mod (ds ! j)"
      using Cons.IH [OF j, of "i mod prod_list ds"] pos Suc by simp
    also have "(i mod prod_list ds) div ?m = i div ?m mod (prod_list (take j ds) * ds ! j)"
    proof -
      have "prod_list ds = ?m * (prod_list (take j ds) * ds ! j)" using split by (simp add: ac_simps)
      moreover have "0 < ?m" using pos split by (cases "?m") auto
      ultimately show ?thesis by (simp add: mod_mult2_eq)
    qed
    also have "\<dots> mod (ds ! j) = i div ?m mod (ds ! j)" by (simp add: mod_mod_cancel)
    finally show ?thesis using Suc by simp
  qed
qed

text \<open>
  A loop whose elements fail with one exception or none: it fails with that exception exactly when
  some element does.
\<close>

lemma mapR_throws:
  assumes "\<And>i. i \<in> set xs \<Longrightarrow> f i = (if bad i then Inl e else Inr (g i))"
  shows "mapR f xs = (if \<exists>i \<in> set xs. bad i then Inl e else Inr (map g xs))"
  using assms by (induction xs) auto

lemma mapR_same: "(\<And>i. i \<in> set xs \<Longrightarrow> f i = g i) \<Longrightarrow> mapR f xs = mapR g xs"
  by (induction xs) auto

text \<open>The scale of an element: that of its index on the quantized axis, or the only one.\<close>

definition scale_of :: "TensorInfo \<Rightarrow> nat list \<Rightarrow> nat \<Rightarrow> float32" where
  "scale_of info ds i =
     (case m_QuantizationDim (m_Quantization info) of
        Some axis \<Rightarrow> m_Scales (m_Quantization info) ! (unflat ds i ! axis)
      | None \<Rightarrow> hd (m_Scales (m_Quantization info) @ [float_one]))"

lemma ToFloatArray_elements:
  assumes "specified_shape (m_Shape info) ds" "prod_list ds < 2 ^ 32" "length data = prod_list ds" "ds \<noteq> []"
    "case m_QuantizationDim (m_Quantization info) of
       Some axis \<Rightarrow> axis < length ds \<and> length (m_Scales (m_Quantization info)) = ds ! axis
     | None \<Rightarrow> length (m_Scales (m_Quantization info)) \<le> 1"
  shows "ToFloatArray scaled bits data info =
    mapR (\<lambda>i. Dequantize scaled bits (data ! i) (scale_of info ds i) (GetQuantizationOffset info)) [0..<prod_list ds]"
proof -
  let ?q = "m_Quantization info"
  have n: "GetNumElements (m_Shape info) = Inr (prod_list ds)"
    using GetNumElements_specified [OF assms(1)] assms(2,4) by simp
  then have start: "CheckSizes (length data) info 1 = Inr ()" using assms(3) by (simp add: CheckSizes_def)
  show ?thesis
  proof (cases "m_QuantizationDim ?q")
    case None
    then have "GetQuantizationScale info = Inr (hd (m_Scales ?q @ [float_one]))"
      using assms(5) by (cases "m_Scales ?q") (auto simp: GetQuantizationScale_def HasMultipleQuantizationScales_def)
    then show ?thesis
      using start n None assms(3,5)
      by (auto simp: ToFloatArray_def HasPerAxisQuantization_def HasMultipleQuantizationScales_def scale_of_def
          intro!: mapR_same)
  next
    case (Some axis)
    then have axis: "axis < length ds" "length (m_Scales ?q) = ds ! axis" using assms(5) by simp_all
    let ?m = "prod_list (drop (Suc axis) ds)"
    have split: "prod_list ds = prod_list (take axis ds) * (ds ! axis * ?m)"
      using axis(1) by (metis Cons_nth_drop_Suc prod_list.Cons prod_list_take_drop)
    have "per_axis_element scaled bits data info (ds ! axis) (u32 ?m) i =
        Dequantize scaled bits (data ! i) (scale_of info ds i) (GetQuantizationOffset info)"
      if "i < prod_list ds" for i
    proof -
      have "0 < prod_list ds" using that by simp
      then have pos: "0 < ?m" "0 < ds ! axis" "?m \<le> prod_list ds" using split by (auto simp: Suc_le_eq)
      then have small: "u32 ?m = ?m" using assms(2) by (intro u32_small) simp
      have "unflat ds i ! axis = i div ?m mod ds ! axis" using unflat_axis [OF axis(1) that] .
      moreover have "i div ?m mod ds ! axis < ds ! axis" using pos by simp
      ultimately show ?thesis using that pos axis(2) assms(3) Some
        by (auto simp: per_axis_element_def small scale_of_def)
    qed
    then show ?thesis
      using start n Some axis assms(1) GetNumElementsAfter_specified [OF assms(1) axis(1)]
      by (auto simp: ToFloatArray_def HasPerAxisQuantization_def intro!: mapR_same)
  qed
qed

text \<open>
  Bytes that are no multiple of the size of an integer pass the check of the overload, and \<open>memcpy\<close>
  then writes past the end of the buffer.
\<close>

lemma ToFloatArray_bytes_overflow:
  assumes "GetNumElements (m_Shape info) = Inr n" "m_DataType info = Signed32" "length data = 4 * n + r" "0 < r" "r < 4"
  shows "ToFloatArray_bytes scaled data info = Inl (UndefinedBehaviour ''memcpy past the end of the buffer'')"
  using assms by (simp add: ToFloatArray_bytes_def CheckSizes_def memcpy_values_def throw_if_def)

text \<open>
  C31: \<open>ToFloatArray\<close> dequantizes every element with the scale of its own slice. Take a tensor with at
  least one dimension, fewer than 2^32 elements and as many values, either quantized along an axis it
  has, with as many scales as that axis is long, or with at most one scale (\<open>1.0f\<close> if there is none),
  no value so far from the quantization offset that the difference overflows. If the scale of some
  element is zero the call throws the \<open>InvalidArgumentException\<close> of \<open>Dequantize\<close>; otherwise the element
  at memory position \<open>i\<close> is its distance from the offset times the scale at its index on the axis,
  although the code computes that index from \<open>i\<close> with one division and one remainder and treats the
  first \<open>axisFactor\<close> elements apart; with a single scale every element gets it.
\<close>

theorem ToFloatArray_correct:
  assumes "specified_shape (m_Shape info) ds" "prod_list ds < 2 ^ 32" "length data = prod_list ds" "ds \<noteq> []"
    "case m_QuantizationDim (m_Quantization info) of
       Some axis \<Rightarrow> axis < length ds \<and> length (m_Scales (m_Quantization info)) = ds ! axis
     | None \<Rightarrow> length (m_Scales (m_Quantization info)) \<le> 1"
    "\<forall>x \<in> set data. - (2 ^ (bits - 1)) \<le> x - GetQuantizationOffset info \<and> x - GetQuantizationOffset info < 2 ^ (bits - 1)"
  shows "ToFloatArray scaled bits data info =
    (let scale = (\<lambda>i. case m_QuantizationDim (m_Quantization info) of
         Some axis \<Rightarrow> m_Scales (m_Quantization info) ! (unflat ds i ! axis)
       | None \<Rightarrow> hd (m_Scales (m_Quantization info) @ [float_one]))
     in if \<exists>i < prod_list ds. float_zero (scale i)
        then Inl (InvalidArgumentException ''Dequantize: Scale cannot be 0.f'')
        else Inr (map (\<lambda>i. scaled (data ! i - GetQuantizationOffset info) (scale i)) [0..<prod_list ds]))"
proof -
  let ?o = "GetQuantizationOffset info" and ?s = "scale_of info ds"
  have "mapR (\<lambda>i. Dequantize scaled bits (data ! i) (?s i) ?o) [0..<prod_list ds] =
    (if \<exists>i \<in> set [0..<prod_list ds]. float_zero (?s i)
     then Inl (InvalidArgumentException ''Dequantize: Scale cannot be 0.f'')
     else Inr (map (\<lambda>i. scaled (data ! i - ?o) (?s i)) [0..<prod_list ds]))"
    using assms(3,6) by (intro mapR_throws) (simp add: Dequantize_def difference_def throw_if_def)
  then show ?thesis
    unfolding ToFloatArray_elements [OF assms(1-5)] Let_def scale_of_def [symmetric] by simp
qed

definition two_channels :: "float32 list \<Rightarrow> TensorInfo" where
  "two_channels scales = TensorInfo_per_axis
     \<lparr>m_Dimensions = [2, 2, 1], m_DimensionsSpecificity = replicate 3 True, m_Dimensionality = Specified\<rparr>
     QSymmS8 scales 1 True"

theorem ToFloatArray_correct_witness:
  "ToFloatArray Pair 32 [5, 6, 7, 8] (two_channels [1, 2]) = Inr [(5, 1), (6, 2), (7, 1), (8, 2)] \<and>
   ToFloatArray Pair 32 [5, 6, 7, 8] (two_channels [1, 0]) =
     Inl (InvalidArgumentException ''Dequantize: Scale cannot be 0.f'')"
proof -
  have four: "(\<exists>i < 4. P i) \<longleftrightarrow> P 0 \<or> P 1 \<or> P 2 \<or> P (3 :: nat)" for P
    by (auto simp: less_Suc_eq numeral_eq_Suc)
  have channels: "specified_shape (m_Shape (two_channels s)) [2, 2, 1]" "GetQuantizationOffset (two_channels s) = 0"
    "m_QuantizationDim (m_Quantization (two_channels s)) = Some 1" "m_Scales (m_Quantization (two_channels s)) = s" for s
    by (simp_all add: two_channels_def TensorInfo_per_axis_def SetQuantizationDim_def SetQuantizationScales_def
        specified_shape_def GetQuantizationOffset_def Quantization_default_def)
  note correct = ToFloatArray_correct [where data = "[5, 6, 7, 8]" and bits = 32 and scaled = Pair, OF channels(1)]
  show ?thesis
    using correct [of "[1, 2]"] correct [of "[1, 0]"] by (simp add: channels four float_zero_def upt_rec)
qed

end
