(* ===== verification/WorkloadChecks.thy ===== *)
theory WorkloadChecks
  imports TensorUtils
begin

section \<open>Checks of workload descriptors (src/backends/backendsCommon/WorkloadData.cpp)\<close>

text \<open>
  The helper functions that every \<open>Validate\<close> method is made of. A check returns \<open>Inr ()\<close> or the
  exception it throws; a method is the list of its checks under \<open>seqR\<close>, in the order of the code.
  \<open>throw_ifR\<close> is a check whose condition may itself throw. A tensor handle is \<open>None\<close> for \<open>nullptr\<close>.
\<close>

definition throw_ifR :: "bool result \<Rightarrow> exn \<Rightarrow> unit result" where
  "throw_ifR c e = bindR c (\<lambda>b. throw_if b e)"

definition map2R :: "('a \<Rightarrow> 'b \<Rightarrow> 'c) \<Rightarrow> 'a result \<Rightarrow> 'b result \<Rightarrow> 'c result" where
  "map2R f a b = bindR a (\<lambda>x. bindR b (\<lambda>y. Inr (f x y)))"

lemma throw_ifR_Inr [simp, result_simps]: "throw_ifR c e = Inr u \<longleftrightarrow> c = Inr False"
  by (auto simp: throw_ifR_def)

lemma map2R_Inr [simp, result_simps]: "map2R f a b = Inr z \<longleftrightarrow> (\<exists>x y. a = Inr x \<and> b = Inr y \<and> z = f x y)"
  by (auto simp: map2R_def)

lemma map2R_eval [simp]: "map2R f (Inr x) (Inr y) = Inr (f x y)"
  by (simp add: map2R_def)

lemma throw_ifR_eval [simp]: "throw_ifR (Inr b) e = throw_if b e"
  by (simp add: throw_ifR_def)

record WorkloadInfo =
  m_InputTensorInfos :: "TensorInfo list"
  m_OutputTensorInfos :: "TensorInfo list"
  m_WeightsTensorInfo :: "TensorInfo option"
  m_BiasTensorInfo :: "TensorInfo option"

definition invalid :: "bool \<Rightarrow> string \<Rightarrow> unit result" where
  "invalid c message = throw_if c (InvalidArgumentException message)"

lemma invalid_Inr [simp, result_simps]: "invalid c m = Inr u \<longleftrightarrow> \<not> c"
  by (simp add: invalid_def)

definition GetBiasDataType :: "DataType \<Rightarrow> DataType result" where
  "GetBiasDataType inputDataType =
     (case inputDataType of
        Float16 \<Rightarrow> Inr Float16
      | BFloat16 \<Rightarrow> Inr Float32
      | Float32 \<Rightarrow> Inr Float32
      | QAsymmS8 \<Rightarrow> Inr Signed32
      | QAsymmU8 \<Rightarrow> Inr Signed32
      | QSymmS8 \<Rightarrow> Inr Signed32
      | QSymmS16 \<Rightarrow> Inr Signed32
      | _ \<Rightarrow> Inl (AssertionFailure ''Invalid input data type''))"

subsection \<open>The helper functions\<close>

definition ValidatePointer :: "'h option \<Rightarrow> unit result" where
  "ValidatePointer ptr = invalid (ptr = None) ''Invalid null pointer''"

definition ValidateTensorShapesMatch :: "TensorInfo \<Rightarrow> TensorInfo \<Rightarrow> unit result" where
  "ValidateTensorShapesMatch first second =
     invalid (m_Shape first \<noteq> m_Shape second) ''must have identical shapes''"

definition ValidateNumInputs :: "WorkloadInfo \<Rightarrow> nat \<Rightarrow> unit result" where
  "ValidateNumInputs w expectedSize =
     invalid (length (m_InputTensorInfos w) \<noteq> expectedSize) ''Requires exactly input(s)''"

definition ValidateNumOutputs :: "WorkloadInfo \<Rightarrow> nat \<Rightarrow> unit result" where
  "ValidateNumOutputs w expectedSize =
     invalid (length (m_OutputTensorInfos w) \<noteq> expectedSize) ''Requires exactly output(s)''"

definition ValidateTensorNumElements :: "TensorInfo \<Rightarrow> nat \<Rightarrow> unit result" where
  "ValidateTensorNumElements tensor numElements =
     bindR (GetNumElements (m_Shape tensor)) (\<lambda>n. invalid (n \<noteq> numElements) ''Unexpected number of elements'')"

definition ValidateTensorDataType :: "TensorInfo \<Rightarrow> DataType \<Rightarrow> unit result" where
  "ValidateTensorDataType tensor dataType =
     invalid (m_DataType tensor \<noteq> dataType) ''Unexpected data type''"

definition ValidPerAxisQuantizedDataType :: "TensorInfo \<Rightarrow> unit result" where
  "ValidPerAxisQuantizedDataType tensor =
     invalid (m_DataType tensor \<noteq> QSymmS8) ''Expected data type which supports per-axis quantization scheme''"

definition ValidateTensorQuantizationSpace :: "TensorInfo \<Rightarrow> TensorInfo \<Rightarrow> unit result" where
  "ValidateTensorQuantizationSpace first second =
     (if \<not> IsQuantized first \<or> \<not> IsQuantized second then Inr ()
      else seqR
        [invalid (m_DataType first \<noteq> m_DataType second) ''must be of the same quantized type'',
         bindR (IsTypeSpaceMatch first second) (\<lambda>match.
           invalid (\<not> match) ''must have the same quantization space'')])"

definition ValidateBiasTensorQuantization :: "TensorInfo \<Rightarrow> TensorInfo \<Rightarrow> unit result" where
  "ValidateBiasTensorQuantization biasTensor weightsTensorInfo =
     seqR
       [invalid (GetQuantizationOffset biasTensor \<noteq> 0) ''Expected zero quantization offset for bias tensor'',
        if HasMultipleQuantizationScales biasTensor \<or> HasMultipleQuantizationScales weightsTensorInfo
        then invalid (length (m_Scales (m_Quantization weightsTensorInfo)) \<noteq> length (m_Scales (m_Quantization biasTensor)))
               ''Expected matching number of per-axis quantization scales for weights and bias''
        else Inr ()]"

text \<open>A vector that is not empty but shorter than expected is read outside.\<close>

definition ValidateTensors :: "'h option list \<Rightarrow> nat \<Rightarrow> unit result" where
  "ValidateTensors vec numExpected =
     seqR
       (invalid (vec = [] \<and> numExpected > 0) ''Invalid empty array'' #
        map (\<lambda>i. bindR (peek vec i) (\<lambda>h. invalid (h = None) ''Invalid NULL'')) [0..<numExpected])"

definition broadcast_dim :: "TensorInfo \<Rightarrow> TensorInfo \<Rightarrow> nat \<Rightarrow> nat result" where
  "broadcast_dim first second i =
     bindR (TensorShape_get (m_Shape first) i) (\<lambda>a.
     bindR (TensorShape_get (m_Shape second) i) (\<lambda>b.
     bindR (invalid (a \<noteq> b \<and> a \<noteq> 1 \<and> b \<noteq> 1) ''Broadcasting is not possible for incompatible shapes'') (\<lambda>_.
     Inr (max a b))))"

definition ValidateBroadcastTensorShapesMatch :: "TensorInfo \<Rightarrow> TensorInfo \<Rightarrow> TensorInfo \<Rightarrow> unit result" where
  "ValidateBroadcastTensorShapesMatch first second output =
     bindR (GetNumDimensions (m_Shape first)) (\<lambda>numDims.
     bindR (GetNumDimensions (m_Shape second)) (\<lambda>n2.
     bindR (invalid (numDims \<noteq> n2) ''must have the same number of dimensions in order to be broadcasted'') (\<lambda>_.
     bindR (mapR (broadcast_dim first second) [0..<numDims]) (\<lambda>outputDims.
     bindR (TensorShape_of_list outputDims) (\<lambda>broadcastShape.
     invalid (broadcastShape \<noteq> m_Shape output) ''does not match the output shape'')))))"

definition ValidateDataTypes :: "TensorInfo \<Rightarrow> DataType list \<Rightarrow> unit result" where
  "ValidateDataTypes info supportedTypes =
     invalid (m_DataType info \<notin> set supportedTypes) ''Tensor type is not supported.''"

definition ValidateTensorDataTypesMatch :: "TensorInfo \<Rightarrow> TensorInfo \<Rightarrow> unit result" where
  "ValidateTensorDataTypesMatch first second =
     invalid (m_DataType first \<noteq> m_DataType second) ''must have identical data types.''"

definition ValidateTensorNumElementsMatch :: "TensorInfo \<Rightarrow> TensorInfo \<Rightarrow> unit result" where
  "ValidateTensorNumElementsMatch first second =
     bindR (GetNumElements (m_Shape first)) (\<lambda>a. bindR (GetNumElements (m_Shape second)) (\<lambda>b.
     invalid (a \<noteq> b) ''must have the same number of elements.''))"

definition ValidateWeightDataType :: "TensorInfo \<Rightarrow> TensorInfo \<Rightarrow> unit result" where
  "ValidateWeightDataType inputInfo weightInfo =
     (if IsQuantized8BitType (m_DataType inputInfo)
      then ValidateDataTypes weightInfo [QAsymmS8, QAsymmU8, QSymmS8]
      else ValidateTensorDataTypesMatch inputInfo weightInfo)"

definition ValidatePerAxisQuantizationDimension :: "TensorInfo \<Rightarrow> unit result" where
  "ValidatePerAxisQuantizationDimension t =
     invalid (m_QuantizationDim (m_Quantization t) = None) ''Quantization dimension for per-axis quantization not set''"

definition ValidatePerAxisQuantizationOffset :: "TensorInfo \<Rightarrow> unit result" where
  "ValidatePerAxisQuantizationOffset t =
     invalid (GetQuantizationOffset t \<noteq> 0) ''Quantization offset for per-axis quantization expected to be 0''"

definition ValidatePerAxisQuantization ::
    "TensorInfo \<Rightarrow> TensorInfo \<Rightarrow> TensorInfo \<Rightarrow> TensorInfo option \<Rightarrow> unit result" where
  "ValidatePerAxisQuantization inputInfo outputInfo weightInfo optionalBiasInfo =
     (if \<not> HasPerAxisQuantization weightInfo then Inr ()
      else seqR
        ([invalid (\<not> (IsQuantized8BitType (m_DataType inputInfo) \<and> m_DataType inputInfo = m_DataType outputInfo))
            ''data type does not support per-axis quantization'',
          ValidPerAxisQuantizedDataType weightInfo,
          ValidatePerAxisQuantizationDimension weightInfo,
          ValidatePerAxisQuantizationOffset weightInfo] @
         (case optionalBiasInfo of
            None \<Rightarrow> []
          | Some biasInfo \<Rightarrow>
              [invalid (\<not> HasPerAxisQuantization biasInfo) ''Per-axis quantization parameters not set on bias tensor'',
               ValidateTensorDataType biasInfo Signed32,
               ValidatePerAxisQuantizationDimension biasInfo,
               ValidatePerAxisQuantizationOffset biasInfo])))"

text \<open>With \<open>m_AllowExpandedDims\<close> the number of dimensions is a minimum for the shape with its ones.\<close>

definition ValidateTensorNumDimensions :: "bool \<Rightarrow> TensorInfo \<Rightarrow> nat \<Rightarrow> unit result" where
  "ValidateTensorNumDimensions allowExpandedDims tensor numDimensions =
     (if allowExpandedDims then
        bindR (SqueezeDims (m_Shape tensor)) (\<lambda>squeezed.
        bindR (GetNumDimensions (m_Shape tensor)) (\<lambda>n.
        invalid (n < numDimensions \<or> length squeezed > numDimensions) ''Unexpected number of dimensions''))
      else
        bindR (GetNumDimensions (m_Shape tensor)) (\<lambda>n.
        invalid (n \<noteq> numDimensions) ''Unexpected number of dimensions''))"

definition ValidateTensorNumDimNumElem :: "bool \<Rightarrow> TensorInfo \<Rightarrow> nat \<Rightarrow> nat \<Rightarrow> unit result" where
  "ValidateTensorNumDimNumElem allowExpandedDims tensorInfo numDimension numElements =
     seqR [ValidateTensorNumDimensions allowExpandedDims tensorInfo numDimension,
           ValidateTensorNumElements tensorInfo numElements]"

definition ValidateInputsOutputs :: "'h option list \<Rightarrow> 'h option list \<Rightarrow> nat \<Rightarrow> nat \<Rightarrow> unit result" where
  "ValidateInputsOutputs inputs outputs numExpectedIn numExpectedOut =
     seqR [ValidateTensors inputs numExpectedIn, ValidateTensors outputs numExpectedOut]"

abbreviation input0 :: "WorkloadInfo \<Rightarrow> TensorInfo" where "input0 w \<equiv> m_InputTensorInfos w ! 0"
abbreviation output0 :: "WorkloadInfo \<Rightarrow> TensorInfo" where "output0 w \<equiv> m_OutputTensorInfos w ! 0"

lemmas workload_checks =
  ValidateNumInputs_def ValidateNumOutputs_def ValidateTensorShapesMatch_def ValidateTensorDataType_def
  ValidateDataTypes_def ValidateTensorDataTypesMatch_def

subsection \<open>What the checks establish\<close>

lemma ValidateTensorNumDimensions_strict [simp]:
  "specified_shape (m_Shape t) ds \<Longrightarrow> ValidateTensorNumDimensions False t n = Inr () \<longleftrightarrow> length ds = n"
  by (simp add: ValidateTensorNumDimensions_def)

text \<open>Two shapes broadcast to a third: equal sizes, or a one on either side.\<close>

definition broadcasts :: "nat list \<Rightarrow> nat list \<Rightarrow> nat list \<Rightarrow> bool" where
  "broadcasts as bs cs \<longleftrightarrow> length as = length cs \<and> length bs = length cs \<and>
     (\<forall>i < length cs. (as ! i = bs ! i \<or> as ! i = 1 \<or> bs ! i = 1) \<and> cs ! i = max (as ! i) (bs ! i))"

lemma ValidateBroadcast_iff:
  assumes "specified_shape (m_Shape a) as" "specified_shape (m_Shape b) bs" "specified_shape (m_Shape c) cs"
    "as \<noteq> []" "length as \<le> MaxNumOfTensorDimensions"
  shows "ValidateBroadcastTensorShapesMatch a b c = Inr () \<longleftrightarrow> broadcasts as bs cs"
proof -
  have dim: "broadcast_dim a b i = Inr d \<longleftrightarrow> (as ! i = bs ! i \<or> as ! i = 1 \<or> bs ! i = 1) \<and> d = max (as ! i) (bs ! i)"
    if "i < length as" "length bs = length as" for i d
    using that assms(1,2) by (auto simp: broadcast_dim_def)
  show ?thesis
  proof (cases "length bs = length as")
    case False
    then show ?thesis using assms(1,2) by (auto simp: ValidateBroadcastTensorShapesMatch_def broadcasts_def)
  next
    case True
    have dims: "mapR (broadcast_dim a b) [0..<length as] = Inr ds \<longleftrightarrow> broadcasts as bs ds" for ds
      using dim True by (auto simp: mapR_Inr_iff list_all2_conv_all_nth broadcasts_def)
    have shape: "TensorShape_of_list ds = Inr s \<longleftrightarrow> specified_shape s ds" if "broadcasts as bs ds" for ds s
      using that assms(4,5) TensorShape_of_list_ok [of ds s]
      by (cases as) (auto simp: broadcasts_def Suc_le_eq)
    have "ValidateBroadcastTensorShapesMatch a b c = Inr () \<longleftrightarrow>
        (\<exists>ds s. broadcasts as bs ds \<and> specified_shape s ds \<and> s = m_Shape c)"
      using assms(1,2) True dims shape by (auto simp: ValidateBroadcastTensorShapesMatch_def)
    also have "\<dots> \<longleftrightarrow> broadcasts as bs cs" using assms(3) specified_shape_fun by blast
    finally show ?thesis .
  qed
qed

end
