(* ===== verification/SliceKernels.thy ===== *)
theory SliceKernels
  imports WorkloadChecks "HOL-Library.Signed_Division"
begin

section \<open>Slicing\<close>

text \<open>
  Slices from end to end: the descriptor checks (\<open>WorkloadData.cpp\<close>), the shapes the layers infer
  (\<open>SliceLayer.cpp\<close>, \<open>StridedSliceLayer.cpp\<close>), the axis arithmetic (\<open>Descriptors.cpp\<close>) and the
  reference kernels (\<open>Slice.cpp\<close>, \<open>StridedSlice.cpp\<close>). A tensor is the list of its elements; the
  byte offsets of the code are computed modulo \<open>2 ^ 32\<close> and divided by the element size.
\<close>

subsection \<open>Slice\<close>

record SliceDescriptor =
  sl_Begin :: "nat list"
  sl_Size :: "nat list"

definition SliceQueueDescriptor_Validate :: "bool \<Rightarrow> SliceDescriptor \<Rightarrow> WorkloadInfo \<Rightarrow> unit result" where
  "SliceQueueDescriptor_Validate allowExpandedDims p w =
     (let inputTensorInfo = input0 w; outputTensorInfo = output0 w in
      bindR (seqR [ValidateNumInputs w 1, ValidateNumOutputs w 1,
                   ValidateTensorDataTypesMatch inputTensorInfo outputTensorInfo]) (\<lambda>_.
      bindR (GetNumDimensions (m_Shape inputTensorInfo)) (\<lambda>rank.
      seqR
        ([invalid (rank > 4) ''Input tensors with rank greater than 4 are not supported.'',
          ValidateTensorNumDimensions allowExpandedDims outputTensorInfo rank,
          invalid (length (sl_Begin p) \<noteq> rank) ''Length of begin offset descriptor must equal rank'',
          invalid (length (sl_Size p) \<noteq> rank) ''Length of size descriptor must equal rank''] @
         map (\<lambda>i. bindR (TensorShape_get (m_Shape outputTensorInfo) i) (\<lambda>d.
           invalid (sl_Size p ! i \<noteq> d) ''Size descriptor does not match output tensor.'')) [0..<rank] @
         map (\<lambda>i. bindR (TensorShape_get (m_Shape inputTensorInfo) i) (\<lambda>d.
           invalid (u32_add (sl_Begin p ! i) (sl_Size p ! i) > d)
             ''Sum of begin offset and size for dimension exceeds input size.'')) [0..<rank]))))"

definition SliceLayer_InferOutputShapes :: "SliceDescriptor \<Rightarrow> TensorShape list \<Rightarrow> TensorShape list result" where
  "SliceLayer_InferOutputShapes p inputShapes =
     bindR (throw_if (length inputShapes \<noteq> 1) (AssertionFailure ''inputShapes.size() == 1'')) (\<lambda>_.
     bindR (TensorShape_of_list (sl_Size p)) (\<lambda>s. Inr [s]))"

text \<open>One element: the byte offset, wrapped, and the copy to the running output position.\<close>

definition offset4 :: "nat list \<Rightarrow> nat \<Rightarrow> nat \<Rightarrow> nat \<Rightarrow> nat \<Rightarrow> nat \<Rightarrow> nat" where
  "offset4 dims dataTypeSize idx0 idx1 idx2 idx3 =
     u32_mul (u32_add (u32_mul (u32_add (u32_mul (u32_add (u32_mul idx0 (dims ! 1)) idx1) (dims ! 2)) idx2) (dims ! 3)) idx3)
       dataTypeSize"

definition pad4 :: "nat \<Rightarrow> nat list \<Rightarrow> nat list" where
  "pad4 v xs = replicate (4 - length xs) v @ xs"

definition Slice ::
    "TensorInfo \<Rightarrow> SliceDescriptor \<Rightarrow> 'a list option \<Rightarrow> 'a list option \<Rightarrow> nat \<Rightarrow> 'a list result" where
  "Slice inputInfo descriptor inputData outputData dataTypeSize =
     bindR (GetNumDimensions (m_Shape inputInfo)) (\<lambda>numDims.
     bindR (invalid (length (sl_Begin descriptor) \<noteq> numDims) ''Slice: Number of dimensions does not match the Begin vector'') (\<lambda>_.
     bindR (invalid (length (sl_Size descriptor) \<noteq> numDims) ''Slice: Number of dimensions does not match the Size vector'') (\<lambda>_.
     bindR (invalid (numDims > 4) ''Slice: Number of dimensions is greater than the maximum supported'') (\<lambda>_.
     bindR (mapR (TensorShape_get (m_Shape inputInfo)) [0..<numDims]) (\<lambda>inputDims.
     let dims = pad4 1 inputDims; begin' = pad4 0 (sl_Begin descriptor); size' = pad4 1 (sl_Size descriptor);
         upto = map2 u32_add begin' size' in
     bindR (seqR (map (\<lambda>i. invalid (upto ! i > dims ! i) ''Slice: begin + size exceeds dim'') [0..<4])) (\<lambda>_.
     case inputData of
       None \<Rightarrow> Inl (NullPointerException ''Slice: Null inputData pointer'')
     | Some input' \<Rightarrow>
     (case outputData of
       None \<Rightarrow> Inl (NullPointerException ''Slice: Null outputData pointer'')
     | Some output' \<Rightarrow>
     bindR
       (foldR (\<lambda>idx0. foldR (\<lambda>idx1. foldR (\<lambda>idx2. foldR (\<lambda>idx3 s.
          bindR (peek input' (offset4 dims dataTypeSize idx0 idx1 idx2 idx3 div dataTypeSize)) (\<lambda>v. emit v s))
          [begin' ! 3..<upto ! 3]) [begin' ! 2..<upto ! 2]) [begin' ! 1..<upto ! 1]) [begin' ! 0..<upto ! 0]
          (0, output'))
       (\<lambda>s. Inr (snd s)))))))))"

text \<open>
  The elements of a slice in output order, and what the kernel does with sizes whose sum with the
  beginning wraps around: its loop does not run.
\<close>

definition slice_of :: "nat list \<Rightarrow> nat list \<Rightarrow> nat list \<Rightarrow> 'a list \<Rightarrow> 'a list" where
  "slice_of ds begin' sizes xs = map (\<lambda>js. xs ! flat ds (map2 (+) begin' js)) (box sizes)"

lemma offset4_flat:
  "offset4 [d0, d1, d2, d3] t a b c d = (flat [d0, d1, d2, d3] [a, b, c, d] * t) mod 4294967296"
  by (simp add: offset4_def u32_mod_simps mod_simps algebra_simps)

lemma length_pad4 [simp]: "length xs \<le> 4 \<Longrightarrow> length (pad4 v xs) = 4"
  by (simp add: pad4_def)

lemma length_map2_nth: "i < length xs \<Longrightarrow> i < length ys \<Longrightarrow> map2 f xs ys ! i = f (xs ! i) (ys ! i)"
  by simp

lemma list4: "length xs = 4 \<Longrightarrow> xs = [xs ! 0, xs ! 1, xs ! 2, xs ! 3]"
  by (cases xs; cases "tl xs"; cases "tl (tl xs)"; cases "tl (tl (tl xs))") auto

lemma offset4_nth:
  assumes "length ds = 4" "length js = 4"
  shows "offset4 ds t (js ! 0) (js ! 1) (js ! 2) (js ! 3) = (flat ds js * t) mod 4294967296"
  using offset4_flat [of "ds ! 0" "ds ! 1" "ds ! 2" "ds ! 3" t "js ! 0" "js ! 1" "js ! 2" "js ! 3"]
    list4 [OF assms(1)] list4 [OF assms(2)] by metis

lemma product_lists_iff:
  "js \<in> set (product_lists xss) \<longleftrightarrow> length js = length xss \<and> (\<forall>i < length xss. js ! i \<in> set (xss ! i))"
  by (auto simp: product_lists_set list_all2_conv_all_nth)

lemma product_lists_shift:
  "length bs = length ss \<Longrightarrow>
   product_lists (map2 (\<lambda>b s. [b..<b + s]) bs ss) = map (map2 (+) bs) (box ss)"
proof (induction bs ss rule: list_induct2)
  case (Cons b bs s ss)
  have "[b..<b + s] = map ((+) b) [0..<s]" by (rule nth_equalityI) auto
  then show ?case using Cons.IH by (simp add: map_concat comp_def)
qed simp

lemma product_lists_empty: "[] \<in> set xss \<Longrightarrow> product_lists xss = []"
proof (induction xss)
  case (Cons xs xss)
  then show ?case by (cases "xs = []") (auto simp: concat_eq_Nil_conv)
qed simp

lemma flat_pad: "flat (replicate p 1 @ ds) (replicate p 0 @ js) = flat ds js"
  by (induction p) auto

lemma box_pad: "box (replicate p 1 @ ss) = map ((@) (replicate p 0)) (box ss)"
  by (induction p) (auto simp: comp_def)

lemma map2_pad: "map2 f (replicate p a @ xs) (replicate p b @ ys) = replicate p (f a b) @ map2 f xs ys"
  by (induction p) auto

lemma prod_list_pad4 [simp]: "prod_list (pad4 (Suc 0) ds) = prod_list ds"
  using prod_list_replicate_1 by (simp add: pad4_def)

lemma in_box_pad: "in_box (replicate p 1 @ ds) js \<longleftrightarrow> (\<exists>is. js = replicate p 0 @ is \<and> in_box ds is)"
  by (induction p arbitrary: js) (auto simp: in_box_Cons)

text \<open>A slice of the padded tensor is the slice of the tensor.\<close>

lemma slice_of_pad4:
  assumes "length bs = length ds" "length ss = length ds"
  shows "slice_of (pad4 1 ds) (pad4 0 bs) (pad4 1 ss) xs = slice_of ds bs ss xs"
  using assms by (simp add: slice_of_def pad4_def box_pad comp_def map2_pad flat_pad del: One_nat_def)

text \<open>The copy loop over four padded dimensions, for any ranges of indices inside the tensor.\<close>

lemma copy4:
  assumes "length ds = 4" "length rs = 4" "\<And>js. js \<in> set (product_lists rs) \<Longrightarrow> in_box ds js"
    "length src = prod_list ds" "prod_list ds * t < 2 ^ 32" "0 < t"
    "length (product_lists rs) \<le> length dst"
  shows "foldR (\<lambda>a. foldR (\<lambda>b. foldR (\<lambda>c. foldR (\<lambda>d s. bindR (peek src (offset4 ds t a b c d div t)) (\<lambda>v. emit v s))
      (rs ! 3)) (rs ! 2)) (rs ! 1)) (rs ! 0) (0, dst) =
    Inr (emitted (map (\<lambda>js. src ! flat ds js) (product_lists rs)) (0, dst))"
proof -
  have rs: "product_lists rs = product_lists [rs ! 0, rs ! 1, rs ! 2, rs ! 3]"
    using list4 [OF assms(2)] by metis
  have val: "peek src (offset4 ds t (js ! 0) (js ! 1) (js ! 2) (js ! 3) div t) = Inr (src ! flat ds js)"
    if "js \<in> set (product_lists rs)" for js
  proof -
    have box: "in_box ds js" using assms(3) that by blast
    have less: "flat ds js < prod_list ds" using flat_less [OF box] .
    then have "flat ds js * t < prod_list ds * t" using assms(6) by simp
    also have "\<dots> < 4294967296" using assms(5) by simp
    finally have "offset4 ds t (js ! 0) (js ! 1) (js ! 2) (js ! 3) = flat ds js * t"
      using offset4_nth [of ds js t] assms(1) in_box_length [OF box] by simp
    then show ?thesis using less assms(4,6) by simp
  qed
  have "foldR (\<lambda>js s. bindR (peek src (offset4 ds t (js ! 0) (js ! 1) (js ! 2) (js ! 3) div t)) (\<lambda>v. emit v s))
      (product_lists rs) (0, dst) = Inr (emitted (map (\<lambda>js. src ! flat ds js) (product_lists rs)) (0, dst))"
    using val assms(7) by (intro foldR_emit) auto
  then show ?thesis by (simp only: loop4 rs)
qed

lemma Slice_loops:
  assumes "specified_shape (m_Shape info) ds" "ds \<noteq> []" "length ds \<le> 4"
    "length (sl_Begin p) = length ds" "length (sl_Size p) = length ds"
    "\<forall>i < length ds. u32_add (sl_Begin p ! i) (sl_Size p ! i) \<le> ds ! i"
  shows "Slice info p (Some src) (Some dst) t =
    bindR (foldR (\<lambda>a. foldR (\<lambda>b. foldR (\<lambda>c. foldR (\<lambda>d s.
        bindR (peek src (offset4 (pad4 1 ds) t a b c d div t)) (\<lambda>v. emit v s))
      (map2 upt (pad4 0 (sl_Begin p)) (map2 u32_add (pad4 0 (sl_Begin p)) (pad4 1 (sl_Size p))) ! 3))
      (map2 upt (pad4 0 (sl_Begin p)) (map2 u32_add (pad4 0 (sl_Begin p)) (pad4 1 (sl_Size p))) ! 2))
      (map2 upt (pad4 0 (sl_Begin p)) (map2 u32_add (pad4 0 (sl_Begin p)) (pad4 1 (sl_Size p))) ! 1))
      (map2 upt (pad4 0 (sl_Begin p)) (map2 u32_add (pad4 0 (sl_Begin p)) (pad4 1 (sl_Size p))) ! 0) (0, dst))
    (\<lambda>s. Inr (snd s))"
proof -
  have dims: "mapR (TensorShape_get (m_Shape info)) [0..<length ds] = Inr ds"
    using read_dims_specified [OF assms(1)] assms(1) by (simp add: read_dims_def)
  have "map2 u32_add (pad4 0 (sl_Begin p)) (pad4 1 (sl_Size p)) ! i \<le> pad4 1 ds ! i" if "i < 4" for i
  proof -
    have "map2 u32_add (pad4 0 (sl_Begin p)) (pad4 1 (sl_Size p)) =
        replicate (4 - length ds) 1 @ map2 u32_add (sl_Begin p) (sl_Size p)"
      using assms(4,5) by (simp add: pad4_def map2_pad u32_add_def)
    then show ?thesis
      using that assms(3-6) by (auto simp: pad4_def nth_append)
  qed
  then have ok: "seqR (map (\<lambda>i. invalid
      (map2 u32_add (pad4 0 (sl_Begin p)) (pad4 1 (sl_Size p)) ! i > pad4 1 ds ! i)
      ''Slice: begin + size exceeds dim'') [0..<4]) = Inr ()"
    unfolding seqR_Inr_iff by (auto simp: not_less simp del: One_nat_def)
  show ?thesis
    using assms(1-5) dims ok by (simp add: Slice_def Let_def invalid_def)
qed

text \<open>
  C29: The reference \<open>Slice\<close> copies exactly the sub-box the descriptor names. Take an input with at least
  one dimension, of fewer than 2^32 bytes, and buffers of the sizes of the two tensors. Whenever the
  descriptor passes \<open>SliceQueueDescriptor::Validate\<close> with expanded dimensions not allowed
  (\<open>m_AllowExpandedDims\<close> false, the default), the kernel does not throw and stays inside both tensors,
  also when a beginning plus a size wraps around in the check; if none does, the output holds the
  elements of the box in row-major order, as many as the output shape has, and nothing else changes;
  if one does, the output is left as it was.
\<close>

theorem Slice_correct:
  assumes "SliceQueueDescriptor_Validate False p w = Inr ()"
    "specified_shape (m_Shape (input0 w)) ds" "specified_shape (m_Shape (output0 w)) os" "ds \<noteq> []"
    "length src = prod_list ds" "prod_list ds * t < 2 ^ 32" "0 < t" "prod_list os \<le> length dst"
    "dims32 (sl_Begin p)" "dims32 os"
  shows "sl_Size p = os \<and> Slice (input0 w) p (Some src) (Some dst) t =
    Inr (if \<forall>i < length ds. sl_Begin p ! i + sl_Size p ! i < 2 ^ 32
         then slice_of ds (sl_Begin p) (sl_Size p) src @ drop (prod_list os) dst else dst)"
proof -
  let ?b = "sl_Begin p" and ?s = "sl_Size p"
  have v: "length ds \<le> 4" "length ?b = length ds" "length ?s = length ds" "length os = length ds"
    "\<And>i. i < length ds \<Longrightarrow> ?s ! i = os ! i" "\<And>i. i < length ds \<Longrightarrow> u32_add (?b ! i) (?s ! i) \<le> ds ! i"
    using assms(1-3) by (auto simp: SliceQueueDescriptor_Validate_def Let_def seqR_Inr_iff ball_Un not_less)
  have os: "?s = os" using v by (intro nth_equalityI) auto
  let ?B = "pad4 0 ?b" and ?S = "pad4 1 ?s"
  let ?rs = "map2 upt ?B (map2 u32_add ?B ?S)"
  have pads: "length ?B = 4" "length ?S = 4" "length ?rs = 4" using v by simp_all
  define rs where "rs = ?rs"
  have "\<forall>i < length ds. u32_add (?b ! i) (?s ! i) \<le> ds ! i" using v(6) by blast
  note loops = Slice_loops [OF assms(2,4) v(1-3) this, of src dst t, folded rs_def]
  have rs4: "length rs = 4" using pads by (simp add: rs_def)
  show ?thesis
  proof (cases "\<forall>i < length ds. ?b ! i + ?s ! i < 2 ^ 32")
    case True
    then have sums: "map2 u32_add ?b ?s = map2 (+) ?b ?s"
      using v(2,3) by (intro nth_equalityI) (auto simp: u32_add_small)
    have "rs = map2 (\<lambda>b s. [b..<b + s]) ?B ?S"
    proof -
      have "map2 u32_add ?B ?S = map2 (+) ?B ?S"
        using v(2,3) sums by (simp add: pad4_def map2_pad u32_add_def)
      then have "u32_add (?B ! i) (?S ! i) = ?B ! i + ?S ! i" if "i < 4" for i
        using that pads arg_cong [of _ _ "\<lambda>xs. xs ! i"] by (metis length_map2_nth)
      then show ?thesis using pads unfolding rs_def by (intro nth_equalityI arg_cong2 [where f = upt]) auto
    qed
    then have lists: "product_lists rs = map (map2 (+) ?B) (box ?S)"
      using product_lists_shift [of ?B ?S] pads by simp
    have inside: "in_box (pad4 1 ds) js" if mem: "js \<in> set (product_lists rs)" for js
    proof -
      obtain ks where ks: "js = map2 (+) ?B ks" "in_box ?S ks" using mem lists by (auto simp: set_box)
      then obtain "is" where "is": "ks = replicate (4 - length ds) 0 @ is" "in_box ?s is"
        using in_box_pad [of "4 - length ds" ?s ks] v(3) by (auto simp: pad4_def)
      then have "js = replicate (4 - length ds) 0 @ map2 (+) ?b is"
        using ks v(2) by (simp add: pad4_def map2_pad)
      moreover have "in_box ds (map2 (+) ?b is)"
        using "is"(2) v(2,3,6) True in_box_length [OF "is"(2)]
        by (fastforce simp: in_box_nth u32_add_small)
      ultimately show ?thesis using in_box_pad by (auto simp: pad4_def)
    qed
    have len: "length (product_lists rs) = prod_list os" unfolding lists by (simp add: os)
    then have copy: "foldR (\<lambda>a. foldR (\<lambda>b. foldR (\<lambda>c. foldR (\<lambda>d s.
        bindR (peek src (offset4 (pad4 1 ds) t a b c d div t)) (\<lambda>v. emit v s)) (rs ! 3)) (rs ! 2)) (rs ! 1)) (rs ! 0) (0, dst) =
      Inr (emitted (map (\<lambda>js. src ! flat (pad4 1 ds) js) (product_lists rs)) (0, dst))"
      using v(1) assms(5,6,8) by (intro copy4 [OF _ rs4 inside _ _ assms(7)]) simp_all
    have "Slice (input0 w) p (Some src) (Some dst) t =
        Inr (map (\<lambda>js. src ! flat (pad4 1 ds) js) (product_lists rs) @ drop (prod_list os) dst)"
      unfolding loops copy by (simp add: emitted_def len)
    moreover have "map (\<lambda>js. src ! flat (pad4 1 ds) js) (product_lists rs) = slice_of ds ?b ?s src"
      using slice_of_pad4 [OF v(2,3)] by (simp add: lists slice_of_def comp_def)
    ultimately show ?thesis using True os by simp
  next
    case False
    then obtain i where i: "i < length ds" "4294967296 \<le> ?b ! i + ?s ! i" by (auto simp: not_less)
    have "[] \<in> set rs"
    proof -
      let ?j = "4 - length ds + i"
      have j: "?B ! ?j = ?b ! i" "?S ! ?j = ?s ! i" "?j < 4"
        using i(1) v(1-3) by (auto simp: pad4_def nth_append)
      have "?b ! i < 4294967296" "?s ! i < 4294967296"
        using assms(9,10) i(1) v(2,4) os by (simp_all add: dims32_def)
      then have "u32_add (?b ! i) (?s ! i) < ?b ! i"
        using i(2) by (simp add: u32_add_def le_mod_geq)
      then have "rs ! ?j = []" using j pads unfolding rs_def by simp
      then show ?thesis using j(3) rs4 by (metis nth_mem)
    qed
    then have "product_lists rs = []" by (rule product_lists_empty)
    then have copy: "foldR (\<lambda>a. foldR (\<lambda>b. foldR (\<lambda>c. foldR (\<lambda>d s.
        bindR (peek src (offset4 (pad4 1 ds) t a b c d div t)) (\<lambda>v. emit v s)) (rs ! 3)) (rs ! 2)) (rs ! 1)) (rs ! 0) (0, dst) =
      Inr (emitted [] (0, dst))"
      using v(1) assms(5,6) copy4 [OF _ rs4 _ _ _ assms(7), of "pad4 1 ds" src dst] by simp
    have "Slice (input0 w) p (Some src) (Some dst) t = Inr dst"
      unfolding loops copy by simp
    then show ?thesis using False os by auto
  qed
qed

definition slice_workload :: "nat list \<Rightarrow> nat list \<Rightarrow> WorkloadInfo" where
  "slice_workload ds os =
     \<lparr>m_InputTensorInfos = [TensorInfo_of_shape \<lparr>m_Dimensions = ds, m_DimensionsSpecificity = replicate (length ds) True,
        m_Dimensionality = Specified\<rparr> Float32 float_one 0 False],
      m_OutputTensorInfos = [TensorInfo_of_shape \<lparr>m_Dimensions = os, m_DimensionsSpecificity = replicate (length os) True,
        m_Dimensionality = Specified\<rparr> Float32 float_one 0 False],
      m_WeightsTensorInfo = None, m_BiasTensorInfo = None\<rparr>"

lemma TensorInfo_of_shape_simps [simp]:
  "m_Shape (TensorInfo_of_shape s t c k b) = s" "m_DataType (TensorInfo_of_shape s t c k b) = t"
  by (simp_all add: TensorInfo_of_shape_def SetQuantizationOffset_def SetQuantizationScale_def)

theorem Slice_correct_witness:
  "Slice (input0 (slice_workload [2, 3] [2, 2])) \<lparr>sl_Begin = [0, 1], sl_Size = [2, 2]\<rparr>
     (Some ''abcdef'') (Some ''xxxxx'') 4 = Inr ''bcefx''"
proof -
  let ?p = "\<lparr>sl_Begin = [0, 1], sl_Size = [2, 2]\<rparr>" and ?w = "slice_workload [2, 3] [2, 2]"
  have "SliceQueueDescriptor_Validate False ?p ?w = Inr ()"
    by (simp add: SliceQueueDescriptor_Validate_def slice_workload_def workload_checks invalid_def
        specified_shape_get [OF specified_shape_mk] ValidateTensorNumDimensions_def GetNumDimensions_def
        shape_checks TensorShape_get_def u32_add_small upt_rec)
  from Slice_correct [OF this, of "[2, 3]" "[2, 2]" "''abcdef''" 4 "''xxxxx''"]
  show ?thesis
    by (simp add: slice_workload_def specified_shape_def slice_of_def upt_rec less_Suc_eq all_conj_distrib imp_conjL)
qed

end
