(* ===== verification/StridedSlices.thy ===== *)
theory StridedSlices
  imports SliceKernels
begin

section \<open>Strided slices\<close>

text \<open>
  The axis arithmetic of \<open>StridedSliceDescriptor\<close>, the shape \<open>StridedSliceLayer\<close> infers, the checks of
  the workload and the reference kernel, with C++ \<open>int\<close> as integers whose overflow is undefined. The
  kernel's loops end only for some strides, so it is a partial function; the theorems say for which
  descriptors it returns.
\<close>

unbundle bit_operations_syntax

record StridedSliceDescriptor =
  ss_Begin :: "int list"
  ss_End :: "int list"
  ss_Stride :: "int list"
  ss_BeginMask :: "32 word"
  ss_EndMask :: "32 word"
  ss_ShrinkAxisMask :: "32 word"
  ss_EllipsisMask :: "32 word"
  ss_NewAxisMask :: "32 word"

definition int_min :: int where "int_min = - 2147483648"
definition int_max :: int where "int_max = 2147483647"

definition GetStartForAxis :: "StridedSliceDescriptor \<Rightarrow> TensorShape \<Rightarrow> nat \<Rightarrow> int result" where
  "GetStartForAxis p inputShape axis =
     bindR (peek (ss_Begin p) axis) (\<lambda>start.
     bindR (if bit (ss_BeginMask p) axis
            then bindR (peek (ss_Stride p) axis) (\<lambda>stride. Inr (if stride > 0 then int_min else int_max))
            else Inr start) (\<lambda>start.
     bindR (bindR (TensorShape_get inputShape axis) int_cast) (\<lambda>axisSize.
     let start = (if start < 0 then start + axisSize else start) in
     Inr (max 0 (min start (axisSize - 1))))))"

definition GetStopForAxis :: "StridedSliceDescriptor \<Rightarrow> TensorShape \<Rightarrow> nat \<Rightarrow> int \<Rightarrow> int result" where
  "GetStopForAxis p inputShape axis startForAxis =
     (if bit (ss_ShrinkAxisMask p) axis then int_check (startForAxis + 1)
      else
        bindR (peek (ss_End p) axis) (\<lambda>stop.
        bindR (if bit (ss_EndMask p) axis
               then bindR (peek (ss_Stride p) axis) (\<lambda>stride. Inr (if stride > 0 then int_max else int_min))
               else Inr stop) (\<lambda>stop.
        bindR (bindR (TensorShape_get inputShape axis) int_cast) (\<lambda>axisSize.
        let stop = (if stop < 0 then stop + axisSize else stop) in
        bindR (peek (ss_Stride p) axis) (\<lambda>stride.
        Inr (if stride > 0 then max 0 (min stop axisSize) else max (- 1) (min stop (axisSize - 1))))))))"

subsection \<open>The layer and the checks\<close>

definition infer_axis ::
    "StridedSliceDescriptor \<Rightarrow> TensorShape \<Rightarrow> nat \<Rightarrow> nat list \<times> nat \<Rightarrow> (nat list \<times> nat) result" where
  "infer_axis p inputShape i st = (case st of (outputShape, amountDimShrunk) \<Rightarrow>
     bindR (peek (ss_Stride p) i) (\<lambda>stride.
     bindR (GetStartForAxis p inputShape i) (\<lambda>start.
     bindR (GetStopForAxis p inputShape i start) (\<lambda>stop.
     if bit (ss_ShrinkAxisMask p) i then
       bindR (peek (ss_Begin p) i) (\<lambda>b. bindR (peek (ss_End p) i) (\<lambda>e.
       bindR (int_check (b - e)) (\<lambda>diff.
       bindR (throw_if (diff > 1 \<or> diff < - 1)
         (LayerValidationException ''StridedSlice: Attempting to take a larger slice than can fit in inferred output'')) (\<lambda>_.
       bindR (throw_if (stride < 0)
         (LayerValidationException ''StridedSlice: Stride can not be negative with Shrink Axis Mask set.'')) (\<lambda>_.
       Inr (outputShape, amountDimShrunk + 1))))))
     else
       bindR (if stride > 0
              then bindR (int_check (stop - start + stride)) (\<lambda>n. Inr ((n - 1) sdiv stride))
              else bindR (int_check (start - stop - stride)) (\<lambda>n.
                   bindR (int_check (- stride)) (\<lambda>s.
                   if s = 0 then Inl (UndefinedBehaviour ''division by zero'')
                   else Inr ((n - 1) sdiv s)))) (\<lambda>newSize.
       Inr (outputShape @ [nat (max 0 newSize)], amountDimShrunk))))))"

definition StridedSliceLayer_InferOutputShapes ::
    "StridedSliceDescriptor \<Rightarrow> TensorShape list \<Rightarrow> TensorShape list result" where
  "StridedSliceLayer_InferOutputShapes p inputShapes =
     bindR (throw_if (length inputShapes \<noteq> 1) (AssertionFailure ''inputShapes.size() == 1'')) (\<lambda>_.
     let inputShape = inputShapes ! 0 in
     bindR (GetNumDimensions inputShape) (\<lambda>n.
     bindR (foldR (infer_axis p inputShape) [0..<n] ([], 0)) (\<lambda>(outputShape, amountDimShrunk).
     let outputShape = (if outputShape = [] \<and> n - amountDimShrunk = 0 then [1] else outputShape) in
     bindR (TensorShape_of_list outputShape) (\<lambda>s. Inr [s]))))"

definition StridedSliceQueueDescriptor_Validate :: "StridedSliceDescriptor \<Rightarrow> WorkloadInfo \<Rightarrow> unit result" where
  "StridedSliceQueueDescriptor_Validate p w =
     (let inputTensorInfo = input0 w; outputTensorInfo = output0 w in
      bindR (seqR [ValidateNumInputs w 1, ValidateNumOutputs w 1,
                   ValidateDataTypes inputTensorInfo [BFloat16, Float16, Float32, QAsymmS8, QAsymmU8, QSymmS16],
                   ValidateTensorDataTypesMatch inputTensorInfo outputTensorInfo,
                   ValidateTensorQuantizationSpace inputTensorInfo outputTensorInfo]) (\<lambda>_.
      bindR (GetNumDimensions (m_Shape inputTensorInfo)) (\<lambda>rank.
      seqR
        ([invalid (rank > 4) ''Input tensors with rank greater than 4 are not supported.'',
          invalid (length (ss_Begin p) \<noteq> rank) ''Begin length must be of rank'',
          invalid (length (ss_End p) \<noteq> rank) ''End length must be of rank'',
          invalid (length (ss_Stride p) \<noteq> rank) ''Stride length must be of rank''] @
         map (\<lambda>stride. invalid (stride = 0) ''Stride entries must be non-zero.'') (ss_Stride p)))))"

subsection \<open>The kernel\<close>

definition resize :: "nat \<Rightarrow> int list \<Rightarrow> int list" where
  "resize n xs = take n xs @ replicate (n - length xs) 0"

text \<open>The vectors move up by \<open>padCount\<close>, the axes in front are whole axes of size one.\<close>

definition PadParams :: "StridedSliceDescriptor \<Rightarrow> nat \<Rightarrow> StridedSliceDescriptor result" where
  "PadParams p dimCount =
     bindR (throw_if (dimCount > 4) (AssertionFailure ''Expected input with at most 4 dimensions'')) (\<lambda>_.
     let beginIndicesCount = length (ss_Begin p) in
     bindR (throw_if (dimCount < beginIndicesCount) (AssertionFailure ''dimCount >= beginIndicesCount'')) (\<lambda>_.
     let padCount = dimCount - beginIndicesCount;
         up = (\<lambda>v xs. replicate padCount v @ take beginIndicesCount (resize dimCount xs)) in
     Inr (p\<lparr>ss_Begin := up 0 (ss_Begin p), ss_End := up 0 (ss_End p), ss_Stride := up 1 (ss_Stride p),
            ss_ShrinkAxisMask := push_bit padCount (ss_ShrinkAxisMask p),
            ss_EllipsisMask := push_bit padCount (ss_EllipsisMask p),
            ss_NewAxisMask := push_bit padCount (ss_NewAxisMask p),
            ss_BeginMask := push_bit padCount (ss_BeginMask p) OR mask padCount,
            ss_EndMask := push_bit padCount (ss_EndMask p) OR mask padCount\<rparr>)))"

definition LoopCondition :: "int \<Rightarrow> int \<Rightarrow> int \<Rightarrow> bool" where
  "LoopCondition stop stride index \<longleftrightarrow> (if stride > 0 then index \<ge> stop else index \<le> stop)"

definition ExtendShape :: "TensorShape \<Rightarrow> nat \<Rightarrow> TensorShape result" where
  "ExtendShape inputShape newNumDimensions =
     bindR (GetNumDimensions inputShape) (\<lambda>n.
     if n \<ge> newNumDimensions then Inr inputShape
     else bindR (read_dims inputShape) (\<lambda>ds. TensorShape_of_list (replicate (newNumDimensions - n) 1 @ ds)))"

definition mul_add :: "int \<Rightarrow> int \<Rightarrow> int \<Rightarrow> int result" where
  "mul_add a b c = bindR (int_check (a * b)) (\<lambda>x. int_check (x + c))"

definition strided_offset :: "TensorShape \<Rightarrow> int \<Rightarrow> int \<Rightarrow> int \<Rightarrow> int \<Rightarrow> int \<Rightarrow> int result" where
  "strided_offset inputShape step in0 in1 in2 in3 =
     bindR (bindR (TensorShape_get inputShape 1) int_cast) (\<lambda>dim1.
     bindR (bindR (TensorShape_get inputShape 2) int_cast) (\<lambda>dim2.
     bindR (bindR (TensorShape_get inputShape 3) int_cast) (\<lambda>dim3.
     bindR (mul_add in0 dim1 in1) (\<lambda>x.
     bindR (mul_add x dim2 in2) (\<lambda>x.
     bindR (mul_add x dim3 in3) (\<lambda>x.
     int_check (x * step)))))))"

definition read_at :: "'a list \<Rightarrow> int \<Rightarrow> int \<Rightarrow> 'a result" where
  "read_at input' step offset =
     (if offset < 0 then Inl (UndefinedBehaviour ''read outside a tensor'') else peek input' (nat offset div nat step))"

definition axis_loop :: "StridedSliceDescriptor \<Rightarrow> TensorShape \<Rightarrow> nat \<Rightarrow> (int \<times> int \<times> int) result" where
  "axis_loop p inputShape axis =
     bindR (GetStartForAxis p inputShape axis) (\<lambda>start.
     bindR (GetStopForAxis p inputShape axis start) (\<lambda>stop.
     bindR (peek (ss_Stride p) axis) (\<lambda>stride. Inr (start, stop, stride))))"

definition for_axis :: "int \<times> int \<times> int \<Rightarrow> (int \<Rightarrow> 's \<Rightarrow> 's result option) \<Rightarrow> 's \<Rightarrow> 's result option" where
  "for_axis r body = (case r of (start, stop, stride) \<Rightarrow> for_int (LoopCondition stop stride) stride body start)"

definition StridedSlice ::
    "TensorInfo \<Rightarrow> StridedSliceDescriptor \<Rightarrow> 'a list option \<Rightarrow> 'a list option \<Rightarrow> nat \<Rightarrow> 'a list result option" where
  "StridedSlice inputInfo params inputData outputData dataTypeSize =
     (case inputData of
        None \<Rightarrow> Some (Inl (InvalidArgumentException ''Slice: Null inputData pointer''))
      | Some input' \<Rightarrow>
     (case outputData of
        None \<Rightarrow> Some (Inl (InvalidArgumentException ''Slice: Null outputData pointer''))
      | Some output' \<Rightarrow>
     (case bindR (ExtendShape (m_Shape inputInfo) 4) (\<lambda>inputShape.
           bindR (PadParams params 4) (\<lambda>p.
           bindR (mapR (axis_loop p inputShape) [0..<4]) (\<lambda>rs.
           bindR (int_cast dataTypeSize) (\<lambda>step. Inr (inputShape, rs, step))))) of
        Inl e \<Rightarrow> Some (Inl e)
      | Inr (inputShape, rs, step) \<Rightarrow>
     (case for_axis (rs ! 0) (\<lambda>in0. for_axis (rs ! 1) (\<lambda>in1. for_axis (rs ! 2) (\<lambda>in2. for_axis (rs ! 3) (\<lambda>in3 s.
             Some (bindR (bindR (strided_offset inputShape step in0 in1 in2 in3) (read_at input' step))
                     (\<lambda>v. emit v s)))))) (0, output') of
        None \<Rightarrow> None
      | Some r \<Rightarrow> Some (bindR r (\<lambda>s. Inr (snd s)))))))"

subsection \<open>How many steps a loop makes\<close>

definition axis_start :: "bool \<Rightarrow> int \<Rightarrow> int \<Rightarrow> int \<Rightarrow> int" where
  "axis_start masked b stride d =
     (let start = (if masked then (if stride > 0 then int_min else int_max) else b) in
      max 0 (min (if start < 0 then start + d else start) (d - 1)))"

definition axis_stop :: "bool \<Rightarrow> bool \<Rightarrow> int \<Rightarrow> int \<Rightarrow> int \<Rightarrow> int \<Rightarrow> int" where
  "axis_stop shrink masked e stride d start =
     (if shrink then start + 1
      else
        let stop = (if masked then (if stride > 0 then int_max else int_min) else e);
            stop = (if stop < 0 then stop + d else stop) in
        if stride > 0 then max 0 (min stop d) else max (- 1) (min stop (d - 1)))"

definition axis_count :: "int \<times> int \<times> int \<Rightarrow> nat" where
  "axis_count r = (case r of (start, stop, stride) \<Rightarrow>
     nat (if stride > 0 then (stop - start + stride - 1) div stride else (start - stop - stride - 1) div (- stride)))"

lemma runs_iff:
  "runs stop stride i n \<longleftrightarrow>
     (\<forall>k < n. \<not> stop (i + int k * stride) \<and> int32 (i + int (Suc k) * stride)) \<and> stop (i + int n * stride)"
proof (induction n arbitrary: i)
  case 0
  then show ?case by simp
next
  case (Suc n)
  have eq: "i + stride + int k * stride = i + int (Suc k) * stride" for k by (simp add: algebra_simps)
  have "runs stop stride i (Suc n) \<longleftrightarrow> \<not> stop i \<and> int32 (i + stride) \<and>
      (\<forall>k < n. \<not> stop (i + int (Suc k) * stride) \<and> int32 (i + int (Suc (Suc k)) * stride)) \<and>
      stop (i + int (Suc n) * stride)"
    unfolding runs.simps Suc.IH eq by (simp only: add.commute add.left_commute)
  then show ?case by (simp only: All_less_Suc2) auto
qed

text \<open>Rounding up: the least number of steps that covers a distance.\<close>

lemma ceiling_steps:
  assumes "0 < (s :: int)"
  shows "k < nat ((m + s - 1) div s) \<Longrightarrow> int k * s < m" "m \<le> int (nat ((m + s - 1) div s)) * s"
proof -
  let ?q = "(m + s - 1) div s"
  have q: "?q * s \<le> m + s - 1" "m + s - 1 < ?q * s + s"
    using assms div_mult_mod_eq [of "m + s - 1" s] pos_mod_sign [of s "m + s - 1"] pos_mod_bound [of s "m + s - 1"]
    by linarith+
  show "int k * s < m" if "k < nat ?q"
  proof -
    have "int k \<le> ?q - 1" using that by linarith
    then have "int k * s \<le> (?q - 1) * s" using assms by (intro mult_right_mono) auto
    also have "\<dots> = ?q * s - s" by (simp add: algebra_simps)
    finally show ?thesis using q(1) by linarith
  qed
  show "m \<le> int (nat ?q) * s"
  proof (cases "0 \<le> ?q")
    case True
    then show ?thesis using q(2) by simp
  next
    case False
    then have "?q * s \<le> - s" using assms by (metis mult_minus1 mult_right_mono not_le zle_diff1_eq diff_0 less_imp_le)
    then show ?thesis using q(2) False assms by simp
  qed
qed

lemma axis_runs:
  assumes "stride \<noteq> 0" "0 \<le> start" "start < d" "- 1 \<le> stop" "stop \<le> d" "d + \<bar>stride\<bar> \<le> 2147483647"
  shows "runs (LoopCondition stop stride) stride start (axis_count (start, stop, stride))"
    "k < axis_count (start, stop, stride) \<Longrightarrow> 0 \<le> start + int k * stride \<and> start + int k * stride < d"
proof -
  let ?n = "axis_count (start, stop, stride)"
  have inside: "0 \<le> start + int k * stride \<and> start + int k * stride < d \<and>
      \<not> LoopCondition stop stride (start + int k * stride)" if "k < ?n" for k
  proof (cases "stride > 0")
    case True
    then have "int k * stride < stop - start" using that ceiling_steps(1) [of stride k "stop - start"]
      by (simp add: axis_count_def)
    moreover have "0 \<le> int k * stride" using True by simp
    ultimately show ?thesis using assms True by (auto simp: LoopCondition_def)
  next
    case False
    then have neg: "stride < 0" using assms(1) by simp
    then have "int k * (- stride) < start - stop" using that ceiling_steps(1) [of "- stride" k "start - stop"]
      by (simp add: axis_count_def)
    moreover have "0 \<le> int k * (- stride)" using neg by (intro mult_nonneg_nonneg) auto
    ultimately show ?thesis using assms neg by (auto simp: LoopCondition_def)
  qed
  then show "k < ?n \<Longrightarrow> 0 \<le> start + int k * stride \<and> start + int k * stride < d" by blast
  have "int32 (start + int (Suc k) * stride)" if "k < ?n" for k
  proof -
    have "start + int (Suc k) * stride = start + int k * stride + stride" by (simp add: algebra_simps)
    then show ?thesis using inside [OF that] assms(6) unfolding int32_def by linarith
  qed
  moreover have "LoopCondition stop stride (start + int ?n * stride)"
  proof (cases "stride > 0")
    case True
    then show ?thesis using ceiling_steps(2) [of stride "stop - start"]
      by (simp add: axis_count_def LoopCondition_def)
  next
    case False
    then have "start - stop \<le> int ?n * (- stride)"
      using ceiling_steps(2) [of "- stride" "start - stop"] assms(1) by (simp add: axis_count_def)
    then show ?thesis using False by (simp add: LoopCondition_def)
  qed
  ultimately show "runs (LoopCondition stop stride) stride start ?n"
    unfolding runs_iff using inside by blast
qed

lemma axis_start_range: "0 < d \<Longrightarrow> 0 \<le> axis_start m b s d \<and> axis_start m b s d < d"
  by (auto simp: axis_start_def Let_def)

lemma axis_stop_range:
  assumes "0 < d" "0 \<le> start" "start < d"
  shows "- 1 \<le> axis_stop sh m e s d start \<and> axis_stop sh m e s d start \<le> d"
  using assms by (auto simp: axis_stop_def Let_def)

subsection \<open>The axes of a descriptor\<close>

definition axis_range :: "StridedSliceDescriptor \<Rightarrow> nat list \<Rightarrow> nat \<Rightarrow> int \<times> int \<times> int" where
  "axis_range p ds i =
     (let d = int (ds ! i); stride = ss_Stride p ! i;
          start = axis_start (bit (ss_BeginMask p) i) (ss_Begin p ! i) stride d in
      (start, axis_stop (bit (ss_ShrinkAxisMask p) i) (bit (ss_EndMask p) i) (ss_End p ! i) stride d start, stride))"

lemma int_cast_Inr [simp]: "int n \<le> 2147483647 \<Longrightarrow> int_cast n = Inr (int n)"
  by (simp add: int_cast_def)

lemma GetStartForAxis_range:
  assumes "specified_shape s ds" "i < length ds" "int (ds ! i) \<le> 2147483647" "i < length (ss_Begin p)" "i < length (ss_Stride p)"
  shows "GetStartForAxis p s i = Inr (fst (axis_range p ds i))"
  using assms by (simp add: GetStartForAxis_def axis_range_def axis_start_def Let_def)

lemma GetStopForAxis_range:
  assumes "specified_shape s ds" "i < length ds" "int (ds ! i) \<le> 2147483647" "0 < ds ! i"
    "i < length (ss_End p)" "i < length (ss_Stride p)"
  shows "GetStopForAxis p s i (fst (axis_range p ds i)) = Inr (fst (snd (axis_range p ds i)))"
proof -
  have "0 \<le> fst (axis_range p ds i) \<and> fst (axis_range p ds i) < int (ds ! i)"
    using axis_start_range [of "int (ds ! i)"] assms(4) by (simp add: axis_range_def Let_def)
  then have "int32 (fst (axis_range p ds i) + 1)" using assms(3) by (simp add: int32_def)
  then show ?thesis
    using assms by (simp add: GetStopForAxis_def axis_range_def axis_stop_def Let_def)
qed

lemma axis_loop_range:
  assumes "specified_shape s ds" "i < length ds" "int (ds ! i) \<le> 2147483647" "0 < ds ! i"
    "i < length (ss_Begin p)" "i < length (ss_End p)" "i < length (ss_Stride p)"
  shows "axis_loop p s i = Inr (axis_range p ds i)"
proof -
  have "ss_Stride p ! i = snd (snd (axis_range p ds i))" by (simp add: axis_range_def Let_def)
  then show ?thesis
    using GetStartForAxis_range [OF assms(1-3,5,7)] GetStopForAxis_range [OF assms(1-4,6,7)] assms(7)
    by (simp add: axis_loop_def)
qed

subsection \<open>Padding to four dimensions\<close>

lemma bit_pad: "i < 32 \<Longrightarrow> bit (push_bit p m OR mask p :: 32 word) i \<longleftrightarrow> i < p \<or> bit m (i - p)"
  by (auto simp: bit_simps)

lemma bit_push: "i < 32 \<Longrightarrow> bit (push_bit p m :: 32 word) i \<longleftrightarrow> p \<le> i \<and> bit m (i - p)"
  by (auto simp: bit_simps)

lemma pad_ranges:
  assumes "length (ss_Begin p) = length ds" "length (ss_End p) = length ds" "length (ss_Stride p) = length ds"
    "length ds \<le> 4" "PadParams p 4 = Inr q"
  shows "map (axis_range q (pad4 1 ds)) [0..<4] =
      replicate (4 - length ds) (0, 1, 1) @ map (axis_range p ds) [0..<length ds]"
    "length (ss_Begin q) = 4" "length (ss_End q) = 4" "length (ss_Stride q) = 4"
proof -
  let ?k = "4 - length ds"
  have q: "ss_Begin q = replicate ?k 0 @ ss_Begin p" "ss_End q = replicate ?k 0 @ ss_End p"
    "ss_Stride q = replicate ?k 1 @ ss_Stride p"
    "ss_ShrinkAxisMask q = push_bit ?k (ss_ShrinkAxisMask p)"
    "ss_BeginMask q = push_bit ?k (ss_BeginMask p) OR mask ?k"
    "ss_EndMask q = push_bit ?k (ss_EndMask p) OR mask ?k"
    using assms by (auto simp: PadParams_def Let_def resize_def)
  show "length (ss_Begin q) = 4" "length (ss_End q) = 4" "length (ss_Stride q) = 4"
    using q assms by simp_all
  show "map (axis_range q (pad4 1 ds)) [0..<4] =
      replicate ?k (0, 1, 1) @ map (axis_range p ds) [0..<length ds]"
  proof (rule nth_equalityI)
    fix i assume "i < length (map (axis_range q (pad4 1 ds)) [0..<4])"
    then have i: "i < 4" by simp
    show "map (axis_range q (pad4 1 ds)) [0..<4] ! i =
        (replicate ?k (0, 1, 1) @ map (axis_range p ds) [0..<length ds]) ! i"
    proof (cases "i < ?k")
      case True
      then show ?thesis using i assms(1-4)
        by (simp add: axis_range_def Let_def q bit_pad bit_push nth_append pad4_def axis_start_def axis_stop_def
            int_min_def int_max_def)
    next
      case False
      then show ?thesis using i assms(1-4)
        by (auto simp: axis_range_def Let_def q bit_pad bit_push nth_append pad4_def)
    qed
  qed (use assms(4) in simp)
qed

lemma ExtendShape_pad4:
  assumes "specified_shape s ds" "ds \<noteq> []" "length ds \<le> 4"
  shows "\<exists>t. ExtendShape s 4 = Inr t \<and> specified_shape t (pad4 1 ds)"
proof (cases "length ds = 4")
  case True
  then show ?thesis using assms by (simp add: ExtendShape_def pad4_def)
next
  case False
  then show ?thesis
    using assms TensorShape_of_list_Inr [of "pad4 1 ds"]
    by (simp add: ExtendShape_def pad4_def MaxNumOfTensorDimensions_def)
qed

text \<open>The numbers of steps and the index that a step stands for.\<close>

definition strided_index :: "(int \<times> int \<times> int) list \<Rightarrow> nat list \<Rightarrow> nat list" where
  "strided_index rs js = map2 (\<lambda>r j. case r of (start, stop, stride) \<Rightarrow> nat (start + int j * stride)) rs js"

definition strided_slice_of :: "StridedSliceDescriptor \<Rightarrow> nat list \<Rightarrow> 'a list \<Rightarrow> 'a list" where
  "strided_slice_of p ds xs =
     (let rs = map (axis_range p ds) [0..<length ds] in
      map (\<lambda>js. xs ! flat ds (strided_index rs js)) (box (map axis_count rs)))"

definition axis_steps :: "int \<times> int \<times> int \<Rightarrow> int list" where
  "axis_steps r = (case r of (start, stop, stride) \<Rightarrow> steps start stride (axis_count r))"

lemma product_lists_steps:
  "product_lists (map axis_steps rs) =
     map (map2 (\<lambda>r j. case r of (start, stop, stride) \<Rightarrow> start + int j * stride) rs) (box (map axis_count rs))"
proof (induction rs)
  case (Cons r rs)
  obtain start stop stride where r: "r = (start, stop, stride)" by (cases r) auto
  have "axis_steps r = map (\<lambda>j. start + int j * stride) [0..<axis_count r]"
    by (simp add: axis_steps_def r steps_def)
  then show ?case using Cons.IH by (simp add: map_concat comp_def r)
qed simp

lemma mul_add_nat: "a * b + c \<le> 2147483647 \<Longrightarrow> mul_add (int a) (int b) (int c) = Inr (int (a * b + c))"
proof -
  assume le: "a * b + c \<le> 2147483647"
  then have "int (a * b) \<le> 2147483647" "int (a * b + c) \<le> 2147483647" by linarith+
  then show ?thesis unfolding mul_add_def int32_def int_check_def
    by (simp add: int32_def flip: of_nat_mult of_nat_add)
qed

lemma strided_offset_flat:
  assumes "specified_shape s ds" "length ds = 4" "\<And>d. d \<in> set ds \<Longrightarrow> 0 < d" "in_box ds js"
    "int (prod_list ds) * int t \<le> 2147483647" "0 < t"
  shows "strided_offset s (int t) (int (js ! 0)) (int (js ! 1)) (int (js ! 2)) (int (js ! 3)) =
    Inr (int (flat ds js * t))"
proof -
  obtain d0 d1 d2 d3 where ds: "ds = [d0, d1, d2, d3]" using list4 [OF assms(2)] by blast
  have "length js = 4" using in_box_length [OF assms(4)] assms(2) by simp
  then obtain j0 j1 j2 j3 where js: "js = [j0, j1, j2, j3]" using list4 by blast
  have pos: "0 < d0" "0 < d1" "0 < d2" "0 < d3" using assms(3) ds by auto
  have total: "prod_list ds * t \<le> 2147483647" using assms(5) by (metis of_nat_mult of_nat_le_iff of_nat_numeral)
  have le: "flat es is \<le> 2147483647" if "prod_list es dvd prod_list ds * t" "in_box es is" for es "is"
  proof -
    have "0 < prod_list ds * t" using pos assms(6) ds by simp
    then have "prod_list es \<le> prod_list ds * t" using that(1) by (intro dvd_imp_le) simp_all
    then show ?thesis using flat_less [OF that(2)] total by simp
  qed
  have box: "j0 < d0" "j1 < d1" "j2 < d2" "j3 < d3" using assms(4) by (simp_all add: ds js)
  have b2: "flat [d0, d1] [j0, j1] \<le> 2147483647" using box by (intro le) (auto simp: ds intro: dvd_triv_left)
  have b3: "flat [d0, d1, d2] [j0, j1, j2] \<le> 2147483647"
    using box by (intro le) (auto simp: ds mult.assoc [symmetric] intro: dvd_triv_left)
  have b4: "flat ds js \<le> 2147483647" using assms(4) by (intro le) auto
  have b5: "flat ds js * t \<le> 2147483647"
    using flat_less [OF assms(4)] total by (meson less_imp_le mult_le_mono1 order_trans)
  have d: "d1 \<le> 2147483647" "d2 \<le> 2147483647" "d3 \<le> 2147483647"
  proof -
    have "d \<le> prod_list ds" if "d \<in> set ds" for d using prod_list_le_mem [OF that] assms(3) by blast
    moreover have "prod_list ds \<le> prod_list ds * t" using assms(6) by simp
    ultimately show "d1 \<le> 2147483647" "d2 \<le> 2147483647" "d3 \<le> 2147483647"
      using total ds by (meson list.set_intros order_trans)+
  qed
  define x1 where "x1 = j0 * d1 + j1"
  define x2 where "x2 = x1 * d2 + j2"
  define x3 where "x3 = x2 * d3 + j3"
  have x: "x1 \<le> 2147483647" "x2 \<le> 2147483647" "x3 \<le> 2147483647" "x3 * t \<le> 2147483647" "flat ds js = x3"
    using b2 b3 b4 b5 by (simp_all add: ds js x1_def x2_def x3_def algebra_simps)
  have "mul_add (int j0) (int d1) (int j1) = Inr (int x1)" "mul_add (int x1) (int d2) (int j2) = Inr (int x2)"
    "mul_add (int x2) (int d3) (int j3) = Inr (int x3)"
    using x mul_add_nat [of j0 d1 j1] mul_add_nat [of x1 d2 j2] mul_add_nat [of x2 d3 j3]
    unfolding x1_def x2_def x3_def by blast+
  moreover have "int_check (int x3 * int t) = Inr (int (x3 * t))"
    using x(4) unfolding int_check_def int32_def by (simp flip: of_nat_mult)
  moreover have "bindR (TensorShape_get s 1) int_cast = Inr (int d1)" "bindR (TensorShape_get s 2) int_cast = Inr (int d2)"
    "bindR (TensorShape_get s 3) int_cast = Inr (int d3)"
    using assms(1) d by (simp_all add: ds)
  ultimately show ?thesis unfolding strided_offset_def x(5)
    by (simp add: js del: bindR_eq_Inr int_check_Inr)
qed

subsection \<open>The kernel returns the strided slice\<close>

definition axis_ok :: "nat \<Rightarrow> int \<times> int \<times> int \<Rightarrow> bool" where
  "axis_ok d r \<longleftrightarrow> (case r of (start, stop, stride) \<Rightarrow>
     runs (LoopCondition stop stride) stride start (axis_count r) \<and>
     (\<forall>k < axis_count r. 0 \<le> start + int k * stride \<and> start + int k * stride < int d))"

lemma for_axis_runs:
  assumes "axis_ok d r" "\<And>i t. i \<in> set (axis_steps r) \<Longrightarrow> body i t = Some (f i t)"
  shows "for_axis r body s = Some (foldR f (axis_steps r) s)"
  using assms by (cases r) (auto simp: for_axis_def axis_ok_def axis_steps_def intro!: for_int_runs)

lemma for_axis_nest:
  assumes "axis_ok d0 r0" "axis_ok d1 r1" "axis_ok d2 r2" "axis_ok d3 r3"
  shows "for_axis r0 (\<lambda>a. for_axis r1 (\<lambda>b. for_axis r2 (\<lambda>c. for_axis r3 (\<lambda>d s. Some (f a b c d s))))) s =
    Some (foldR (\<lambda>js. f (js ! 0) (js ! 1) (js ! 2) (js ! 3)) (product_lists (map axis_steps [r0, r1, r2, r3])) s)"
proof -
  have "for_axis r3 (\<lambda>d s. Some (f a b c d s)) s = Some (foldR (f a b c) (axis_steps r3) s)" for a b c s
    by (rule for_axis_runs [OF assms(4)]) simp
  then have "for_axis r2 (\<lambda>c. for_axis r3 (\<lambda>d s. Some (f a b c d s))) s =
      Some (foldR (\<lambda>c. foldR (f a b c) (axis_steps r3)) (axis_steps r2) s)" for a b s
    by (intro for_axis_runs [OF assms(3)])
  then have "for_axis r1 (\<lambda>b. for_axis r2 (\<lambda>c. for_axis r3 (\<lambda>d s. Some (f a b c d s)))) s =
      Some (foldR (\<lambda>b. foldR (\<lambda>c. foldR (f a b c) (axis_steps r3)) (axis_steps r2)) (axis_steps r1) s)" for a s
    by (intro for_axis_runs [OF assms(2)])
  then have "for_axis r0 (\<lambda>a. for_axis r1 (\<lambda>b. for_axis r2 (\<lambda>c. for_axis r3 (\<lambda>d s. Some (f a b c d s))))) s =
      Some (foldR (\<lambda>a. foldR (\<lambda>b. foldR (\<lambda>c. foldR (f a b c) (axis_steps r3)) (axis_steps r2)) (axis_steps r1))
        (axis_steps r0) s)"
    by (intro for_axis_runs [OF assms(1)])
  then show ?thesis using loop4 [of f "axis_steps r3" "axis_steps r2" "axis_steps r1" "axis_steps r0" s] by simp
qed

lemma strided_index_Cons [simp]:
  "strided_index [] ks = []" "strided_index rs [] = []"
  "strided_index ((start, stop, stride) # rs) (k # ks) = nat (start + int k * stride) # strided_index rs ks"
  by (simp_all add: strided_index_def)

lemma strided_index_box:
  assumes "list_all2 axis_ok ds rs" "in_box (map axis_count rs) ks"
  shows "in_box ds (strided_index rs ks)"
    "map2 (\<lambda>r j. case r of (start, stop, stride) \<Rightarrow> start + int j * stride) rs ks = map int (strided_index rs ks)"
  using assms
proof (induction ds rs arbitrary: ks rule: list_all2_induct)
  case Nil
  {
    case 1
    then show ?case by simp
  next
    case 2
    then show ?case by simp
  }
next
  case (Cons d ds r rs)
  obtain start stop stride where r: "r = (start, stop, stride)" by (cases r) auto
  have head: "0 \<le> start + int k * stride \<and> nat (start + int k * stride) < d" if "k < axis_count r" for k
    using Cons.hyps(1) that by (auto simp: axis_ok_def r)
  {
    case 1
    then show ?case using head Cons.IH(1) by (auto simp: in_box_Cons r)
  next
    case 2
    then show ?case using head Cons.IH(2) by (auto simp: in_box_Cons r simp del: map_eq_conv)
  }
qed

lemma StridedSlice_pad4:
  assumes "specified_shape (m_Shape info) ds" "ds \<noteq> []" "length ds \<le> 4" "\<And>d. d \<in> set ds \<Longrightarrow> 0 < d"
    "length (ss_Begin p) = length ds" "length (ss_End p) = length ds" "length (ss_Stride p) = length ds"
    "int (prod_list ds) * int t \<le> 2147483647" "0 < t" "length src = prod_list ds"
    "rs = replicate (4 - length ds) (0, 1, 1) @ map (axis_range p ds) [0..<length ds]"
    "list_all2 axis_ok (pad4 1 ds) rs" "prod_list (map axis_count rs) \<le> length dst"
  shows "StridedSlice info p (Some src) (Some dst) t =
    Some (Inr (snd (emitted (map (\<lambda>ks. src ! flat (pad4 1 ds) (strided_index rs ks)) (box (map axis_count rs))) (0, dst))))"
proof -
  let ?D = "pad4 1 ds"
  obtain s where s: "ExtendShape (m_Shape info) 4 = Inr s" "specified_shape s ?D"
    using ExtendShape_pad4 [OF assms(1-3)] by blast
  obtain q where q: "PadParams p 4 = Inr q" using assms(3,5) by (auto simp: PadParams_def Let_def)
  note pad = pad_ranges [OF assms(5-7,3) q]
  have D: "length ?D = 4" "\<And>d. d \<in> set ?D \<Longrightarrow> 0 < d" "prod_list ?D = prod_list ds"
    using assms(3,4) prod_list_pad4 by (auto simp: pad4_def)
  have le: "int (?D ! i) \<le> 2147483647" "0 < ?D ! i" if "i < 4" for i
  proof -
    have mem: "?D ! i \<in> set ?D" using that D(1) by simp
    then have "?D ! i \<le> prod_list ds" using prod_list_le_mem [OF mem] D(2,3) by simp
    also have "\<dots> \<le> prod_list ds * t" using assms(9) by simp
    finally show "int (?D ! i) \<le> 2147483647" using assms(8) by (simp flip: of_nat_mult)
    show "0 < ?D ! i" using D(2) mem by blast
  qed
  have "mapR (axis_loop q s) [0..<4] = Inr (map (axis_range q ?D) [0..<4])"
    using s(2) D(1) le pad by (intro mapR_pure axis_loop_range) auto
  then have loops: "mapR (axis_loop q s) [0..<4] = Inr rs" unfolding pad(1) assms(11) .
  have "0 < prod_list ds" using assms(4) by (rule prod_list_pos)
  then have "t \<le> prod_list ds * t" by (cases "prod_list ds") auto
  moreover have "prod_list ds * t \<le> 2147483647" using assms(8) by (simp flip: of_nat_mult)
  ultimately have "t \<le> 2147483647" by linarith
  then have "int_cast t = Inr (int t)" by simp
  note ready = s(1) q loops this
  have rs4: "length rs = 4" using assms(12) D(1) list_all2_lengthD by metis
  then have rs: "rs = [rs ! 0, rs ! 1, rs ! 2, rs ! 3]" by (rule list4)
  have ok: "axis_ok (?D ! i) (rs ! i)" if "i < 4" for i
    using assms(12) rs4 that by (simp add: list_all2_conv_all_nth)
  let ?f = "\<lambda>a b c d s'. bindR (bindR (strided_offset s (int t) a b c d) (read_at src (int t))) (\<lambda>v. emit v s')"
  have nest: "for_axis (rs ! 0) (\<lambda>a. for_axis (rs ! 1) (\<lambda>b. for_axis (rs ! 2) (\<lambda>c. for_axis (rs ! 3)
        (\<lambda>d s'. Some (?f a b c d s'))))) (0, dst) =
      Some (foldR (\<lambda>js. ?f (js ! 0) (js ! 1) (js ! 2) (js ! 3)) (product_lists (map axis_steps rs)) (0, dst))"
  proof -
    have "map axis_steps [rs ! 0, rs ! 1, rs ! 2, rs ! 3] = map axis_steps rs" using rs by metis
    then show ?thesis using for_axis_nest [OF ok ok ok ok, of 0 1 2 3 ?f "(0, dst)"] by (simp only:)
  qed
  have val: "bindR (strided_offset s (int t) (js ! 0) (js ! 1) (js ! 2) (js ! 3)) (read_at src (int t)) =
      Inr (src ! flat ?D (strided_index rs ks))"
    if "in_box (map axis_count rs) ks"
      "js = map2 (\<lambda>r j. case r of (start, stop, stride) \<Rightarrow> start + int j * stride) rs ks" for js ks
  proof -
    have "js = map int (strided_index rs ks)" using strided_index_box(2) [OF assms(12) that(1)] that(2) by simp
    moreover have box: "in_box ?D (strided_index rs ks)" using strided_index_box(1) [OF assms(12) that(1)] .
    moreover have "length (strided_index rs ks) = 4" using in_box_length [OF box] D(1) by simp
    ultimately have "strided_offset s (int t) (js ! 0) (js ! 1) (js ! 2) (js ! 3) =
        Inr (int (flat ?D (strided_index rs ks) * t))"
      using strided_offset_flat [OF s(2) D(1,2) box _ assms(9)] assms(8) D(3) by simp
    moreover have "flat ?D (strided_index rs ks) < length src" using flat_less [OF box] D(3) assms(10) by simp
    ultimately show ?thesis using assms(9) by (simp add: read_at_def flip: of_nat_mult)
  qed
  let ?g = "map2 (\<lambda>r j. case r of (start, stop, stride) \<Rightarrow> start + int j * stride) rs"
  have "foldR (\<lambda>js. ?f (js ! 0) (js ! 1) (js ! 2) (js ! 3)) (product_lists (map axis_steps rs)) (0, dst) =
      foldR (\<lambda>ks. ?f (?g ks ! 0) (?g ks ! 1) (?g ks ! 2) (?g ks ! 3)) (box (map axis_count rs)) (0, dst)"
    by (simp only: product_lists_steps foldR_map)
  also have "\<dots> = Inr (emitted (map (\<lambda>ks. src ! flat ?D (strided_index rs ks)) (box (map axis_count rs))) (0, dst))"
    using val assms(13) by (intro foldR_emit) (auto simp: set_box)
  finally show ?thesis
    using ready nest by (simp add: StridedSlice_def)
qed

lemma sdiv_pos: "0 < (s :: int) \<Longrightarrow> nat (max 0 (m sdiv s)) = nat (m div s)"
proof -
  assume s: "0 < s"
  show ?thesis
  proof (cases "0 \<le> m")
    case True
    then show ?thesis using s by (simp add: signed_divide_int_def sgn_if pos_imp_zdiv_nonneg_iff)
  next
    case False
    then have "m sdiv s \<le> 0" using s by (simp add: signed_divide_int_def sgn_if pos_imp_zdiv_nonneg_iff)
    moreover have "m div s < 0" using s False by (simp add: pos_imp_zdiv_neg_iff)
    ultimately show ?thesis by simp
  qed
qed

text \<open>The shape the layer infers has as many elements as the kernel makes steps.\<close>

definition kept_axes :: "StridedSliceDescriptor \<Rightarrow> nat list \<Rightarrow> nat \<Rightarrow> nat list" where
  "kept_axes p ds n = map (axis_count \<circ> axis_range p ds) (filter (\<lambda>i. \<not> bit (ss_ShrinkAxisMask p) i) [0..<n])"

lemma infer_axis_step:
  assumes "specified_shape s ds" "i < length ds" "int (ds ! i) \<le> 2147483647" "0 < ds ! i"
    "i < length (ss_Begin p)" "i < length (ss_End p)" "i < length (ss_Stride p)" "ss_Stride p ! i \<noteq> 0"
    "infer_axis p s i (os, k) = Inr (os', k')"
  shows "if bit (ss_ShrinkAxisMask p) i
    then os' = os \<and> k' = k + 1 \<and> axis_count (axis_range p ds i) = 1
    else os' = os @ [axis_count (axis_range p ds i)] \<and> k' = k"
proof -
  obtain start stop stride where r: "axis_range p ds i = (start, stop, stride)" by (cases "axis_range p ds i") auto
  then have stride: "ss_Stride p ! i = stride" "stride \<noteq> 0" using assms(8) by (auto simp: axis_range_def Let_def)
  have bounds: "GetStartForAxis p s i = Inr start" "GetStopForAxis p s i start = Inr stop"
    using GetStartForAxis_range [OF assms(1-3,5,7)] GetStopForAxis_range [OF assms(1-4,6,7)] r by simp_all
  show ?thesis
  proof (cases "bit (ss_ShrinkAxisMask p) i")
    case True
    then have "stop = start + 1" using r by (auto simp: axis_range_def axis_stop_def Let_def)
    moreover have "0 < stride" using assms(7,9) bounds stride True by (auto simp: infer_axis_def)
    ultimately have "axis_count (axis_range p ds i) = 1" by (simp add: r axis_count_def)
    then show ?thesis using assms(7,9) bounds stride True by (auto simp: infer_axis_def)
  next
    case False
    have "nat (max 0 ((stop - start + stride - 1) sdiv stride)) = axis_count (start, stop, stride)" if "0 < stride"
      using that sdiv_pos [OF that] by (simp add: axis_count_def)
    moreover have "nat (max 0 ((start - stop - stride - 1) sdiv (- stride))) = axis_count (start, stop, stride)"
      if "\<not> 0 < stride"
      using that stride(2) sdiv_pos [of "- stride"] by (simp add: axis_count_def)
    ultimately show ?thesis
      using assms(7,9) bounds stride False by (auto simp: infer_axis_def r split: if_splits)
  qed
qed

lemma infer_axes:
  assumes "specified_shape s ds" "\<And>d. d \<in> set ds \<Longrightarrow> 0 < d \<and> int d \<le> 2147483647"
    "length (ss_Begin p) = length ds" "length (ss_End p) = length ds" "length (ss_Stride p) = length ds"
    "\<And>x. x \<in> set (ss_Stride p) \<Longrightarrow> x \<noteq> 0" "n \<le> length ds"
    "foldR (infer_axis p s) [0..<n] ([], 0) = Inr (os, k)"
  shows "os = kept_axes p ds n \<and> prod_list os = prod_list (map (axis_count \<circ> axis_range p ds) [0..<n])"
  using assms(7,8)
proof (induction n arbitrary: os k)
  case 0
  then show ?case by (simp add: kept_axes_def)
next
  case (Suc n)
  obtain os1 k1 where m: "foldR (infer_axis p s) [0..<n] ([], 0) = Inr (os1, k1)" "infer_axis p s n (os1, k1) = Inr (os, k)"
    using Suc.prems(2) by (auto simp: foldR_append)
  have n: "n < length ds" using Suc.prems(1) by simp
  note step = infer_axis_step [OF assms(1) n _ _ _ _ _ _ m(2)]
  have "os1 = kept_axes p ds n" "prod_list os1 = prod_list (map (axis_count \<circ> axis_range p ds) [0..<n])"
    using Suc.IH [OF less_imp_le [OF n] m(1)] by blast+
  then show ?case using step assms(2-6) n by (auto simp: kept_axes_def comp_def split: if_splits)
qed

lemma InferOutputShapes_elements:
  assumes "StridedSliceLayer_InferOutputShapes p [s] = Inr [os]" "specified_shape s ds"
    "\<And>d. d \<in> set ds \<Longrightarrow> 0 < d \<and> int d \<le> 2147483647"
    "length (ss_Begin p) = length ds" "length (ss_End p) = length ds" "length (ss_Stride p) = length ds"
    "\<And>x. x \<in> set (ss_Stride p) \<Longrightarrow> x \<noteq> 0"
  shows "\<exists>es. specified_shape os es \<and> prod_list es = prod_list (map (axis_count \<circ> axis_range p ds) [0..<length ds])"
proof -
  obtain r where r: "foldR (infer_axis p s) [0..<length ds] ([], 0) = Inr r"
    "TensorShape_of_list (if fst r = [] \<and> length ds - snd r = 0 then [1] else fst r) = Inr os"
    using assms(1,2) by (auto simp: StridedSliceLayer_InferOutputShapes_def Let_def split_def)
  obtain dims k where dims: "r = (dims, k)" by (cases r)
  note k = r(1) [unfolded dims] and os = r(2) [unfolded dims fst_conv snd_conv]
  have "prod_list dims = prod_list (map (axis_count \<circ> axis_range p ds) [0..<length ds])"
    using infer_axes [OF assms(2-7) order_refl k] by blast
  moreover have "specified_shape os (if dims = [] \<and> length ds - k = 0 then [1] else dims)"
    using os TensorShape_of_list_ok by blast
  ultimately show ?thesis by (intro exI [of _ "if dims = [] \<and> length ds - k = 0 then [1] else dims"]) auto
qed

lemma axis_count_one [simp]: "axis_count (0, 1, 1) = 1"
  by (simp add: axis_count_def)

lemma strided_index_pad:
  "strided_index (replicate k (0, 1, 1) @ rs) (replicate k 0 @ js) = replicate k 0 @ strided_index rs js"
  by (induction k) simp_all

lemma axis_range_ok:
  assumes "0 < ds ! i" "ss_Stride p ! i \<noteq> 0" "int (ds ! i) + \<bar>ss_Stride p ! i\<bar> \<le> 2147483647"
  shows "axis_ok (ds ! i) (axis_range p ds i)"
proof -
  obtain start stop stride where r: "axis_range p ds i = (start, stop, stride)" by (cases "axis_range p ds i") auto
  have stride: "ss_Stride p ! i = stride" using r by (simp add: axis_range_def Let_def)
  have start: "0 \<le> start" "start < int (ds ! i)"
    using r axis_start_range [of "int (ds ! i)"] assms(1) by (auto simp: axis_range_def Let_def)
  have stop: "- 1 \<le> stop" "stop \<le> int (ds ! i)"
    using r axis_stop_range [OF _ start] assms(1) by (auto simp: axis_range_def Let_def)
  show ?thesis
    using axis_runs [OF _ start stop] assms(2,3) stride by (simp add: axis_ok_def r)
qed

lemma axis_ok_one: "axis_ok 1 (0, 1, 1)"
proof -
  have "runs (LoopCondition 1 1) 1 0 (axis_count (0, 1, 1))" by (rule axis_runs [where d = 1]) simp_all
  then show ?thesis by (simp add: axis_ok_def)
qed

text \<open>
  C30: The reference \<open>StridedSlice\<close> returns and copies exactly the strided sub-box. Take a descriptor that
  passes \<open>StridedSliceQueueDescriptor::Validate\<close> on an input with at least one dimension and no empty one,
  on every axis of which size plus absolute stride fits an \<open>int\<close>, and whose total size in bytes (the
  number of elements times the size of one) fits an \<open>int\<close> as well, the type the kernel computes
  offsets in. Then all four loops end, no index leaves the input, no offset overflows, and the output
  holds the element at start plus step times stride on every axis, with the masks applied; these are
  as many as the elements of the shape the layer infers, so an output of that shape is filled.
\<close>

theorem StridedSlice_correct:
  assumes "StridedSliceQueueDescriptor_Validate p w = Inr ()"
    "StridedSliceLayer_InferOutputShapes p [m_Shape (input0 w)] = Inr [s]" "specified_shape s os"
    "specified_shape (m_Shape (input0 w)) ds" "ds \<noteq> []" "\<forall>d \<in> set ds. 0 < d"
    "\<forall>i < length ds. int (ds ! i) + \<bar>ss_Stride p ! i\<bar> \<le> 2147483647"
    "int (prod_list ds) * int t \<le> 2147483647" "0 < t" "length src = prod_list ds" "length dst = prod_list os"
  shows "StridedSlice (input0 w) p (Some src) (Some dst) t = Some (Inr (strided_slice_of p ds src))"
proof -
  have v: "length ds \<le> 4" "length (ss_Begin p) = length ds" "length (ss_End p) = length ds"
    "length (ss_Stride p) = length ds" "\<And>x. x \<in> set (ss_Stride p) \<Longrightarrow> x \<noteq> 0"
    using assms(1,4) by (auto simp: StridedSliceQueueDescriptor_Validate_def Let_def seqR_Inr_iff ball_Un)
  let ?k = "4 - length ds" and ?R = "map (axis_range p ds) [0..<length ds]"
  define rs where "rs = replicate ?k (0, 1, 1) @ ?R"
  have small: "0 < d \<and> int d \<le> 2147483647" if "d \<in> set ds" for d
    using that assms(6,7) by (force simp: in_set_conv_nth)
  have count: "prod_list os = prod_list (map axis_count ?R)"
    using InferOutputShapes_elements [OF assms(2,4) small v(2-5)] specified_shape_fun [OF assms(3)]
    by (auto simp: comp_def)
  have "list_all2 axis_ok ds ?R"
    using assms(6,7) v(4,5) by (auto simp: list_all2_conv_all_nth intro!: axis_range_ok)
  moreover have "list_all2 axis_ok (replicate ?k 1) (replicate ?k (0, 1, 1))"
    using axis_ok_one by (auto simp: list_all2_conv_all_nth)
  ultimately have ok: "list_all2 axis_ok (pad4 1 ds) rs"
    unfolding rs_def pad4_def by (rule list_all2_appendI [rotated])
  have counts: "map axis_count rs = replicate ?k 1 @ map axis_count ?R" by (simp add: rs_def)
  have "prod_list (map axis_count rs) = prod_list os"
    unfolding counts count by (simp only: prod_list.append prod_list_replicate_1 mult_1)
  moreover have "map (\<lambda>ks. src ! flat (pad4 1 ds) (strided_index rs ks)) (box (map axis_count rs)) = strided_slice_of p ds src"
  proof -
    have "strided_index rs (replicate ?k 0 @ js) = replicate ?k 0 @ strided_index ?R js" for js
      by (simp only: rs_def strided_index_pad)
    then have "flat (pad4 1 ds) (strided_index rs (replicate ?k 0 @ js)) = flat ds (strided_index ?R js)" for js
      by (simp only: pad4_def flat_pad)
    then show ?thesis unfolding counts box_pad strided_slice_of_def Let_def by simp
  qed
  moreover have "length (strided_slice_of p ds src) = prod_list os" by (simp add: strided_slice_of_def Let_def count)
  ultimately show ?thesis
    using StridedSlice_pad4 [OF assms(4,5) v(1) _ v(2-4) assms(8-10) rs_def ok] assms(6,11)
    by (simp add: emitted_def)
qed

definition reversed_pairs :: StridedSliceDescriptor where
  "reversed_pairs = \<lparr>ss_Begin = [0, 0], ss_End = [1, 0], ss_Stride = [1, -2], ss_BeginMask = 2, ss_EndMask = 2,
     ss_ShrinkAxisMask = 1, ss_EllipsisMask = 0, ss_NewAxisMask = 0\<rparr>"

theorem StridedSlice_correct_witness:
  "StridedSlice (input0 (slice_workload [2, 5] [3])) reversed_pairs (Some ''abcdefghij'') (Some ''xxx'') 4 =
     Some (Inr ''eca'')"
proof -
  let ?w = "slice_workload [2, 5] [3]"
  let ?s = "\<lparr>m_Dimensions = [3], m_DimensionsSpecificity = [True], m_Dimensionality = Specified\<rparr>"
  have valid: "StridedSliceQueueDescriptor_Validate reversed_pairs ?w = Inr ()"
    by (simp add: StridedSliceQueueDescriptor_Validate_def slice_workload_def workload_checks
        ValidateTensorQuantizationSpace_def IsQuantized_def IsQuantizedType_def IsQuantized8BitType_def
        GetNumDimensions_def shape_checks reversed_pairs_def invalid_def)
  have ranges: "axis_range reversed_pairs [2, 5] 0 = (0, 1, 1)" "axis_range reversed_pairs [2, 5] 1 = (4, -1, -2)"
    by (simp_all add: axis_range_def reversed_pairs_def axis_start_def axis_stop_def int_max_def int_min_def Let_def)
  have infer: "StridedSliceLayer_InferOutputShapes reversed_pairs [m_Shape (input0 ?w)] = Inr [?s]"
  proof -
    let ?t = "m_Shape (input0 ?w)"
    have t: "specified_shape ?t [2, 5]" by (simp add: slice_workload_def specified_shape_def)
    have bounds: "GetStartForAxis reversed_pairs ?t 0 = Inr 0" "GetStopForAxis reversed_pairs ?t 0 0 = Inr 1"
      "GetStartForAxis reversed_pairs ?t 1 = Inr 4" "GetStopForAxis reversed_pairs ?t 1 4 = Inr (- 1)"
      using GetStartForAxis_range [OF t, of 0 reversed_pairs] GetStopForAxis_range [OF t, of 0 reversed_pairs]
        GetStartForAxis_range [OF t, of 1 reversed_pairs] GetStopForAxis_range [OF t, of 1 reversed_pairs]
      by (simp_all only: ranges) (simp_all add: reversed_pairs_def)
    have "infer_axis reversed_pairs ?t 0 ([], 0) = Inr ([], 1)"
      using bounds(1,2) by (simp add: infer_axis_def) (simp add: reversed_pairs_def int32_def)
    moreover have "infer_axis reversed_pairs ?t 1 ([], 1) = Inr ([3], 1)"
      using bounds(3,4)
      by (simp add: infer_axis_def) (simp add: reversed_pairs_def int32_def signed_divide_int_def)
    moreover have "[0..<2] = [0, 1::nat]" by (simp add: upt_rec)
    moreover have "GetNumDimensions ?t = Inr 2" using specified_shape_GetNumDimensions [OF t] by simp
    ultimately show ?thesis
      unfolding StridedSliceLayer_InferOutputShapes_def
      by (simp add: TensorShape_of_list_def TensorShape_sizes_def shape_checks MaxNumOfTensorDimensions_def)
  qed
  have rows: "[0..<length [2, 5 :: nat]] = [0, 1]" "axis_count (4, -1, -2) = 3" "[0..<3] = [0, 1, 2 :: nat]"
    by (simp_all add: upt_rec axis_count_def)
  have "strided_slice_of reversed_pairs [2, 5] ''abcdefghij'' = ''eca''"
    unfolding strided_slice_of_def Let_def rows(1) by (simp add: ranges [unfolded One_nat_def] rows)
  moreover have "\<forall>i < length [2, 5 :: nat]. int ([2, 5] ! i) + \<bar>ss_Stride reversed_pairs ! i\<bar> \<le> 2147483647"
    by (simp add: less_Suc_eq reversed_pairs_def)
  moreover have "specified_shape (m_Shape (input0 ?w)) [2, 5]" "specified_shape ?s [3]"
    by (simp_all add: slice_workload_def specified_shape_def)
  ultimately show ?thesis
    using StridedSlice_correct [OF valid infer, of "[3]" "[2, 5]" 4 "''abcdefghij''" "''xxx''"] by simp
qed

text \<open>On an empty dimension a negative stride makes one step, to an element that is not there.\<close>

lemma empty_axis_step:
  assumes "s < 0"
  shows "axis_start m b s 0 = 0 \<and> axis_stop False m' e s 0 0 = - 1 \<and>
    axis_count (axis_start m b s 0, axis_stop False m' e s 0 0, s) = 1"
proof -
  have a: "axis_start m b s 0 = 0" "axis_stop False m' e s 0 0 = - 1"
    using assms by (simp_all add: axis_start_def axis_stop_def Let_def)
  have "- s div - s = 1" using assms by simp
  then show ?thesis unfolding a using assms by (simp add: axis_count_def)
qed

end
