(* ===== verification/Codecs.thy ===== *)
theory Codecs
  imports TensorUtils
begin

section \<open>Decoders and encoders of tensor memory\<close>

text \<open>
  The reference kernels read and write tensors through iterators that convert every element to and from
  \<open>float\<close> (\<open>BaseIterator.hpp\<close>, \<open>Decoders.hpp\<close>, \<open>Encoders.hpp\<close>). An element in memory is an integer: the
  value of an integer type, the bit pattern of a \<open>float\<close> or a half. Floating-point arithmetic is a
  parameter, the record \<open>float_arith\<close> of the expressions the classes compute; when they throw, which
  class is used for which tensor and which quantization scale for which element is the model. An
  iterator at position \<open>k\<close> is the class and \<open>k\<close>.
\<close>

subsection \<open>Conversions of one value\<close>

text \<open>
  \<open>fa_scaled\<close>: an integer as a \<open>float\<close> times a scale. \<open>fa_clamped\<close>: the offset plus the rounded quotient of
  value and scale, clamped to a range. \<open>fa_to_float\<close>, \<open>fa_to_int\<close>: \<open>static_cast\<close> (undefined outside the range
  of \<open>int32_t\<close>). \<open>fa_half_to_float\<close>, \<open>fa_float_to_half\<close>: \<open>FloatingPointConverter\<close>.
\<close>

record float_arith =
  fa_scaled :: "int \<Rightarrow> float32 \<Rightarrow> float32"
  fa_clamped :: "int \<Rightarrow> int \<Rightarrow> int \<Rightarrow> float32 \<Rightarrow> float32 \<Rightarrow> int"
  fa_to_float :: "int \<Rightarrow> float32"
  fa_to_int :: "float32 \<Rightarrow> int option"
  fa_half_to_float :: "int \<Rightarrow> float32"
  fa_float_to_half :: "float32 \<Rightarrow> int"

definition Quantize :: "float_arith \<Rightarrow> int \<Rightarrow> int \<Rightarrow> float32 \<Rightarrow> float32 \<Rightarrow> int \<Rightarrow> int result" where
  "Quantize F min' max' v scale offset =
     bindR (throw_if (float_zero scale) (InvalidArgumentException ''Quantize: Scale cannot be 0.f'')) (\<lambda>_.
     bindR (throw_if (float_nan v) (InvalidArgumentException ''Quantize: Value is NaN'')) (\<lambda>_.
     Inr (fa_clamped F min' max' offset v scale)))"

subsection \<open>The classes\<close>

datatype decoder =
    QASymm8Decoder float32 int
  | QASymmS8Decoder float32 int
  | QSymmS8Decoder float32 int
  | QSymm16Decoder float32 int
  | Float16Decoder
  | Float32Decoder
  | ScaledInt32Decoder float32
  | Int32Decoder
  | BooleanDecoder
  | QSymm8PerAxisDecoder nat nat "float32 list"
  | ScaledInt32PerAxisDecoder nat nat "float32 list"

datatype encoder =
    QASymm8Encoder float32 int
  | QASymmS8Encoder float32 int
  | QSymmS8Encoder float32 int
  | QSymm16Encoder float32 int
  | Float16Encoder
  | Float32Encoder
  | Int32Encoder
  | QSymm8PerAxisEncoder nat nat "float32 list"
  | QSymm16PerAxisEncoder nat nat "float32 list"

text \<open>
  \<open>PerAxisIterator::SetIndexOnMem\<close>: the index on the quantized axis of the element at a position, from
  \<open>m_AxisDimensionality\<close> and \<open>m_AxisFactor\<close>. A factor of 0 means a tensor without elements, whose loops
  never get here, so a new iterator needs no case of its own.
\<close>

definition SetIndexOnMem :: "nat \<Rightarrow> nat \<Rightarrow> nat \<Rightarrow> nat result" where
  "SetIndexOnMem axisDimensionality axisFactor index =
     (if index < axisFactor then Inr 0
      else if axisFactor = 0 \<or> axisDimensionality = 0 then Inl (UndefinedBehaviour ''division by zero'')
      else Inr (index div axisFactor mod axisDimensionality))"

text \<open>\<open>Get\<close> of a decoder at a position, on the element stored there.\<close>

fun decoder_Get :: "float_arith \<Rightarrow> decoder \<Rightarrow> nat \<Rightarrow> int \<Rightarrow> float32 result" where
  "decoder_Get F (QASymm8Decoder scale offset) k x = Dequantize (fa_scaled F) 32 x scale offset"
| "decoder_Get F (QASymmS8Decoder scale offset) k x = Dequantize (fa_scaled F) 32 x scale offset"
| "decoder_Get F (QSymmS8Decoder scale offset) k x = Dequantize (fa_scaled F) 32 x scale offset"
| "decoder_Get F (QSymm16Decoder scale offset) k x = Dequantize (fa_scaled F) 32 x scale offset"
| "decoder_Get F Float16Decoder k x = Inr (fa_half_to_float F x)"
| "decoder_Get F Float32Decoder k x = Inr (word_of_int x)"
| "decoder_Get F (ScaledInt32Decoder scale) k x = Inr (fa_scaled F x scale)"
| "decoder_Get F Int32Decoder k x = Inr (fa_to_float F x)"
| "decoder_Get F BooleanDecoder k x = Inr (fa_to_float F x)"
| "decoder_Get F (QSymm8PerAxisDecoder axisDimensionality axisFactor scales) k x =
     bindR (SetIndexOnMem axisDimensionality axisFactor k) (\<lambda>axisIndex.
     bindR (peek scales axisIndex) (\<lambda>scale. Dequantize (fa_scaled F) 32 x scale 0))"
| "decoder_Get F (ScaledInt32PerAxisDecoder axisDimensionality axisFactor scales) k x =
     bindR (SetIndexOnMem axisDimensionality axisFactor k) (\<lambda>axisIndex.
     bindR (peek scales axisIndex) (\<lambda>scale. Dequantize (fa_scaled F) 32 x scale 0))"

text \<open>\<open>Set\<close> of an encoder at a position: the element it stores.\<close>

fun encoder_Set :: "float_arith \<Rightarrow> encoder \<Rightarrow> nat \<Rightarrow> float32 \<Rightarrow> int result" where
  "encoder_Set F (QASymm8Encoder scale offset) k v = Quantize F 0 255 v scale offset"
| "encoder_Set F (QASymmS8Encoder scale offset) k v = Quantize F (-128) 127 v scale offset"
| "encoder_Set F (QSymmS8Encoder scale offset) k v = Quantize F (-128) 127 v scale offset"
| "encoder_Set F (QSymm16Encoder scale offset) k v = Quantize F (-32768) 32767 v scale offset"
| "encoder_Set F Float16Encoder k v = Inr (fa_float_to_half F v)"
| "encoder_Set F Float32Encoder k v = Inr (uint v)"
| "encoder_Set F Int32Encoder k v =
     (case fa_to_int F v of None \<Rightarrow> Inl (UndefinedBehaviour ''static_cast<int32_t>'') | Some i \<Rightarrow> Inr i)"
| "encoder_Set F (QSymm8PerAxisEncoder axisDimensionality axisFactor scales) k v =
     bindR (SetIndexOnMem axisDimensionality axisFactor k) (\<lambda>axisIndex.
     bindR (peek scales axisIndex) (\<lambda>scale. Quantize F (-128) 127 v scale 0))"
| "encoder_Set F (QSymm16PerAxisEncoder axisDimensionality axisFactor scales) k v =
     bindR (SetIndexOnMem axisDimensionality axisFactor k) (\<lambda>axisIndex.
     bindR (peek scales axisIndex) (\<lambda>scale. Quantize F (-32768) 32767 v scale 0))"

text \<open>\<open>operator++\<close> of an encoder, to a new position.\<close>

fun encoder_move :: "encoder \<Rightarrow> nat \<Rightarrow> unit result" where
  "encoder_move (QSymm8PerAxisEncoder axisDimensionality axisFactor scales) k =
     bindR (SetIndexOnMem axisDimensionality axisFactor k) (\<lambda>_. Inr ())"
| "encoder_move (QSymm16PerAxisEncoder axisDimensionality axisFactor scales) k =
     bindR (SetIndexOnMem axisDimensionality axisFactor k) (\<lambda>_. Inr ())"
| "encoder_move _ k = Inr ()"

subsection \<open>Which class is made for a tensor\<close>

definition quantization_dim :: "TensorInfo \<Rightarrow> nat result" where
  "quantization_dim info =
     (case m_QuantizationDim (m_Quantization info) of
        None \<Rightarrow> Inl (BadOptionalAccessException ''Optional has no value'') | Some axis \<Rightarrow> Inr axis)"

text \<open>The constructor of \<open>PerAxisIterator\<close> from a shape and an axis.\<close>

definition PerAxisIterator_of_shape :: "TensorShape \<Rightarrow> nat \<Rightarrow> (nat \<times> nat) result" where
  "PerAxisIterator_of_shape tensorShape axis =
     bindR (TensorShape_get tensorShape axis) (\<lambda>axisDimensionality.
     bindR (GetNumElementsAfter tensorShape axis) (\<lambda>axisFactor.
     Inr (axisDimensionality, axisFactor)))"

definition MakeSigned32PerAxisDecoder :: "TensorInfo \<Rightarrow> decoder result" where
  "MakeSigned32PerAxisDecoder info =
     bindR (quantization_dim info) (\<lambda>axis.
     bindR (PerAxisIterator_of_shape (m_Shape info) axis) (\<lambda>(axisDimensionality, axisFactor).
     Inr (ScaledInt32PerAxisDecoder axisDimensionality axisFactor (m_Scales (m_Quantization info)))))"

definition MakeSigned32Decoder :: "TensorInfo \<Rightarrow> decoder result" where
  "MakeSigned32Decoder info =
     (if HasMultipleQuantizationScales info then MakeSigned32PerAxisDecoder info
      else if m_QuantizationDim (m_Quantization info) \<noteq> None then MakeSigned32PerAxisDecoder info
      else bindR (GetQuantizationScale info) (\<lambda>scale.
        Inr (if float_zero scale then Int32Decoder else ScaledInt32Decoder scale)))"

text \<open>The classes that take the scale and the offset of the tensor.\<close>

definition with_scale :: "TensorInfo \<Rightarrow> (float32 \<Rightarrow> int \<Rightarrow> 'c) \<Rightarrow> 'c result" where
  "with_scale info construct = bindR (GetQuantizationScale info) (\<lambda>scale. Inr (construct scale (GetQuantizationOffset info)))"

definition MakeDecoder :: "TensorInfo \<Rightarrow> decoder result" where
  "MakeDecoder info =
     (case m_DataType info of
        QAsymmS8 \<Rightarrow> with_scale info QASymmS8Decoder
      | QAsymmU8 \<Rightarrow> with_scale info QASymm8Decoder
      | QSymmS16 \<Rightarrow> with_scale info QSymm16Decoder
      | Float16 \<Rightarrow> Inr Float16Decoder
      | Float32 \<Rightarrow> Inr Float32Decoder
      | Signed32 \<Rightarrow> MakeSigned32Decoder info
      | QSymmS8 \<Rightarrow>
          if HasPerAxisQuantization info then
            bindR (GetPerAxisParams info) (\<lambda>_.
            bindR (quantization_dim info) (\<lambda>axis.
            bindR (PerAxisIterator_of_shape (m_Shape info) axis) (\<lambda>(axisDimensionality, axisFactor).
            Inr (QSymm8PerAxisDecoder axisDimensionality axisFactor (m_Scales (m_Quantization info))))))
          else with_scale info QSymmS8Decoder
      | BooleanT \<Rightarrow> Inr BooleanDecoder
      | _ \<Rightarrow> Inl (InvalidArgumentException ''Unsupported target Data Type!''))"

text \<open>
  The encoder of a per-axis \<open>QSymmS8\<close> tensor gets the factor only: its \<open>m_AxisDimensionality\<close> has the
  default value 0.
\<close>

definition MakeEncoder :: "TensorInfo \<Rightarrow> encoder result" where
  "MakeEncoder info =
     (case m_DataType info of
        QAsymmS8 \<Rightarrow> with_scale info QASymmS8Encoder
      | QAsymmU8 \<Rightarrow> with_scale info QASymm8Encoder
      | QSymmS8 \<Rightarrow>
          if HasPerAxisQuantization info then
            bindR (GetPerAxisParams info) (\<lambda>params. Inr (QSymm8PerAxisEncoder 0 (fst params) (snd params)))
          else with_scale info QSymmS8Encoder
      | QSymmS16 \<Rightarrow>
          if HasPerAxisQuantization info then
            bindR (quantization_dim info) (\<lambda>axis.
            bindR (TensorShape_get (m_Shape info) axis) (\<lambda>axisDimensionality.
            bindR (GetPerAxisParams info) (\<lambda>params.
            Inr (QSymm16PerAxisEncoder axisDimensionality (fst params) (snd params)))))
          else with_scale info QSymm16Encoder
      | Signed32 \<Rightarrow> Inr Int32Encoder
      | Float16 \<Rightarrow> Inr Float16Encoder
      | Float32 \<Rightarrow> Inr Float32Encoder
      | _ \<Rightarrow> Inl (InvalidArgumentException ''Unsupported target Data Type!''))"

subsection \<open>An element on its way from one tensor to another\<close>

definition reencode :: "float_arith \<Rightarrow> decoder \<Rightarrow> encoder \<Rightarrow> nat \<Rightarrow> nat \<Rightarrow> int \<Rightarrow> int result" where
  "reencode F input' output' i k x = bindR (decoder_Get F input' i x) (encoder_Set F output' k)"

text \<open>Between tensors of type \<open>Float32\<close> nothing is lost.\<close>

lemma reencode_Float32:
  "0 \<le> x \<Longrightarrow> x < 2 ^ 32 \<Longrightarrow> reencode F Float32Decoder Float32Encoder i k x = Inr x"
  by (simp add: reencode_def uint_word_of_int)

text \<open>An encoder that can store an element at a position can move there.\<close>

lemma encoder_Set_move: "encoder_Set F e k v = Inr x \<Longrightarrow> encoder_move e k = Inr ()"
  by (cases e) auto

lemma encoder_move_Float32 [simp]: "encoder_move Float32Encoder k = Inr ()"
  by simp

subsection \<open>Per-axis tensors\<close>

lemma SetIndexOnMem_unflat:
  assumes "axis < length ds" "k < prod_list ds" "prod_list ds < 2 ^ 32"
  shows "SetIndexOnMem (ds ! axis) (u32 (prod_list (drop (Suc axis) ds))) k = Inr (unflat ds k ! axis)"
    "unflat ds k ! axis < ds ! axis" "u32 (prod_list (drop (Suc axis) ds)) = prod_list (drop (Suc axis) ds)"
    "0 < prod_list (drop (Suc axis) ds)"
proof -
  let ?m = "prod_list (drop (Suc axis) ds)"
  have split: "prod_list ds = prod_list (take axis ds) * (ds ! axis * ?m)"
    using assms(1) by (metis Cons_nth_drop_Suc prod_list.Cons prod_list_take_drop)
  have "0 < prod_list ds" using assms(2) by simp
  then have pos: "0 < ?m" "0 < ds ! axis" "?m \<le> prod_list ds" using split by (auto simp: Suc_le_eq)
  show small: "u32 ?m = ?m" using pos assms(3) by (intro u32_small) simp
  show "0 < ?m" by (fact pos(1))
  have "unflat ds k ! axis = k div ?m mod ds ! axis" using unflat_axis [OF assms(1,2)] .
  then show "SetIndexOnMem (ds ! axis) (u32 ?m) k = Inr (unflat ds k ! axis)" "unflat ds k ! axis < ds ! axis"
    using pos small by (auto simp: SetIndexOnMem_def)
qed

text \<open>
  C32: Per-axis quantized tensors can be read but not written in 8 bits, and written but not read in 16.
  Take a tensor of fewer than 2^32 elements, quantized along one of its axes with one scale per index, and
  the element at any position \<open>k\<close>. For the type \<open>QSymmS8\<close> the decoder converts the element with the scale of
  the element's own index on that axis (and offset 0, whatever the offset of the tensor), but the encoder
  is made without the length of the axis: it stores the first \<open>axisFactor\<close> elements (as many as one index of
  the axis has in a row) with the first scale and divides by zero at every later position. For \<open>QSymmS16\<close>
  the encoder does use the scale of the element's own index, but \<open>MakeDecoder\<close> fails an assertion as soon as
  there are two scales.
\<close>

theorem per_axis_codecs:
  assumes "specified_shape (m_Shape info) ds" "prod_list ds < 2 ^ 32" "m_QuantizationDim (m_Quantization info) = Some axis"
    "axis < length ds" "length (m_Scales (m_Quantization info)) = ds ! axis" "k < prod_list ds"
  shows "(m_DataType info = QSymmS8 \<longrightarrow>
      (\<exists>dec enc. MakeDecoder info = Inr dec \<and> MakeEncoder info = Inr enc \<and>
        decoder_Get F dec k x =
          Dequantize (fa_scaled F) 32 x (m_Scales (m_Quantization info) ! (unflat ds k ! axis)) 0 \<and>
        encoder_Set F enc k v =
          (if k < prod_list (drop (Suc axis) ds)
           then Quantize F (-128) 127 v (m_Scales (m_Quantization info) ! 0) 0
           else Inl (UndefinedBehaviour ''division by zero'')))) \<and>
    (m_DataType info = QSymmS16 \<longrightarrow>
      (\<exists>enc. MakeEncoder info = Inr enc \<and>
        encoder_Set F enc k v =
          Quantize F (-32768) 32767 v (m_Scales (m_Quantization info) ! (unflat ds k ! axis)) 0) \<and>
      (1 < ds ! axis \<longrightarrow> MakeDecoder info = Inl (AssertionFailure ''!HasMultipleQuantizationScales()'')))"
proof -
  let ?m = "prod_list (drop (Suc axis) ds)" and ?scales = "m_Scales (m_Quantization info)"
  note axis = SetIndexOnMem_unflat [OF assms(4,6,2)]
  have after: "GetNumElementsAfter (m_Shape info) axis = Inr (u32 ?m)"
    using GetNumElementsAfter_specified [OF assms(1,4)] .
  have shape: "TensorShape_get (m_Shape info) axis = Inr (ds ! axis)" using assms(1,4) by simp
  have params: "GetPerAxisParams info = Inr (u32 ?m, ?scales)" "HasPerAxisQuantization info" "quantization_dim info = Inr axis"
    using assms(3) after by (simp_all add: GetPerAxisParams_def HasPerAxisQuantization_def quantization_dim_def)
  have "MakeDecoder info = Inr (QSymm8PerAxisDecoder (ds ! axis) (u32 ?m) ?scales)"
      "MakeEncoder info = Inr (QSymm8PerAxisEncoder 0 (u32 ?m) ?scales)" if "m_DataType info = QSymmS8"
    using that params shape after by (simp_all add: MakeDecoder_def MakeEncoder_def PerAxisIterator_of_shape_def)
  moreover have "MakeEncoder info = Inr (QSymm16PerAxisEncoder (ds ! axis) (u32 ?m) ?scales)" if "m_DataType info = QSymmS16"
    using that params shape by (simp add: MakeEncoder_def)
  moreover have "MakeDecoder info = Inl (AssertionFailure ''!HasMultipleQuantizationScales()'')"
    if "m_DataType info = QSymmS16" "1 < ds ! axis"
    using that assms(5)
    by (cases ?scales) (simp_all add: MakeDecoder_def with_scale_def GetQuantizationScale_def HasMultipleQuantizationScales_def)
  moreover have "decoder_Get F (QSymm8PerAxisDecoder (ds ! axis) (u32 ?m) ?scales) k x =
      Dequantize (fa_scaled F) 32 x (?scales ! (unflat ds k ! axis)) 0"
    "encoder_Set F (QSymm16PerAxisEncoder (ds ! axis) (u32 ?m) ?scales) k v =
      Quantize F (-32768) 32767 v (?scales ! (unflat ds k ! axis)) 0"
    using axis assms(5) by simp_all
  moreover have "encoder_Set F (QSymm8PerAxisEncoder 0 (u32 ?m) ?scales) k v =
      (if k < ?m then Quantize F (-128) 127 v (?scales ! 0) 0 else Inl (UndefinedBehaviour ''division by zero''))"
    using axis assms(5) by (auto simp: SetIndexOnMem_def)
  ultimately show ?thesis by blast
qed

definition exact_arith :: float_arith where
  "exact_arith = \<lparr>fa_scaled = \<lambda>i s. word_of_int i, fa_clamped = \<lambda>l u o' v s. max l (min u (sint v + o')),
     fa_to_float = word_of_int, fa_to_int = \<lambda>v. Some (sint v), fa_half_to_float = word_of_int, fa_float_to_half = uint\<rparr>"

theorem per_axis_codecs_witness:
  "\<exists>dec enc. MakeDecoder (two_channels [1, 2]) = Inr dec \<and> MakeEncoder (two_channels [1, 2]) = Inr enc \<and>
     decoder_Get \<lparr>fa_scaled = \<lambda>i s. s, fa_clamped = \<lambda>l u o' v s. 0, fa_to_float = word_of_int,
       fa_to_int = \<lambda>_. None, fa_half_to_float = word_of_int, fa_float_to_half = uint\<rparr> dec 3 5 = Inr 2 \<and>
     encoder_Set exact_arith enc 3 5 = Inl (UndefinedBehaviour ''division by zero'')"
proof -
  let ?F = "\<lparr>fa_scaled = \<lambda>i s. s, fa_clamped = \<lambda>l u o' v s. 0, fa_to_float = word_of_int,
       fa_to_int = \<lambda>_. None, fa_half_to_float = word_of_int, fa_float_to_half = uint\<rparr>"
  have channels: "specified_shape (m_Shape (two_channels [1, 2])) [2, 2, 1]" "m_DataType (two_channels [1, 2]) = QSymmS8"
    "m_QuantizationDim (m_Quantization (two_channels [1, 2])) = Some 1" "m_Scales (m_Quantization (two_channels [1, 2])) = [1, 2]"
    by (simp_all add: two_channels_def TensorInfo_per_axis_def SetQuantizationDim_def SetQuantizationScales_def
        specified_shape_def Quantization_default_def)
  have codecs: "\<exists>dec enc. MakeDecoder (two_channels [1, 2]) = Inr dec \<and> MakeEncoder (two_channels [1, 2]) = Inr enc \<and>
     decoder_Get F dec 3 5 = Dequantize (fa_scaled F) 32 5 2 0 \<and>
     encoder_Set F enc 3 5 = Inl (UndefinedBehaviour ''division by zero'')" for F
    using per_axis_codecs [OF channels(1) _ channels(3), of 3 F 5 5] channels(2,4) by simp
  obtain dec enc where made: "MakeDecoder (two_channels [1, 2]) = Inr dec" "MakeEncoder (two_channels [1, 2]) = Inr enc"
    "decoder_Get ?F dec 3 5 = Dequantize (fa_scaled ?F) 32 5 2 0"
    using codecs [of ?F] by blast
  moreover have "encoder_Set exact_arith enc 3 5 = Inl (UndefinedBehaviour ''division by zero'')"
    using codecs [of exact_arith] made(2) by auto
  moreover have "Dequantize (fa_scaled ?F) 32 5 2 0 = Inr 2"
    by (simp add: Dequantize_def difference_def float_zero_def)
  ultimately show ?thesis by auto
qed

end
