(* ===== verification/IndexKernels.thy ===== *)
theory IndexKernels
  imports SliceKernels Codecs
begin

section \<open>Kernels that move elements by their coordinates\<close>

text \<open>
  \<open>ReverseV2Impl.cpp\<close>, \<open>Tile.cpp\<close> and \<open>MirrorPad.cpp\<close> each turn a position in memory into the
  coordinates of an element, map the coordinates and turn them back, with code of their own. The
  interface \<open>index_codec\<close> says what such a pair of functions promises; the kernels are proved from
  it. Decoders and encoders are views of memory: the model reads and writes their values.
\<close>

subsection \<open>Coordinates\<close>

text \<open>\<open>ReverseV2Impl.cpp\<close>: the strides are the numbers of elements inside each dimension.\<close>

fun ReverseGetMultIdx :: "nat \<Rightarrow> nat list \<Rightarrow> nat list result" where
  "ReverseGetMultIdx mIdx [] = Inr []"
| "ReverseGetMultIdx mIdx (n # elementNumInner) =
     bindR (divR mIdx n) (\<lambda>i. bindR (ReverseGetMultIdx (mIdx mod n) elementNumInner) (\<lambda>is. Inr (i # is)))"

fun ReverseGetFlatIdx :: "nat list \<Rightarrow> nat list \<Rightarrow> nat \<Rightarrow> nat" where
  "ReverseGetFlatIdx (i # idxList) (n # elementNumInner) idx =
     ReverseGetFlatIdx idxList elementNumInner (u32_add idx (u32_mul i n))"
| "ReverseGetFlatIdx _ _ idx = idx"

fun reverse_strides :: "nat \<Rightarrow> nat \<Rightarrow> nat list \<Rightarrow> nat list result" where
  "reverse_strides elementNum baseDimSize [] = Inr []"
| "reverse_strides elementNum baseDimSize (d # ds) =
     (let baseDimSize = u32_mul baseDimSize d in
      bindR (divR elementNum baseDimSize) (\<lambda>n.
      bindR (reverse_strides elementNum baseDimSize ds) (\<lambda>ns. Inr (n # ns))))"

text \<open>\<open>Tile.cpp\<close>: from the last dimension to the first.\<close>

fun coordinates_loop :: "nat list \<Rightarrow> nat \<Rightarrow> nat list \<Rightarrow> nat list result" where
  "coordinates_loop [] index coordinates = Inr coordinates"
| "coordinates_loop (d # ds) index coordinates =
     bindR (modR index d) (\<lambda>c. bindR (divR index d) (\<lambda>index. coordinates_loop ds index (c # coordinates)))"

definition IndexToCoordinates :: "nat list \<Rightarrow> nat \<Rightarrow> nat list result" where
  "IndexToCoordinates shape index = coordinates_loop (rev shape) index []"

definition flat_step :: "nat \<times> nat \<Rightarrow> nat \<times> nat \<Rightarrow> nat \<times> nat" where
  "flat_step cd st = (u32_add (fst st) (u32_mul (fst cd) (snd st)), u32_mul (snd st) (snd cd))"

definition CoordinatesToIndex :: "nat list \<Rightarrow> nat list \<Rightarrow> nat" where
  "CoordinatesToIndex shape coordinates = fst (fold flat_step (rev (zip coordinates shape)) (0, 1))"

text \<open>\<open>MirrorPad.cpp\<close>.\<close>

fun coord_loop :: "nat \<Rightarrow> nat list \<Rightarrow> nat \<Rightarrow> nat list result" where
  "coord_loop numOfElements [] index = Inr []"
| "coord_loop numOfElements (d # ds) index =
     bindR (divR numOfElements d) (\<lambda>n.
     bindR (divR index n) (\<lambda>c.
     bindR (coord_loop n ds (index mod n)) (\<lambda>cs. Inr (c # cs))))"

definition IndexToCoord :: "nat list \<Rightarrow> nat \<Rightarrow> nat list result" where
  "IndexToCoord shape index =
     (let numOfElements = (if shape = [] then 0 else foldl u32_mul 1 shape) in
      bindR (throw_if (index > numOfElements) (AssertionFailure ''Index has to be in [0, num_elements]'')) (\<lambda>_.
      bindR (throw_if (numOfElements = 0) (AssertionFailure ''Cannot create coordinate from empty shape'')) (\<lambda>_.
      coord_loop numOfElements shape index)))"

definition CoordToIndex :: "nat list \<Rightarrow> nat list \<Rightarrow> nat result" where
  "CoordToIndex shape coord =
     bindR (throw_if (shape = []) (AssertionFailure ''Cannot get index from empty shape'')) (\<lambda>_.
     bindR (throw_if (coord = []) (AssertionFailure ''Cannot get index of empty coordinate'')) (\<lambda>_.
     Inr (CoordinatesToIndex shape coord)))"

subsection \<open>The interface\<close>

definition dims_ok :: "nat list \<Rightarrow> bool" where
  "dims_ok ds \<longleftrightarrow> ds \<noteq> [] \<and> (\<forall>d \<in> set ds. 0 < d) \<and> prod_list ds < 2 ^ 32"

locale index_codec =
  fixes decode :: "nat list \<Rightarrow> nat \<Rightarrow> nat list result" and encode :: "nat list \<Rightarrow> nat list \<Rightarrow> nat result"
  assumes decode_unflat: "dims_ok ds \<Longrightarrow> k < prod_list ds \<Longrightarrow> decode ds k = Inr (unflat ds k)"
    and encode_flat: "dims_ok ds \<Longrightarrow> in_box ds js \<Longrightarrow> encode ds js = Inr (flat ds js)"
begin

lemma codec_roundtrip:
  "dims_ok ds \<Longrightarrow> k < prod_list ds \<Longrightarrow> bindR (decode ds k) (encode ds) = Inr k"
  by (simp add: decode_unflat encode_flat unflat_in_box flat_unflat)

text \<open>A kernel that reads, for every output position, the input at mapped coordinates.\<close>

lemma gather_kernel:
  assumes "dims_ok os" "dims_ok ds" "\<And>js. in_box os js \<Longrightarrow> f js = Inr (g js) \<and> in_box ds (g js)"
    "length src = prod_list ds" "prod_list os \<le> length dst"
  shows "foldR (\<lambda>k out. bindR (decode os k) (\<lambda>js. bindR (f js) (\<lambda>is. bindR (encode ds is) (\<lambda>i.
      bindR (peek src i) (\<lambda>v. poke k v out))))) [0..<prod_list os] dst =
    Inr (map (\<lambda>js. src ! flat ds (g js)) (box os) @ drop (prod_list os) dst)"
proof -
  have "foldR (\<lambda>k out. bindR (decode os k) (\<lambda>js. bindR (f js) (\<lambda>is. bindR (encode ds is) (\<lambda>i.
      bindR (peek src i) (\<lambda>v. poke k v out))))) [0..<prod_list os] dst =
    foldR (\<lambda>k. poke k (src ! flat ds (g (unflat os k)))) [0..<prod_list os] dst"
    using assms by (intro foldR_cong) (simp add: decode_unflat encode_flat unflat_in_box flat_less)
  also have "\<dots> = Inr (map (\<lambda>k. src ! flat ds (g (unflat os k))) [0..<prod_list os] @ drop (prod_list os) dst)"
    using assms(5) foldR_poke [of "[0..<prod_list os]" "\<lambda>k. k" dst "\<lambda>k. src ! flat ds (g (unflat os k))"]
    by (simp add: write_all_fill)
  also have "map (\<lambda>k. src ! flat ds (g (unflat os k))) [0..<prod_list os] = map (\<lambda>js. src ! flat ds (g js)) (box os)"
    by (rule nth_equalityI) (simp_all add: box_nth)
  finally show ?thesis .
qed

text \<open>The same for a kernel that converts the elements, which may throw.\<close>

lemma convert_kernel:
  assumes "dims_ok os" "dims_ok ds" "\<And>js. in_box os js \<Longrightarrow> f js = Inr (g js) \<and> in_box ds (g js)"
    "length src = prod_list ds" "prod_list os \<le> length dst"
  shows "foldR (\<lambda>k out. bindR (decode os k) (\<lambda>js. bindR (f js) (\<lambda>is. bindR (encode ds is) (\<lambda>i.
      bindR (peek src i) (\<lambda>x. bindR (c i k x) (\<lambda>v. poke k v out)))))) [0..<prod_list os] dst =
    bindR (mapR (\<lambda>k. let i = flat ds (g (unflat os k)) in c i k (src ! i)) [0..<prod_list os])
      (\<lambda>vs. Inr (vs @ drop (prod_list os) dst))"
proof -
  have "foldR (\<lambda>k out. bindR (decode os k) (\<lambda>js. bindR (f js) (\<lambda>is. bindR (encode ds is) (\<lambda>i.
      bindR (peek src i) (\<lambda>x. bindR (c i k x) (\<lambda>v. poke k v out)))))) [0..<prod_list os] dst =
    foldR (\<lambda>k out. bindR (let i = flat ds (g (unflat os k)) in c i k (src ! i)) (\<lambda>v. poke k v out)) [0..<prod_list os] dst"
    using assms by (intro foldR_cong) (simp add: decode_unflat encode_flat unflat_in_box flat_less Let_def)
  also have "\<dots> = bindR (mapR (\<lambda>k. let i = flat ds (g (unflat os k)) in c i k (src ! i)) [0..<prod_list os])
      (\<lambda>vs. Inr (vs @ drop (prod_list os) dst))"
    by (rule foldR_poke_result [OF assms(5)])
  finally show ?thesis .
qed

text \<open>A kernel that writes every input element to coordinates mapped by an involution.\<close>

lemma scatter_kernel:
  assumes "dims_ok ds" "\<And>js. in_box ds js \<Longrightarrow> in_box ds (g js) \<and> g (g js) = js"
    "length src = prod_list ds" "length dst = prod_list ds"
  shows "foldR (\<lambda>k out. bindR (peek src k) (\<lambda>v. bindR (bindR (decode ds k) (\<lambda>js. encode ds (g js))) (\<lambda>i.
      poke i v out))) [0..<prod_list ds] dst =
    Inr (map (\<lambda>js. src ! flat ds (g js)) (box ds))"
proof -
  let ?p = "\<lambda>k. flat ds (g (unflat ds k))"
  have p: "?p k < prod_list ds" "?p (?p k) = k" if "k < prod_list ds" for k
    using that assms(2) [OF unflat_in_box [OF that]] by (simp_all add: flat_less unflat_flat flat_unflat)
  have "foldR (\<lambda>k out. bindR (peek src k) (\<lambda>v. bindR (bindR (decode ds k) (\<lambda>js. encode ds (g js))) (\<lambda>i.
      poke i v out))) [0..<prod_list ds] dst = foldR (\<lambda>k. poke (?p k) (src ! k)) [0..<prod_list ds] dst"
    using assms by (intro foldR_cong) (simp add: decode_unflat encode_flat unflat_in_box)
  also have "\<dots> = Inr (write_all (map (\<lambda>k. (?p k, src ! k)) [0..<prod_list ds]) dst)"
    using p assms(4) by (intro foldR_poke) auto
  also have "write_all (map (\<lambda>k. (?p k, src ! k)) [0..<prod_list ds]) dst = map (\<lambda>k. src ! ?p k) [0..<prod_list ds]"
    using p assms(4) by (intro write_all_permuted) auto
  also have "\<dots> = map (\<lambda>js. src ! flat ds (g js)) (box ds)"
    by (rule nth_equalityI) (simp_all add: box_nth)
  finally show ?thesis .
qed

end

subsection \<open>The three codecs keep it\<close>

lemma unflat_row_strides:
  assumes "\<And>d. d \<in> set ds \<Longrightarrow> 0 < d"
  shows "ReverseGetMultIdx k (row_strides ds) = Inr (unflat ds k)"
  using assms
proof (induction ds arbitrary: k)
  case (Cons d ds)
  then have "0 < prod_list ds" by (intro prod_list_pos) simp
  then show ?case using Cons by simp
qed simp

lemma reverse_strides_eq:
  assumes "\<And>d. d \<in> set ds \<Longrightarrow> 0 < d" "0 < b" "b * prod_list ds < 2 ^ 32"
  shows "reverse_strides (b * prod_list ds) b ds = Inr (row_strides ds)"
  using assms
proof (induction ds arbitrary: b)
  case (Cons d ds)
  have pos: "0 < d" "0 < prod_list ds" using Cons.prems(1) by (auto intro: prod_list_pos)
  have bd: "b * d < 2 ^ 32"
  proof -
    have "d \<le> d * prod_list ds" using pos by (cases "prod_list ds") auto
    then have "b * d \<le> b * (d * prod_list ds)" by (rule mult_le_mono2)
    also have "\<dots> < 2 ^ 32" using Cons.prems(3) by simp
    finally show ?thesis .
  qed
  then have "u32_mul b d = b * d" by (rule u32_mul_small)
  moreover have "reverse_strides (b * d * prod_list ds) (b * d) ds = Inr (row_strides ds)"
    using Cons.prems pos by (intro Cons.IH) (auto simp: mult.assoc)
  moreover have "b * d * prod_list ds div (b * d) = prod_list ds" using pos Cons.prems(2) by simp
  ultimately show ?case using pos Cons.prems(2) by (simp add: Let_def mult.assoc)
qed simp

lemma ReverseGetFlatIdx_dot:
  assumes "length js = length ns" "acc + dot js ns < 2 ^ 32"
  shows "ReverseGetFlatIdx js ns acc = acc + dot js ns"
  using assms
proof (induction js ns arbitrary: acc rule: list_induct2)
  case (Cons j js n ns)
  then show ?case by (simp add: u32_add_small u32_mul_small)
qed simp

lemma unflat_snoc: "0 < d \<Longrightarrow> k < prod_list ds * d \<Longrightarrow> unflat (ds @ [d]) k = unflat ds (k div d) @ [k mod d]"
proof (induction ds arbitrary: k)
  case (Cons e es)
  have "0 < prod_list es * d" using Cons.prems by (cases "prod_list es") auto
  then have "unflat (es @ [d]) (k mod (prod_list es * d)) =
      unflat es (k mod (prod_list es * d) div d) @ [k mod (prod_list es * d) mod d]"
    using Cons.prems(1) by (intro Cons.IH) auto
  moreover have "k div (prod_list es * d) = k div d div prod_list es" by (simp add: div_mult2_eq mult.commute)
  moreover have "k mod (prod_list es * d) div d = k div d mod prod_list es" "k mod (prod_list es * d) mod d = k mod d"
    using Cons.prems(1) by (simp_all add: mod_mult2_eq mult.commute [of _ d])
  ultimately show ?case by simp
qed simp

lemma coordinates_loop_eq:
  assumes "\<And>d. d \<in> set ds \<Longrightarrow> 0 < d" "k < prod_list ds"
  shows "coordinates_loop (rev ds) k acc = Inr (unflat ds k @ acc)"
  using assms
proof (induction ds arbitrary: k acc rule: rev_induct)
  case (snoc d ds)
  have d: "0 < d" using snoc.prems(1) by simp
  have k: "k div d < prod_list ds" using snoc.prems(2) d by (simp add: less_mult_imp_div_less)
  then show ?case using snoc.IH [of "k div d" "k mod d # acc"] snoc.prems d by (simp add: unflat_snoc)
qed simp

lemma flat_snoc: "length js = length ds \<Longrightarrow> flat (ds @ [d]) (js @ [j]) = flat ds js * d + j"
  by (induction js ds rule: list_induct2) (simp_all add: algebra_simps)

lemma flat_fold:
  assumes "length js = length ds"
  shows "fold flat_step (rev (zip js ds)) (0, 1) = (u32 (flat ds js), u32 (prod_list ds))"
  using assms
proof (induction js ds rule: list_induct2)
  case (Cons j js d ds)
  have "(flat ds js + j * (prod_list ds mod 4294967296)) mod 4294967296 = (flat ds js + j * prod_list ds) mod 4294967296"
    by (metis mod_add_right_eq mod_mult_right_eq)
  then show ?case
    using Cons by (simp add: flat_step_def u32_def u32_mod_simps mod_simps algebra_simps)
qed (simp add: u32_def)

lemma CoordinatesToIndex_flat:
  assumes "prod_list ds < 2 ^ 32" "in_box ds js"
  shows "CoordinatesToIndex ds js = flat ds js"
  using assms flat_fold [of js ds] flat_less [OF assms(2)]
  by (simp add: CoordinatesToIndex_def in_box_length u32_small)

lemma coord_loop_eq:
  assumes "\<And>d. d \<in> set ds \<Longrightarrow> 0 < d" "k < prod_list ds"
  shows "coord_loop (prod_list ds) ds k = Inr (unflat ds k)"
  using assms
proof (induction ds arbitrary: k)
  case (Cons d ds)
  have "0 < prod_list ds" using Cons.prems(1) by (intro prod_list_pos) simp
  then show ?case using Cons by simp
qed simp

lemma dims_okD:
  assumes "dims_ok ds"
  shows "ds \<noteq> []" "\<And>d. d \<in> set ds \<Longrightarrow> 0 < d" "prod_list ds < 4294967296" "0 < prod_list ds"
  using assms by (auto simp: dims_ok_def intro!: prod_list_pos)

interpretation reverse_codec: index_codec "\<lambda>ds k. ReverseGetMultIdx k (row_strides ds)"
    "\<lambda>ds js. Inr (ReverseGetFlatIdx js (row_strides ds) 0)"
proof unfold_locales
  show "ReverseGetMultIdx k (row_strides ds) = Inr (unflat ds k)" if "dims_ok ds" for ds k
    using dims_okD(2) [OF that] by (rule unflat_row_strides)
  show "Inr (ReverseGetFlatIdx js (row_strides ds) 0) = Inr (flat ds js)" if "dims_ok ds" "in_box ds js" for ds js
    using ReverseGetFlatIdx_dot [of js "row_strides ds" 0] flat_less [OF that(2)] in_box_length [OF that(2)]
      dims_okD(3) [OF that(1)]
    by (simp add: dot_row_strides)
qed

interpretation tile_codec: index_codec IndexToCoordinates "\<lambda>ds js. Inr (CoordinatesToIndex ds js)"
proof unfold_locales
  show "IndexToCoordinates ds k = Inr (unflat ds k)" if "dims_ok ds" "k < prod_list ds" for ds k
    using coordinates_loop_eq [OF dims_okD(2) [OF that(1)] that(2)] by (simp add: IndexToCoordinates_def)
qed (simp add: CoordinatesToIndex_flat dims_okD)

interpretation mirror_codec: index_codec IndexToCoord CoordToIndex
proof unfold_locales
  show "IndexToCoord ds k = Inr (unflat ds k)" if "dims_ok ds" "k < prod_list ds" for ds k
    using coord_loop_eq [OF dims_okD(2) [OF that(1)] that(2)] dims_okD(1,3) [OF that(1)] that(2)
    by (simp add: IndexToCoord_def Let_def foldl_u32_mul_1 del: One_nat_def)
  show "CoordToIndex ds js = Inr (flat ds js)" if "dims_ok ds" "in_box ds js" for ds js
    using that dims_okD(1) [OF that(1)]
    by (cases js) (auto simp: CoordToIndex_def CoordinatesToIndex_flat dims_okD dest: in_box_length)
qed

end
