(* ===== verification/ElementKernels.thy ===== *)
theory ElementKernels
  imports IndexKernels
begin

section \<open>ReverseV2, Tile and MirrorPad\<close>

text \<open>
  The descriptor checks (\<open>WorkloadData.cpp\<close>), the inferred shapes (\<open>ReverseV2Layer.cpp\<close>, \<open>TileLayer.cpp\<close>,
  \<open>PadLayer.cpp\<close>) and the kernels (\<open>ReverseV2Impl.cpp\<close>, \<open>Tile.cpp\<close>, \<open>MirrorPad.cpp\<close>). In \<open>ReverseV2\<close> and \<open>Tile\<close>,
  which get a decoder and an encoder from their workload, a decoder is the list of the values it reads,
  an encoder the list of the values set through it; \<open>MirrorPad\<close> makes its own from the tensor infos.
\<close>

text \<open>The loop that copies element by element.\<close>

definition copy_elements :: "nat \<Rightarrow> 'a list \<Rightarrow> 'a list \<Rightarrow> 'a list result" where
  "copy_elements n input' = foldR (\<lambda>idx out. bindR (peek input' idx) (\<lambda>v. poke idx v out)) [0..<n]"

lemma copy_elements_eq:
  assumes "n \<le> length input'" "n \<le> length out"
  shows "copy_elements n input' out = Inr (take n input' @ drop n out)"
proof -
  have "copy_elements n input' out = Inr (write_all (map (\<lambda>k. (k, input' ! k)) [0..<n]) out)"
    unfolding copy_elements_def using assms by (intro foldR_copy [where g = "\<lambda>x. x"]) auto
  also have "write_all (map (\<lambda>k. (k, input' ! k)) [0..<n]) out = map (\<lambda>k. input' ! k) [0..<n] @ drop n out"
    using assms by (simp add: write_all_fill)
  also have "map (\<lambda>k. input' ! k) [0..<n] = take n input'"
    using assms by (intro nth_equalityI) auto
  finally show ?thesis .
qed

subsection \<open>ReverseV2\<close>

definition ReverseV2QueueDescriptor_Validate :: "WorkloadInfo \<Rightarrow> unit result" where
  "ReverseV2QueueDescriptor_Validate w =
     (let inputTensorInfo = input0 w; axisTensorInfo = m_InputTensorInfos w ! 1; outputTensorInfo = output0 w in
      bindR (seqR [ValidateNumInputs w 2, ValidateNumOutputs w 1]) (\<lambda>_.
      bindR (GetNumDimensions (m_Shape inputTensorInfo)) (\<lambda>inputTensorNumDimensions.
      bindR (invalid (inputTensorNumDimensions > 4) ''Input tensors with rank greater than 4 are not supported.'') (\<lambda>_.
      bindR (GetNumDimensions (m_Shape axisTensorInfo)) (\<lambda>axisTensorNumDimensions.
      seqR
        [invalid (axisTensorNumDimensions > 4) ''More than 4 axes cannot be specified.'',
         invalid (axisTensorNumDimensions > inputTensorNumDimensions)
           ''More axes specified than the number of axes on the input tensor.'',
         ValidateDataTypes inputTensorInfo
           [BFloat16, Float16, Float32, QAsymmS8, QAsymmU8, QSymmS8, QSymmS16, Signed32],
         ValidateDataTypes axisTensorInfo [Signed32],
         ValidateTensorShapesMatch inputTensorInfo outputTensorInfo,
         ValidateTensorDataTypesMatch inputTensorInfo outputTensorInfo])))))"

definition ReverseV2Layer_InferOutputShapes :: "TensorShape list \<Rightarrow> TensorShape list result" where
  "ReverseV2Layer_InferOutputShapes inputShapes =
     bindR (throw_if (length inputShapes \<noteq> 2) (AssertionFailure ''inputShapes.size() == 2'')) (\<lambda>_.
     bindR (GetNumDimensions (inputShapes ! 0)) (\<lambda>inputDims.
     bindR (mapR (TensorShape_get (inputShapes ! 0)) [0..<inputDims]) (\<lambda>dimSizes.
     bindR (TensorShape_of_list dimSizes) (\<lambda>outputShape. Inr [outputShape]))))"

definition relocate :: "bool \<Rightarrow> nat \<Rightarrow> nat \<Rightarrow> nat" where
  "relocate axisFlag dimSize idx = (if axisFlag then u32_sub (u32_sub dimSize idx) 1 else idx)"

fun relocate_all :: "bool list \<Rightarrow> nat list \<Rightarrow> nat list \<Rightarrow> nat list" where
  "relocate_all (f # fs) (d # ds) (j # js) = relocate f d j # relocate_all fs ds js"
| "relocate_all _ _ _ = []"

definition ReverseRelocateIdx :: "nat \<Rightarrow> bool list \<Rightarrow> nat list \<Rightarrow> nat list \<Rightarrow> nat result" where
  "ReverseRelocateIdx idx axisFlag dimSize elementNumInner =
     bindR (ReverseGetMultIdx idx elementNumInner) (\<lambda>inputIdxList.
     Inr (ReverseGetFlatIdx (relocate_all axisFlag dimSize inputIdxList) elementNumInner 0))"

text \<open>A flag is set by the axis, counted from the end when it is negative; the cast to \<open>uint32_t\<close> wraps.\<close>

definition set_axis_flag :: "nat \<Rightarrow> int \<Rightarrow> bool list \<Rightarrow> bool list result" where
  "set_axis_flag inputRank axisElement axisFlag =
     (let axisElement = (if axisElement < 0 then axisElement + int inputRank else axisElement) in
      poke (nat (axisElement mod 2 ^ 32)) True axisFlag)"

definition ReverseV2 :: "TensorInfo \<Rightarrow> TensorInfo \<Rightarrow> 'a list \<Rightarrow> int list \<Rightarrow> 'a list \<Rightarrow> 'a list result" where
  "ReverseV2 inputInfo axisInfo inputDecoder axisDecoder outputEncoder =
     bindR (GetNumElements (m_Shape axisInfo)) (\<lambda>axesRank.
     bindR (GetNumElements (m_Shape inputInfo)) (\<lambda>elementNum.
     if axesRank = 0 \<or> elementNum = 0 then copy_elements elementNum inputDecoder outputEncoder
     else
       bindR (GetNumDimensions (m_Shape inputInfo)) (\<lambda>inputRank.
       bindR (mapR (peek axisDecoder) [0..<axesRank]) (\<lambda>axis.
       bindR (foldR (set_axis_flag inputRank) axis (replicate inputRank False)) (\<lambda>axisFlag.
       bindR (mapR (TensorShape_get (m_Shape inputInfo)) [0..<inputRank]) (\<lambda>dimSize.
       bindR (reverse_strides elementNum 1 dimSize) (\<lambda>elementNumInner.
       foldR (\<lambda>idx out.
          bindR (peek inputDecoder idx) (\<lambda>inputValue.
          bindR (ReverseRelocateIdx idx axisFlag dimSize elementNumInner) (\<lambda>outputIdx.
          poke outputIdx inputValue out))) [0..<elementNum] outputEncoder)))))))"

text \<open>The axes the list names, and the index they mirror.\<close>

definition axes_ok :: "nat \<Rightarrow> int list \<Rightarrow> bool" where
  "axes_ok rank axis \<longleftrightarrow> (\<forall>a \<in> set axis. - int rank \<le> a \<and> a < int rank)"

definition axis_named :: "nat \<Rightarrow> int list \<Rightarrow> nat \<Rightarrow> bool" where
  "axis_named rank axis i \<longleftrightarrow> int i \<in> set axis \<or> int i - int rank \<in> set axis"

definition mirrored :: "int list \<Rightarrow> nat list \<Rightarrow> nat list \<Rightarrow> nat list" where
  "mirrored axis ds js =
     map (\<lambda>i. if axis_named (length ds) axis i then ds ! i - 1 - js ! i else js ! i) [0..<length ds]"

lemma relocate_eq: "j < d \<Longrightarrow> d < 2 ^ 32 \<Longrightarrow> relocate f d j = (if f then d - 1 - j else j)"
  by (simp add: relocate_def u32_sub_small)

lemma relocate_all_nth:
  "length fs = length ds \<Longrightarrow> length js = length ds \<Longrightarrow>
   length (relocate_all fs ds js) = length ds \<and>
   (\<forall>i < length ds. relocate_all fs ds js ! i = relocate (fs ! i) (ds ! i) (js ! i))"
proof (induction fs ds js rule: relocate_all.induct)
  case (1 f fs d ds j js)
  then show ?case by (auto simp: nth_Cons split: nat.split)
qed auto

lemma set_axis_flags:
  assumes "axes_ok rank axis" "length flags = rank" "rank < 2 ^ 31"
  shows "\<exists>fs. foldR (set_axis_flag rank) axis flags = Inr fs \<and> length fs = rank \<and>
    (\<forall>i < rank. fs ! i \<longleftrightarrow> flags ! i \<or> axis_named rank axis i)"
  using assms
proof (induction axis arbitrary: flags)
  case Nil
  then show ?case by (auto simp: axis_named_def)
next
  case (Cons a axis)
  define j where "j = nat (if a < 0 then a + int rank else a)"
  have a: "- int rank \<le> a" "a < int rank" using Cons.prems(1) by (auto simp: axes_ok_def)
  then have j: "j < rank" "nat ((if a < 0 then a + int rank else a) mod 4294967296) = j"
    using Cons.prems(3) by (auto simp: j_def)
  then have step: "set_axis_flag rank a flags = Inr (flags[j := True])"
    using Cons.prems(2) by (simp add: set_axis_flag_def Let_def)
  have "axes_ok rank axis" using Cons.prems(1) by (simp add: axes_ok_def)
  from Cons.IH [OF this, of "flags[j := True]"] Cons.prems(2,3)
  obtain fs where fs: "foldR (set_axis_flag rank) axis (flags[j := True]) = Inr fs" "length fs = rank"
    "\<forall>i < rank. fs ! i \<longleftrightarrow> flags[j := True] ! i \<or> axis_named rank axis i" by auto
  have named: "i = j \<longleftrightarrow> int i = a \<or> int i - int rank = a" if "i < rank" for i
    using that a by (auto simp: j_def)
  have upd: "flags[j := True] ! i \<longleftrightarrow> i = j \<or> flags ! i" if "i < rank" for i
    using that Cons.prems(2) by (cases "i = j") simp_all
  have "flags[j := True] ! i \<or> axis_named rank axis i \<longleftrightarrow> flags ! i \<or> axis_named rank (a # axis) i"
    if "i < rank" for i
    unfolding upd [OF that] named [OF that] by (auto simp: axis_named_def)
  then show ?case using fs step by auto
qed

lemma mirrored_in_box:
  assumes "in_box ds js"
  shows "in_box ds (mirrored axis ds js)" "mirrored axis ds (mirrored axis ds js) = js"
proof -
  have js: "length js = length ds" "\<And>i. i < length ds \<Longrightarrow> js ! i < ds ! i"
    using assms by (auto simp: in_box_nth)
  show "in_box ds (mirrored axis ds js)"
    using js by (fastforce simp: in_box_nth mirrored_def)
  show "mirrored axis ds (mirrored axis ds js) = js"
    using js by (intro nth_equalityI) (fastforce simp: mirrored_def)+
qed

lemma ReverseV2_elements:
  assumes "specified_shape (m_Shape info) ds" "dims_ok ds" "length ds \<le> MaxNumOfTensorDimensions"
    "GetNumElements (m_Shape axisInfo) = Inr (length axis)" "axes_ok (length ds) axis"
    "length xs = prod_list ds" "length out = prod_list ds"
  shows "ReverseV2 info axisInfo xs axis out = Inr (map (\<lambda>js. xs ! flat ds (mirrored axis ds js)) (box ds))"
proof -
  note ok = dims_okD [OF assms(2)]
  have n: "GetNumElements (m_Shape info) = Inr (prod_list ds)"
    using GetNumElements_small [OF assms(1) ok(1)] ok(3) by simp
  show ?thesis
  proof (cases "axis = []")
    case True
    have "map (\<lambda>js. xs ! flat ds (mirrored [] ds js)) (box ds) = xs"
    proof (rule nth_equalityI)
      fix k
      assume "k < length (map (\<lambda>js. xs ! flat ds (mirrored [] ds js)) (box ds))"
      then have k: "k < prod_list ds" by simp
      then have "mirrored [] ds (unflat ds k) = unflat ds k"
        using in_box_length [OF unflat_in_box [OF k]]
        by (intro nth_equalityI) (auto simp: mirrored_def axis_named_def)
      then show "map (\<lambda>js. xs ! flat ds (mirrored [] ds js)) (box ds) ! k = xs ! k"
        using k by (simp add: box_nth flat_unflat)
    qed (simp add: assms(6))
    then show ?thesis using True assms(4,6,7) n by (simp add: ReverseV2_def copy_elements_eq)
  next
    case False
    have rank: "length ds < 2 ^ 31" using assms(3) by (simp add: MaxNumOfTensorDimensions_def)
    from set_axis_flags [OF assms(5) length_replicate rank, of False]
    obtain fs where fs: "foldR (set_axis_flag (length ds)) axis (replicate (length ds) False) = Inr fs"
      "length fs = length ds" "\<forall>i < length ds. fs ! i \<longleftrightarrow> axis_named (length ds) axis i" by auto
    have strides: "reverse_strides (prod_list ds) 1 ds = Inr (row_strides ds)"
      using reverse_strides_eq [of ds 1] ok by simp
    have small: "d < 4294967296" if "d \<in> set ds" for d
      using prod_list_le_mem [OF that ok(2)] ok(3) by simp
    have relocated: "relocate_all fs ds js = mirrored axis ds js" if "in_box ds js" for js
      using relocate_all_nth [of fs ds js] fs(2,3) that small
      by (intro nth_equalityI) (auto simp: in_box_nth mirrored_def relocate_eq)
    have "foldR (\<lambda>idx out. bindR (peek xs idx) (\<lambda>v. bindR (ReverseRelocateIdx idx fs ds (row_strides ds)) (\<lambda>o'.
        poke o' v out))) [0..<prod_list ds] out =
      foldR (\<lambda>k out. bindR (peek xs k) (\<lambda>v. bindR (bindR (ReverseGetMultIdx k (row_strides ds))
        (\<lambda>js. Inr (ReverseGetFlatIdx (mirrored axis ds js) (row_strides ds) 0))) (\<lambda>i. poke i v out))) [0..<prod_list ds] out"
      using ok(2) by (intro foldR_cong) (simp add: ReverseRelocateIdx_def unflat_row_strides relocated unflat_in_box)
    also have "\<dots> = Inr (map (\<lambda>js. xs ! flat ds (mirrored axis ds js)) (box ds))"
      using assms(2,6,7) mirrored_in_box by (intro reverse_codec.scatter_kernel) auto
    finally have loop: "foldR (\<lambda>idx out. bindR (peek xs idx) (\<lambda>v.
        bindR (ReverseRelocateIdx idx fs ds (row_strides ds)) (\<lambda>o'. poke o' v out))) [0..<prod_list ds] out =
      Inr (map (\<lambda>js. xs ! flat ds (mirrored axis ds js)) (box ds))" .
    have "mapR (peek axis) [0..<length axis] = Inr axis"
      by (simp add: mapR_Inr_iff list_all2_conv_all_nth)
    moreover have "mapR (TensorShape_get (m_Shape info)) [0..<length ds] = Inr ds"
      using assms(1) by (simp add: mapR_Inr_iff list_all2_conv_all_nth)
    ultimately show ?thesis
      using False assms(1,4) n ok(4) fs(1) strides loop by (simp add: ReverseV2_def del: One_nat_def)
  qed
qed



subsection \<open>Tile\<close>

record TileDescriptor =
  m_Multiples :: "nat list"

definition TileQueueDescriptor_Validate :: "TileDescriptor \<Rightarrow> WorkloadInfo \<Rightarrow> unit result" where
  "TileQueueDescriptor_Validate p w =
     (let supportedTypes = [Float32, Float16, QAsymmS8, QAsymmU8, QSymmS8, QSymmS16, Signed32] in
      seqR [ValidateNumInputs w 1, ValidateNumOutputs w 1,
            bindR (GetNumDimensions (m_Shape (input0 w))) (\<lambda>n.
              invalid (length (m_Multiples p) \<noteq> n) ''Multiples length is not same as the number of dimensions in Input.''),
            ValidateDataTypes (input0 w) supportedTypes,
            ValidateDataTypes (output0 w) supportedTypes])"

definition TileLayer_InferOutputShapes :: "TileDescriptor \<Rightarrow> TensorShape list \<Rightarrow> TensorShape list result" where
  "TileLayer_InferOutputShapes p inputShapes =
     bindR (throw_if (length inputShapes \<noteq> 1) (AssertionFailure ''inputShapes.size() == 1'')) (\<lambda>_.
     bindR (GetNumDimensions (inputShapes ! 0)) (\<lambda>numberOfDimensions.
     if numberOfDimensions = length (m_Multiples p) then
       bindR (mapR (\<lambda>i. bindR (TensorShape_get (inputShapes ! 0) i) (\<lambda>d. Inr (u32_mul d (m_Multiples p ! i))))
                [0..<numberOfDimensions]) (\<lambda>dimensionSizes.
       bindR (TensorShape_of_list dimensionSizes) (\<lambda>s. Inr [s]))
     else Inl (LayerValidationException ''TileLayer: input rank and multiples length are different.'')))"

definition Tile :: "TileDescriptor \<Rightarrow> TensorInfo \<Rightarrow> 'a list \<Rightarrow> 'a list \<Rightarrow> 'a list result" where
  "Tile params inputInfo inputDecoder outputEncoder =
     bindR (GetNumDimensions (m_Shape inputInfo)) (\<lambda>rank.
     bindR (mapR (\<lambda>i. bindR (TensorShape_get (m_Shape inputInfo) i) (\<lambda>d.
                      bindR (peek (m_Multiples params) i) (\<lambda>m. Inr (u32_mul d m)))) [0..<rank]) (\<lambda>outputShape.
     bindR (if \<forall>i < length (m_Multiples params) - 1. m_Multiples params ! i = m_Multiples params ! Suc i
            then bindR (peek (m_Multiples params) 0) (\<lambda>m. Inr (m = 1)) else Inr False) (\<lambda>isCopy.
     bindR (GetNumElements (m_Shape inputInfo)) (\<lambda>n.
     if isCopy then copy_elements n inputDecoder outputEncoder
     else
       bindR (mapR (peek inputDecoder) [0..<n]) (\<lambda>inputData.
       bindR (mapR (TensorShape_get (m_Shape inputInfo)) [0..<rank]) (\<lambda>inputShape.
       foldR (\<lambda>outputIndex out.
          bindR (IndexToCoordinates outputShape outputIndex) (\<lambda>outputCoords.
          bindR (mapR (\<lambda>i. modR (outputCoords ! i) (inputShape ! i)) [0..<rank]) (\<lambda>inputCoordinates.
          bindR (Inr (CoordinatesToIndex inputShape inputCoordinates)) (\<lambda>inputIndex.
          bindR (peek inputData inputIndex) (\<lambda>v.
          poke outputIndex v out)))))
         [0..<length inputData * foldl u32_mul 1 (m_Multiples params)] outputEncoder))))))"

definition tiled :: "nat list \<Rightarrow> nat list \<Rightarrow> nat list" where
  "tiled ds ms = map2 (*) ds ms"

lemma prod_list_tiled: "length ms = length ds \<Longrightarrow> prod_list (tiled ds ms) = prod_list ds * prod_list ms"
  unfolding tiled_def by (induction ms ds rule: list_induct2) simp_all

lemma in_box_tiled:
  assumes "length ms = length ds" "in_box (tiled ds ms) js" "\<And>d. d \<in> set ds \<Longrightarrow> 0 < d"
  shows "in_box ds (map2 (mod) js ds)"
  using assms by (auto simp: in_box_nth tiled_def)

lemma Tile_loop:
  assumes "dims_ok ds" "dims_ok (tiled ds ms)" "length ms = length ds" "length xs = prod_list ds"
    "prod_list (tiled ds ms) \<le> length out"
  shows "foldR (\<lambda>k out. bindR (IndexToCoordinates (tiled ds ms) k) (\<lambda>cs.
      bindR (mapR (\<lambda>i. modR (cs ! i) (ds ! i)) [0..<length ds]) (\<lambda>is.
      bindR (Inr (CoordinatesToIndex ds is)) (\<lambda>i. bindR (peek xs i) (\<lambda>v. poke k v out)))))
      [0..<prod_list (tiled ds ms)] out =
    Inr (map (\<lambda>js. xs ! flat ds (map2 (mod) js ds)) (box (tiled ds ms)) @ drop (prod_list (tiled ds ms)) out)"
proof (rule tile_codec.gather_kernel [OF assms(2,1) _ assms(4,5)])
  fix js
  assume js: "in_box (tiled ds ms) js"
  have len: "length js = length ds" using in_box_length [OF js] assms(3) by (simp add: tiled_def)
  have "mapR (\<lambda>i. modR (js ! i) (ds ! i)) [0..<length ds] = Inr (map (\<lambda>i. js ! i mod ds ! i) [0..<length ds])"
    using dims_okD(2) [OF assms(1)] by (intro mapR_pure) simp
  moreover have "map (\<lambda>i. js ! i mod ds ! i) [0..<length ds] = map2 (mod) js ds"
    using len by (intro nth_equalityI) auto
  ultimately show "mapR (\<lambda>i. modR (js ! i) (ds ! i)) [0..<length ds] = Inr (map2 (mod) js ds) \<and>
      in_box ds (map2 (mod) js ds)"
    using in_box_tiled [OF assms(3) js dims_okD(2) [OF assms(1)]] by simp
qed

text \<open>All multiples are equal and the first is one: every multiple is one.\<close>

lemma all_ones: "\<forall>i < length ms - 1. ms ! i = ms ! Suc i \<Longrightarrow> ms \<noteq> [] \<Longrightarrow> ms ! 0 = m \<Longrightarrow> ms = replicate (length ms) m"
proof (induction ms rule: rev_induct)
  case (snoc x ms)
  show ?case
  proof (cases "ms = []")
    case False
    have "\<forall>i < length ms - 1. ms ! i = ms ! Suc i"
      using snoc.prems(1) False by (auto simp: nth_append)
    moreover have "ms ! 0 = m" using snoc.prems(3) False by (simp add: nth_append)
    ultimately have ms: "ms = replicate (length ms) m" using snoc.IH False by blast
    have "(ms @ [x]) ! (length ms - 1) = (ms @ [x]) ! Suc (length ms - 1)"
      using snoc.prems(1) False by simp
    then have "x = ms ! (length ms - 1)" using False by (simp add: nth_append)
    then have "x = m" using ms False by (metis diff_less length_greater_0_conv less_numeral_extra(1) nth_replicate)
    then show ?thesis using ms by (metis length_append_singleton replicate_append_same replicate_Suc)
  qed (use snoc.prems in simp)
qed simp



subsection \<open>MirrorPad\<close>

datatype PaddingMode = Constant | Reflect | Symmetric

record 'v PadDescriptor =
  m_PadList :: "(nat \<times> nat) list"
  m_PadValue :: 'v
  m_PaddingMode :: PaddingMode

definition PadQueueDescriptor_Validate :: "bool \<Rightarrow> 'v PadDescriptor \<Rightarrow> WorkloadInfo \<Rightarrow> unit result" where
  "PadQueueDescriptor_Validate allowExpandedDims p w =
     (let inputTensorInfo = input0 w; outputTensorInfo = output0 w in
      bindR (seqR [ValidateNumInputs w 1, ValidateNumOutputs w 1]) (\<lambda>_.
      bindR (GetNumDimensions (m_Shape inputTensorInfo)) (\<lambda>n.
      seqR [ValidateTensorNumDimensions allowExpandedDims outputTensorInfo n,
            invalid (length (m_PadList p) \<noteq> n)
              ''Pad List should contain the same number of entries as there are dimensions in the input tensor'' ])))"

definition PadLayer_InferOutputShapes :: "'v PadDescriptor \<Rightarrow> TensorShape list \<Rightarrow> TensorShape list result" where
  "PadLayer_InferOutputShapes p inputShapes =
     bindR (throw_if (length inputShapes \<noteq> 1) (AssertionFailure ''inputShapes.size() == 1'')) (\<lambda>_.
     bindR (GetNumDimensions (inputShapes ! 0)) (\<lambda>rank.
     bindR (throw_if (length (m_PadList p) \<noteq> rank) (AssertionFailure ''m_Param.m_PadList.size() == rank'')) (\<lambda>_.
     bindR (throw_if (rank = 0) (AssertionFailure ''rank != 0'')) (\<lambda>_.
     bindR (mapR (\<lambda>i. bindR (TensorShape_get (inputShapes ! 0) i) (\<lambda>d.
              Inr (u32_add (u32_add d (fst (m_PadList p ! i))) (snd (m_PadList p ! i))))) [0..<rank]) (\<lambda>ds.
     bindR (TensorShape_of_list ds) (\<lambda>s. Inr [s]))))))"

text \<open>Along one axis: the padding in front, the input size and the output coordinate.\<close>

definition isInPadding :: "nat \<times> nat \<times> nat \<Rightarrow> bool" where
  "isInPadding t = (case t of (p, d, c) \<Rightarrow> c < p \<or> c > u32_sub (u32_add d p) 1)"

definition getReflectIndex :: "nat \<times> nat \<times> nat \<Rightarrow> nat" where
  "getReflectIndex t = (case t of (p, d, c) \<Rightarrow>
     if isInPadding t
     then (if c < p then u32_sub p c else u32_sub (u32_sub (u32_add (u32_mul 2 d) p) 2) c)
     else u32_sub c p)"

definition getSymmetricIndex :: "nat \<times> nat \<times> nat \<Rightarrow> nat" where
  "getSymmetricIndex t = (case t of (p, d, c) \<Rightarrow>
     if isInPadding t
     then (if c < p then u32_sub (u32_sub p c) 1 else u32_sub (u32_sub (u32_add (u32_mul 2 d) p) 1) c)
     else u32_sub c p)"

definition mirror_coords :: "PaddingMode \<Rightarrow> (nat \<times> nat) list \<Rightarrow> nat list \<Rightarrow> nat list \<Rightarrow> nat list result" where
  "mirror_coords paddingMode padList inputShape coord =
     bindR (mapR (\<lambda>i. bindR (peek padList i) (\<lambda>p. Inr (fst p, inputShape ! i, coord ! i))) [0..<length inputShape]) (\<lambda>ts.
     if list_ex isInPadding ts
     then (case paddingMode of
             Reflect \<Rightarrow> Inr (map getReflectIndex ts)
           | Symmetric \<Rightarrow> Inr (map getSymmetricIndex ts)
           | Constant \<Rightarrow> Inl (InvalidArgumentException ''Padding mode not supported.''))
     else Inr (map (\<lambda>(p, d, c). u32_sub c p) ts))"

definition MirrorPad ::
    "float_arith \<Rightarrow> TensorInfo \<Rightarrow> TensorInfo \<Rightarrow> int list \<Rightarrow> int list \<Rightarrow> 'v PadDescriptor \<Rightarrow> int list result" where
  "MirrorPad F inputInfo outputInfo input' output' data =
     (let padList = m_PadList data; paddingMode = m_PaddingMode data;
          isReflect = (if paddingMode = Reflect then 1 else 0) in
      bindR (GetNumElements (m_Shape outputInfo)) (\<lambda>numOutputElements.
      bindR (GetNumDimensions (m_Shape inputInfo)) (\<lambda>numInputDimensions.
      bindR (GetNumDimensions (m_Shape outputInfo)) (\<lambda>numOutputDimensions.
      bindR (throw_if (numInputDimensions \<noteq> numOutputDimensions)
        (AssertionFailure ''numInputDimensions == outputShape.GetNumDimensions()'')) (\<lambda>_.
      bindR (seqR (map (\<lambda>i. bindR (TensorShape_get (m_Shape inputInfo) i) (\<lambda>d.
          invalid (fst (padList ! i) > u32_sub d isReflect \<or> snd (padList ! i) > u32_sub d isReflect)
            ''Paddings must be less (Reflect) or equal (Symmetric) to the dimension size.''))
          [0..<length padList])) (\<lambda>_.
      bindR (MakeDecoder inputInfo) (\<lambda>decoder.
      bindR (MakeEncoder outputInfo) (\<lambda>encoder.
      bindR (read_dims (m_Shape inputInfo)) (\<lambda>inputShape.
      bindR (read_dims (m_Shape outputInfo)) (\<lambda>outputShape.
      foldR (\<lambda>idx out.
         bindR (IndexToCoord outputShape idx) (\<lambda>coord.
         bindR (mirror_coords paddingMode padList inputShape coord) (\<lambda>coordOfInput.
         bindR (CoordToIndex inputShape coordOfInput) (\<lambda>indexOfInput.
         bindR (peek input' indexOfInput) (\<lambda>stored.
         bindR (reencode F decoder encoder indexOfInput idx stored) (\<lambda>inputValue.
         poke idx inputValue out))))))
        [0..<numOutputElements] output'))))))))))"

text \<open>The coordinate an output coordinate is a mirror image of.\<close>

definition mirror_index :: "PaddingMode \<Rightarrow> nat \<Rightarrow> nat \<Rightarrow> nat \<Rightarrow> nat" where
  "mirror_index m p d c =
     (let e = (if m = Reflect then 1 else 0) in
      if c < p then p - c - (1 - e) else if c < p + d then c - p else 2 * d + p - 1 - e - c)"

lemma u32_sub_mod:
  assumes "b \<le> a"
  shows "u32_sub (a mod 4294967296) b = (a - b) mod 4294967296"
proof -
  have "int (u32_sub (a mod 4294967296) b) = (int a mod 4294967296 + 4294967296 - int b mod 4294967296) mod 4294967296"
    by (simp add: u32_sub_def of_nat_mod of_nat_diff)
  also have "\<dots> = (int a - int b) mod 4294967296"
    by (rule mod_diff_cong) simp_all
  also have "\<dots> = int ((a - b) mod 4294967296)" using assms by (simp add: of_nat_mod of_nat_diff)
  finally show ?thesis by simp
qed

lemma mirror_index_eq:
  assumes "0 < d" "c < p + d + q" "p + d + q < 2 ^ 32"
    "p \<le> d - (if m = Reflect then 1 else 0)" "q \<le> d - (if m = Reflect then 1 else 0)"
  shows "m = Reflect \<Longrightarrow> getReflectIndex (p, d, c) = mirror_index m p d c"
    "m = Symmetric \<Longrightarrow> getSymmetricIndex (p, d, c) = mirror_index m p d c"
    "isInPadding (p, d, c) \<longleftrightarrow> c < p \<or> p + d \<le> c"
    "mirror_index m p d c < d"
    "\<not> isInPadding (p, d, c) \<Longrightarrow> u32_sub c p = mirror_index m p d c"
proof -
  have pad: "isInPadding (p, d, c) \<longleftrightarrow> c < p \<or> p + d \<le> c"
    using assms(1,3) by (auto simp: isInPadding_def u32_add_small u32_sub_small)
  have far: "u32_sub (u32_sub (u32_add (u32_mul 2 d) p) e) c = 2 * d + p - e - c"
    if "e + c \<le> 2 * d + p" "2 * d + p - e - c < 4294967296" for e
    using that by (simp add: u32_mod_simps u32_sub_mod mod_simps)
  show "isInPadding (p, d, c) \<longleftrightarrow> c < p \<or> p + d \<le> c" by (fact pad)
  show "mirror_index m p d c < d" using assms by (auto simp: mirror_index_def Let_def split: if_splits)
  show "u32_sub c p = mirror_index m p d c" if "\<not> isInPadding (p, d, c)"
    using that assms pad by (auto simp: mirror_index_def Let_def u32_sub_small)
  show "getReflectIndex (p, d, c) = mirror_index m p d c" if "m = Reflect"
    using assms that pad far [of 2] by (auto simp: getReflectIndex_def mirror_index_def Let_def u32_sub_small)
  show "getSymmetricIndex (p, d, c) = mirror_index m p d c" if "m = Symmetric"
    using assms that pad far [of 1] by (auto simp: getSymmetricIndex_def mirror_index_def Let_def u32_sub_small)
qed

definition padded :: "(nat \<times> nat) list \<Rightarrow> nat list \<Rightarrow> nat list" where
  "padded ps ds = map2 (\<lambda>p d. fst p + d + snd p) ps ds"

definition mirror_indices :: "PaddingMode \<Rightarrow> (nat \<times> nat) list \<Rightarrow> nat list \<Rightarrow> nat list \<Rightarrow> nat list" where
  "mirror_indices m ps ds js = map (\<lambda>i. mirror_index m (fst (ps ! i)) (ds ! i) (js ! i)) [0..<length ds]"

text \<open>Paddings the mode allows for the sizes.\<close>

definition mirror_ok :: "PaddingMode \<Rightarrow> (nat \<times> nat) list \<Rightarrow> nat list \<Rightarrow> bool" where
  "mirror_ok m ps ds \<longleftrightarrow>
     list_all2 (\<lambda>p d. fst p \<le> d - (if m = Reflect then 1 else 0) \<and> snd p \<le> d - (if m = Reflect then 1 else 0)) ps ds"

lemma mirror_coords_eq:
  assumes "mirror_ok m ps ds" "m \<noteq> Constant" "dims_ok ds" "dims_ok (padded ps ds)" "in_box (padded ps ds) js"
  shows "mirror_coords m ps ds js = Inr (mirror_indices m ps ds js)" "in_box ds (mirror_indices m ps ds js)"
proof -
  let ?e = "if m = Reflect then 1 else 0"
  have len: "length ps = length ds" using assms(1) by (auto simp: mirror_ok_def dest: list_all2_lengthD)
  have at: "0 < ds ! i" "js ! i < fst (ps ! i) + ds ! i + snd (ps ! i)"
    "fst (ps ! i) + ds ! i + snd (ps ! i) < 2 ^ 32" "fst (ps ! i) \<le> ds ! i - ?e" "snd (ps ! i) \<le> ds ! i - ?e"
    if i: "i < length ds" for i
  proof -
    have mem: "padded ps ds ! i \<in> set (padded ps ds)" using i len by (intro nth_mem) (simp add: padded_def)
    show "fst (ps ! i) + ds ! i + snd (ps ! i) < 2 ^ 32"
      using prod_list_le_mem [OF mem dims_okD(2) [OF assms(4)]] dims_okD(3) [OF assms(4)] i len
      by (simp add: padded_def)
    show "0 < ds ! i" using dims_okD(2) [OF assms(3)] i by simp
    show "js ! i < fst (ps ! i) + ds ! i + snd (ps ! i)" using assms(5) i len by (auto simp: in_box_nth padded_def)
    show "fst (ps ! i) \<le> ds ! i - ?e" "snd (ps ! i) \<le> ds ! i - ?e"
      using assms(1) i by (auto simp: mirror_ok_def list_all2_conv_all_nth)
  qed
  note index = mirror_index_eq [OF at]
  show "in_box ds (mirror_indices m ps ds js)" using index(4) by (simp add: in_box_nth mirror_indices_def)
  let ?ts = "map (\<lambda>i. (fst (ps ! i), ds ! i, js ! i)) [0..<length ds]"
  have ts: "mapR (\<lambda>i. bindR (peek ps i) (\<lambda>p. Inr (fst p, ds ! i, js ! i))) [0..<length ds] = Inr ?ts"
    using len by (intro mapR_pure) simp
  have "(case m of Reflect \<Rightarrow> Inr (map getReflectIndex ?ts) | Symmetric \<Rightarrow> Inr (map getSymmetricIndex ?ts)
      | Constant \<Rightarrow> Inl (InvalidArgumentException ''Padding mode not supported.'')) = Inr (mirror_indices m ps ds js)"
    using index(1,2) assms(2) by (cases m) (auto simp: mirror_indices_def)
  moreover have "map (\<lambda>(p, d, c). u32_sub c p) ?ts = mirror_indices m ps ds js" if "\<not> list_ex isInPadding ?ts"
    using that index(5) by (auto simp: list_ex_iff mirror_indices_def)
  ultimately show "mirror_coords m ps ds js = Inr (mirror_indices m ps ds js)"
    unfolding mirror_coords_def ts by simp
qed

text \<open>
  C35: \<open>MirrorPad\<close> either throws or mirrors. Take a non-constant mode, an input with at least one dimension
  and no empty one, the output shape \<open>PadLayer\<close> infers, both of fewer than \<open>2 ^ 32\<close> elements. If some
  padding is larger than the size of its axis (for \<open>Reflect\<close>, not smaller than it), the kernel throws
  \<open>InvalidArgumentException\<close> before it writes. Otherwise it makes the decoder of the input and the encoder
  of the output, or throws what making them throws, stays inside both tensors, and every output element,
  also where the unsigned arithmetic of the indices wraps around on the way, is the input element at the
  mirrored coordinates, decoded at its place in the input and encoded at its place in the output; the
  only other way to fail is that one of these conversions does.
\<close>

theorem MirrorPad_correct:
  assumes "specified_shape (m_Shape i) ds" "specified_shape (m_Shape o') (padded (m_PadList p) ds)"
    "length (m_PadList p) = length ds" "dims_ok ds" "dims_ok (padded (m_PadList p) ds)" "m_PaddingMode p \<noteq> Constant"
    "length xs = prod_list ds" "prod_list (padded (m_PadList p) ds) \<le> length out"
  shows "MirrorPad F i o' xs out p =
    (if mirror_ok (m_PaddingMode p) (m_PadList p) ds
     then bindR (MakeDecoder i) (\<lambda>decoder. bindR (MakeEncoder o') (\<lambda>encoder.
       bindR (mapR (\<lambda>k. let source = flat ds (mirror_indices (m_PaddingMode p) (m_PadList p) ds
                                   (unflat (padded (m_PadList p) ds) k))
                       in reencode F decoder encoder source k (xs ! source))
               [0..<prod_list (padded (m_PadList p) ds)]) (\<lambda>values.
       Inr (values @ drop (prod_list (padded (m_PadList p) ds)) out))))
     else Inl (InvalidArgumentException ''Paddings must be less (Reflect) or equal (Symmetric) to the dimension size.''))"
proof -
  let ?m = "m_PaddingMode p" and ?ps = "m_PadList p" and ?os = "padded (m_PadList p) ds"
  let ?e = "if ?m = Reflect then 1 else 0" and ?msg = "''Paddings must be less (Reflect) or equal (Symmetric) to the dimension size.''"
  let ?check = "\<lambda>k. invalid (fst (?ps ! k) > ds ! k - ?e \<or> snd (?ps ! k) > ds ! k - ?e) ?msg"
  have len: "length ?os = length ds" using assms(3) by (simp add: padded_def)
  have limit: "u32_sub (ds ! k) ?e = ds ! k - ?e" if "k < length ds" for k
  proof -
    have mem: "ds ! k \<in> set ds" using that by simp
    have "ds ! k \<le> prod_list ds" by (rule prod_list_le_mem [OF mem dims_okD(2) [OF assms(4)]])
    then have "0 < ds ! k" "ds ! k < 2 ^ 32" using dims_okD(2) [OF assms(4) mem] dims_okD(3) [OF assms(4)] by auto
    then show ?thesis by (intro u32_sub_small) auto
  qed
  have checks: "map (\<lambda>k. bindR (TensorShape_get (m_Shape i) k) (\<lambda>d. invalid (fst (?ps ! k) > u32_sub d ?e \<or>
      snd (?ps ! k) > u32_sub d ?e) ?msg)) [0..<length ?ps] = map ?check [0..<length ds]"
    using limit assms(1,3) by (intro map_cong) auto
  have n: "GetNumElements (m_Shape o') = Inr (prod_list ?os)"
    using GetNumElements_small [OF assms(2)] dims_okD(1,3) [OF assms(5)] by simp
  show ?thesis
  proof (cases "mirror_ok ?m ?ps ds")
    case True
    then have "seqR (map ?check [0..<length ds]) = Inr ()"
      by (auto simp: seqR_Inr_iff mirror_ok_def list_all2_conv_all_nth not_less)
    then have "MirrorPad F i o' xs out p = bindR (MakeDecoder i) (\<lambda>decoder. bindR (MakeEncoder o') (\<lambda>encoder.
        foldR (\<lambda>k out. bindR (IndexToCoord ?os k) (\<lambda>js.
        bindR (mirror_coords ?m ?ps ds js) (\<lambda>is. bindR (CoordToIndex ds is) (\<lambda>i. bindR (peek xs i) (\<lambda>x.
        bindR (reencode F decoder encoder i k x) (\<lambda>v. poke k v out))))))
        [0..<prod_list ?os] out))"
      using assms(1,2) n len checks unfolding MirrorPad_def Let_def by simp
    also have "\<dots> = bindR (MakeDecoder i) (\<lambda>decoder. bindR (MakeEncoder o') (\<lambda>encoder.
        bindR (mapR (\<lambda>k. let source = flat ds (mirror_indices ?m ?ps ds (unflat ?os k))
            in reencode F decoder encoder source k (xs ! source)) [0..<prod_list ?os])
          (\<lambda>values. Inr (values @ drop (prod_list ?os) out))))"
      using mirror_coords_eq [OF True assms(6,4,5)] assms(7,8)
      by (intro bindR_cong refl mirror_codec.convert_kernel [OF assms(5,4)]) auto
    finally show ?thesis using True by simp
  next
    case False
    then have "seqR (map ?check [0..<length ds]) \<noteq> Inr ()"
      using assms(3) by (auto simp: seqR_Inr_iff mirror_ok_def list_all2_conv_all_nth not_less)
    then obtain e where e: "seqR (map ?check [0..<length ds]) = Inl e"
      by (cases "seqR (map ?check [0..<length ds])") auto
    then have "e = InvalidArgumentException ?msg"
      using seqR_Inl_mem [OF e] by (auto simp: invalid_def throw_if_def split: if_splits)
    then show ?thesis
      using False assms(1,2) n len checks e unfolding MirrorPad_def Let_def by simp
  qed
qed

theorem MirrorPad_correct_witness:
  "MirrorPad exact_arith (input0 (slice_workload [3] [6])) (output0 (slice_workload [3] [6])) [10, 11, 12] [0, 0, 0, 0, 0, 0]
     \<lparr>m_PadList = [(2, 1)], m_PadValue = (), m_PaddingMode = Reflect\<rparr> = Inr [12, 11, 10, 11, 12, 11]"
proof -
  have "[0..<6] = [0, 1, 2, 3, 4, 5 :: nat]" by (simp add: upt_rec)
  then show ?thesis
  using MirrorPad_correct [of "input0 (slice_workload [3] [6])" "[3]" "output0 (slice_workload [3] [6])"
      "\<lparr>m_PadList = [(2, 1)], m_PadValue = (), m_PaddingMode = Reflect\<rparr>" "[10, 11, 12]" "[0, 0, 0, 0, 0, 0]" exact_arith]
  by (simp add: slice_workload_def specified_shape_def padded_def dims_ok_def mirror_ok_def mirror_indices_def
      mirror_index_def Let_def MakeDecoder_def MakeEncoder_def reencode_Float32)
qed

end
