(* ===== verification/ConcatViews.thy ===== *)
theory ConcatViews
  imports IndexKernels
begin

section \<open>Views of a tensor: concatenation and splitting\<close>

text \<open>
  The descriptors of views (\<open>Descriptors.cpp\<close>), the checks and the inferred shapes of the two layers
  (\<open>WorkloadData.cpp\<close>, \<open>ConcatLayer.cpp\<close>, \<open>SplitterLayer.cpp\<close>) and the reference kernels
  (\<open>Concatenate.cpp\<close>, \<open>Splitter.cpp\<close>), which decode every element of one tensor and encode it into the
  other. The arrays of a descriptor are \<open>None\<close> for a null pointer.
\<close>

subsection \<open>Descriptors\<close>

record OriginsDescriptor =
  m_ConcatAxis :: nat
  m_NumViews :: nat
  m_NumViewDimensions :: nat
  m_ViewOrigins :: "nat list list option"

definition OriginsDescriptor_make :: "nat \<Rightarrow> nat \<Rightarrow> OriginsDescriptor" where
  "OriginsDescriptor_make numViews numDimensions =
     \<lparr>m_ConcatAxis = 1, m_NumViews = numViews, m_NumViewDimensions = numDimensions,
      m_ViewOrigins = (if numViews > 0 \<and> numDimensions > 0 then Some (replicate numViews (replicate numDimensions 0)) else None)\<rparr>"

definition SetConcatAxis :: "OriginsDescriptor \<Rightarrow> nat \<Rightarrow> OriginsDescriptor" where
  "SetConcatAxis d concatAxis = d\<lparr>m_ConcatAxis := concatAxis\<rparr>"

text \<open>The status is \<open>True\<close> for \<open>Status::Success\<close>.\<close>

definition put_coord :: "nat \<Rightarrow> nat \<Rightarrow> nat \<Rightarrow> nat list list option \<Rightarrow> nat list list option" where
  "put_coord view coord v = map_option (\<lambda>vs. vs[view := (vs ! view)[coord := v]])"

definition SetViewOriginCoord :: "OriginsDescriptor \<Rightarrow> nat \<Rightarrow> nat \<Rightarrow> nat \<Rightarrow> OriginsDescriptor \<times> bool" where
  "SetViewOriginCoord d view coord v =
     (if view \<ge> m_NumViews d then (d, False)
      else if coord \<ge> m_NumViewDimensions d then (d, False)
      else (d\<lparr>m_ViewOrigins := put_coord view coord v (m_ViewOrigins d)\<rparr>, True))"

definition GetViewOrigin :: "OriginsDescriptor \<Rightarrow> nat \<Rightarrow> nat list option result" where
  "GetViewOrigin d idx =
     (case m_ViewOrigins d of None \<Rightarrow> Inr None | Some vs \<Rightarrow> bindR (peek vs idx) (\<lambda>v. Inr (Some v)))"

definition deref :: "nat list option \<Rightarrow> nat \<Rightarrow> nat result" where
  "deref p k = (case p of None \<Rightarrow> Inl (UndefinedBehaviour ''null pointer'') | Some xs \<Rightarrow> peek xs k)"

definition OriginsDescriptor_eq :: "OriginsDescriptor \<Rightarrow> OriginsDescriptor \<Rightarrow> bool" where
  "OriginsDescriptor_eq d e \<longleftrightarrow>
     m_NumViews d = m_NumViews e \<and> m_NumViewDimensions d = m_NumViewDimensions e \<and> m_ConcatAxis d = m_ConcatAxis e \<and>
     (\<forall>i < m_NumViews d. \<forall>j < m_NumViewDimensions d.
        the (m_ViewOrigins d) ! i ! j = the (m_ViewOrigins e) ! i ! j)"

record ViewsDescriptor =
  m_Origins :: OriginsDescriptor
  m_ViewSizes :: "nat list list option"
  m_IsAxisSet :: bool
  m_SplitAxis :: int

definition ViewsDescriptor_make :: "nat \<Rightarrow> nat \<Rightarrow> ViewsDescriptor" where
  "ViewsDescriptor_make numViews numDimensions =
     \<lparr>m_Origins = OriginsDescriptor_make numViews numDimensions,
      m_ViewSizes = (if numViews > 0 \<and> numDimensions > 0 then Some (replicate numViews (replicate numDimensions 0)) else None),
      m_IsAxisSet = False, m_SplitAxis = 0\<rparr>"

definition ViewsDescriptor_SetViewOriginCoord :: "ViewsDescriptor \<Rightarrow> nat \<Rightarrow> nat \<Rightarrow> nat \<Rightarrow> ViewsDescriptor \<times> bool" where
  "ViewsDescriptor_SetViewOriginCoord d view coord v =
     (case SetViewOriginCoord (m_Origins d) view coord v of (os, ok) \<Rightarrow> (d\<lparr>m_Origins := os\<rparr>, ok))"

definition SetViewSize :: "ViewsDescriptor \<Rightarrow> nat \<Rightarrow> nat \<Rightarrow> nat \<Rightarrow> ViewsDescriptor \<times> bool" where
  "SetViewSize d view coord v =
     (if m_ViewSizes d = None then (d, False)
      else if view \<ge> m_NumViews (m_Origins d) then (d, False)
      else if coord \<ge> m_NumViewDimensions (m_Origins d) then (d, False)
      else (d\<lparr>m_ViewSizes := put_coord view coord v (m_ViewSizes d)\<rparr>, True))"

definition GetViewSizes :: "ViewsDescriptor \<Rightarrow> nat \<Rightarrow> nat list option result" where
  "GetViewSizes d idx =
     (case m_ViewSizes d of None \<Rightarrow> Inr None | Some vs \<Rightarrow> bindR (peek vs idx) (\<lambda>v. Inr (Some v)))"

definition SetSplitAxis :: "ViewsDescriptor \<Rightarrow> int \<Rightarrow> ViewsDescriptor" where
  "SetSplitAxis d axis = d\<lparr>m_SplitAxis := axis, m_IsAxisSet := True\<rparr>"

definition ViewsDescriptor_eq :: "ViewsDescriptor \<Rightarrow> ViewsDescriptor \<Rightarrow> bool" where
  "ViewsDescriptor_eq d e \<longleftrightarrow>
     m_NumViews (m_Origins d) = m_NumViews (m_Origins e) \<and>
     m_NumViewDimensions (m_Origins d) = m_NumViewDimensions (m_Origins e) \<and>
     (\<forall>i < m_NumViews (m_Origins d). \<forall>j < m_NumViewDimensions (m_Origins d).
        the (m_ViewOrigins (m_Origins d)) ! i ! j = the (m_ViewOrigins (m_Origins e)) ! i ! j \<and>
        the (m_ViewSizes d) ! i ! j = the (m_ViewSizes e) ! i ! j)"

definition CreateDescriptorForConcatenation :: "TensorShape list \<Rightarrow> nat \<Rightarrow> OriginsDescriptor result" where
  "CreateDescriptorForConcatenation shapes concatenationDimension =
     (let numInputs = length shapes in
      bindR (throw_if (numInputs < 2) (InvalidArgumentException ''Concatenation requires at least 2 inputs'')) (\<lambda>_.
      bindR (GetNumDimensions (shapes ! 0)) (\<lambda>numDimensions.
      bindR (seqR (map (\<lambda>s. bindR (GetNumDimensions s) (\<lambda>n. throw_if (n \<noteq> numDimensions)
        (InvalidArgumentException ''All inputs to concatenation must have the same number of dimensions''))) (tl shapes))) (\<lambda>_.
      bindR (throw_if (concatenationDimension \<ge> numDimensions)
        (InvalidArgumentException ''concatenationDimension must be between 0 and the number of dimensions.'')) (\<lambda>_.
      bindR (seqR (concat (map (\<lambda>s. map (\<lambda>d.
          if d = concatenationDimension then Inr ()
          else bindR (TensorShape_get (shapes ! 0) d) (\<lambda>a. bindR (TensorShape_get s d) (\<lambda>b. throw_if (a \<noteq> b)
            (InvalidArgumentException ''All inputs to concatenation must be the same size along all dimensions  except the concatenation dimension''))))
          [0..<numDimensions]) shapes))) (\<lambda>_.
      bindR (foldR (\<lambda>s st. case st of (viewsDescriptor, viewIndex, coordAlongConcatDim) \<Rightarrow>
          bindR (TensorShape_get s concatenationDimension) (\<lambda>dimSize.
          Inr (fold (\<lambda>i d. fst (SetViewOriginCoord d viewIndex i (if i = concatenationDimension then coordAlongConcatDim else 0)))
                 [0..<numDimensions] viewsDescriptor,
               Suc viewIndex, u32_add coordAlongConcatDim dimSize)))
        shapes (SetConcatAxis (OriginsDescriptor_make numInputs numDimensions) concatenationDimension, 0, 0)) (\<lambda>st.
      Inr (fst st))))))))"

subsection \<open>Shapes\<close>

text \<open>The bounding box of the views; its lower corner starts at 0 in the code.\<close>

definition extent_step :: "OriginsDescriptor \<Rightarrow> TensorShape list \<Rightarrow> nat \<Rightarrow> nat \<Rightarrow> nat list \<times> nat list \<Rightarrow> (nat list \<times> nat list) result" where
  "extent_step p inputShapes i d st =
     bindR (GetViewOrigin p i) (\<lambda>origin.
     bindR (deref origin d) (\<lambda>o'.
     bindR (TensorShape_get (inputShapes ! i) d) (\<lambda>s.
     Inr ((fst st)[d := min (fst st ! d) o'], (snd st)[d := max (snd st ! d) (u32_add o' s)]))))"

text \<open>The loop over the dimensions stops at the first one along which the views are apart.\<close>

fun axes_overlap :: "nat list option \<Rightarrow> TensorShape \<Rightarrow> nat list option \<Rightarrow> TensorShape \<Rightarrow> nat list \<Rightarrow> bool result" where
  "axes_overlap aOrigin aShape bOrigin bShape [] = Inr True"
| "axes_overlap aOrigin aShape bOrigin bShape (d # ds) =
     bindR (deref aOrigin d) (\<lambda>a1. bindR (TensorShape_get aShape d) (\<lambda>as.
     bindR (deref bOrigin d) (\<lambda>b1. bindR (TensorShape_get bShape d) (\<lambda>bs.
     if u32_add a1 as \<le> b1 \<or> u32_add b1 bs \<le> a1 then Inr False
     else axes_overlap aOrigin aShape bOrigin bShape ds))))"

definition check_pair :: "OriginsDescriptor \<Rightarrow> TensorShape list \<Rightarrow> nat \<Rightarrow> nat \<Rightarrow> unit result" where
  "check_pair p inputShapes a b =
     bindR (GetViewOrigin p a) (\<lambda>aOrigin. bindR (GetViewOrigin p b) (\<lambda>bOrigin.
     bindR (axes_overlap aOrigin (inputShapes ! a) bOrigin (inputShapes ! b) [0..<m_NumViewDimensions p]) (\<lambda>overlap.
     throw_if overlap (LayerValidationException ''ConcatLayer: Some views overlap.''))))"

definition ConcatLayer_InferOutputShapes :: "OriginsDescriptor \<Rightarrow> TensorShape list \<Rightarrow> TensorShape list result" where
  "ConcatLayer_InferOutputShapes p inputShapes =
     bindR (throw_if (length inputShapes \<noteq> m_NumViews p) (AssertionFailure ''inputShapes.size() == m_Param.GetNumViews()'')) (\<lambda>_.
     let numDims = m_NumViewDimensions p in
     bindR (seqR (map (\<lambda>s. bindR (GetNumDimensions s) (\<lambda>n. throw_if (numDims \<noteq> n)
       (LayerValidationException ''ConcatLayer: Num Dimensions must match all inputs.''))) inputShapes)) (\<lambda>_.
     bindR (foldR (\<lambda>i. foldR (extent_step p inputShapes i) [0..<numDims]) [0..<length inputShapes]
              (replicate numDims 0, replicate numDims 0)) (\<lambda>(extentMin, extentMax).
     bindR (throw_if (\<exists>s \<in> set extentMin. s \<noteq> 0)
       (LayerValidationException ''ConcatLayer: there is no view that starts at the origin'')) (\<lambda>_.
     bindR (seqR (concat (map (\<lambda>a. map (check_pair p inputShapes a) [0..<a]) [0..<length inputShapes]))) (\<lambda>_.
     bindR (foldR (\<lambda>s v. bindR (GetNumElements s) (\<lambda>n. Inr (u32_add v n))) inputShapes 0) (\<lambda>totalViewsVolume.
     let outputVolume = foldl u32_mul 1 (map2 u32_sub extentMax extentMin) in
     bindR (throw_if (totalViewsVolume \<noteq> outputVolume)
       (LayerValidationException ''ConcatLayer: there are some gaps between views'')) (\<lambda>_.
     bindR (TensorShape_of_list extentMax) (\<lambda>s. Inr [s]))))))))"

definition SplitterLayer_InferOutputShapes :: "ViewsDescriptor \<Rightarrow> TensorShape list \<Rightarrow> TensorShape list result" where
  "SplitterLayer_InferOutputShapes p inputShapes =
     bindR (throw_if (length inputShapes \<noteq> m_NumViews (m_Origins p)) (AssertionFailure ''inputShapes.size() ==  m_Param.GetNumViews()'')) (\<lambda>_.
     mapR (\<lambda>viewIdx. bindR (GetViewSizes p viewIdx) (\<lambda>sizes.
       TensorShape_sizes (m_NumViewDimensions (m_Origins p)) sizes)) [0..<m_NumViews (m_Origins p)])"

subsection \<open>Checks\<close>

text \<open>The extent checks of both \<open>Validate\<close> methods: \<open>whole\<close> is the tensor the windows lie in.\<close>

definition check_window :: "TensorInfo \<Rightarrow> TensorInfo \<Rightarrow> nat list \<Rightarrow> unit result" where
  "check_window whole part origin =
     bindR (GetNumDimensions (m_Shape whole)) (\<lambda>dims.
     seqR (invalid (length origin \<noteq> dims) ''Window origin have to have the same dimensionality as the tensor'' #
       map (\<lambda>i. bindR (TensorShape_get (m_Shape part) i) (\<lambda>s. bindR (TensorShape_get (m_Shape whole) i) (\<lambda>t.
         invalid (u32_add (origin ! i) s > t)
           ''Window extent coordinates have to be smaller or equal than the size in that coord.''))) [0..<length origin]))"

definition view_types :: "DataType list" where
  "view_types = [BFloat16, Float32, Float16, BooleanT, Signed32, QAsymmS8, QAsymmU8, QSymmS16]"

definition SplitterQueueDescriptor_Validate :: "nat list list \<Rightarrow> WorkloadInfo \<Rightarrow> unit result" where
  "SplitterQueueDescriptor_Validate viewOrigins w =
     seqR
       (ValidateNumInputs w 1 #
        concat (map (\<lambda>info. [ValidateDataTypes info view_types, ValidateTensorDataTypesMatch (input0 w) info]) (m_OutputTensorInfos w)) @
        [invalid (m_OutputTensorInfos w = []) ''At least one output needs to be provided.'',
         invalid (length (m_OutputTensorInfos w) \<noteq> length viewOrigins) ''Number of split windows has to match number of outputs'',
         bindR (GetNumDimensions (m_Shape (input0 w))) (\<lambda>_. Inr ())] @
        map2 (\<lambda>e info. check_window (input0 w) info e) viewOrigins (m_OutputTensorInfos w))"

definition ConcatQueueDescriptor_Validate :: "OriginsDescriptor \<Rightarrow> nat list list \<Rightarrow> nat \<Rightarrow> nat \<Rightarrow> WorkloadInfo \<Rightarrow> unit result" where
  "ConcatQueueDescriptor_Validate p viewOrigins numInputs numOutputs w =
     bindR (seqR [ValidateNumOutputs w 1,
                  invalid (numInputs \<le> 0) ''At least one input needs to be provided.'',
                  invalid (numOutputs \<le> 0) ''At least one output needs to be provided.'',
                  invalid (m_InputTensorInfos w = []) ''At least one TensorInfo input needs to be provided.'',
                  invalid (m_OutputTensorInfos w = []) ''At least one TensorInfo output needs to be provided.'']) (\<lambda>_.
     bindR (GetNumDimensions (m_Shape (input0 w))) (\<lambda>rank.
     bindR (invalid (m_ConcatAxis p > rank) ''Invalid concatenation axis provided.'') (\<lambda>_.
     if u32_sub rank (m_ConcatAxis p) = 1 then Inr ()
     else seqR
       ([invalid (length (m_InputTensorInfos w) \<noteq> length viewOrigins) ''Number of split windows has to match number of inputs'',
         bindR (GetNumDimensions (m_Shape (output0 w))) (\<lambda>_. Inr ())] @
        map2 (\<lambda>e info. check_window (output0 w) info e) viewOrigins (m_InputTensorInfos w) @
        concat (map (\<lambda>info. [ValidateDataTypes info view_types, ValidateTensorDataTypesMatch info (output0 w)]) (m_InputTensorInfos w))))))"

text \<open>For the innermost axis the method returns before it has looked at the windows or the data types.\<close>

lemma Concat_Validate_innermost:
  assumes "GetNumDimensions (m_Shape i) = Inr (Suc axis)" "axis < 4294967295"
  shows "ConcatQueueDescriptor_Validate (SetConcatAxis d axis) views (Suc n) (Suc m)
    \<lparr>m_InputTensorInfos = i # is, m_OutputTensorInfos = [o'], m_WeightsTensorInfo = None, m_BiasTensorInfo = None\<rparr> = Inr ()"
  using assms by (simp add: ConcatQueueDescriptor_Validate_def SetConcatAxis_def workload_checks invalid_def u32_sub_small)

subsection \<open>Kernels\<close>

text \<open>The coordinates of an element: the remainder is reduced by subtraction.\<close>

fun view_indices :: "nat \<Rightarrow> nat list \<Rightarrow> nat \<Rightarrow> nat list result" where
  "view_indices dimensionStride [] indexRemainder = Inr []"
| "view_indices dimensionStride (d # ds) indexRemainder =
     bindR (divR dimensionStride d) (\<lambda>dimensionStride.
     bindR (divR indexRemainder dimensionStride) (\<lambda>i.
     bindR (view_indices dimensionStride ds (u32_sub indexRemainder (u32_mul i dimensionStride))) (\<lambda>is.
     Inr (i # is))))"

definition insideView :: "nat list \<Rightarrow> nat list \<Rightarrow> nat list \<Rightarrow> bool result" where
  "insideView origin dims indices =
     bindR (throw_if (length origin < length dims) (UndefinedBehaviour ''view.m_Origin[i]'')) (\<lambda>_.
     Inr (\<forall>i < length dims. \<not> indices ! i < origin ! i \<and> \<not> indices ! i \<ge> u32_add (origin ! i) (dims ! i)))"

text \<open>Whether the element lies in the view, and its position in the view's own tensor.\<close>

definition view_position :: "nat \<Rightarrow> nat list \<Rightarrow> TensorInfo \<Rightarrow> nat list \<Rightarrow> nat option result" where
  "view_position rank origin info indices =
     bindR (GetNumDimensions (m_Shape info)) (\<lambda>n.
     bindR (throw_if (n \<noteq> rank) (AssertionFailure ''inputInfo.GetNumDimensions() == outputInfo0.GetNumDimensions()'')) (\<lambda>_.
     bindR (read_dims (m_Shape info)) (\<lambda>dims.
     bindR (insideView origin dims indices) (\<lambda>inside.
     Inr (if inside then Some (CoordinatesToIndex dims (map2 u32_sub indices origin)) else None)))))"

text \<open>The encoder of the output is made once, the decoder of an input for every element that is in its view.\<close>

fun concat_element ::
    "float_arith \<Rightarrow> encoder \<Rightarrow> nat \<Rightarrow> nat list list \<Rightarrow> (TensorInfo \<times> int list) list \<Rightarrow> nat list \<Rightarrow> nat \<Rightarrow>
     int list \<Rightarrow> int list result" where
  "concat_element F encoder rank [] inputs indices index out = Inr out"
| "concat_element F encoder rank (view # views) [] indices index out = Inl (UndefinedBehaviour ''inputs[viewIdx]'')"
| "concat_element F encoder rank (view # views) ((info, xs) # inputs) indices index out =
     bindR (view_position rank view info indices) (\<lambda>pos.
     case pos of
       None \<Rightarrow> concat_element F encoder rank views inputs indices index out
     | Some inIndex \<Rightarrow>
         bindR (MakeDecoder info) (\<lambda>decoder.
         bindR (peek xs inIndex) (\<lambda>x.
         bindR (reencode F decoder encoder inIndex index x) (\<lambda>v. poke index v out))))"

text \<open>Every element ends with \<open>++encoder\<close>.\<close>

definition Concatenate ::
    "float_arith \<Rightarrow> nat list list \<Rightarrow> (TensorInfo \<times> int list) list \<Rightarrow> TensorInfo \<Rightarrow> int list \<Rightarrow> int list result" where
  "Concatenate F viewOrigins inputs outputInfo0 out =
     bindR (MakeEncoder outputInfo0) (\<lambda>encoder.
     bindR (GetNumElements (m_Shape outputInfo0)) (\<lambda>n.
     foldR (\<lambda>index out.
       bindR (read_dims (m_Shape outputInfo0)) (\<lambda>dims.
       bindR (view_indices n dims index) (\<lambda>indices.
       bindR (concat_element F encoder (length dims) viewOrigins inputs indices index out) (\<lambda>out.
       bindR (encoder_move encoder (index + 1)) (\<lambda>_. Inr out))))) [0..<n] out))"

text \<open>Here the decoder of the input is made once, the encoder of an output for every element.\<close>

fun split_element ::
    "float_arith \<Rightarrow> decoder \<Rightarrow> nat \<Rightarrow> nat list list \<Rightarrow> TensorInfo list \<Rightarrow> nat list \<Rightarrow> int list \<Rightarrow> nat \<Rightarrow>
     int list list \<Rightarrow> int list list result" where
  "split_element F decoder rank [] infos indices xs index outs = Inr outs"
| "split_element F decoder rank (view # views) (info # infos) indices xs index (out # outs) =
     bindR (view_position rank view info indices) (\<lambda>pos.
     case pos of
       None \<Rightarrow> bindR (split_element F decoder rank views infos indices xs index outs) (\<lambda>outs. Inr (out # outs))
     | Some outIndex \<Rightarrow>
         bindR (MakeEncoder info) (\<lambda>encoder.
         bindR (peek xs index) (\<lambda>x.
         bindR (reencode F decoder encoder index outIndex x) (\<lambda>v.
         bindR (poke outIndex v out) (\<lambda>out. Inr (out # outs))))))"
| "split_element F decoder rank (view # views) _ indices xs index _ = Inl (UndefinedBehaviour ''outputs[viewIdx]'')"

definition Split ::
    "float_arith \<Rightarrow> nat list list \<Rightarrow> TensorInfo list \<Rightarrow> TensorInfo \<Rightarrow> int list \<Rightarrow> int list list \<Rightarrow> int list list result" where
  "Split F viewOrigins outputInfos inputInfo xs outs =
     bindR (MakeDecoder inputInfo) (\<lambda>decoder.
     bindR (GetNumElements (m_Shape inputInfo)) (\<lambda>n.
     foldR (\<lambda>index outs.
       bindR (read_dims (m_Shape inputInfo)) (\<lambda>dims.
       bindR (view_indices n dims index) (\<lambda>indices.
       split_element F decoder (length dims) viewOrigins outputInfos indices xs index outs))) [0..<n] outs))"

subsection \<open>What the kernels compute\<close>

text \<open>A view is its origin and its sizes; the first view that contains an element is the one used.\<close>

definition in_view :: "nat list \<times> nat list \<Rightarrow> nat list \<Rightarrow> bool" where
  "in_view v js \<longleftrightarrow> length js = length (snd v) \<and>
     (\<forall>i < length (snd v). fst v ! i \<le> js ! i \<and> js ! i < fst v ! i + snd v ! i)"

definition inner :: "nat list \<times> nat list \<Rightarrow> nat list \<Rightarrow> nat list" where
  "inner v js = map2 (-) js (fst v)"

definition outer :: "nat list \<times> nat list \<Rightarrow> nat list \<Rightarrow> nat list" where
  "outer v is = map2 (+) is (fst v)"

fun first_view :: "(nat list \<times> nat list) list \<Rightarrow> nat list \<Rightarrow> nat option" where
  "first_view [] js = None"
| "first_view (v # vs) js = (if in_view v js then Some 0 else map_option Suc (first_view vs js))"

definition view_ok :: "nat \<Rightarrow> nat list \<times> nat list \<Rightarrow> bool" where
  "view_ok rank v \<longleftrightarrow> length (fst v) = rank \<and> length (snd v) = rank \<and>
     (\<forall>i < rank. fst v ! i + snd v ! i < 2 ^ 32) \<and> prod_list (snd v) < 2 ^ 32"

definition info_of :: "nat list \<times> nat list \<Rightarrow> TensorInfo \<Rightarrow> bool" where
  "info_of v info \<longleftrightarrow> specified_shape (m_Shape info) (snd v)"

lemma first_view_Some:
  "first_view vs js = Some i \<Longrightarrow> i < length vs \<and> in_view (vs ! i) js \<and> (\<forall>j < i. \<not> in_view (vs ! j) js)"
proof (induction vs arbitrary: i)
  case (Cons v vs)
  then show ?case by (auto simp: nth_Cons split: if_splits nat.splits)
qed simp

lemma first_view_ex: "j < length vs \<Longrightarrow> in_view (vs ! j) js \<Longrightarrow> \<exists>i. first_view vs js = Some i"
proof (induction vs arbitrary: j)
  case (Cons v vs)
  then show ?case by (cases j) auto
qed simp

lemma in_view_inner:
  assumes "view_ok rank v" "in_view v js"
  shows "in_box (snd v) (inner v js)" "outer v (inner v js) = js"
proof -
  have len: "length js = rank" "length (fst v) = rank" "length (snd v) = rank"
    using assms by (auto simp: view_ok_def in_view_def)
  show "in_box (snd v) (inner v js)"
    using assms(2) len by (auto simp: in_view_def inner_def in_box_nth less_diff_conv2 add.commute)
  show "outer v (inner v js) = js"
    using assms(2) len by (intro nth_equalityI) (auto simp: in_view_def inner_def outer_def)
qed

lemma in_view_outer:
  assumes "view_ok rank v" "in_box (snd v) is"
  shows "in_view v (outer v is)" "inner v (outer v is) = is"
proof -
  have len: "length is = rank" "length (fst v) = rank" "length (snd v) = rank"
    using assms in_box_length [OF assms(2)] by (auto simp: view_ok_def)
  show "in_view v (outer v is)"
    using assms(2) len by (auto simp: in_view_def outer_def in_box_nth)
  show "inner v (outer v is) = is"
    using len by (intro nth_equalityI) (auto simp: inner_def outer_def)
qed

lemma view_position_eq:
  assumes "view_ok rank v" "info_of v info" "length js = rank" "dims32 js"
  shows "view_position rank (fst v) info js =
    Inr (if in_view v js then Some (flat (snd v) (inner v js)) else None)"
proof -
  have len: "length (fst v) = rank" "length (snd v) = rank" "prod_list (snd v) < 2 ^ 32"
    and sums: "\<And>i. i < rank \<Longrightarrow> u32_add (fst v ! i) (snd v ! i) = fst v ! i + snd v ! i"
    using assms(1) by (auto simp: view_ok_def u32_add_small)
  have "insideView (fst v) (snd v) js = Inr (in_view v js)"
    using len sums assms(3) by (auto simp: insideView_def in_view_def not_less not_le)
  moreover have "CoordinatesToIndex (snd v) (map2 u32_sub js (fst v)) = flat (snd v) (inner v js)" if "in_view v js"
  proof -
    have "map2 u32_sub js (fst v) = inner v js"
      using that len assms(3,4)
      by (intro nth_equalityI) (auto simp: inner_def in_view_def u32_sub_small dims32_def)
    then show ?thesis using CoordinatesToIndex_flat [OF len(3)] in_view_inner(1) [OF assms(1) that] by simp
  qed
  ultimately show ?thesis using assms(2) len by (simp add: view_position_def info_of_def)
qed

lemma view_indices_eq:
  assumes "k < prod_list ds" "prod_list ds < 2 ^ 32"
  shows "view_indices (prod_list ds) ds k = Inr (unflat ds k)"
  using assms
proof (induction ds arbitrary: k)
  case (Cons d ds)
  have pos: "0 < d" "0 < prod_list ds" using Cons.prems(1) by (cases d; cases "prod_list ds"; simp)+
  have k: "k < 2 ^ 32" by (rule less_trans [OF Cons.prems])
  have "k div prod_list ds * prod_list ds < 2 ^ 32" by (rule le_less_trans [OF div_times_less_eq_dividend k])
  then have "u32_sub k (u32_mul (k div prod_list ds) (prod_list ds)) = k - k div prod_list ds * prod_list ds"
    by (simp only: u32_mul_small u32_sub_small [OF div_times_less_eq_dividend k])
  then have "u32_sub k (u32_mul (k div prod_list ds) (prod_list ds)) = k mod prod_list ds"
    by (simp only: minus_div_mult_eq_mod)
  moreover have "view_indices (prod_list ds) ds (k mod prod_list ds) = Inr (unflat ds (k mod prod_list ds))"
  proof (rule Cons.IH)
    show "k mod prod_list ds < prod_list ds" using pos by simp
    have "prod_list ds \<le> d * prod_list ds" using pos by simp
    also have "\<dots> < 2 ^ 32" using Cons.prems(2) by simp
    finally show "prod_list ds < 2 ^ 32" .
  qed
  ultimately show ?case using pos by simp
qed simp

text \<open>The value an element has after its trip, if the trip succeeds.\<close>

definition concat_value ::
    "float_arith \<Rightarrow> encoder \<Rightarrow> (nat list \<times> nat list) \<Rightarrow> TensorInfo \<Rightarrow> int list \<Rightarrow> nat list \<Rightarrow> nat \<Rightarrow> int result" where
  "concat_value F encoder v info xs js k =
     (let p = flat (snd v) (inner v js)
      in bindR (MakeDecoder info) (\<lambda>decoder. reencode F decoder encoder p k (xs ! p)))"

definition split_value ::
    "float_arith \<Rightarrow> decoder \<Rightarrow> (nat list \<times> nat list) \<Rightarrow> TensorInfo \<Rightarrow> int list \<Rightarrow> nat list \<Rightarrow> nat \<Rightarrow> int result" where
  "split_value F decoder v info xs js k =
     bindR (MakeEncoder info) (\<lambda>encoder. reencode F decoder encoder k (flat (snd v) (inner v js)) (xs ! k))"

lemma concat_element_eq:
  assumes "\<forall>v \<in> set vs. view_ok rank v" "list_all2 (\<lambda>v (info, xs). info_of v info \<and> length xs = prod_list (snd v)) vs inputs"
    "length js = rank" "dims32 js" "k < length out"
    "\<And>i. first_view vs js = Some i \<Longrightarrow> concat_value F encoder (vs ! i) (fst (inputs ! i)) (snd (inputs ! i)) js k = Inr z"
  shows "concat_element F encoder rank (map fst vs) inputs js k out =
    Inr (case first_view vs js of None \<Rightarrow> out | Some i \<Rightarrow> out[k := z])"
  using assms(2,1,6)
proof (induction rule: list_all2_induct)
  case Nil
  then show ?case by simp
next
  case (Cons v vs input inputs)
  obtain info xs where input: "input = (info, xs)" by (cases input)
  have v: "view_ok rank v" "info_of v info" "length xs = prod_list (snd v)" using Cons input by auto
  note pos = view_position_eq [OF v(1,2) assms(3,4)]
  show ?case
  proof (cases "in_view v js")
    case True
    then have "concat_value F encoder v info xs js k = Inr z" using Cons.prems(2) [of 0] input by simp
    then show ?thesis
      using True input pos v(3) assms(5) flat_less [OF in_view_inner(1) [OF v(1) True]]
      by (auto simp: concat_value_def Let_def)
  next
    case False
    have "concat_value F encoder (vs ! i) (fst (inputs ! i)) (snd (inputs ! i)) js k = Inr z"
      if "first_view vs js = Some i" for i
      using Cons.prems(2) [of "Suc i"] that False by simp
    then show ?thesis using Cons input pos False by (simp split: option.split)
  qed
qed

lemma split_element_eq:
  assumes "\<forall>v \<in> set vs. view_ok rank v" "list_all2 info_of vs infos" "length outs = length vs"
    "\<forall>i < length vs. length (outs ! i) = prod_list (snd (vs ! i))"
    "length js = rank" "dims32 js" "k < length xs"
    "\<And>i. first_view vs js = Some i \<Longrightarrow> split_value F decoder (vs ! i) (infos ! i) xs js k = Inr z"
  shows "split_element F decoder rank (map fst vs) infos js xs k outs =
    Inr (case first_view vs js of None \<Rightarrow> outs
         | Some i \<Rightarrow> outs[i := (outs ! i)[flat (snd (vs ! i)) (inner (vs ! i) js) := z]])"
  using assms(2,1,3,4,8)
proof (induction arbitrary: outs rule: list_all2_induct)
  case Nil
  then show ?case by simp
next
  case (Cons v vs info infos)
  obtain out outs' where outs: "outs = out # outs'" using Cons.prems(2) by (cases outs) auto
  have v: "view_ok rank v" "info_of v info" "length out = prod_list (snd v)" using Cons outs by auto
  note pos = view_position_eq [OF v(1,2) assms(5,6)]
  show ?case
  proof (cases "in_view v js")
    case True
    then have "split_value F decoder v info xs js k = Inr z" using Cons.prems(4) [of 0] by simp
    then show ?thesis
      using True outs pos v(3) assms(7) flat_less [OF in_view_inner(1) [OF v(1) True]]
      by (auto simp: split_value_def)
  next
    case False
    have "length (outs' ! i) = prod_list (snd (vs ! i))" if "i < length vs" for i
      using Cons.prems(3) [rule_format, of "Suc i"] outs that by simp
    moreover have "split_value F decoder (vs ! i) (infos ! i) xs js k = Inr z" if "first_view vs js = Some i" for i
      using Cons.prems(4) [of "Suc i"] that False by simp
    ultimately have "split_element F decoder rank (map fst vs) infos js xs k outs' =
      Inr (case first_view vs js of None \<Rightarrow> outs'
         | Some i \<Rightarrow> outs'[i := (outs' ! i)[flat (snd (vs ! i)) (inner (vs ! i) js) := z]])"
      using Cons outs by (intro Cons.IH) auto
    then show ?thesis using outs pos False by (simp split: option.split)
  qed
qed

lemma in_box_dims32:
  assumes "in_box ds js" "prod_list ds < 2 ^ 32"
  shows "dims32 js"
  unfolding dims32_def
proof
  fix j
  assume "j \<in> set js"
  then obtain i where i: "i < length js" "j = js ! i" by (auto simp: in_set_conv_nth)
  have len: "length js = length ds" using assms(1) by (rule in_box_length)
  have pos: "0 < d" if "d \<in> set ds" for d
    using that assms(1) by (auto simp: in_box_nth in_set_conv_nth)
  have "ds ! i \<le> prod_list ds" using i(1) len by (intro prod_list_le_mem pos) auto
  moreover have "j < ds ! i" using assms(1) i len by (auto simp: in_box_nth)
  ultimately show "j < 2 ^ 32" using assms(2) by simp
qed

lemma foldR_update:
  assumes "\<forall>k < n. \<forall>ys. length ys = length out \<longrightarrow> f k ys = Inr (case v k of None \<Rightarrow> ys | Some x \<Rightarrow> ys[k := x])"
    "n \<le> length out"
  shows "foldR f [0..<n] out = Inr (map (\<lambda>k. case v k of None \<Rightarrow> out ! k | Some x \<Rightarrow> x) [0..<n] @ drop n out)"
  using assms
proof (induction n)
  case (Suc n)
  let ?w = "\<lambda>k. case v k of None \<Rightarrow> out ! k | Some x \<Rightarrow> x"
  have d: "drop n out = out ! n # drop (Suc n) out" using Suc.prems(2) by (simp add: Cons_nth_drop_Suc)
  have "foldR f [0..<n] out = Inr (map ?w [0..<n] @ drop n out)" using Suc by simp
  moreover have "f n (map ?w [0..<n] @ drop n out) = Inr (map ?w [0..<Suc n] @ drop (Suc n) out)"
    using Suc.prems d by (simp add: list_update_append split: option.split)
  ultimately show ?case by (simp add: foldR_append)
qed simp

text \<open>The list of the views of a kernel call, and the tensors and infos that go with them.\<close>

definition views_of :: "nat list \<Rightarrow> (nat list \<times> nat list) list \<Rightarrow> TensorInfo list \<Rightarrow> bool" where
  "views_of os vs infos \<longleftrightarrow>
     os \<noteq> [] \<and> prod_list os < 2 ^ 32 \<and> (\<forall>v \<in> set vs. view_ok (length os) v) \<and> list_all2 info_of vs infos"

definition sized :: "(nat list \<times> nat list) list \<Rightarrow> 'a list list \<Rightarrow> bool" where
  "sized vs xss \<longleftrightarrow> list_all2 (\<lambda>v xs. length xs = prod_list (snd v)) vs xss"

lemma Concatenate_eq:
  assumes "specified_shape (m_Shape info) os" "views_of os vs infos" "sized vs xss" "prod_list os \<le> length out"
    "MakeEncoder info = Inr encoder" "\<And>k. k \<le> prod_list os \<Longrightarrow> encoder_move encoder k = Inr ()"
    "\<And>k i. k < prod_list os \<Longrightarrow> first_view vs (unflat os k) = Some i \<Longrightarrow>
       concat_value F encoder (vs ! i) (infos ! i) (xss ! i) (unflat os k) k = Inr (zs ! k)"
  shows "Concatenate F (map fst vs) (zip infos xss) info out =
    Inr (map (\<lambda>k. case first_view vs (unflat os k) of None \<Rightarrow> out ! k | Some i \<Rightarrow> zs ! k) [0..<prod_list os] @
      drop (prod_list os) out)"
proof -
  have os: "os \<noteq> []" "prod_list os < 2 ^ 32" "\<forall>v \<in> set vs. view_ok (length os) v" "list_all2 info_of vs infos"
    using assms(2) by (auto simp: views_of_def)
  have len: "length infos = length vs" "length xss = length vs"
    using os(4) assms(3) by (auto simp: sized_def dest: list_all2_lengthD)
  have inputs: "list_all2 (\<lambda>v (info, xs). info_of v info \<and> length xs = prod_list (snd v)) vs (zip infos xss)"
    using os(4) assms(3) len by (auto simp: sized_def list_all2_conv_all_nth)
  let ?v = "\<lambda>k. map_option (\<lambda>i. zs ! k) (first_view vs (unflat os k))"
  have step: "bindR (view_indices (prod_list os) os k) (\<lambda>js.
        bindR (concat_element F encoder (length os) (map fst vs) (zip infos xss) js k ys) (\<lambda>ys.
        bindR (encoder_move encoder (k + 1)) (\<lambda>_. Inr ys))) =
      Inr (case ?v k of None \<Rightarrow> ys | Some x \<Rightarrow> ys[k := x])"
    if k: "k < prod_list os" "length ys = length out" for k ys
  proof -
    note js = unflat_in_box [OF k(1)]
    have "concat_value F encoder (vs ! i) (fst (zip infos xss ! i)) (snd (zip infos xss ! i)) (unflat os k) k = Inr (zs ! k)"
      if "first_view vs (unflat os k) = Some i" for i
      using assms(7) [OF k(1) that] first_view_Some [OF that] len by simp
    then have "concat_element F encoder (length os) (map fst vs) (zip infos xss) (unflat os k) k ys =
        Inr (case first_view vs (unflat os k) of None \<Rightarrow> ys | Some i \<Rightarrow> ys[k := zs ! k])"
      using os(3) inputs in_box_length [OF js] in_box_dims32 [OF js os(2)] k assms(4)
      by (intro concat_element_eq) auto
    then show ?thesis
      using view_indices_eq [OF k(1) os(2)] assms(6) [of "k + 1"] k(1) by (simp split: option.split)
  qed
  have "foldR (\<lambda>k ys. bindR (view_indices (prod_list os) os k) (\<lambda>js.
      bindR (concat_element F encoder (length os) (map fst vs) (zip infos xss) js k ys) (\<lambda>ys.
      bindR (encoder_move encoder (k + 1)) (\<lambda>_. Inr ys)))) [0..<prod_list os] out =
    Inr (map (\<lambda>k. case ?v k of None \<Rightarrow> out ! k | Some x \<Rightarrow> x) [0..<prod_list os] @ drop (prod_list os) out)"
    using step assms(4) by (intro foldR_update) auto
  then show ?thesis
    using assms(1,5) GetNumElements_small [OF assms(1) os(1,2)]
    by (simp add: Concatenate_def option.case_eq_if option.map_sel map_option_case cong: map_cong)
qed

definition split_writes :: "nat list \<Rightarrow> (nat list \<times> nat list) list \<Rightarrow> 'a list \<Rightarrow> nat \<Rightarrow> nat list \<Rightarrow> (nat \<times> 'a) list" where
  "split_writes os vs xs i ks =
     map (\<lambda>k. (flat (snd (vs ! i)) (inner (vs ! i) (unflat os k)), xs ! k)) (filter (\<lambda>k. first_view vs (unflat os k) = Some i) ks)"

lemma split_loop:
  assumes "views_of os vs infos" "length xs = prod_list os" "sized vs outs" "\<forall>k \<in> set ks. k < prod_list os"
    "\<And>k i. k < prod_list os \<Longrightarrow> first_view vs (unflat os k) = Some i \<Longrightarrow>
       split_value F decoder (vs ! i) (infos ! i) xs (unflat os k) k = Inr (zs ! k)"
  shows "\<exists>outs'. foldR (\<lambda>k outs. bindR (view_indices (prod_list os) os k) (\<lambda>js.
        split_element F decoder (length os) (map fst vs) infos js xs k outs)) ks outs = Inr outs' \<and> length outs' = length vs \<and>
      (\<forall>i < length vs. outs' ! i = write_all (split_writes os vs zs i ks) (outs ! i))"
  using assms(3,4)
proof (induction ks arbitrary: outs)
  case Nil
  then show ?case by (auto simp: split_writes_def sized_def dest: list_all2_lengthD)
next
  case (Cons k ks)
  have os: "os \<noteq> []" "prod_list os < 2 ^ 32" "\<forall>v \<in> set vs. view_ok (length os) v" "list_all2 info_of vs infos"
    using assms(1) by (auto simp: views_of_def)
  have k: "k < prod_list os" using Cons.prems(2) by simp
  note js = unflat_in_box [OF k]
  have outs: "length outs = length vs" "\<forall>i < length vs. length (outs ! i) = prod_list (snd (vs ! i))"
    using Cons.prems(1) by (auto simp: sized_def list_all2_conv_all_nth)
  define outs1 where "outs1 = (case first_view vs (unflat os k) of None \<Rightarrow> outs
         | Some i \<Rightarrow> outs[i := (outs ! i)[flat (snd (vs ! i)) (inner (vs ! i) (unflat os k)) := zs ! k]])"
  have step: "split_element F decoder (length os) (map fst vs) infos (unflat os k) xs k outs = Inr outs1"
    unfolding outs1_def using os(3,4) outs in_box_length [OF js] in_box_dims32 [OF js os(2)] k assms(2,5)
    by (intro split_element_eq) auto
  have "sized vs outs1"
    using outs first_view_Some [of vs "unflat os k"]
    by (auto simp: outs1_def sized_def list_all2_conv_all_nth nth_list_update split: option.split)
  moreover have "\<forall>k \<in> set ks. k < prod_list os" using Cons.prems(2) by simp
  ultimately obtain outs' where outs': "foldR (\<lambda>k outs. bindR (view_indices (prod_list os) os k) (\<lambda>js.
        split_element F decoder (length os) (map fst vs) infos js xs k outs)) ks outs1 = Inr outs'" "length outs' = length vs"
    "\<forall>i < length vs. outs' ! i = write_all (split_writes os vs zs i ks) (outs1 ! i)"
    using Cons.IH [of outs1] by blast
  have "write_all (split_writes os vs zs i ks) (outs1 ! i) = write_all (split_writes os vs zs i (k # ks)) (outs ! i)"
    if "i < length vs" for i
    using that outs(1) by (auto simp: outs1_def split_writes_def nth_list_update split: option.split)
  then show ?case using outs' step view_indices_eq [OF k os(2)] by simp
qed

lemma Split_eq:
  assumes "specified_shape (m_Shape info) os" "views_of os vs infos" "sized vs outs" "length xs = prod_list os"
    "MakeDecoder info = Inr decoder"
    "\<And>k i. k < prod_list os \<Longrightarrow> first_view vs (unflat os k) = Some i \<Longrightarrow>
       split_value F decoder (vs ! i) (infos ! i) xs (unflat os k) k = Inr (zs ! k)"
  shows "\<exists>outs'. Split F (map fst vs) infos info xs outs = Inr outs' \<and> length outs' = length vs \<and>
      (\<forall>i < length vs. outs' ! i = write_all (split_writes os vs zs i [0..<prod_list os]) (outs ! i))"
proof -
  have n: "GetNumElements (m_Shape info) = Inr (prod_list os)"
    using GetNumElements_small [OF assms(1)] assms(2) by (simp add: views_of_def)
  have "Split F (map fst vs) infos info xs outs = foldR (\<lambda>k outs. bindR (view_indices (prod_list os) os k) (\<lambda>js.
      split_element F decoder (length os) (map fst vs) infos js xs k outs)) [0..<prod_list os] outs"
    using assms(1,5) n by (simp add: Split_def)
  then show ?thesis using split_loop [OF assms(2,4,3) _ assms(6), where ks = "[0..<prod_list os]"] by fastforce
qed

lemma Split_element:
  assumes "views_of os vs infos" "i < length vs" "length ys = prod_list (snd (vs ! i))" "length xs = prod_list os"
    "in_box (snd (vs ! i)) is" "in_box os (outer (vs ! i) is)" "first_view vs (outer (vs ! i) is) = Some i"
  shows "write_all (split_writes os vs xs i [0..<prod_list os]) ys ! flat (snd (vs ! i)) is = xs ! flat os (outer (vs ! i) is)"
proof (rule write_all_nth)
  let ?v = "vs ! i" and ?ws = "split_writes os vs xs i [0..<prod_list os]"
  have v: "view_ok (length os) ?v" using assms(1,2) by (simp add: views_of_def)
  have "inj_on (\<lambda>k. flat (snd ?v) (inner ?v (unflat os k))) {k. k < prod_list os \<and> first_view vs (unflat os k) = Some i}"
  proof (rule inj_onI, clarify)
    fix k l
    assume k: "k < prod_list os" "first_view vs (unflat os k) = Some i"
      and l: "l < prod_list os" "first_view vs (unflat os l) = Some i"
      and eq: "flat (snd ?v) (inner ?v (unflat os k)) = flat (snd ?v) (inner ?v (unflat os l))"
    note inside = in_view_inner [OF v first_view_Some [THEN conjunct2, THEN conjunct1]]
    have "inner ?v (unflat os k) = inner ?v (unflat os l)"
      using eq flat_inj inside(1) [OF k(2)] inside(1) [OF l(2)] by blast
    then have "unflat os k = unflat os l" using inside(2) [OF k(2)] inside(2) [OF l(2)] by metis
    then show "k = l" using flat_unflat [OF k(1)] flat_unflat [OF l(1)] by metis
  qed
  then show "distinct (map fst ?ws)"
    by (auto simp: split_writes_def comp_def distinct_map intro: inj_on_subset)
  have k: "flat os (outer ?v is) < prod_list os" using assms(6) by (rule flat_less)
  show "(flat (snd ?v) is, xs ! flat os (outer ?v is)) \<in> set ?ws"
    using k assms(7) in_view_outer(2) [OF v assms(5)] unflat_flat [OF assms(6)]
    by (auto simp: split_writes_def image_iff intro!: bexI [of _ "flat os (outer ?v is)"])
  show "flat (snd ?v) is < length ys" using flat_less [OF assms(5)] assms(3) by simp
qed

text \<open>Views that cut a tensor into pieces.\<close>

definition cut :: "nat list \<Rightarrow> (nat list \<times> nat list) list \<Rightarrow> bool" where
  "cut os vs \<longleftrightarrow>
     (\<forall>js. in_box os js \<longleftrightarrow> (\<exists>i < length vs. in_view (vs ! i) js)) \<and>
     (\<forall>js i k. i < length vs \<longrightarrow> k < length vs \<longrightarrow> in_view (vs ! i) js \<longrightarrow> in_view (vs ! k) js \<longrightarrow> i = k)"

lemma cut_first_view:
  assumes "cut os vs" "i < length vs" "in_view (vs ! i) js"
  shows "first_view vs js = Some i" "in_box os js"
proof -
  obtain k where k: "first_view vs js = Some k" using first_view_ex [OF assms(2,3)] by blast
  then show "first_view vs js = Some i" using first_view_Some [OF k] assms by (auto simp: cut_def)
  show "in_box os js" using assms by (auto simp: cut_def)
qed

text \<open>
  An element survives the trip from position \<open>a\<close> of one tensor to position \<open>b\<close> of another, where it is
  stored as \<open>y\<close>, and back.
\<close>

definition survives ::
    "float_arith \<Rightarrow> TensorInfo \<Rightarrow> TensorInfo \<Rightarrow> nat \<Rightarrow> nat \<Rightarrow> int \<Rightarrow> int \<Rightarrow> bool" where
  "survives F from to a b x y \<longleftrightarrow> (\<exists>decoder encoder decoder' encoder'.
     MakeDecoder from = Inr decoder \<and> MakeEncoder to = Inr encoder \<and>
     MakeDecoder to = Inr decoder' \<and> MakeEncoder from = Inr encoder' \<and>
     reencode F decoder encoder a b x = Inr y \<and> reencode F decoder' encoder' b a y = Inr x)"

text \<open>
  C37: \<open>Concatenate\<close> and \<open>Split\<close> are inverse on views that cut the tensor, if the conversions are. Take a
  tensor of at least one dimension and fewer than \<open>2 ^ 32\<close> elements, views that cut it, each with a tensor
  of its own, and suppose that every element of every view's tensor can be decoded there, encoded at its
  place in the whole tensor (the view's origin added to its coordinates), decoded and encoded back to
  what it was - nothing is supposed of tensors quantized alike, it has to hold of the conversions of
  these elements - and that the encoder of the whole tensor can be moved over all positions. Then
  neither kernel throws or leaves a tensor; the concatenation holds at the place of every element what
  the decoder of its input and the encoder of the output make of it, requantized where the tensors
  differ, whatever the output held before; and splitting the result with the same views gives the
  inputs back, whatever the split outputs held before.
\<close>

theorem Concatenate_Split:
  assumes "specified_shape (m_Shape info) os" "views_of os vs infos" "cut os vs" "sized vs xss" "sized vs outs"
    "length out = prod_list os" "MakeEncoder info = Inr encoder" "MakeDecoder info = Inr decoder"
    "\<forall>k \<le> prod_list os. encoder_move encoder k = Inr ()"
    "\<forall>i < length vs. \<forall>is \<in> set (box (snd (vs ! i))). \<exists>y.
       survives F (infos ! i) info (flat (snd (vs ! i)) is) (flat os (outer (vs ! i) is)) (xss ! i ! flat (snd (vs ! i)) is) y"
  shows "\<exists>ys. Concatenate F (map fst vs) (zip infos xss) info out = Inr ys \<and> length ys = prod_list os \<and>
    (\<forall>i < length vs. \<forall>is \<in> set (box (snd (vs ! i))).
       let a = flat (snd (vs ! i)) is; b = flat os (outer (vs ! i) is)
       in bindR (MakeDecoder (infos ! i)) (\<lambda>d. reencode F d encoder a b (xss ! i ! a)) = Inr (ys ! b)) \<and>
    Split F (map fst vs) infos info ys outs = Inr xss"
proof -
  let ?n = "prod_list os" and ?at = "\<lambda>i k. flat (snd (vs ! i)) (inner (vs ! i) (unflat os k))"
  have v: "view_ok (length os) (vs ! i)" if "i < length vs" for i using assms(2) that by (simp add: views_of_def)
  have inside: "inner (vs ! i) (unflat os k) \<in> set (box (snd (vs ! i)))" "i < length vs"
    "flat os (outer (vs ! i) (inner (vs ! i) (unflat os k))) = k"
    if "k < ?n" "first_view vs (unflat os k) = Some i" for i k
    using first_view_Some [OF that(2)] in_view_inner [OF v] flat_unflat [OF that(1)] by (auto simp: set_box)
  have covered: "\<exists>i. first_view vs (unflat os k) = Some i" if "k < ?n" for k
    using unflat_in_box [OF that] assms(3) first_view_ex unfolding cut_def by blast
  have "\<forall>k < ?n. \<exists>y. \<forall>i. first_view vs (unflat os k) = Some i \<longrightarrow> survives F (infos ! i) info (?at i k) k (xss ! i ! ?at i k) y"
  proof (intro allI impI)
    fix k assume k: "k < ?n"
    obtain i where i: "first_view vs (unflat os k) = Some i" using covered [OF k] by blast
    then show "\<exists>y. \<forall>i. first_view vs (unflat os k) = Some i \<longrightarrow> survives F (infos ! i) info (?at i k) k (xss ! i ! ?at i k) y"
      using assms(10) inside [OF k i] by (metis option.inject)
  qed
  then obtain zs where zs: "length zs = ?n"
    "\<And>k i. k < ?n \<Longrightarrow> first_view vs (unflat os k) = Some i \<Longrightarrow> survives F (infos ! i) info (?at i k) k (xss ! i ! ?at i k) (zs ! k)"
    unfolding Skolem_list_nth by blast
  have concat: "concat_value F encoder (vs ! i) (infos ! i) (xss ! i) (unflat os k) k = Inr (zs ! k)"
    and split: "split_value F decoder (vs ! i) (infos ! i) zs (unflat os k) k = Inr (xss ! i ! ?at i k)"
    if "k < ?n" "first_view vs (unflat os k) = Some i" for k i
    using zs(2) [OF that] assms(7,8) by (auto simp: survives_def concat_value_def split_value_def Let_def)
  have "map (\<lambda>k. case first_view vs (unflat os k) of None \<Rightarrow> out ! k | Some i \<Rightarrow> zs ! k) [0..<?n] @ drop ?n out = zs"
  proof (rule nth_equalityI)
    fix k
    assume "k < length (map (\<lambda>k. case first_view vs (unflat os k) of None \<Rightarrow> out ! k | Some i \<Rightarrow> zs ! k) [0..<?n] @ drop ?n out)"
    then have "k < ?n" using assms(6) by simp
    then show "(map (\<lambda>k. case first_view vs (unflat os k) of None \<Rightarrow> out ! k | Some i \<Rightarrow> zs ! k) [0..<?n] @ drop ?n out) ! k = zs ! k"
      using covered [of k] by (auto simp: nth_append)
  qed (use assms(6) zs(1) in simp)
  moreover have "Concatenate F (map fst vs) (zip infos xss) info out =
      Inr (map (\<lambda>k. case first_view vs (unflat os k) of None \<Rightarrow> out ! k | Some i \<Rightarrow> zs ! k) [0..<?n] @ drop ?n out)"
    using assms(6,9) concat by (intro Concatenate_eq [OF assms(1,2,4) _ assms(7)]) auto
  ultimately have ys: "Concatenate F (map fst vs) (zip infos xss) info out = Inr zs" by simp
  have element: "let a = flat (snd (vs ! i)) is; b = flat os (outer (vs ! i) is)
       in bindR (MakeDecoder (infos ! i)) (\<lambda>d. reencode F d encoder a b (xss ! i ! a)) = Inr (zs ! b)"
    if "i < length vs" "is \<in> set (box (snd (vs ! i)))" for i "is"
  proof -
    have box: "in_box (snd (vs ! i)) is" using that(2) by (simp add: set_box)
    note o = in_view_outer [OF v [OF that(1)] box]
    note c = cut_first_view [OF assms(3) that(1) o(1)]
    show ?thesis
      using concat [OF flat_less [OF c(2)], of i] unflat_flat [OF c(2)] c(1) o(2)
      by (simp add: concat_value_def Let_def)
  qed
  have sizes: "length (outs ! i) = prod_list (snd (vs ! i))" "length (xss ! i) = prod_list (snd (vs ! i))" "length xss = length vs"
    if "i < length vs" for i
    using that assms(4,5) by (auto simp: sized_def list_all2_conv_all_nth)
  define ws where "ws = map (\<lambda>k. case first_view vs (unflat os k) of None \<Rightarrow> 0 | Some i \<Rightarrow> xss ! i ! ?at i k) [0..<?n]"
  have ws: "length ws = ?n" "\<And>k i. k < ?n \<Longrightarrow> first_view vs (unflat os k) = Some i \<Longrightarrow> ws ! k = xss ! i ! ?at i k"
    by (simp_all add: ws_def)
  obtain outs' where outs': "Split F (map fst vs) infos info zs outs = Inr outs'" "length outs' = length vs"
    "\<forall>i < length vs. outs' ! i = write_all (split_writes os vs ws i [0..<?n]) (outs ! i)"
    using Split_eq [OF assms(1,2,5) zs(1) assms(8), of F ws] split ws(2) by force
  have "outs' ! i = xss ! i" if i: "i < length vs" for i
  proof (rule nth_equalityI)
    fix k
    assume "k < length (outs' ! i)"
    then have k: "k < prod_list (snd (vs ! i))" using outs'(3) i sizes by simp
    let ?is = "unflat (snd (vs ! i)) k"
    note box = unflat_in_box [OF k]
    note o = in_view_outer [OF v [OF i] box]
    note c = cut_first_view [OF assms(3) i o(1)]
    have "outs' ! i ! flat (snd (vs ! i)) ?is = ws ! flat os (outer (vs ! i) ?is)"
      using Split_element [OF assms(2) i sizes(1) [OF i] ws(1) box c(2,1)] outs'(3) i by simp
    also have "\<dots> = xss ! i ! flat (snd (vs ! i)) ?is"
      using ws(2) [OF flat_less [OF c(2)], of i] unflat_flat [OF c(2)] c(1) o(2) by simp
    finally show "outs' ! i ! k = xss ! i ! k" using flat_unflat [OF k] by simp
  qed (use outs'(3) i sizes in simp)
  then have "outs' = xss" using outs'(2) assms(4) by (intro nth_equalityI) (auto simp: sized_def dest: list_all2_lengthD)
  then show ?thesis using ys zs(1) element outs'(1) by blast
qed

subsection \<open>What the concat layer accepts\<close>

lemma extents_eq:
  assumes "specified_shape s ds" "length ds = n" "length o' = n" "inputShapes ! i = s"
    "m_ViewOrigins p = Some os" "i < length os" "os ! i = o'" "length mn = n" "length mx = n"
  shows "foldR (extent_step p inputShapes i) [0..<n] (mn, mx) = Inr (map2 min mn o', map2 max mx (map2 u32_add o' ds))"
proof -
  have "foldR (extent_step p inputShapes i) [0..<k] (mn, mx) =
      Inr (map2 min (take k mn) (take k o') @ drop k mn, map2 max (take k mx) (map2 u32_add (take k o') (take k ds)) @ drop k mx)"
    if "k \<le> n" for k
    using that
  proof (induction k)
    case (Suc k)
    have d: "take (Suc k) xs = take k xs @ [xs ! k]" "drop k xs = xs ! k # drop (Suc k) xs" if "length xs = n" for xs :: "nat list"
      using Suc.prems that by (simp_all add: take_Suc_conv_app_nth Cons_nth_drop_Suc)
    have "extent_step p inputShapes i k (map2 min (take k mn) (take k o') @ drop k mn,
        map2 max (take k mx) (map2 u32_add (take k o') (take k ds)) @ drop k mx) =
      Inr (map2 min (take (Suc k) mn) (take (Suc k) o') @ drop (Suc k) mn,
        map2 max (take (Suc k) mx) (map2 u32_add (take (Suc k) o') (take (Suc k) ds)) @ drop (Suc k) mx)"
      using assms Suc.prems
      by (simp add: extent_step_def GetViewOrigin_def deref_def d nth_append list_update_append)
    then show ?case using Suc by (simp add: foldR_append)
  qed simp
  from this [of n] show ?thesis using assms by simp
qed

lemma extents_loop:
  assumes "list_all2 specified_shape shapes dss" "\<forall>ds \<in> set dss. length ds = n" "m_ViewOrigins p = Some os"
    "length os = length shapes" "\<forall>o' \<in> set os. length o' = n" "k \<le> length shapes"
  shows "\<exists>mx. foldR (\<lambda>i. foldR (extent_step p shapes i) [0..<n]) [0..<k] (replicate n 0, replicate n 0) =
      Inr (replicate n 0, mx) \<and> length mx = n \<and> dims32 mx \<and>
    (\<forall>i < k. \<forall>d < n. u32_add (os ! i ! d) (dss ! i ! d) \<le> mx ! d)"
  using assms(6)
proof (induction k)
  case 0
  then show ?case by simp
next
  case (Suc k)
  then obtain mx where mx: "foldR (\<lambda>i. foldR (extent_step p shapes i) [0..<n]) [0..<k] (replicate n 0, replicate n 0) =
      Inr (replicate n 0, mx)" "length mx = n" "dims32 mx" "\<forall>i < k. \<forall>d < n. u32_add (os ! i ! d) (dss ! i ! d) \<le> mx ! d"
    by auto
  have k: "specified_shape (shapes ! k) (dss ! k)" "length (dss ! k) = n" "length (os ! k) = n" "k < length os"
    using Suc.prems assms(1,2,4,5) by (auto simp: list_all2_conv_all_nth)
  let ?mx = "map2 max mx (map2 u32_add (os ! k) (dss ! k))"
  have mins: "map2 min (replicate n 0) (os ! k) = replicate n (0::nat)"
    using k(3) by (intro nth_equalityI) auto
  have "foldR (extent_step p shapes k) [0..<n] (replicate n 0, mx) = Inr (replicate n 0, ?mx)"
    using extents_eq [OF k(1,2,3) refl assms(3) k(4) refl length_replicate mx(2)] mins by simp
  moreover have "dims32 ?mx"
    unfolding dims32_def [of ?mx] using mx(2) k(2,3) dims32_nth [OF mx(3)] by (auto simp: in_set_conv_nth)
  moreover have "u32_add (os ! i ! d) (dss ! i ! d) \<le> ?mx ! d" if "i < Suc k" "d < n" for i d
    using that mx(2,4) k(2,3) by (auto simp: less_Suc_eq le_max_iff_disj)
  ultimately show ?case using mx(1,2) k(2,3) by (auto simp: foldR_append)
qed

lemma axes_overlap_False:
  assumes "axes_overlap (Some ao) a (Some bo) b ds = Inr False" "specified_shape a as" "specified_shape b bs"
    "\<forall>d \<in> set ds. d < length as \<and> d < length bs"
  shows "\<exists>d \<in> set ds. u32_add (ao ! d) (as ! d) \<le> bo ! d \<or> u32_add (bo ! d) (bs ! d) \<le> ao ! d"
  using assms(1,4)
proof (induction ds)
  case (Cons d ds)
  have get: "TensorShape_get a d = Inr (as ! d)" "TensorShape_get b d = Inr (bs ! d)"
    using Cons.prems(2) assms(2,3) by simp_all
  show ?case
  proof (cases "u32_add (ao ! d) (as ! d) \<le> bo ! d \<or> u32_add (bo ! d) (bs ! d) \<le> ao ! d")
    case False
    then have "axes_overlap (Some ao) a (Some bo) b ds = Inr False"
      using Cons.prems(1) get by (auto simp: deref_def split: if_splits)
    then show ?thesis using Cons by auto
  qed simp
qed simp

lemma volume_loop:
  assumes "list_all2 specified_shape shapes dss" "\<forall>ds \<in> set dss. ds \<noteq> []"
  shows "foldR (\<lambda>s v. bindR (GetNumElements s) (\<lambda>n. Inr (u32_add v n))) shapes (v mod 4294967296) =
    Inr ((v + sum_list (map prod_list dss)) mod 4294967296)"
  using assms
proof (induction arbitrary: v rule: list_all2_induct)
  case (Cons s shapes ds dss)
  have "GetNumElements s = Inr (prod_list ds mod 4294967296)"
    using Cons GetNumElements_specified [of s ds] by simp
  then show ?case using Cons.IH [of "v + prod_list ds"] Cons.prems by (simp add: u32_mod_simps mod_simps add.assoc)
qed simp

text \<open>Disjoint views inside a tensor that have as many elements as it cut it.\<close>

lemma card_view: "view_ok rank v \<Longrightarrow> finite {js. in_view v js} \<and> card {js. in_view v js} = prod_list (snd v)"
proof -
  assume v: "view_ok rank v"
  have bij: "bij_betw (outer v) (set (box (snd v))) {js. in_view v js}"
    using in_view_inner [OF v] in_view_outer [OF v]
    by (intro bij_betw_byWitness [where f' = "inner v"]) (auto simp: set_box)
  show ?thesis
    using bij_betw_same_card [OF bij] bij_betw_finite [OF bij] distinct_card [OF distinct_box, of "snd v"] by simp
qed

lemma cut_by_volume:
  assumes "\<forall>v \<in> set vs. view_ok rank v" "\<And>i js. i < length vs \<Longrightarrow> in_view (vs ! i) js \<Longrightarrow> in_box os js"
    "\<And>i k js. i < k \<Longrightarrow> k < length vs \<Longrightarrow> in_view (vs ! i) js \<Longrightarrow> \<not> in_view (vs ! k) js"
    "sum_list (map (prod_list \<circ> snd) vs) mod 2 ^ 32 = prod_list os mod 2 ^ 32" "prod_list os < 2 ^ 32"
  shows "cut os vs"
proof -
  let ?V = "\<lambda>i. {js. in_view (vs ! i) js}" and ?n = "length vs"
  have v: "finite (?V i)" "card (?V i) = prod_list (snd (vs ! i))" if "i < ?n" for i
    using card_view [of rank "vs ! i"] assms(1) that by auto
  have apart: "?V i \<inter> ?V k = {}" if "i < ?n" "k < ?n" "i \<noteq> k" for i k
    using assms(3) [of i k] assms(3) [of k i] that by (cases "i < k") auto
  have "card (\<Union>i < ?n. ?V i) = (\<Sum>i < ?n. card (?V i))"
    using v(1) apart by (intro card_UN_disjoint) auto
  also have "\<dots> = sum_list (map (prod_list \<circ> snd) vs)"
    using v(2) by (simp add: sum_list_sum_nth atLeast0LessThan)
  finally have card: "card (\<Union>i < ?n. ?V i) = sum_list (map (prod_list \<circ> snd) vs)" .
  have box: "finite (set (box os))" "card (set (box os)) = prod_list os"
    using distinct_card [OF distinct_box] by simp_all
  have sub: "(\<Union>i < ?n. ?V i) \<subseteq> set (box os)" using assms(2) by (auto simp: set_box)
  then have "sum_list (map (prod_list \<circ> snd) vs) \<le> prod_list os" using card_mono [OF box(1) sub] card box(2) by simp
  then have "sum_list (map (prod_list \<circ> snd) vs) = prod_list os" using assms(4,5) by simp
  then have "(\<Union>i < ?n. ?V i) = set (box os)" using card_subset_eq [OF box(1) sub] card box(2) by simp
  then have "in_box os js \<longleftrightarrow> (\<exists>i < ?n. in_view (vs ! i) js)" for js by (auto simp: set_box)
  then show ?thesis using apart unfolding cut_def by blast
qed

text \<open>
  C36: The shape \<open>ConcatLayer\<close> infers is cut by its views. If \<open>InferOutputShapes\<close> accepts the descriptor and
  the shapes, every view ends below \<open>2 ^ 32\<close> on every axis, and the views and the inferred shape have
  fewer than \<open>2 ^ 32\<close> elements each, then every index of the inferred shape lies in exactly one view and
  every view inside the shape: comparing the volumes modulo \<open>2 ^ 32\<close> after the pairwise check leaves
  no gap and no overlap.
\<close>

theorem ConcatLayer_cut:
  assumes "ConcatLayer_InferOutputShapes p shapes = Inr ss" "list_all2 specified_shape shapes dss"
    "m_ViewOrigins p = Some origins" "length origins = m_NumViews p" "\<forall>o' \<in> set origins. length o' = m_NumViewDimensions p"
    "\<forall>v \<in> set (zip origins dss). view_ok (m_NumViewDimensions p) v"
  shows "\<exists>s os. ss = [s] \<and> specified_shape s os \<and> (prod_list os < 2 ^ 32 \<longrightarrow> cut os (zip origins dss))"
proof -
  let ?n = "m_NumViewDimensions p" and ?vs = "zip origins dss"
  have len: "length shapes = m_NumViews p" "length dss = length shapes"
    using assms(1,2) by (auto simp: ConcatLayer_InferOutputShapes_def Let_def dest: list_all2_lengthD)
  have spec: "specified_shape (shapes ! i) (dss ! i)" if "i < length shapes" for i
    using assms(2) that by (simp add: list_all2_conv_all_nth)
  have "\<forall>s \<in> set shapes. GetNumDimensions s = Inr ?n"
    using assms(1) by (auto simp: ConcatLayer_InferOutputShapes_def Let_def seqR_Inr_iff)
  then have dims: "length (dss ! i) = ?n" if "i < length shapes" for i
    using specified_shape_GetNumDimensions [OF spec [OF that]] that by auto
  then have all: "\<forall>ds \<in> set dss. length ds = ?n" using len by (auto simp: in_set_conv_nth)
  obtain mx where mx: "foldR (\<lambda>i. foldR (extent_step p shapes i) [0..<?n]) [0..<length shapes] (replicate ?n 0, replicate ?n 0) =
      Inr (replicate ?n 0, mx)" "length mx = ?n" "dims32 mx"
    "\<forall>i < length shapes. \<forall>d < ?n. u32_add (origins ! i ! d) (dss ! i ! d) \<le> mx ! d"
    using extents_loop [OF assms(2) all assms(3) _ assms(5) order_refl] assms(4) len by auto
  have pairs: "check_pair p shapes a b = Inr ()" if "b < a" "a < length shapes" for a b
    using assms(1) mx(1) that by (auto simp: ConcatLayer_InferOutputShapes_def Let_def seqR_Inr_iff)
  obtain s where s: "ss = [s]" "TensorShape_of_list mx = Inr s"
    and volumes: "foldR (\<lambda>s v. bindR (GetNumElements s) (\<lambda>n. Inr (u32_add v n))) shapes 0 =
      Inr (foldl u32_mul 1 (map2 u32_sub mx (replicate ?n 0)))"
    using assms(1) mx(1) by (auto simp: ConcatLayer_InferOutputShapes_def Let_def simp del: One_nat_def)
  have s_mx: "specified_shape s mx" "?n \<noteq> 0" using s(2) mx(2) by (auto simp: TensorShape_of_list_ok)
  have "map2 u32_sub mx (replicate ?n 0) = mx"
    using mx(2) dims32_nth [OF mx(3)] by (intro nth_equalityI) (auto simp: u32_sub_small)
  moreover have "\<forall>ds \<in> set dss. ds \<noteq> []" using all s_mx(2) by force
  ultimately have volume: "sum_list (map prod_list dss) mod 2 ^ 32 = prod_list mx mod 2 ^ 32"
    using volumes volume_loop [OF assms(2), of 0] by (simp add: foldl_u32_mul_1 del: One_nat_def)
  have at: "?vs ! i = (origins ! i, dss ! i)" "i < length shapes" if "i < length ?vs" for i
    using that len by simp_all
  have sum: "u32_add (origins ! i ! d) (dss ! i ! d) = origins ! i ! d + dss ! i ! d" if "i < length ?vs" "d < ?n" for i d
    using assms(6) that nth_mem [OF that(1)] by (auto simp: at(1) view_ok_def intro!: u32_add_small)
  have "cut mx ?vs" if small: "prod_list mx < 2 ^ 32"
  proof (rule cut_by_volume [OF assms(6) _ _ _ small])
    show "in_box mx js" if "i < length ?vs" "in_view (?vs ! i) js" for i js
      using that mx(2,4) sum [OF that(1)] dims [OF at(2) [OF that(1)]] at [OF that(1)]
      by (fastforce simp: in_view_def in_box_nth)
    show "\<not> in_view (?vs ! k) js" if ik: "i < k" "k < length ?vs" "in_view (?vs ! i) js" for i k js
    proof -
      have i: "i < length ?vs" using ik by simp
      have "axes_overlap (Some (origins ! k)) (shapes ! k) (Some (origins ! i)) (shapes ! i) [0..<?n] = Inr False"
        using pairs [OF ik(1) at(2) [OF ik(2)]] ik(2) i assms(3)
        by (auto simp: check_pair_def GetViewOrigin_def)
      from axes_overlap_False [OF this spec [OF at(2) [OF ik(2)]] spec [OF at(2) [OF i]]]
      obtain d where d: "d < ?n" "u32_add (origins ! k ! d) (dss ! k ! d) \<le> origins ! i ! d \<or>
          u32_add (origins ! i ! d) (dss ! i ! d) \<le> origins ! k ! d"
        using dims [OF at(2) [OF ik(2)]] dims [OF at(2) [OF i]] by auto
      have inside: "fst v ! d \<le> js ! d \<and> js ! d < fst v ! d + snd v ! d" if "in_view v js" "length (snd v) = ?n" for v
        using that d(1) by (simp add: in_view_def)
      show ?thesis
        using inside [of "?vs ! i"] inside [of "?vs ! k"] ik(3) d(2) sum [OF ik(2) d(1)] sum [OF i d(1)]
          at(1) [OF ik(2)] at(1) [OF i] dims [OF at(2) [OF ik(2)]] dims [OF at(2) [OF i]]
        by auto
    qed
    have "map (prod_list \<circ> snd) ?vs = map prod_list dss" using len assms(4) by (intro nth_equalityI) auto
    then show "sum_list (map (prod_list \<circ> snd) ?vs) mod 2 ^ 32 = prod_list mx mod 2 ^ 32" using volume by simp
  qed
  then show ?thesis using s(1) s_mx(1) by blast
qed

text \<open>Two pieces of a matrix, side by side.\<close>

definition two_views :: OriginsDescriptor where
  "two_views = fst (SetViewOriginCoord (SetConcatAxis (OriginsDescriptor_make 2 2) 1) 1 1 2)"

definition shape_of :: "nat list \<Rightarrow> TensorShape" where
  "shape_of ds = \<lparr>m_Dimensions = ds, m_DimensionsSpecificity = replicate (length ds) True, m_Dimensionality = Specified\<rparr>"

lemma specified_shape_of [simp]: "specified_shape (shape_of ds) ds"
  by (simp add: specified_shape_def shape_of_def)

lemma two_views_eq: "two_views = \<lparr>m_ConcatAxis = 1, m_NumViews = 2, m_NumViewDimensions = 2, m_ViewOrigins = Some [[0, 0], [0, 2]]\<rparr>"
  by (simp add: two_views_def SetViewOriginCoord_def SetConcatAxis_def OriginsDescriptor_make_def put_coord_def)

lemma two_views_shape: "ConcatLayer_InferOutputShapes two_views [shape_of [2, 2], shape_of [2, 1]] = Inr [shape_of [2, 3]]"
proof -
  have list: "[0..<2] = [0, 1::nat]" "[0..<1] = [0::nat]" "[0..<Suc 0] = [0::nat]" "[0..<0] = ([] :: nat list)" by (simp_all add: upt_rec)
  have spec: "specified_shape (shape_of ds) ds" for ds by simp
  have elements: "GetNumElements (shape_of [2, 2]) = Inr 4" "GetNumElements (shape_of [2, 1]) = Inr 2"
    using GetNumElements_small [OF spec] by simp_all
  have get: "TensorShape_get (shape_of ds) i = Inr (ds ! i)" if "i < length ds" for ds i
    using that specified_shape_get [OF spec] by simp
  have shape: "TensorShape_of_list [2, 3] = Inr (shape_of [2, 3])"
    by (simp add: TensorShape_of_list_ok MaxNumOfTensorDimensions_def)
  have dims: "GetNumDimensions (shape_of ds) = Inr (length ds)" for ds
    using specified_shape_GetNumDimensions [OF spec] by simp
  have u32: "u32_add 0 2 = 2" "u32_add 0 1 = 1" "u32_add 2 1 = 3" "u32_add 0 4 = 4" "u32_add 4 2 = 6"
    "u32_sub 2 0 = 2" "u32_sub 3 0 = 3" "u32_mul 1 2 = 2" "u32_mul 2 3 = 6"
    by (simp_all add: u32_add_def u32_sub_def u32_mul_def)
  show ?thesis
    by (simp add: ConcatLayer_InferOutputShapes_def Let_def two_views_eq dims list extent_step_def GetViewOrigin_def
        deref_def get u32 u32 [unfolded One_nat_def] check_pair_def elements elements(2) [unfolded One_nat_def] shape del: peek_simps(2) bindR_eq_Inr)
qed

theorem ConcatLayer_cut_witness:
  "cut [2, 3] (zip [[0, 0], [0, 2]] [[2, 2], [2, 1]])"
proof -
  have "\<exists>s os. [shape_of [2, 3]] = [s] \<and> specified_shape s os \<and>
      (prod_list os < 2 ^ 32 \<longrightarrow> cut os (zip [[0, 0], [0, 2]] [[2, 2], [2, 1]]))"
    by (rule ConcatLayer_cut [OF two_views_shape]) (auto simp: two_views_eq view_ok_def nth_Cons split: nat.split)
  then obtain os where "specified_shape (shape_of [2, 3]) os"
    "prod_list os < 2 ^ 32 \<longrightarrow> cut os (zip [[0, 0], [0, 2]] [[2, 2], [2, 1]])" by auto
  moreover from this have "os = [2, 3]" by (simp add: specified_shape_def shape_of_def)
  ultimately show ?thesis by simp
qed

theorem Concatenate_Split_witness:
  "\<exists>ys. Concatenate exact_arith [[0], [2]]
       [(input0 (slice_workload [2] [3]), [10, 11]), (input0 (slice_workload [1] [3]), [12])]
       (output0 (slice_workload [2] [3])) [0, 0, 0] = Inr ys \<and>
     Split exact_arith [[0], [2]] [input0 (slice_workload [2] [3]), input0 (slice_workload [1] [3])]
       (output0 (slice_workload [2] [3])) ys [[0, 0], [0]] = Inr [[10, 11], [12]]"
proof -
  let ?vs = "[([0], [2]), ([2], [1])] :: (nat list \<times> nat list) list"
  let ?xss = "[[10, 11], [12]] :: int list list"
  let ?infos = "[input0 (slice_workload [2] [3]), input0 (slice_workload [1] [3])]"
  have view: "in_view ([a], [n]) js \<longleftrightarrow> (\<exists>j. js = [j] \<and> a \<le> j \<and> j < a + n)" for a n js
    by (cases js) (auto simp: in_view_def)
  have two: "(\<exists>i < length ?vs. in_view (?vs ! i) js) \<longleftrightarrow> (\<exists>j. js = [j] \<and> j < 3)" for js
  proof -
    have "(\<exists>i < length ?vs. in_view (?vs ! i) js) \<longleftrightarrow> in_view ([0], [2]) js \<or> in_view ([2], [1]) js"
      by (auto simp: less_Suc_eq)
    also have "\<dots> \<longleftrightarrow> (\<exists>j. js = [j] \<and> j < 3)" unfolding view by (auto intro: leI)
    finally show ?thesis .
  qed
  have one: "i = k" if "i < length ?vs" "k < length ?vs" "in_view (?vs ! i) js" "in_view (?vs ! k) js" for i k js
  proof -
    have "i = 0 \<or> i = 1" "k = 0 \<or> k = 1" using that(1,2) by auto
    then show ?thesis using that(3,4) by (elim disjE) (simp_all add: view, auto)
  qed
  have "in_box [3] js \<longleftrightarrow> (\<exists>j. js = [j] \<and> j < 3)" for js by (auto simp: in_box_Cons)
  then have "cut [3] ?vs" unfolding cut_def two using one by blast
  moreover have "views_of [3] ?vs ?infos"
    by (simp add: views_of_def view_ok_def info_of_def slice_workload_def specified_shape_def)
  moreover have codecs: "MakeEncoder (output0 (slice_workload [2] [3])) = Inr Float32Encoder"
    "MakeDecoder (output0 (slice_workload [2] [3])) = Inr Float32Decoder"
    "MakeDecoder (input0 (slice_workload [n] [3])) = Inr Float32Decoder"
    "MakeEncoder (input0 (slice_workload [n] [3])) = Inr Float32Encoder" for n
    by (simp_all add: MakeEncoder_def MakeDecoder_def slice_workload_def)
  moreover have "\<exists>y. survives exact_arith (?infos ! i) (output0 (slice_workload [2] [3]))
      (flat (snd (?vs ! i)) is) (flat [3] (outer (?vs ! i) is)) (?xss ! i ! flat (snd (?vs ! i)) is) y"
    if "i < length ?vs" "is \<in> set (box (snd (?vs ! i)))" for i "is"
  proof -
    have i: "i = 0 \<or> i = 1" using that(1) by auto
    then have "flat (snd (?vs ! i)) is < length (?xss ! i)"
      using that(2) flat_less [of "snd (?vs ! i)" "is"] by (auto simp: set_box simp del: box.simps)
    then have "0 \<le> ?xss ! i ! flat (snd (?vs ! i)) is \<and> ?xss ! i ! flat (snd (?vs ! i)) is < 2 ^ 32"
      using i by (auto simp: less_Suc_eq nth_Cons split: nat.split)
    moreover have "MakeDecoder (?infos ! i) = Inr Float32Decoder" "MakeEncoder (?infos ! i) = Inr Float32Encoder"
      using i codecs by auto
    ultimately show ?thesis using codecs(1,2) reencode_Float32 unfolding survives_def by blast
  qed
  ultimately have "\<exists>ys. Concatenate exact_arith (map fst ?vs) (zip ?infos ?xss) (output0 (slice_workload [2] [3])) [0, 0, 0] = Inr ys \<and>
    length ys = prod_list [3] \<and>
    (\<forall>i < length ?vs. \<forall>is \<in> set (box (snd (?vs ! i))).
       let a = flat (snd (?vs ! i)) is; b = flat [3] (outer (?vs ! i) is)
       in bindR (MakeDecoder (?infos ! i)) (\<lambda>d. reencode exact_arith d Float32Encoder a b (?xss ! i ! a)) = Inr (ys ! b)) \<and>
    Split exact_arith (map fst ?vs) ?infos (output0 (slice_workload [2] [3])) ys [[0, 0], [0]] = Inr ?xss"
    by (intro Concatenate_Split) (simp_all add: slice_workload_def specified_shape_def sized_def)
  then show ?thesis by auto
qed

end
