(* ===== verification/WindowShapes.thy ===== *)
theory WindowShapes
  imports ConcatViews
begin

section \<open>Data layouts and the shapes of windowed layers\<close>

text \<open>
  \<open>DataLayoutIndexed\<close> (which dimension is which, and the position of an element), and the output shapes
  of the convolutions, the transposed convolution, the space/batch and the space/depth layers
  (\<open>src/armnn/layers\<close>). The arithmetic is unsigned and wraps around.
\<close>

subsection \<open>DataLayoutIndexed\<close>

fun GetChannelsIndex :: "DataLayout \<Rightarrow> nat" where
  "GetChannelsIndex NHWC = 3"
| "GetChannelsIndex NCHW = 1"
| "GetChannelsIndex NDHWC = 4"
| "GetChannelsIndex NCDHW = 1"

fun GetHeightIndex :: "DataLayout \<Rightarrow> nat" where
  "GetHeightIndex NHWC = 1"
| "GetHeightIndex NCHW = 2"
| "GetHeightIndex NDHWC = 2"
| "GetHeightIndex NCDHW = 3"

fun GetWidthIndex :: "DataLayout \<Rightarrow> nat" where
  "GetWidthIndex NHWC = 2"
| "GetWidthIndex NCHW = 3"
| "GetWidthIndex NDHWC = 3"
| "GetWidthIndex NCDHW = 4"

text \<open>The depth of a layout without one is an uninitialised member.\<close>

fun GetDepthIndex :: "DataLayout \<Rightarrow> nat result" where
  "GetDepthIndex NDHWC = Inr 1"
| "GetDepthIndex NCDHW = Inr 2"
| "GetDepthIndex _ = Inl (UndefinedBehaviour ''m_DepthIndex is not initialised'')"

text \<open>The last condition is the one of the code: unlike the three before it, it has no negation.\<close>

definition GetIndex :: "DataLayout \<Rightarrow> TensorShape \<Rightarrow> nat \<Rightarrow> nat \<Rightarrow> nat \<Rightarrow> nat \<Rightarrow> nat result" where
  "GetIndex layout shape batchIndex channelIndex heightIndex widthIndex =
     bindR (TensorShape_get shape 0) (\<lambda>batches.
     bindR (throw_if (batchIndex \<ge> batches \<and> \<not> (batches = 0 \<and> batchIndex = 0)) (ArmnnException ''Unable to get batch index'')) (\<lambda>_.
     bindR (TensorShape_get shape (GetChannelsIndex layout)) (\<lambda>channels.
     bindR (throw_if (channelIndex \<ge> channels \<and> \<not> (channels = 0 \<and> channelIndex = 0)) (ArmnnException ''Unable to get channel index'')) (\<lambda>_.
     bindR (TensorShape_get shape (GetHeightIndex layout)) (\<lambda>height.
     bindR (throw_if (heightIndex \<ge> height \<and> \<not> (height = 0 \<and> heightIndex = 0)) (ArmnnException ''Unable to get height index'')) (\<lambda>_.
     bindR (TensorShape_get shape (GetWidthIndex layout)) (\<lambda>width.
     bindR (throw_if (widthIndex \<ge> width \<and> (width = 0 \<and> widthIndex = 0)) (ArmnnException ''Unable to get width index'')) (\<lambda>_.
     bindR (TensorShape_get shape 1) (\<lambda>s1. bindR (TensorShape_get shape 2) (\<lambda>s2. bindR (TensorShape_get shape 3) (\<lambda>s3.
     let batchIndex = u32_mul batchIndex (u32_mul (u32_mul s1 s2) s3) in
     Inr (if layout = NHWC
          then u32_add (u32_add (u32_add batchIndex channelIndex) (u32_mul heightIndex (u32_mul width channels))) (u32_mul widthIndex channels)
          else u32_add (u32_add (u32_add batchIndex (u32_mul channelIndex (u32_mul height width))) (u32_mul heightIndex width)) widthIndex))))))))))))"

text \<open>The coordinates of an element in the order of the dimensions.\<close>

definition layout_coords :: "DataLayout \<Rightarrow> nat \<Rightarrow> nat \<Rightarrow> nat \<Rightarrow> nat \<Rightarrow> nat list" where
  "layout_coords layout b c h w = (if layout = NHWC then [b, h, w, c] else [b, c, h, w])"



subsection \<open>Convolutions\<close>

record TransposeConvolution2dDescriptor =
  m_PadLeft :: nat
  m_PadRight :: nat
  m_PadTop :: nat
  m_PadBottom :: nat
  m_StrideX :: nat
  m_StrideY :: nat
  m_BiasEnabled :: bool
  m_DataLayout :: DataLayout

record Convolution2dDescriptor = TransposeConvolution2dDescriptor +
  m_DilationX :: nat
  m_DilationY :: nat

type_synonym DepthwiseConvolution2dDescriptor = Convolution2dDescriptor

record Convolution3dDescriptor = Convolution2dDescriptor +
  m_PadFront :: nat
  m_PadBack :: nat
  m_StrideZ :: nat
  m_DilationZ :: nat

text \<open>The size along one axis; every convolution layer computes it in these three lines.\<close>

definition window_size :: "nat \<Rightarrow> nat \<Rightarrow> nat \<Rightarrow> nat \<Rightarrow> nat \<Rightarrow> nat \<Rightarrow> nat result" where
  "window_size inSize padBefore padAfter filterSize dilation stride =
     (let dilatedFilter = u32_add filterSize (u32_mul (u32_sub dilation 1) (u32_sub filterSize 1));
          readSize = u32_sub (u32_add (u32_add inSize padBefore) padAfter) dilatedFilter in
      bindR (divR readSize stride) (\<lambda>n. Inr (u32_add 1 n)))"

definition layout_shape :: "DataLayout \<Rightarrow> nat \<Rightarrow> nat \<Rightarrow> nat \<Rightarrow> nat \<Rightarrow> TensorShape list result" where
  "layout_shape layout batches channels height width =
     bindR (TensorShape_of_list (if layout = NHWC then [batches, height, width, channels] else [batches, channels, height, width]))
       (\<lambda>s. Inr [s])"

definition assertR :: "bool \<Rightarrow> string \<Rightarrow> unit result" where
  "assertR c message = throw_if (\<not> c) (AssertionFailure message)"

definition Convolution2dLayer_InferOutputShapes :: "'z Convolution2dDescriptor_scheme \<Rightarrow> TensorShape list \<Rightarrow> TensorShape list result" where
  "Convolution2dLayer_InferOutputShapes p inputShapes =
     bindR (assertR (length inputShapes = 2) ''inputShapes.size() == 2'') (\<lambda>_.
     let inputShape = inputShapes ! 0; filterShape = inputShapes ! 1; layout = m_DataLayout p in
     bindR (GetNumDimensions inputShape) (\<lambda>rank.
     bindR (assertR (rank = 4) ''Convolutions will always have 4D input.'') (\<lambda>_.
     bindR (assertR (m_StrideX p > 0) ''m_Param.m_StrideX > 0'') (\<lambda>_.
     bindR (assertR (m_StrideY p > 0) ''m_Param.m_StrideY > 0'') (\<lambda>_.
     bindR (TensorShape_get inputShape (GetWidthIndex layout)) (\<lambda>inWidth.
     bindR (TensorShape_get inputShape (GetHeightIndex layout)) (\<lambda>inHeight.
     bindR (TensorShape_get inputShape 0) (\<lambda>inBatchSize.
     bindR (TensorShape_get filterShape (GetWidthIndex layout)) (\<lambda>filterWidth.
     bindR (window_size inWidth (m_PadLeft p) (m_PadRight p) filterWidth (m_DilationX p) (m_StrideX p)) (\<lambda>outWidth.
     bindR (TensorShape_get filterShape (GetHeightIndex layout)) (\<lambda>filterHeight.
     bindR (window_size inHeight (m_PadTop p) (m_PadBottom p) filterHeight (m_DilationY p) (m_StrideY p)) (\<lambda>outHeight.
     bindR (TensorShape_get filterShape 0) (\<lambda>outChannels.
     layout_shape layout inBatchSize outChannels outHeight outWidth)))))))))))))"

definition DepthwiseConvolution2dLayer_InferOutputShapes ::
    "DepthwiseConvolution2dDescriptor \<Rightarrow> TensorShape list \<Rightarrow> TensorShape list result" where
  "DepthwiseConvolution2dLayer_InferOutputShapes p inputShapes =
     bindR (assertR (length inputShapes = 2) ''inputShapes.size() == 2'') (\<lambda>_.
     let inputShape = inputShapes ! 0; filterShape = inputShapes ! 1; layout = m_DataLayout p in
     bindR (GetNumDimensions inputShape) (\<lambda>rank.
     bindR (assertR (rank = 4) ''Convolutions will always have 4D input.'') (\<lambda>_.
     bindR (assertR (m_StrideX p > 0) ''m_Param.m_StrideX > 0'') (\<lambda>_.
     bindR (assertR (m_StrideY p > 0) ''m_Param.m_StrideY > 0'') (\<lambda>_.
     bindR (TensorShape_get inputShape 0) (\<lambda>inputBatchSize.
     bindR (TensorShape_get inputShape (GetHeightIndex layout)) (\<lambda>inputHeight.
     bindR (TensorShape_get inputShape (GetWidthIndex layout)) (\<lambda>inputWidth.
     bindR (TensorShape_get filterShape 1) (\<lambda>filterHeight.
     bindR (window_size inputHeight (m_PadTop p) (m_PadBottom p) filterHeight (m_DilationY p) (m_StrideY p)) (\<lambda>outputHeight.
     bindR (TensorShape_get filterShape 2) (\<lambda>filterWidth.
     bindR (window_size inputWidth (m_PadLeft p) (m_PadRight p) filterWidth (m_DilationX p) (m_StrideX p)) (\<lambda>outputWidth.
     bindR (TensorShape_get filterShape 3) (\<lambda>outputChannels.
     layout_shape layout inputBatchSize outputChannels outputHeight outputWidth)))))))))))))"

definition Convolution3dLayer_InferOutputShapes :: "Convolution3dDescriptor \<Rightarrow> TensorShape list \<Rightarrow> TensorShape list result" where
  "Convolution3dLayer_InferOutputShapes p inputShapes =
     bindR (assertR (length inputShapes = 2) ''inputShapes.size() == 2'') (\<lambda>_.
     let inputShape = inputShapes ! 0; filterShape = inputShapes ! 1; layout = m_DataLayout p in
     bindR (GetNumDimensions inputShape) (\<lambda>rank.
     bindR (assertR (rank = 5) ''Convolutions will always have 5D input.'') (\<lambda>_.
     bindR (assertR (m_StrideX p > 0) ''m_Param.m_StrideX > 0'') (\<lambda>_.
     bindR (assertR (m_StrideY p > 0) ''m_Param.m_StrideY > 0'') (\<lambda>_.
     bindR (assertR (m_StrideZ p > 0) ''m_Param.m_StrideZ > 0'') (\<lambda>_.
     bindR (TensorShape_get inputShape (GetWidthIndex layout)) (\<lambda>inWidth.
     bindR (TensorShape_get inputShape (GetHeightIndex layout)) (\<lambda>inHeight.
     bindR (GetDepthIndex layout) (\<lambda>depthIndex.
     bindR (TensorShape_get inputShape depthIndex) (\<lambda>inDepth.
     bindR (TensorShape_get inputShape 0) (\<lambda>inBatchSize.
     bindR (TensorShape_get filterShape 0) (\<lambda>filterDepth.
     bindR (window_size inDepth (m_PadFront p) (m_PadBack p) filterDepth (m_DilationZ p) (m_StrideZ p)) (\<lambda>outDepth.
     bindR (TensorShape_get filterShape 1) (\<lambda>filterHeight.
     bindR (window_size inHeight (m_PadTop p) (m_PadBottom p) filterHeight (m_DilationY p) (m_StrideY p)) (\<lambda>outHeight.
     bindR (TensorShape_get filterShape 2) (\<lambda>filterWidth.
     bindR (window_size inWidth (m_PadLeft p) (m_PadRight p) filterWidth (m_DilationX p) (m_StrideX p)) (\<lambda>outWidth.
     bindR (TensorShape_get filterShape 4) (\<lambda>outChannels.
     bindR (TensorShape_of_list (if layout = NDHWC then [inBatchSize, outDepth, outHeight, outWidth, outChannels]
                                 else [inBatchSize, outChannels, outDepth, outHeight, outWidth])) (\<lambda>s. Inr [s])))))))))))))))))))"

definition TransposeConvolution2dLayer_InferOutputShapes ::
    "'z TransposeConvolution2dDescriptor_scheme \<Rightarrow> TensorShape list \<Rightarrow> TensorShape list result" where
  "TransposeConvolution2dLayer_InferOutputShapes p inputShapes =
     bindR (assertR (length inputShapes = 2) ''inputShapes.size() == 2'') (\<lambda>_.
     let inputShape = inputShapes ! 0; kernelShape = inputShapes ! 1; layout = m_DataLayout p in
     bindR (GetNumDimensions inputShape) (\<lambda>rank.
     bindR (assertR (rank = 4) ''Transpose convolutions will always have 4D input'') (\<lambda>_.
     bindR (TensorShape_get inputShape 0) (\<lambda>batches.
     bindR (TensorShape_get inputShape (GetWidthIndex layout)) (\<lambda>wInput.
     bindR (TensorShape_get inputShape (GetHeightIndex layout)) (\<lambda>hInput.
     bindR (TensorShape_get kernelShape (GetWidthIndex layout)) (\<lambda>wKernel.
     bindR (TensorShape_get kernelShape (GetHeightIndex layout)) (\<lambda>hKernel.
     let wPadding = u32_add (m_PadLeft p) (m_PadRight p); hPadding = u32_add (m_PadTop p) (m_PadBottom p);
         wOutput = u32_sub (u32_add (u32_mul (u32_sub wInput 1) (m_StrideX p)) wKernel) wPadding;
         hOutput = u32_sub (u32_add (u32_mul (u32_sub hInput 1) (m_StrideY p)) hKernel) hPadding in
     bindR (TensorShape_get kernelShape 0) (\<lambda>cOutput.
     layout_shape layout batches cOutput hOutput wOutput)))))))))"

subsection \<open>What the sizes mean\<close>

text \<open>A window of a dilated filter over a padded axis, and the number of its positions.\<close>

definition dilated :: "nat \<Rightarrow> nat \<Rightarrow> nat" where
  "dilated filterSize dilation = filterSize + (dilation - 1) * (filterSize - 1)"

definition window_ok :: "nat \<Rightarrow> nat \<Rightarrow> nat \<Rightarrow> nat \<Rightarrow> nat \<Rightarrow> nat \<Rightarrow> bool" where
  "window_ok inSize p q filterSize dilation stride \<longleftrightarrow>
     0 < stride \<and> 0 < filterSize \<and> 0 < dilation \<and> dilated filterSize dilation \<le> inSize + p + q \<and> inSize + p + q < 2 ^ 32"

definition positions :: "nat \<Rightarrow> nat \<Rightarrow> nat \<Rightarrow> nat \<Rightarrow> nat \<Rightarrow> nat \<Rightarrow> nat" where
  "positions inSize p q filterSize dilation stride = (inSize + p + q - dilated filterSize dilation) div stride + 1"

text \<open>Position \<open>k\<close> counts exactly when the window that starts \<open>k\<close> strides in ends inside.\<close>

lemma positions_iff:
  assumes "window_ok inSize p q filterSize dilation stride"
  shows "k < positions inSize p q filterSize dilation stride \<longleftrightarrow>
    k * stride + dilated filterSize dilation \<le> inSize + p + q"
proof -
  have "k < positions inSize p q filterSize dilation stride \<longleftrightarrow> k \<le> (inSize + p + q - dilated filterSize dilation) div stride"
    by (auto simp: positions_def)
  also have "\<dots> \<longleftrightarrow> k * stride \<le> inSize + p + q - dilated filterSize dilation"
    using assms by (simp add: window_ok_def less_eq_div_iff_mult_less_eq)
  also have "\<dots> \<longleftrightarrow> k * stride + dilated filterSize dilation \<le> inSize + p + q"
    using assms by (auto simp: window_ok_def)
  finally show ?thesis .
qed

lemma window_size_eq:
  assumes "window_ok inSize p q filterSize dilation stride"
  shows "window_size inSize p q filterSize dilation stride = Inr (positions inSize p q filterSize dilation stride)"
    "positions inSize p q filterSize dilation stride \<le> inSize + p + q"
proof -
  let ?d = "dilated filterSize dilation"
  have ok: "0 < stride" "0 < filterSize" "0 < dilation" "?d \<le> inSize + p + q" "inSize + p + q < 2 ^ 32"
    using assms by (auto simp: window_ok_def)
  have "filterSize \<le> ?d" "(dilation - 1) * (filterSize - 1) \<le> ?d" by (simp_all add: dilated_def)
  then have small: "filterSize < 2 ^ 32" "(dilation - 1) * (filterSize - 1) < 2 ^ 32" "?d < 2 ^ 32" "0 < ?d"
    using ok by linarith+
  have filter: "u32_add filterSize (u32_mul (u32_sub dilation 1) (u32_sub filterSize 1)) = ?d"
  proof (cases "filterSize = 1")
    case True
    then show ?thesis by (simp add: dilated_def u32_sub_small u32_mul_def u32_add_def)
  next
    case False
    then have "dilation - 1 \<le> (dilation - 1) * (filterSize - 1)" using ok(2) by (cases filterSize) auto
    then have "dilation \<le> 2 ^ 32" using small(2) by linarith
    moreover have "dilation \<noteq> 2 ^ 32"
    proof
      assume d: "dilation = 2 ^ 32"
      have "2 ^ 32 - 1 + 2 \<le> ?d" using False ok(2) d unfolding dilated_def by (cases filterSize) auto
      then show False using small(3) by simp
    qed
    ultimately have "dilation < 2 ^ 32" by simp
    then have "u32_sub dilation 1 = dilation - 1" "u32_sub filterSize 1 = filterSize - 1"
      using small(1) ok(2,3) by (simp_all add: u32_sub_small)
    then show ?thesis using small by (simp add: u32_mul_small u32_add_small dilated_def)
  qed
  have size: "u32_sub (u32_add (u32_add inSize p) q) ?d = inSize + p + q - ?d"
    using ok by (simp add: u32_add_small u32_sub_small)
  have "(inSize + p + q - ?d) div stride \<le> inSize + p + q - ?d" by (rule div_le_dividend)
  also have "\<dots> < inSize + p + q" using ok(4) small(4) by linarith
  finally have le: "(inSize + p + q - ?d) div stride < inSize + p + q" .
  then show "positions inSize p q filterSize dilation stride \<le> inSize + p + q" by (simp add: positions_def)
  show "window_size inSize p q filterSize dilation stride = Inr (positions inSize p q filterSize dilation stride)"
    using le ok(1,5) unfolding window_size_def filter Let_def size by (simp add: positions_def u32_add_small)
qed

text \<open>A filter larger than the padded axis is not rejected: the read size wraps around.\<close>

lemma window_size_wraps:
  assumes "inSize + p + q < f" "f < 2 ^ 32"
  shows "window_size inSize p q f 1 1 = Inr (u32_add 1 (2 ^ 32 + (inSize + p + q) - f))"
  using assms by (simp add: window_size_def u32_add_def u32_mul_def u32_sub_def add.commute)

definition layout_dims :: "DataLayout \<Rightarrow> nat \<Rightarrow> nat \<Rightarrow> nat \<Rightarrow> nat \<Rightarrow> nat list" where
  "layout_dims layout b c h w = (if layout = NHWC then [b, h, w, c] else [b, c, h, w])"

lemma layout_shape_eq: "layout_shape layout b c h w = Inr [shape_of (layout_dims layout b c h w)]"
proof -
  have "TensorShape_of_list (layout_dims layout b c h w) = Inr (shape_of (layout_dims layout b c h w))"
    by (simp add: TensorShape_of_list_ok layout_dims_def MaxNumOfTensorDimensions_def)
  then show ?thesis by (simp add: layout_shape_def layout_dims_def)
qed

abbreviation width_of :: "DataLayout \<Rightarrow> nat list \<Rightarrow> nat" where "width_of layout ds \<equiv> ds ! GetWidthIndex layout"
abbreviation height_of :: "DataLayout \<Rightarrow> nat list \<Rightarrow> nat" where "height_of layout ds \<equiv> ds ! GetHeightIndex layout"

text \<open>
  C38: \<open>Convolution2dLayer\<close> infers as many outputs along an axis as the filter has positions. If the
  dilated filter fits into the padded input and the padded sizes are below \<open>2 ^ 32\<close>, the inferred
  shape keeps the batches, has the filter's output channels, and a row (or column) \<open>k\<close> exists exactly
  when the window that starts \<open>k\<close> strides into the padded input ends inside it.
\<close>

theorem Convolution2d_windows:
  assumes "specified_shape i ds" "specified_shape f fs" "length ds = 4" "length fs = 4" "m_DataLayout p = layout"
    "layout = NHWC \<or> layout = NCHW"
    "window_ok (width_of layout ds) (m_PadLeft p) (m_PadRight p) (width_of layout fs) (m_DilationX p) (m_StrideX p)"
    "window_ok (height_of layout ds) (m_PadTop p) (m_PadBottom p) (height_of layout fs) (m_DilationY p) (m_StrideY p)"
  shows "\<exists>h w. Convolution2dLayer_InferOutputShapes p [i, f] = Inr [shape_of (layout_dims layout (ds ! 0) (fs ! 0) h w)] \<and>
    (\<forall>k. k < w \<longleftrightarrow> k * m_StrideX p + dilated (width_of layout fs) (m_DilationX p) \<le> width_of layout ds + m_PadLeft p + m_PadRight p) \<and>
    (\<forall>k. k < h \<longleftrightarrow> k * m_StrideY p + dilated (height_of layout fs) (m_DilationY p) \<le> height_of layout ds + m_PadTop p + m_PadBottom p)"
proof -
  have get: "TensorShape_get i k = Inr (ds ! k)" "TensorShape_get f k = Inr (fs ! k)" if "k < 4" for k
    using assms(1-4) that by simp_all
  have idx: "GetWidthIndex layout < 4" "GetHeightIndex layout < 4" using assms(6) by auto
  have "m_StrideX p > 0" "m_StrideY p > 0" using assms(7,8) by (simp_all add: window_ok_def)
  then have "Convolution2dLayer_InferOutputShapes p [i, f] =
      Inr [shape_of (layout_dims layout (ds ! 0) (fs ! 0)
        (positions (height_of layout ds) (m_PadTop p) (m_PadBottom p) (height_of layout fs) (m_DilationY p) (m_StrideY p))
        (positions (width_of layout ds) (m_PadLeft p) (m_PadRight p) (width_of layout fs) (m_DilationX p) (m_StrideX p)))]"
    using assms(1,3,5) get idx window_size_eq(1) [OF assms(7)] window_size_eq(1) [OF assms(8)]
    by (simp add: Convolution2dLayer_InferOutputShapes_def assertR_def layout_shape_eq)
  then show ?thesis using positions_iff [OF assms(7)] positions_iff [OF assms(8)] by blast
qed

theorem Convolution2d_windows_witness:
  "\<exists>h w. Convolution2dLayer_InferOutputShapes
      \<lparr>m_PadLeft = 1, m_PadRight = 1, m_PadTop = 0, m_PadBottom = 0, m_StrideX = 2, m_StrideY = 1, m_BiasEnabled = False,
       m_DataLayout = NHWC, m_DilationX = 1, m_DilationY = 2\<rparr> [shape_of [1, 5, 6, 3], shape_of [8, 3, 3, 3]] =
    Inr [shape_of [1, h, w, 8]] \<and> (\<forall>k. k < w \<longleftrightarrow> k * 2 + 3 \<le> 8) \<and> (\<forall>k. k < h \<longleftrightarrow> k + 5 \<le> 5)"
proof -
  let ?p = "\<lparr>m_PadLeft = 1, m_PadRight = 1, m_PadTop = 0, m_PadBottom = 0, m_StrideX = 2, m_StrideY = 1, m_BiasEnabled = False,
       m_DataLayout = NHWC, m_DilationX = 1, m_DilationY = 2\<rparr>"
  show ?thesis
    using Convolution2d_windows [of "shape_of [1, 5, 6, 3]" "[1, 5, 6, 3]" "shape_of [8, 3, 3, 3]" "[8, 3, 3, 3]" ?p NHWC]
    by (simp add: window_ok_def dilated_def layout_dims_def)
qed

lemma transpose_axis:
  assumes "0 < n" "0 < k" "0 < stride" "(n - 1) * stride + k < 2 ^ 32" "p + q \<le> (n - 1) * stride + k"
  defines "out \<equiv> (n - 1) * stride + k - (p + q)"
  shows "u32_sub (u32_add (u32_mul (u32_sub n 1) stride) k) (u32_add p q) = out"
    "window_ok out p q k 1 stride" "positions out p q k 1 stride = n"
proof -
  have total: "out + p + q = (n - 1) * stride + k" using assms(5) by (simp add: out_def)
  have "n - 1 \<le> (n - 1) * stride" using assms(3) by simp
  then have "n < 2 ^ 32" using assms(1,2,4) by linarith
  then show "u32_sub (u32_add (u32_mul (u32_sub n 1) stride) k) (u32_add p q) = out"
    using assms(1,4,5) by (simp add: u32_sub_small u32_mul_small u32_add_small out_def)
  have k: "dilated k 1 = k" "dilated k (Suc 0) = k" by (simp_all add: dilated_def)
  show "window_ok out p q k 1 stride" using assms(2-4) total k by (simp add: window_ok_def)
  show "positions out p q k 1 stride = n" using assms(1,3) unfolding positions_def total k by simp
qed

text \<open>
  C39: \<open>TransposeConvolution2dLayer\<close> undoes \<open>Convolution2dLayer\<close> on shapes. If the shape it infers does not
  wrap around, the convolution with the same strides, paddings and kernel size, and dilation 1, maps
  that shape back to the height and width it came from.
\<close>

theorem TransposeConvolution2d_inverse:
  fixes p :: TransposeConvolution2dDescriptor
  assumes "specified_shape i ds" "specified_shape f fs" "specified_shape f' fs'" "length ds = 4" "length fs = 4" "length fs' = 4"
    "width_of (m_DataLayout p) fs' = width_of (m_DataLayout p) fs" "height_of (m_DataLayout p) fs' = height_of (m_DataLayout p) fs"
    "m_DataLayout p = NHWC \<or> m_DataLayout p = NCHW" "\<forall>d \<in> set (ds @ fs). 0 < d" "0 < m_StrideX p" "0 < m_StrideY p"
    "(width_of (m_DataLayout p) ds - 1) * m_StrideX p + width_of (m_DataLayout p) fs < 2 ^ 32"
    "m_PadLeft p + m_PadRight p \<le> (width_of (m_DataLayout p) ds - 1) * m_StrideX p + width_of (m_DataLayout p) fs"
    "(height_of (m_DataLayout p) ds - 1) * m_StrideY p + height_of (m_DataLayout p) fs < 2 ^ 32"
    "m_PadTop p + m_PadBottom p \<le> (height_of (m_DataLayout p) ds - 1) * m_StrideY p + height_of (m_DataLayout p) fs"
  shows "\<exists>s. TransposeConvolution2dLayer_InferOutputShapes p [i, f] = Inr [s] \<and>
    Convolution2dLayer_InferOutputShapes (TransposeConvolution2dDescriptor.extend p \<lparr>m_DilationX = 1, m_DilationY = 1\<rparr>) [s, f'] =
      Inr [shape_of (layout_dims (m_DataLayout p) (ds ! 0) (fs' ! 0) (height_of (m_DataLayout p) ds) (width_of (m_DataLayout p) ds))]"
proof -
  let ?L = "m_DataLayout p" and ?e = "TransposeConvolution2dDescriptor.extend p \<lparr>m_DilationX = 1, m_DilationY = 1\<rparr>"
  let ?w = "(width_of ?L ds - 1) * m_StrideX p + width_of ?L fs - (m_PadLeft p + m_PadRight p)"
  let ?h = "(height_of ?L ds - 1) * m_StrideY p + height_of ?L fs - (m_PadTop p + m_PadBottom p)"
  let ?s = "shape_of (layout_dims ?L (ds ! 0) (fs ! 0) ?h ?w)"
  have e: "m_PadLeft ?e = m_PadLeft p" "m_PadRight ?e = m_PadRight p" "m_PadTop ?e = m_PadTop p" "m_PadBottom ?e = m_PadBottom p"
    "m_StrideX ?e = m_StrideX p" "m_StrideY ?e = m_StrideY p" "m_DataLayout ?e = ?L" "m_DilationX ?e = 1" "m_DilationY ?e = 1"
    by (cases p; simp add: TransposeConvolution2dDescriptor.extend_def)+
  have get: "TensorShape_get i k = Inr (ds ! k)" "TensorShape_get f k = Inr (fs ! k)" "TensorShape_get f' k = Inr (fs' ! k)" if "k < 4" for k
    using assms(1-6) that by simp_all
  have idx: "GetWidthIndex ?L < 4" "GetHeightIndex ?L < 4" using assms(9) by auto
  have pos: "0 < ds ! k" "0 < fs ! k" if "k < 4" for k using assms(4,5,10) that by (simp_all add: nth_mem)
  note w = transpose_axis [OF pos(1) [OF idx(1)] pos(2) [OF idx(1)] assms(11,13,14)]
  note h = transpose_axis [OF pos(1) [OF idx(2)] pos(2) [OF idx(2)] assms(12,15,16)]
  have out: "TransposeConvolution2dLayer_InferOutputShapes p [i, f] = Inr [?s]"
    using assms(1,4) get idx w(1) h(1)
    by (simp add: TransposeConvolution2dLayer_InferOutputShapes_def assertR_def layout_shape_eq Let_def)
  have len: "length (layout_dims ?L (ds ! 0) (fs ! 0) ?h ?w) = 4" by (simp add: layout_dims_def)
  have get': "TensorShape_get ?s k = Inr (layout_dims ?L (ds ! 0) (fs ! 0) ?h ?w ! k)" if "k < 4" for k
    by (rule specified_shape_get [OF specified_shape_of]) (simp only: len that)
  have sizes: "layout_dims ?L (ds ! 0) (fs ! 0) ?h ?w ! 0 = ds ! 0" "width_of ?L (layout_dims ?L (ds ! 0) (fs ! 0) ?h ?w) = ?w"
    "height_of ?L (layout_dims ?L (ds ! 0) (fs ! 0) ?h ?w) = ?h"
    using assms(9) by (auto simp: layout_dims_def)
  have rank: "GetNumDimensions ?s = Inr 4" by (rule trans [OF specified_shape_GetNumDimensions [OF specified_shape_of]]) (simp only: len)
  have "Convolution2dLayer_InferOutputShapes ?e [?s, f'] =
      Inr [shape_of (layout_dims ?L (ds ! 0) (fs' ! 0) (height_of ?L ds) (width_of ?L ds))]"
    using rank get get' idx sizes assms(7,8,11,12) window_size_eq(1) [OF w(2)] window_size_eq(1) [OF h(2)] w(3) h(3)
    by (simp add: Convolution2dLayer_InferOutputShapes_def assertR_def layout_shape_eq e del: One_nat_def) (simp only: Let_def)
  then show ?thesis using out by blast
qed

theorem TransposeConvolution2d_inverse_witness:
  "\<exists>s. TransposeConvolution2dLayer_InferOutputShapes
      \<lparr>m_PadLeft = 1, m_PadRight = 1, m_PadTop = 0, m_PadBottom = 0, m_StrideX = 2, m_StrideY = 1, m_BiasEnabled = False,
       m_DataLayout = NHWC\<rparr> [shape_of [1, 4, 5, 3], shape_of [8, 3, 3, 3]] = Inr [s] \<and>
    Convolution2dLayer_InferOutputShapes
      \<lparr>m_PadLeft = 1, m_PadRight = 1, m_PadTop = 0, m_PadBottom = 0, m_StrideX = 2, m_StrideY = 1, m_BiasEnabled = False,
       m_DataLayout = NHWC, m_DilationX = 1, m_DilationY = 1\<rparr> [s, shape_of [7, 3, 3, 8]] = Inr [shape_of [1, 4, 5, 7]]"
  using TransposeConvolution2d_inverse [of "shape_of [1, 4, 5, 3]" "[1, 4, 5, 3]" "shape_of [8, 3, 3, 3]" "[8, 3, 3, 3]"
      "shape_of [7, 3, 3, 8]" "[7, 3, 3, 8]"
      "\<lparr>m_PadLeft = 1, m_PadRight = 1, m_PadTop = 0, m_PadBottom = 0, m_StrideX = 2, m_StrideY = 1, m_BiasEnabled = False,
       m_DataLayout = NHWC\<rparr>"]
  by (simp add: layout_dims_def TransposeConvolution2dDescriptor.extend_def)

end
