(* ===== verification/LayerShapes.thy ===== *)
theory LayerShapes
  imports WindowShapes StridedSlices ElementKernels Permutation
begin

section \<open>The shapes layers infer (src/armnn/layers)\<close>

text \<open>
  One definition per override of \<open>Layer::InferOutputShapes\<close>, and the virtual call as a function of the
  kind of the layer with its parameters. A read outside a vector is undefined, as in the program.
\<close>

definition read_from :: "TensorShape \<Rightarrow> nat \<Rightarrow> nat \<Rightarrow> nat list result" where
  "read_from s a b = mapR (TensorShape_get s) [a..<b]"

text \<open>\<open>TensorShape(n, sizes.data())\<close>: reads \<open>n\<close> sizes, whatever the vector holds.\<close>

definition shape_of_data :: "nat \<Rightarrow> nat list \<Rightarrow> TensorShape result" where
  "shape_of_data n ds =
     bindR (CheckValidNumDimensions n) (\<lambda>_.
     bindR (throw_if (length ds < n) (UndefinedBehaviour ''read past a vector'')) (\<lambda>_.
     TensorShape_sizes n (Some ds)))"

definition single :: "TensorShape result \<Rightarrow> TensorShape list result" where
  "single r = bindR r (\<lambda>s. Inr [s])"

subsection \<open>Elementwise layers\<close>

definition broadcast_size :: "nat \<Rightarrow> nat \<Rightarrow> nat result" where
  "broadcast_size dim0 dim1 =
     bindR (assertR (dim0 = dim1 \<or> dim0 = 1 \<or> dim1 = 1) ''Dimensions should either match or one should be of size 1.'') (\<lambda>_.
     Inr (max dim0 dim1))"

definition ElementwiseBinaryLayer_InferOutputShapes :: "TensorShape list \<Rightarrow> TensorShape list result" where
  "ElementwiseBinaryLayer_InferOutputShapes inputShapes =
     bindR (assertR (length inputShapes = 2) ''inputShapes.size() == 2'') (\<lambda>_.
     bindR (GetNumDimensions (inputShapes ! 0)) (\<lambda>n0. bindR (GetNumDimensions (inputShapes ! 1)) (\<lambda>n1.
     let input0 = (if n0 < n1 then inputShapes ! 1 else inputShapes ! 0);
         input1 = (if n0 < n1 then inputShapes ! 0 else inputShapes ! 1);
         numDims = max n0 n1; shiftedDims = max n0 n1 - min n0 n1 in
     bindR (mapR (\<lambda>i. bindR (TensorShape_get input0 i) (\<lambda>dim0. bindR (TensorShape_get input1 (i - shiftedDims)) (\<lambda>dim1.
              broadcast_size dim0 dim1))) [shiftedDims..<numDims]) (\<lambda>common.
     bindR (read_from input0 0 shiftedDims) (\<lambda>first.
     single (TensorShape_of_list (first @ common)))))))"

definition ElementwiseBaseLayer_InferOutputShapes :: "TensorShape list \<Rightarrow> TensorShape list result" where
  "ElementwiseBaseLayer_InferOutputShapes = ElementwiseBinaryLayer_InferOutputShapes"

definition ComparisonLayer_InferOutputShapes :: "TensorShape list \<Rightarrow> TensorShape list result" where
  "ComparisonLayer_InferOutputShapes = ElementwiseBinaryLayer_InferOutputShapes"

definition LogicalBinaryLayer_InferOutputShapes :: "TensorShape list \<Rightarrow> TensorShape list result" where
  "LogicalBinaryLayer_InferOutputShapes inputShapes =
     bindR (assertR (length inputShapes = 2) ''inputShapes.size() == 2'') (\<lambda>_.
     bindR (GetNumDimensions (inputShapes ! 0)) (\<lambda>numDims. bindR (GetNumDimensions (inputShapes ! 1)) (\<lambda>n1.
     bindR (assertR (numDims = n1) ''input0.GetNumDimensions() == input1.GetNumDimensions()'') (\<lambda>_.
     bindR (mapR (\<lambda>i. bindR (TensorShape_get (inputShapes ! 0) i) (\<lambda>dim0. bindR (TensorShape_get (inputShapes ! 1) i) (\<lambda>dim1.
              broadcast_size dim0 dim1))) [0..<numDims]) (\<lambda>dims.
     single (TensorShape_of_list dims))))))"

definition ElementwiseUnaryLayer_InferOutputShapes :: "TensorShape list \<Rightarrow> TensorShape list result" where
  "ElementwiseUnaryLayer_InferOutputShapes inputShapes =
     bindR (assertR (length inputShapes = 1) ''inputShapes.size() == 1'') (\<lambda>_. Inr [inputShapes ! 0])"

text \<open>The dimensions are matched from the last to the first, so the list is built backwards.\<close>

definition PreluLayer_InferOutputShapes :: "TensorShape list \<Rightarrow> TensorShape list result" where
  "PreluLayer_InferOutputShapes inputShapes =
     bindR (assertR (length inputShapes = 2) ''inputShapes.size() == 2'') (\<lambda>_.
     let inputShape = inputShapes ! 0; alphaShape = inputShapes ! 1 in
     bindR (GetNumDimensions inputShape) (\<lambda>n. bindR (GetNumDimensions alphaShape) (\<lambda>m.
     bindR (assertR (n > 0) ''inputShapeDimensions > 0'') (\<lambda>_.
     bindR (assertR (m > 0) ''alphaShapeDimensions > 0'') (\<lambda>_.
     bindR (TensorShape_init (max n m) True) (\<lambda>_.
     bindR (mapR (\<lambda>k. bindR (TensorShape_get inputShape (n - Suc k)) (\<lambda>a. bindR (TensorShape_get alphaShape (m - Suc k)) (\<lambda>b.
              broadcast_size a b))) [0..<min n m]) (\<lambda>common.
     bindR (mapR (\<lambda>k. TensorShape_get inputShape (n - Suc k)) [min n m..<n]) (\<lambda>rest.
     bindR (mapR (\<lambda>k. TensorShape_get alphaShape (m - Suc k)) [min n m..<m]) (\<lambda>rest'.
     single (TensorShape_of_list (rev (common @ rest @ rest'))))))))))))"

subsection \<open>Reductions\<close>

text \<open>
  The loop over the dimensions: a reduced one is skipped unless dimensions are kept. The next free
  position is written without a check.
\<close>

definition reduce_step :: "nat list \<Rightarrow> bool \<Rightarrow> TensorShape \<Rightarrow> nat \<Rightarrow> nat list \<times> nat \<Rightarrow> (nat list \<times> nat) result" where
  "reduce_step vAxis keepDims input' i st =
     (if i \<notin> set vAxis then
        bindR (TensorShape_get input' i) (\<lambda>d. bindR (poke (snd st) d (fst st)) (\<lambda>dimSizes. Inr (dimSizes, Suc (snd st))))
      else if keepDims then bindR (poke (snd st) 1 (fst st)) (\<lambda>dimSizes. Inr (dimSizes, Suc (snd st)))
      else Inr st)"

definition ReduceLayer_InferOutputShapes :: "nat list \<Rightarrow> bool \<Rightarrow> TensorShape list \<Rightarrow> TensorShape list result" where
  "ReduceLayer_InferOutputShapes vAxis keepDims inputShapes =
     bindR (assertR (length inputShapes = 1) ''inputShapes.size() == 1'') (\<lambda>_.
     let input' = inputShapes ! 0 in
     bindR (GetNumDimensions input') (\<lambda>rank.
     bindR (assertR (rank > 0 \<and> rank \<le> 4) ''ReduceLayer: Reduce supports up to 4D input.'') (\<lambda>_.
     bindR (if keepDims then Inr rank
            else if vAxis = [] then Inr 1
            else if length vAxis > rank
            then Inl (LayerValidationException ''ReduceLayer: Dimensions to reduce can not be bigger than input dimensions'')
            else Inr (if rank - length vAxis = 0 then 1 else rank - length vAxis)) (\<lambda>outputRank.
     bindR (if vAxis = [] then Inr (replicate outputRank 1)
            else bindR (foldR (reduce_step vAxis keepDims input') [0..<rank] (replicate outputRank 1, 0)) (\<lambda>st. Inr (fst st))) (\<lambda>dimSizes.
     single (TensorShape_sizes outputRank (Some dimSizes)))))))"

definition MeanLayer_InferOutputShapes :: "nat list \<Rightarrow> bool \<Rightarrow> TensorShape list \<Rightarrow> TensorShape list result" where
  "MeanLayer_InferOutputShapes = ReduceLayer_InferOutputShapes"

definition ArgMinMaxLayer_InferOutputShapes :: "int \<Rightarrow> TensorShape list \<Rightarrow> TensorShape list result" where
  "ArgMinMaxLayer_InferOutputShapes axis inputShapes =
     bindR (assertR (length inputShapes = 1) ''inputShapes.size() == 1'') (\<lambda>_.
     let inputShape = inputShapes ! 0 in
     bindR (GetNumDimensions inputShape) (\<lambda>inputNumDimensions.
     bindR (GetUnsignedAxis inputNumDimensions axis) (\<lambda>unsignedAxis.
     bindR (assertR (unsignedAxis \<le> inputNumDimensions) ''unsignedAxis <= inputNumDimensions'') (\<lambda>_.
     if inputNumDimensions = 1 then single (TensorShape_of_list [1])
     else
       bindR (read_from inputShape 0 unsignedAxis) (\<lambda>before.
       bindR (read_from inputShape (unsignedAxis + 1) inputNumDimensions) (\<lambda>after.
       single (TensorShape_of_list (before @ after))))))))"

subsection \<open>Layers that rearrange\<close>

record StackDescriptor =
  st_Axis :: nat
  st_NumInputs :: nat
  st_InputShape :: TensorShape

definition StackLayer_InferOutputShapes :: "StackDescriptor \<Rightarrow> TensorShape list \<Rightarrow> TensorShape list result" where
  "StackLayer_InferOutputShapes p inputShapes =
     bindR (GetNumDimensions (st_InputShape p)) (\<lambda>inputNumDimensions.
     bindR (assertR (st_Axis p \<le> inputNumDimensions) ''axis <= inputNumDimensions'') (\<lambda>_.
     bindR (read_from (st_InputShape p) 0 (st_Axis p)) (\<lambda>before.
     bindR (read_from (st_InputShape p) (st_Axis p) inputNumDimensions) (\<lambda>after.
     single (TensorShape_of_list (before @ st_NumInputs p # after))))))"

record ResizeDescriptor =
  rs_TargetWidth :: nat
  rs_TargetHeight :: nat
  rs_DataLayout :: DataLayout
  rs_AlignCorners :: bool
  rs_HalfPixelCenters :: bool

definition ResizeLayer_InferOutputShapes :: "ResizeDescriptor \<Rightarrow> TensorShape list \<Rightarrow> TensorShape list result" where
  "ResizeLayer_InferOutputShapes p inputShapes =
     bindR (assertR (length inputShapes = 1) ''inputShapes.size() == 1'') (\<lambda>_.
     let inputShape = inputShapes ! 0 in
     bindR (TensorShape_get inputShape (GetChannelsIndex (rs_DataLayout p))) (\<lambda>outChannels.
     bindR (TensorShape_get inputShape 0) (\<lambda>outBatch.
     bindR (layout_shape (rs_DataLayout p) outBatch outChannels (rs_TargetHeight p) (rs_TargetWidth p)) (\<lambda>shapes.
     bindR (throw_if (rs_HalfPixelCenters p \<and> rs_AlignCorners p)
       (LayerValidationException ''ResizeLayer: AlignCorners cannot be true when HalfPixelCenters is true'')) (\<lambda>_.
     Inr shapes)))))"

definition is_scalar :: "TensorShape \<Rightarrow> bool result" where
  "is_scalar s = (if m_Dimensionality s = Scalar then bindR (GetNumDimensions s) (\<lambda>n. Inr (n = 1)) else Inr False)"

definition GatherLayer_InferOutputShapes :: "int \<Rightarrow> TensorShape list \<Rightarrow> TensorShape list result" where
  "GatherLayer_InferOutputShapes m_Axis inputShapes =
     bindR (assertR (length inputShapes = 2) ''inputShapes.size() == 2'') (\<lambda>_.
     let params = inputShapes ! 0; indices = inputShapes ! 1 in
     bindR (is_scalar indices) (\<lambda>scalar.
     if scalar then single (TensorShape_dimensionality Scalar)
     else
       bindR (GetNumDimensions params) (\<lambda>paramsDim. bindR (GetNumDimensions indices) (\<lambda>indicesDim.
       let outputDim = u32_add (u32_sub paramsDim 1) indicesDim;
           axis = nat ((if m_Axis < 0 then int paramsDim + m_Axis else m_Axis) mod 2 ^ 32) in
       bindR (read_from params 0 axis) (\<lambda>before.
       bindR (read_from indices 0 indicesDim) (\<lambda>inner.
       bindR (read_from params (axis + 1) paramsDim) (\<lambda>after.
       single (shape_of_data outputDim (before @ inner @ after)))))))))"

definition GatherNdLayer_InferOutputShapes :: "TensorShape list \<Rightarrow> TensorShape list result" where
  "GatherNdLayer_InferOutputShapes inputShapes =
     bindR (assertR (length inputShapes = 2) ''inputShapes.size() == 2'') (\<lambda>_.
     let params = inputShapes ! 0; indices = inputShapes ! 1 in
     bindR (is_scalar indices) (\<lambda>scalar.
     if scalar then single (TensorShape_dimensionality Scalar)
     else
       bindR (GetNumDimensions params) (\<lambda>paramsDim. bindR (GetNumDimensions indices) (\<lambda>indicesDim.
       bindR (TensorShape_get indices (u32_sub indicesDim 1)) (\<lambda>index_depth.
       bindR (assertR (index_depth \<le> paramsDim) ''index_depth <= paramsDim'') (\<lambda>_.
       bindR (read_from indices 0 (indicesDim - 1)) (\<lambda>outer_shape.
       bindR (read_from params index_depth paramsDim) (\<lambda>inner_shape.
       single (TensorShape_of_list (outer_shape @ inner_shape))))))))))"

subsection \<open>Space, batch and depth\<close>

record BatchToSpaceNdDescriptor =
  bs_BlockShape :: "nat list"
  bs_Crops :: "(nat \<times> nat) list"
  bs_DataLayout :: DataLayout

record SpaceToBatchNdDescriptor =
  sb_BlockShape :: "nat list"
  sb_PadList :: "(nat \<times> nat) list"
  sb_DataLayout :: DataLayout

record SpaceToDepthDescriptor =
  sd_BlockSize :: nat
  sd_DataLayout :: DataLayout

definition first_spatial :: "DataLayout \<Rightarrow> nat" where
  "first_spatial layout = (if layout = NCHW then 2 else 1)"

definition BatchToSpaceNdLayer_InferOutputShapes :: "BatchToSpaceNdDescriptor \<Rightarrow> TensorShape list \<Rightarrow> TensorShape list result" where
  "BatchToSpaceNdLayer_InferOutputShapes p inputShapes =
     bindR (peek inputShapes 0) (\<lambda>inputShape.
     let accumulatedBlockShape = foldl u32_mul 1 (bs_BlockShape p) in
     bindR (TensorShape_get inputShape 0) (\<lambda>batches.
     bindR (divR batches accumulatedBlockShape) (\<lambda>n.
     bindR (TensorShape_put inputShape 0 (if n < 1 then 1 else n)) (\<lambda>outputShape.
     single (foldR (\<lambda>i outputShape.
         let spatialDimension = first_spatial (bs_DataLayout p) + i in
         bindR (peek (bs_Crops p) i) (\<lambda>crop.
         bindR (TensorShape_get inputShape spatialDimension) (\<lambda>d.
         let cropSize = u32_add (fst crop) (snd crop); outputSize = u32_mul d (bs_BlockShape p ! i) in
         TensorShape_put outputShape spatialDimension (u32_sub outputSize cropSize))))
       [0..<length (bs_BlockShape p)] outputShape)))))"

definition SpaceToBatchNdLayer_InferOutputShapes :: "SpaceToBatchNdDescriptor \<Rightarrow> TensorShape list \<Rightarrow> TensorShape list result" where
  "SpaceToBatchNdLayer_InferOutputShapes p inputShapes =
     bindR (peek inputShapes 0) (\<lambda>inputShape.
     bindR (TensorShape_get inputShape 0) (\<lambda>batches.
     bindR (TensorShape_put inputShape 0 (u32_mul batches (foldl u32_mul 1 (sb_BlockShape p)))) (\<lambda>outputShape.
     single (foldR (\<lambda>i outputShape.
         let spatialDimension = first_spatial (sb_DataLayout p) + i in
         bindR (TensorShape_get inputShape spatialDimension) (\<lambda>d.
         bindR (peek (sb_PadList p) i) (\<lambda>pad.
         bindR (divR (u32_add (u32_add d (fst pad)) (snd pad)) (sb_BlockShape p ! i)) (\<lambda>n.
         TensorShape_put outputShape spatialDimension n))))
       [0..<length (sb_BlockShape p)] outputShape))))"

text \<open>The three assignments of the layers between space and depth.\<close>

definition put3 :: "TensorShape \<Rightarrow> DataLayout \<Rightarrow> nat \<Rightarrow> nat \<Rightarrow> nat \<Rightarrow> TensorShape result" where
  "put3 s layout h w c =
     bindR (TensorShape_put s (GetHeightIndex layout) h) (\<lambda>s.
     bindR (TensorShape_put s (GetWidthIndex layout) w) (\<lambda>s.
     TensorShape_put s (GetChannelsIndex layout) c))"

definition DepthToSpaceLayer_InferOutputShapes :: "SpaceToDepthDescriptor \<Rightarrow> TensorShape list \<Rightarrow> TensorShape list result" where
  "DepthToSpaceLayer_InferOutputShapes p inputShapes =
     bindR (assertR (length inputShapes = 1) ''inputShapes.size() == 1'') (\<lambda>_.
     let inputShape = inputShapes ! 0; layout = sd_DataLayout p; block = sd_BlockSize p in
     bindR (TensorShape_get inputShape (GetHeightIndex layout)) (\<lambda>h.
     bindR (TensorShape_get inputShape (GetWidthIndex layout)) (\<lambda>w.
     bindR (TensorShape_get inputShape (GetChannelsIndex layout)) (\<lambda>c.
     bindR (divR c (u32_mul block block)) (\<lambda>channels.
     single (put3 inputShape layout (u32_mul h block) (u32_mul w block) channels))))))"

definition SpaceToDepthLayer_InferOutputShapes :: "SpaceToDepthDescriptor \<Rightarrow> TensorShape list \<Rightarrow> TensorShape list result" where
  "SpaceToDepthLayer_InferOutputShapes p inputShapes =
     bindR (assertR (length inputShapes = 1) ''inputShapes.size() == 1'') (\<lambda>_.
     let inputShape = inputShapes ! 0; layout = sd_DataLayout p; block = sd_BlockSize p in
     bindR (TensorShape_get inputShape (GetHeightIndex layout)) (\<lambda>h.
     bindR (divR h block) (\<lambda>height.
     bindR (TensorShape_get inputShape (GetWidthIndex layout)) (\<lambda>w.
     bindR (divR w block) (\<lambda>width.
     bindR (TensorShape_get inputShape (GetChannelsIndex layout)) (\<lambda>c.
     single (put3 inputShape layout height width (u32_mul (u32_mul c block) block))))))))"

subsection \<open>Matrix products and recurrent layers\<close>

record BatchMatMulDescriptor =
  bm_TransposeX :: bool
  bm_TransposeY :: bool
  bm_AdjointX :: bool
  bm_AdjointY :: bool
  bm_DataLayoutX :: DataLayout
  bm_DataLayoutY :: DataLayout

definition GetAxesToMul :: "DataLayout \<Rightarrow> TensorShape \<Rightarrow> (nat \<times> nat) result" where
  "GetAxesToMul dataLayout tensorShape =
     bindR (GetNumDimensions tensorShape) (\<lambda>numDims.
     let a = u32_sub numDims 2; b = u32_sub numDims 1 in
     Inr (if dataLayout = NDHWC \<or> dataLayout = NHWC then (u32_sub a 1, u32_sub b 1) else (a, b)))"

definition GetAxesNotMul :: "DataLayout \<Rightarrow> TensorShape \<Rightarrow> nat list result" where
  "GetAxesNotMul dataLayout tensorShape =
     bindR (GetAxesToMul dataLayout tensorShape) (\<lambda>axesToMul.
     bindR (GetNumDimensions tensorShape) (\<lambda>n.
     Inr (filter (\<lambda>i. \<not> (i = fst axesToMul \<or> i = snd axesToMul)) [0..<n])))"

definition GetPermuteVec :: "DataLayout \<Rightarrow> TensorShape \<Rightarrow> PermutationVector result" where
  "GetPermuteVec dataLayout tensorShape =
     bindR (GetAxesToMul dataLayout tensorShape) (\<lambda>axesToMul.
     bindR (GetNumDimensions tensorShape) (\<lambda>n.
     PermutationVector_of_list
       (map (\<lambda>i. if i = fst axesToMul then u32_add i 1 else if i = snd axesToMul then u32_sub i 1 else i) [0..<n])))"

definition BatchMatMulLayer_InferOutputShapes :: "BatchMatMulDescriptor \<Rightarrow> TensorShape list \<Rightarrow> TensorShape list result" where
  "BatchMatMulLayer_InferOutputShapes p inputShapes =
     bindR (assertR (length inputShapes = 2) ''inputShapes.size() == 2'') (\<lambda>_.
     bindR (if bm_TransposeX p \<or> bm_AdjointX p
            then bindR (GetPermuteVec (bm_DataLayoutX p) (inputShapes ! 0)) (Permuted (inputShapes ! 0))
            else Inr (inputShapes ! 0)) (\<lambda>inputXShape.
     bindR (if bm_TransposeY p \<or> bm_AdjointY p
            then bindR (GetPermuteVec (bm_DataLayoutY p) (inputShapes ! 1)) (Permuted (inputShapes ! 1))
            else Inr (inputShapes ! 1)) (\<lambda>inputYShape.
     bindR (GetNumDimensions inputXShape) (\<lambda>nx. bindR (GetNumDimensions inputYShape) (\<lambda>ny.
     let xLonger = (nx \<ge> ny); longerInput = (if xLonger then inputXShape else inputYShape);
         shorterInput = (if xLonger then inputYShape else inputXShape);
         outputNumDimensions = max nx ny; inputNumDimsOffset = max nx ny - min nx ny in
     bindR (GetAxesToMul (if xLonger then bm_DataLayoutX p else bm_DataLayoutY p) longerInput) (\<lambda>longerAxesToMul.
     bindR (mapR (\<lambda>i.
         if i = fst longerAxesToMul
         then TensorShape_get inputXShape (if \<not> xLonger then u32_sub i inputNumDimsOffset else i)
         else if i = snd longerAxesToMul
         then TensorShape_get inputYShape (if xLonger then u32_sub i inputNumDimsOffset else i)
         else if i < inputNumDimsOffset then TensorShape_get longerInput i
         else bindR (TensorShape_get longerInput i) (\<lambda>a.
              bindR (TensorShape_get shorterInput (i - inputNumDimsOffset)) (\<lambda>b. Inr (max a b))))
       [0..<outputNumDimensions]) (\<lambda>tensorDimensions.
     single (TensorShape_of_list tensorDimensions))))))))"

definition FullyConnectedLayer_InferOutputShapes :: "bool \<Rightarrow> TensorShape list \<Rightarrow> TensorShape list result" where
  "FullyConnectedLayer_InferOutputShapes transposeWeightMatrix inputShapes =
     bindR (assertR (length inputShapes = 2) ''inputShapes.size() == 2'') (\<lambda>_.
     bindR (TensorShape_get (inputShapes ! 0) 0) (\<lambda>batches.
     bindR (TensorShape_get (inputShapes ! 1) (if transposeWeightMatrix then 0 else 1)) (\<lambda>w.
     single (TensorShape_of_list [batches, w]))))"

definition LstmLayer_InferOutputShapes :: "bool \<Rightarrow> TensorShape list \<Rightarrow> TensorShape list result" where
  "LstmLayer_InferOutputShapes cifgEnabled inputShapes =
     bindR (assertR (length inputShapes = 3) ''inputShapes.size() == 3'') (\<lambda>_.
     bindR (TensorShape_get (inputShapes ! 0) 0) (\<lambda>batchSize.
     bindR (TensorShape_get (inputShapes ! 1) 1) (\<lambda>outputSize.
     bindR (TensorShape_get (inputShapes ! 2) 1) (\<lambda>numUnits.
     mapR TensorShape_of_list
       [[batchSize, u32_mul numUnits (if cifgEnabled then 3 else 4)], [batchSize, outputSize], [batchSize, numUnits],
        [batchSize, outputSize]]))))"

definition QLstmLayer_InferOutputShapes :: "TensorShape list \<Rightarrow> TensorShape list result" where
  "QLstmLayer_InferOutputShapes inputShapes =
     bindR (assertR (length inputShapes = 3) ''inputShapes.size() == 3'') (\<lambda>_.
     bindR (TensorShape_get (inputShapes ! 0) 0) (\<lambda>batchSize.
     bindR (TensorShape_get (inputShapes ! 1) 1) (\<lambda>outputSize.
     bindR (TensorShape_get (inputShapes ! 2) 1) (\<lambda>numUnits.
     mapR TensorShape_of_list [[batchSize, outputSize], [batchSize, numUnits], [batchSize, outputSize]]))))"

definition QuantizedLstmLayer_InferOutputShapes :: "TensorShape list \<Rightarrow> TensorShape list result" where
  "QuantizedLstmLayer_InferOutputShapes inputShapes =
     bindR (assertR (length inputShapes = 3) ''inputShapes.size() == 3'') (\<lambda>_.
     bindR (TensorShape_get (inputShapes ! 0) 0) (\<lambda>numBatches.
     bindR (TensorShape_get (inputShapes ! 1) 1) (\<lambda>outputSize.
     mapR TensorShape_of_list [[numBatches, outputSize], [numBatches, outputSize]])))"

text \<open>Both branches of the test of \<open>m_TimeMajor\<close> build the same shape.\<close>

definition UnidirectionalSequenceLstmLayer_InferOutputShapes :: "TensorShape list \<Rightarrow> TensorShape list result" where
  "UnidirectionalSequenceLstmLayer_InferOutputShapes inputShapes =
     bindR (assertR (length inputShapes = 3) ''inputShapes.size() == 3'') (\<lambda>_.
     bindR (TensorShape_get (inputShapes ! 1) 1) (\<lambda>outputSize.
     bindR (TensorShape_get (inputShapes ! 0) 0) (\<lambda>a.
     bindR (TensorShape_get (inputShapes ! 0) 1) (\<lambda>b.
     single (TensorShape_of_list [a, b, outputSize])))))"

definition DetectionPostProcessLayer_InferOutputShapes :: "nat \<Rightarrow> nat \<Rightarrow> TensorShape list result" where
  "DetectionPostProcessLayer_InferOutputShapes maxDetections maxClassesPerDetection =
     (let detectedBoxes = u32_mul maxDetections maxClassesPerDetection in
      mapR TensorShape_of_list [[1, detectedBoxes, 4], [1, detectedBoxes], [1, detectedBoxes], [1]])"

subsection \<open>Layers that copy a shape\<close>

definition MergeLayer_InferOutputShapes :: "TensorShape list \<Rightarrow> TensorShape list result" where
  "MergeLayer_InferOutputShapes inputShapes =
     bindR (assertR (length inputShapes = 2) ''inputShapes.size() == 2'') (\<lambda>_.
     bindR (throw_if (inputShapes ! 0 \<noteq> inputShapes ! 1)
       (LayerValidationException ''MergeLayer: TensorShapes set on inputs do not match'')) (\<lambda>_.
     Inr [inputShapes ! 0]))"

definition ShapeLayer_InferOutputShapes :: "TensorShape list \<Rightarrow> TensorShape list result" where
  "ShapeLayer_InferOutputShapes inputShapes =
     bindR (assertR (length inputShapes = 1) ''inputShapes.size() == 1'') (\<lambda>_.
     bindR (GetNumDimensions (inputShapes ! 0)) (\<lambda>n. single (TensorShape_of_list [n])))"

definition PermuteLayer_InferOutputShapes :: "PermutationVector \<Rightarrow> TensorShape list \<Rightarrow> TensorShape list result" where
  "PermuteLayer_InferOutputShapes dimMappings inputShapes =
     bindR (assertR (length inputShapes = 1) ''inputShapes.size() == 1'') (\<lambda>_. single (Permuted (inputShapes ! 0) dimMappings))"

definition TransposeLayer_InferOutputShapes :: "PermutationVector \<Rightarrow> TensorShape list \<Rightarrow> TensorShape list result" where
  "TransposeLayer_InferOutputShapes dimMappings inputShapes =
     bindR (assertR (length inputShapes = 1) ''inputShapes.size() == 1'') (\<lambda>_.
     single (TransposeTensorShape (inputShapes ! 0) dimMappings))"

text \<open>The default of the base class.\<close>

definition Layer_InferOutputShapes :: "nat \<Rightarrow> nat \<Rightarrow> TensorShape list \<Rightarrow> TensorShape list result" where
  "Layer_InferOutputShapes numInputSlots numOutputSlots inputShapes =
     bindR (assertR (numInputSlots \<noteq> 0) ''GetNumInputSlots() != 0'') (\<lambda>_.
     bindR (assertR (numOutputSlots \<noteq> 0) ''GetNumOutputSlots() != 0'') (\<lambda>_.
     bindR (throw_if (numInputSlots \<noteq> numOutputSlots)
       (UnimplementedException ''Default implementation for InferOutputShapes can only be used for layers with the same number of input and output slots.'')) (\<lambda>_.
     Inr inputShapes)))"

subsection \<open>The virtual call\<close>

datatype (plugins only: size) LayerKind =
    ElementwiseBinaryLayer | ElementwiseBaseLayer | ComparisonLayer | LogicalBinaryLayer | ElementwiseUnaryLayer | PreluLayer
  | ReduceLayer "nat list" bool | MeanLayer "nat list" bool | ArgMinMaxLayer int | StackLayer StackDescriptor
  | ResizeLayer ResizeDescriptor | GatherLayer int | GatherNdLayer | BatchToSpaceNdLayer BatchToSpaceNdDescriptor
  | SpaceToBatchNdLayer SpaceToBatchNdDescriptor | DepthToSpaceLayer SpaceToDepthDescriptor
  | SpaceToDepthLayer SpaceToDepthDescriptor | BatchMatMulLayer BatchMatMulDescriptor | FullyConnectedLayer bool
  | LstmLayer bool | QLstmLayer | QuantizedLstmLayer | UnidirectionalSequenceLstmLayer | DetectionPostProcessLayer nat nat
  | MergeLayer | ShapeLayer | RankLayer | ConstantLayer | StandInLayer | ReshapeLayer TensorShape | BroadcastToLayer TensorShape
  | PermuteLayer PermutationVector | TransposeLayer PermutationVector | Convolution2dLayer Convolution2dDescriptor
  | DepthwiseConvolution2dLayer DepthwiseConvolution2dDescriptor | Convolution3dLayer Convolution3dDescriptor
  | TransposeConvolution2dLayer TransposeConvolution2dDescriptor | ConcatLayer OriginsDescriptor | SplitterLayer ViewsDescriptor
  | SliceLayer SliceDescriptor | StridedSliceLayer StridedSliceDescriptor | TileLayer TileDescriptor
  | PadLayer "unit PadDescriptor" | ReverseV2Layer | BaseLayer nat nat

fun InferOutputShapes :: "LayerKind \<Rightarrow> TensorShape list \<Rightarrow> TensorShape list result" where
  "InferOutputShapes ElementwiseBinaryLayer ss = ElementwiseBinaryLayer_InferOutputShapes ss"
| "InferOutputShapes ElementwiseBaseLayer ss = ElementwiseBaseLayer_InferOutputShapes ss"
| "InferOutputShapes ComparisonLayer ss = ComparisonLayer_InferOutputShapes ss"
| "InferOutputShapes LogicalBinaryLayer ss = LogicalBinaryLayer_InferOutputShapes ss"
| "InferOutputShapes ElementwiseUnaryLayer ss = ElementwiseUnaryLayer_InferOutputShapes ss"
| "InferOutputShapes PreluLayer ss = PreluLayer_InferOutputShapes ss"
| "InferOutputShapes (ReduceLayer vAxis keepDims) ss = ReduceLayer_InferOutputShapes vAxis keepDims ss"
| "InferOutputShapes (MeanLayer axis keepDims) ss = MeanLayer_InferOutputShapes axis keepDims ss"
| "InferOutputShapes (ArgMinMaxLayer axis) ss = ArgMinMaxLayer_InferOutputShapes axis ss"
| "InferOutputShapes (StackLayer p) ss = StackLayer_InferOutputShapes p ss"
| "InferOutputShapes (ResizeLayer p) ss = ResizeLayer_InferOutputShapes p ss"
| "InferOutputShapes (GatherLayer axis) ss = GatherLayer_InferOutputShapes axis ss"
| "InferOutputShapes GatherNdLayer ss = GatherNdLayer_InferOutputShapes ss"
| "InferOutputShapes (BatchToSpaceNdLayer p) ss = BatchToSpaceNdLayer_InferOutputShapes p ss"
| "InferOutputShapes (SpaceToBatchNdLayer p) ss = SpaceToBatchNdLayer_InferOutputShapes p ss"
| "InferOutputShapes (DepthToSpaceLayer p) ss = DepthToSpaceLayer_InferOutputShapes p ss"
| "InferOutputShapes (SpaceToDepthLayer p) ss = SpaceToDepthLayer_InferOutputShapes p ss"
| "InferOutputShapes (BatchMatMulLayer p) ss = BatchMatMulLayer_InferOutputShapes p ss"
| "InferOutputShapes (FullyConnectedLayer t) ss = FullyConnectedLayer_InferOutputShapes t ss"
| "InferOutputShapes (LstmLayer cifg) ss = LstmLayer_InferOutputShapes cifg ss"
| "InferOutputShapes QLstmLayer ss = QLstmLayer_InferOutputShapes ss"
| "InferOutputShapes QuantizedLstmLayer ss = QuantizedLstmLayer_InferOutputShapes ss"
| "InferOutputShapes UnidirectionalSequenceLstmLayer ss = UnidirectionalSequenceLstmLayer_InferOutputShapes ss"
| "InferOutputShapes (DetectionPostProcessLayer d c) ss = DetectionPostProcessLayer_InferOutputShapes d c"
| "InferOutputShapes MergeLayer ss = MergeLayer_InferOutputShapes ss"
| "InferOutputShapes ShapeLayer ss = ShapeLayer_InferOutputShapes ss"
| "InferOutputShapes RankLayer ss = single (TensorShape_dimensionality Scalar)"
| "InferOutputShapes ConstantLayer ss = bindR (peek ss 0) (\<lambda>s. Inr [s])"
| "InferOutputShapes StandInLayer ss = Inl (ArmnnException ''Stand in layer does not support infering output shapes'')"
| "InferOutputShapes (ReshapeLayer t) ss = Inr [t]"
| "InferOutputShapes (BroadcastToLayer t) ss = Inr [t]"
| "InferOutputShapes (PermuteLayer m) ss = PermuteLayer_InferOutputShapes m ss"
| "InferOutputShapes (TransposeLayer m) ss = TransposeLayer_InferOutputShapes m ss"
| "InferOutputShapes (Convolution2dLayer p) ss = Convolution2dLayer_InferOutputShapes p ss"
| "InferOutputShapes (DepthwiseConvolution2dLayer p) ss = DepthwiseConvolution2dLayer_InferOutputShapes p ss"
| "InferOutputShapes (Convolution3dLayer p) ss = Convolution3dLayer_InferOutputShapes p ss"
| "InferOutputShapes (TransposeConvolution2dLayer p) ss = TransposeConvolution2dLayer_InferOutputShapes p ss"
| "InferOutputShapes (ConcatLayer p) ss = ConcatLayer_InferOutputShapes p ss"
| "InferOutputShapes (SplitterLayer p) ss = SplitterLayer_InferOutputShapes p ss"
| "InferOutputShapes (SliceLayer p) ss = SliceLayer_InferOutputShapes p ss"
| "InferOutputShapes (StridedSliceLayer p) ss = StridedSliceLayer_InferOutputShapes p ss"
| "InferOutputShapes (TileLayer p) ss = TileLayer_InferOutputShapes p ss"
| "InferOutputShapes (PadLayer p) ss = PadLayer_InferOutputShapes p ss"
| "InferOutputShapes ReverseV2Layer ss = ReverseV2Layer_InferOutputShapes ss"
| "InferOutputShapes (BaseLayer n m) ss = Layer_InferOutputShapes n m ss"

subsection \<open>Inferred shapes are well formed\<close>

declare wf_TensorShape.simps [simp del]

text \<open>Parameters in the range of their C++ types.\<close>

fun kind_ok :: "LayerKind \<Rightarrow> bool" where
  "kind_ok (StackLayer p) \<longleftrightarrow> wf_TensorShape (st_InputShape p) \<and> st_NumInputs p < 2 ^ 32"
| "kind_ok (ResizeLayer p) \<longleftrightarrow> rs_TargetWidth p < 2 ^ 32 \<and> rs_TargetHeight p < 2 ^ 32"
| "kind_ok (ReshapeLayer s) \<longleftrightarrow> wf_TensorShape s"
| "kind_ok (BroadcastToLayer s) \<longleftrightarrow> wf_TensorShape s"
| "kind_ok (PermuteLayer m) \<longleftrightarrow> GetSize m \<le> MaxNumOfTensorDimensions"
| "kind_ok (TransposeLayer m) \<longleftrightarrow> GetSize m \<le> MaxNumOfTensorDimensions"
| "kind_ok (SplitterLayer p) \<longleftrightarrow>
     (\<forall>vs. m_ViewSizes p = Some vs \<longrightarrow> (\<forall>v \<in> set vs. length v = m_NumViewDimensions (m_Origins p) \<and> dims32 v))"
| "kind_ok (SliceLayer p) \<longleftrightarrow> dims32 (sl_Size p)"
| "kind_ok _ \<longleftrightarrow> True"

definition wf_shapes :: "TensorShape list \<Rightarrow> bool" where
  "wf_shapes ss \<longleftrightarrow> (\<forall>s \<in> set ss. wf_TensorShape s)"

lemma wf_shapes_simps [simp]: "wf_shapes []" "wf_shapes (s # ss) \<longleftrightarrow> wf_TensorShape s \<and> wf_shapes ss"
  by (simp_all add: wf_shapes_def)

lemma wf_shapes_nth: "wf_shapes ss \<Longrightarrow> i < length ss \<Longrightarrow> wf_TensorShape (ss ! i)"
  by (simp add: wf_shapes_def)

lemma assertR_Inr [simp]: "assertR c m = Inr u \<longleftrightarrow> c"
  by (simp add: assertR_def)

lemma single_Inr [simp]: "single r = Inr ss \<longleftrightarrow> (\<exists>s. r = Inr s \<and> ss = [s])"
  by (auto simp: single_def)

lemma of_list_wf: "TensorShape_of_list ds = Inr s \<Longrightarrow> dims32 ds \<Longrightarrow> wf_TensorShape s"
  using TensorShape_sizes_wf [of ds "length ds" s] by (simp add: TensorShape_of_list_def)

lemma get_less: "wf_TensorShape s \<Longrightarrow> TensorShape_get s i = Inr d \<Longrightarrow> d < 4294967296"
  using dims32_nth [of "m_Dimensions s" i] by (auto simp: TensorShape_get_def shape_checks wf_TensorShape.simps)

lemma mapR_dims32:
  assumes "mapR f xs = Inr ds" "\<And>x d. x \<in> set xs \<Longrightarrow> f x = Inr d \<Longrightarrow> d < 4294967296"
  shows "dims32 ds"
proof -
  have "length xs = length ds" "\<forall>i < length ds. f (xs ! i) = Inr (ds ! i)"
    using assms(1) by (auto simp: mapR_Inr_iff list_all2_conv_all_nth)
  then have "ds ! i < 4294967296" if "i < length ds" for i using assms(2) [of "xs ! i" "ds ! i"] that by simp
  then show ?thesis by (auto simp: dims32_def in_set_conv_nth)
qed

lemma read_from_dims32: "read_from s a b = Inr ds \<Longrightarrow> wf_TensorShape s \<Longrightarrow> dims32 ds"
  unfolding read_from_def by (rule mapR_dims32) (auto dest: get_less)

lemma mapR_shapes:
  assumes "mapR f xs = Inr ss" "\<And>x s. x \<in> set xs \<Longrightarrow> f x = Inr s \<Longrightarrow> wf_TensorShape s"
  shows "wf_shapes ss"
proof -
  have "length xs = length ss" "\<forall>i < length ss. f (xs ! i) = Inr (ss ! i)"
    using assms(1) by (auto simp: mapR_Inr_iff list_all2_conv_all_nth)
  then have "wf_TensorShape (ss ! i)" if "i < length ss" for i using assms(2) [of "xs ! i" "ss ! i"] that by simp
  then show ?thesis by (auto simp: wf_shapes_def in_set_conv_nth)
qed

lemma broadcast_size_less: "broadcast_size a b = Inr d \<Longrightarrow> a < 4294967296 \<Longrightarrow> b < 4294967296 \<Longrightarrow> d < 4294967296"
  by (auto simp: broadcast_size_def)

lemma divR_Inr [simp]: "divR a b = Inr c \<longleftrightarrow> b \<noteq> 0 \<and> c = a div b"
  by (auto simp: divR_def)

lemma div_less_32: "(a::nat) < 4294967296 \<Longrightarrow> a div b < 4294967296"
  by (rule le_less_trans [OF div_le_dividend])

lemma window_size_less: "window_size a b c d e f = Inr n \<Longrightarrow> n < 4294967296"
  by (auto simp: window_size_def Let_def)

lemma layout_shape_wf:
  "layout_shape layout b c h w = Inr ss \<Longrightarrow> b < 4294967296 \<Longrightarrow> c < 4294967296 \<Longrightarrow> h < 4294967296 \<Longrightarrow> w < 4294967296 \<Longrightarrow> wf_shapes ss"
  by (auto simp: layout_shape_def split: if_splits intro!: of_list_wf)

lemma scalar_wf: "TensorShape_dimensionality Scalar = Inr s \<Longrightarrow> wf_TensorShape s"
  by (auto simp: wf_TensorShape.simps MaxNumOfTensorDimensions_def)

text \<open>What a call returns when it returns: the postconditions compose along the statements.\<close>

definition yields :: "('a \<Rightarrow> bool) \<Rightarrow> 'a result \<Rightarrow> bool" where
  "yields P r \<longleftrightarrow> (\<forall>x. r = Inr x \<longrightarrow> P x)"

named_theorems yields_rules \<open>postconditions of the building blocks\<close>

lemma yieldsD: "yields P r \<Longrightarrow> r = Inr x \<Longrightarrow> P x"
  by (simp add: yields_def)

lemma yields_bind [yields_rules]: "yields Q m \<Longrightarrow> (\<And>x. Q x \<Longrightarrow> yields P (f x)) \<Longrightarrow> yields P (bindR m f)"
  by (auto simp: yields_def)

lemma yields_if [yields_rules]: "(c \<Longrightarrow> yields P a) \<Longrightarrow> (\<not> c \<Longrightarrow> yields P b) \<Longrightarrow> yields P (if c then a else b)"
  by simp

lemma yields_Inr [yields_rules]: "P x \<Longrightarrow> yields P (Inr x)"
  by (simp add: yields_def)

lemma yields_Inl [yields_rules]: "yields P (Inl e)"
  by (simp add: yields_def)

lemma yields_throw_if [yields_rules]: "yields (\<lambda>_. \<not> c) (throw_if c e)"
  by (simp add: yields_def)

lemma yields_assertR [yields_rules]: "yields (\<lambda>_. c) (assertR c m)"
  by (simp add: yields_def)

lemma yields_any: "yields (\<lambda>_. True) r"
  by (simp add: yields_def)

lemmas yields_unknown [yields_rules] =
  yields_any [of "GetNumDimensions s" for s] yields_any [of "GetUnsignedAxis n i" for n i] yields_any [of "is_scalar s" for s]
  yields_any [of "GetAxesToMul l s" for l s] yields_any [of "GetPermuteVec l s" for l s] yields_any [of "GetDepthIndex l" for l]
  yields_any [of "seqR cs" for cs] yields_any [of "GetViewSizes p i" for p i]

lemma yields_get [yields_rules]: "wf_TensorShape s \<Longrightarrow> yields (\<lambda>d. d < 4294967296) (TensorShape_get s i)"
  unfolding yields_def by (blast dest: get_less)

lemma yields_put [yields_rules]: "wf_TensorShape s \<Longrightarrow> v < 4294967296 \<Longrightarrow> yields wf_TensorShape (TensorShape_put s i v)"
  using TensorShape_put_wf [of s v i] by (simp add: yields_def)

lemma yields_mapR [yields_rules]:
  "(\<And>x. x \<in> set xs \<Longrightarrow> yields (\<lambda>d. d < 4294967296) (f x)) \<Longrightarrow> yields dims32 (mapR f xs)"
  unfolding yields_def by (blast intro: mapR_dims32)

lemma yields_read_from [yields_rules]: "wf_TensorShape s \<Longrightarrow> yields dims32 (read_from s a b)"
  unfolding yields_def by (blast intro: read_from_dims32)

lemma yields_foldR: "P s \<Longrightarrow> (\<And>x t. x \<in> set xs \<Longrightarrow> P t \<Longrightarrow> yields P (f x t)) \<Longrightarrow> yields P (foldR f xs s)"
  unfolding yields_def by (blast intro: foldR_invariant [of f xs s _ P])

lemma yields_divR [yields_rules]: "a < 4294967296 \<Longrightarrow> yields (\<lambda>n. n < 4294967296) (divR a b)"
  by (auto simp: yields_def intro: div_less_32)

lemma yields_broadcast [yields_rules]:
  "a < 4294967296 \<Longrightarrow> b < 4294967296 \<Longrightarrow> yields (\<lambda>n. n < 4294967296) (broadcast_size a b)"
  by (auto simp: yields_def dest: broadcast_size_less)

lemma yields_window [yields_rules]: "yields (\<lambda>n. n < 4294967296) (window_size a b c d e f)"
  by (auto simp: yields_def dest: window_size_less)

lemma yields_of_list [yields_rules]: "dims32 ds \<Longrightarrow> yields wf_TensorShape (TensorShape_of_list ds)"
  by (auto simp: yields_def intro: of_list_wf)

lemma yields_sizes [yields_rules]: "dims32 ds \<and> length ds = n \<Longrightarrow> yields wf_TensorShape (TensorShape_sizes n (Some ds))"
  by (auto simp: yields_def intro: TensorShape_sizes_wf)

lemma yields_data [yields_rules]: "dims32 ds \<Longrightarrow> yields wf_TensorShape (shape_of_data n ds)"
proof -
  assume ds: "dims32 ds"
  have "TensorShape_sizes n (Some ds) = TensorShape_sizes n (Some (take n ds))" by (simp add: TensorShape_sizes_def)
  moreover have "dims32 (take n ds)" using ds by (rule dims32_take)
  ultimately show ?thesis
    using TensorShape_sizes_wf [of "take n ds" n] by (auto simp: yields_def shape_of_data_def)
qed

lemma yields_single [yields_rules]: "yields wf_TensorShape r \<Longrightarrow> yields wf_shapes (single r)"
  by (auto simp: yields_def)

lemma yields_layout [yields_rules]:
  "b < 4294967296 \<Longrightarrow> c < 4294967296 \<Longrightarrow> h < 4294967296 \<Longrightarrow> w < 4294967296 \<Longrightarrow> yields wf_shapes (layout_shape layout b c h w)"
  unfolding yields_def by (blast intro: layout_shape_wf)

lemma yields_scalar [yields_rules]: "yields wf_TensorShape (TensorShape_dimensionality Scalar)"
  unfolding yields_def by (blast intro: scalar_wf)

lemma yields_peek [yields_rules]: "wf_shapes ss \<Longrightarrow> yields wf_TensorShape (peek ss i)"
  by (auto simp: yields_def intro: wf_shapes_nth)

lemma yields_map_shapes: "(\<And>x. x \<in> set xs \<Longrightarrow> yields wf_TensorShape (f x)) \<Longrightarrow> yields wf_shapes (mapR f xs)"
  unfolding yields_def by (blast intro: mapR_shapes)

lemma Elementwise_yields: "wf_shapes ss \<Longrightarrow> yields wf_shapes (ElementwiseBinaryLayer_InferOutputShapes ss)"
  unfolding ElementwiseBinaryLayer_InferOutputShapes_def Let_def
  by (rule yields_rules | (simp add: wf_shapes_nth; fail))+

lemma LogicalBinary_yields: "wf_shapes ss \<Longrightarrow> yields wf_shapes (LogicalBinaryLayer_InferOutputShapes ss)"
  unfolding LogicalBinaryLayer_InferOutputShapes_def Let_def
  by (rule yields_rules | (simp add: wf_shapes_nth; fail))+

lemma ElementwiseUnary_yields: "wf_shapes ss \<Longrightarrow> yields wf_shapes (ElementwiseUnaryLayer_InferOutputShapes ss)"
  unfolding ElementwiseUnaryLayer_InferOutputShapes_def Let_def
  by (rule yields_rules | (simp add: wf_shapes_nth; fail))+

lemma Resize_yields: "wf_shapes ss \<Longrightarrow> kind_ok (ResizeLayer p) \<Longrightarrow> yields wf_shapes (ResizeLayer_InferOutputShapes p ss)"
  unfolding ResizeLayer_InferOutputShapes_def Let_def
  by (rule yields_rules | (simp add: wf_shapes_nth; fail))+

lemma Stack_yields: "kind_ok (StackLayer p) \<Longrightarrow> yields wf_shapes (StackLayer_InferOutputShapes p ss)"
  unfolding StackLayer_InferOutputShapes_def Let_def
  by (rule yields_rules | (simp add: wf_shapes_nth; fail))+

lemma ArgMinMax_yields: "wf_shapes ss \<Longrightarrow> yields wf_shapes (ArgMinMaxLayer_InferOutputShapes axis ss)"
  unfolding ArgMinMaxLayer_InferOutputShapes_def Let_def
  by (rule yields_rules | (simp add: wf_shapes_nth; fail))+

lemma Gather_yields: "wf_shapes ss \<Longrightarrow> yields wf_shapes (GatherLayer_InferOutputShapes axis ss)"
  unfolding GatherLayer_InferOutputShapes_def Let_def
  by (rule yields_rules | (simp add: wf_shapes_nth; fail))+

lemma GatherNd_yields: "wf_shapes ss \<Longrightarrow> yields wf_shapes (GatherNdLayer_InferOutputShapes ss)"
  unfolding GatherNdLayer_InferOutputShapes_def Let_def
  by (rule yields_rules | (simp add: wf_shapes_nth; fail))+

lemma FullyConnected_yields: "wf_shapes ss \<Longrightarrow> yields wf_shapes (FullyConnectedLayer_InferOutputShapes t ss)"
  unfolding FullyConnectedLayer_InferOutputShapes_def Let_def
  by (rule yields_rules | (simp add: wf_shapes_nth; fail))+

lemma Convolution2d_yields: "wf_shapes ss \<Longrightarrow> yields wf_shapes (Convolution2dLayer_InferOutputShapes p ss)"
  unfolding Convolution2dLayer_InferOutputShapes_def Let_def
  by (rule yields_rules | (simp add: wf_shapes_nth; fail))+

lemma DepthwiseConvolution2d_yields: "wf_shapes ss \<Longrightarrow> yields wf_shapes (DepthwiseConvolution2dLayer_InferOutputShapes p ss)"
  unfolding DepthwiseConvolution2dLayer_InferOutputShapes_def Let_def
  by (rule yields_rules | (simp add: wf_shapes_nth; fail))+

lemma Convolution3d_yields: "wf_shapes ss \<Longrightarrow> yields wf_shapes (Convolution3dLayer_InferOutputShapes p ss)"
  unfolding Convolution3dLayer_InferOutputShapes_def Let_def
  by (rule yields_rules | (simp add: wf_shapes_nth; fail))+

lemma TransposeConvolution2d_yields: "wf_shapes ss \<Longrightarrow> yields wf_shapes (TransposeConvolution2dLayer_InferOutputShapes p ss)"
  unfolding TransposeConvolution2dLayer_InferOutputShapes_def Let_def
  by (rule yields_rules | (simp add: wf_shapes_nth; fail))+

lemma DepthToSpace_yields: "wf_shapes ss \<Longrightarrow> yields wf_shapes (DepthToSpaceLayer_InferOutputShapes p ss)"
  unfolding DepthToSpaceLayer_InferOutputShapes_def put3_def Let_def
  by (rule yields_rules | (simp add: wf_shapes_nth; fail))+

lemma SpaceToDepth_yields: "wf_shapes ss \<Longrightarrow> yields wf_shapes (SpaceToDepthLayer_InferOutputShapes p ss)"
  unfolding SpaceToDepthLayer_InferOutputShapes_def put3_def Let_def
  by (rule yields_rules | (simp add: wf_shapes_nth; fail))+

lemma UnidirectionalSequenceLstm_yields: "wf_shapes ss \<Longrightarrow> yields wf_shapes (UnidirectionalSequenceLstmLayer_InferOutputShapes ss)"
  unfolding UnidirectionalSequenceLstmLayer_InferOutputShapes_def Let_def
  by (rule yields_rules | (simp add: wf_shapes_nth; fail))+

lemma yields_rank: "wf_TensorShape s \<Longrightarrow> yields (\<lambda>n. n < 4294967296) (GetNumDimensions s)"
  by (auto simp: yields_def GetNumDimensions_def wf_TensorShape.simps MaxNumOfTensorDimensions_def)

lemma Shape_yields: "wf_shapes ss \<Longrightarrow> yields wf_shapes (ShapeLayer_InferOutputShapes ss)"
  unfolding ShapeLayer_InferOutputShapes_def
  by (rule yields_rank | rule yields_rules | (simp add: wf_shapes_nth; fail))+

lemma dims32_rev [simp]: "dims32 (rev ds) \<longleftrightarrow> dims32 ds"
  by (simp add: dims32_def)

lemma Prelu_yields: "wf_shapes ss \<Longrightarrow> yields wf_shapes (PreluLayer_InferOutputShapes ss)"
  unfolding PreluLayer_InferOutputShapes_def Let_def
  by (rule yields_any [of "TensorShape_init n b" for n b] | rule yields_rules | (simp add: wf_shapes_nth del: rev_append; fail))+

lemma reduce_step_yields:
  assumes "wf_TensorShape s" "dims32 (fst t) \<and> length (fst t) = n"
  shows "yields (\<lambda>t. dims32 (fst t) \<and> length (fst t) = n) (reduce_step vAxis keepDims s i t)"
proof -
  have "yields (\<lambda>ds. dims32 ds \<and> length ds = n) (poke k d (fst t))" if "d < 4294967296" for k d
    using assms(2) that by (auto simp: yields_def)
  note this [yields_rules]
  show ?thesis unfolding reduce_step_def using assms by - (rule yields_rules | (simp; fail))+
qed

lemma Reduce_yields:
  assumes "wf_shapes ss"
  shows "yields wf_shapes (ReduceLayer_InferOutputShapes vAxis keepDims ss)"
proof -
  have loop: "yields (\<lambda>t. dims32 (fst t) \<and> length (fst t) = n) (foldR (reduce_step vAxis keepDims s) is (replicate n 1, 0))"
    if "wf_TensorShape s" for n s "is"
    by (rule yields_foldR, simp add: dims32_def) (rule reduce_step_yields [OF that])
  have ones: "dims32 (replicate n 1)" for n by (simp add: dims32_def)
  have sizes: "yields (\<lambda>ds. dims32 ds \<and> length ds = n)
      (if vAxis = [] then Inr (replicate n 1) else bindR (foldR (reduce_step vAxis keepDims s) is (replicate n 1, 0)) (\<lambda>st. Inr (fst st)))"
    if "wf_TensorShape s" for n s "is"
    using that ones by - (rule loop | rule yields_rules | (simp; fail))+
  have rank: "yields (\<lambda>_. True) (if keepDims then Inr n else if vAxis = [] then Inr 1 else if length vAxis > n
      then Inl e else Inr m)" for n m e by (rule yields_any)
  show ?thesis
    unfolding ReduceLayer_InferOutputShapes_def Let_def using assms
    by - (rule rank | rule sizes | rule yields_rules | (simp add: wf_shapes_nth; fail))+
qed

text \<open>Loops over the spatial dimensions keep the shape well formed.\<close>

lemma BatchToSpace_yields: "wf_shapes ss \<Longrightarrow> yields wf_shapes (BatchToSpaceNdLayer_InferOutputShapes p ss)"
  unfolding BatchToSpaceNdLayer_InferOutputShapes_def Let_def
  by (rule yields_foldR | rule yields_any [of "peek (bs_Crops p) i" for i] | rule yields_rules | (simp add: wf_shapes_nth; fail))+

lemma SpaceToBatch_yields: "wf_shapes ss \<Longrightarrow> yields wf_shapes (SpaceToBatchNdLayer_InferOutputShapes p ss)"
  unfolding SpaceToBatchNdLayer_InferOutputShapes_def Let_def
  by (rule yields_foldR | rule yields_any [of "peek (sb_PadList p) i" for i] | rule yields_rules | (simp add: wf_shapes_nth; fail))+

lemma Permuted_yields [yields_rules]:
  assumes "wf_TensorShape s" "GetSize m \<le> MaxNumOfTensorDimensions"
  shows "yields wf_TensorShape (Permuted s m)" "yields wf_TensorShape (TransposeTensorShape s m)"
proof -
  have upd: "dims32 (ds[k := d]) \<and> length (ds[k := d]) = n" if "dims32 ds \<and> length ds = n" "d < 4294967296" for ds k d n
    using that dims32_update by auto
  have get: "yields (\<lambda>_. True) (PermutationVector_get m i)" "yields (\<lambda>_. True) (mismatch w s m)" for i w by (rule yields_any)+
  have start: "dims32 (replicate MaxNumOfTensorDimensions 0) \<and> length (replicate MaxNumOfTensorDimensions (0::nat)) = 5"
    by (simp add: MaxNumOfTensorDimensions_def)
  have loops: "yields (\<lambda>ds. dims32 ds \<and> length ds = 5) (foldR (Permuted_step s m) is (replicate MaxNumOfTensorDimensions 0))"
    "yields (\<lambda>ds. dims32 ds \<and> length ds = 5) (foldR (Transpose_step s m) is (replicate MaxNumOfTensorDimensions 0))" for "is"
    unfolding Permuted_step_def Transpose_step_def using assms(1)
    by - (rule yields_foldR | rule get | rule start | rule upd | rule yields_rules | (simp; fail))+
  have sizes: "yields wf_TensorShape (TensorShape_sizes (GetSize m) (Some ds))" if "dims32 ds \<and> length ds = 5" for ds
  proof -
    have "TensorShape_sizes (GetSize m) (Some ds) = TensorShape_sizes (GetSize m) (Some (take (GetSize m) ds))"
      by (simp add: TensorShape_sizes_def)
    moreover have "dims32 (take (GetSize m) ds)" "length (take (GetSize m) ds) = GetSize m"
      using that assms(2) by (auto simp: MaxNumOfTensorDimensions_def)
    ultimately show ?thesis using yields_sizes [of "take (GetSize m) ds" "GetSize m"] by simp
  qed
  show "yields wf_TensorShape (Permuted s m)"
    unfolding Permuted_def by (rule get | rule loops | (rule sizes, assumption) | rule yields_bind)+
  show "yields wf_TensorShape (TransposeTensorShape s m)"
    unfolding TransposeTensorShape_def by (rule get | rule loops | (rule sizes, assumption) | rule yields_bind)+
qed

lemma Permute_yields: "wf_shapes ss \<Longrightarrow> kind_ok (PermuteLayer m) \<Longrightarrow> yields wf_shapes (PermuteLayer_InferOutputShapes m ss)"
  unfolding PermuteLayer_InferOutputShapes_def
  by (rule yields_rules | (simp add: wf_shapes_nth; fail))+

lemma Transpose_yields: "wf_shapes ss \<Longrightarrow> kind_ok (TransposeLayer m) \<Longrightarrow> yields wf_shapes (TransposeLayer_InferOutputShapes m ss)"
  unfolding TransposeLayer_InferOutputShapes_def
  by (rule yields_rules | (simp add: wf_shapes_nth; fail))+

lemma GetPermuteVec_yields: "yields (\<lambda>m. GetSize m \<le> MaxNumOfTensorDimensions) (GetPermuteVec l s)"
  by (auto simp: yields_def GetPermuteVec_def GetAxesToMul_def Let_def PermutationVector_of_list_def
      PermutationVector_make_def GetSize_def MaxNumOfTensorDimensions_def split: if_splits)

lemma permuted_input_yields:
  assumes "wf_TensorShape s"
  shows "yields wf_TensorShape (if c then bindR (GetPermuteVec l s) (Permuted s) else Inr s)"
  using assms by - (rule GetPermuteVec_yields | rule yields_bind | rule yields_if | rule yields_Inr | (rule Permuted_yields; assumption) | assumption)+

lemma BatchMatMul_yields: "wf_shapes ss \<Longrightarrow> yields wf_shapes (BatchMatMulLayer_InferOutputShapes p ss)"
  unfolding BatchMatMulLayer_InferOutputShapes_def Let_def
  by (rule permuted_input_yields | rule yields_rules | (simp add: wf_shapes_nth; fail))+

lemma Lstm_yields: "wf_shapes ss \<Longrightarrow> yields wf_shapes (LstmLayer_InferOutputShapes c ss)"
  unfolding LstmLayer_InferOutputShapes_def
  by (rule yields_map_shapes | rule yields_get | rule yields_bind | rule yields_assertR | rule yields_of_list | force simp: wf_shapes_nth)+

lemma QLstm_yields: "wf_shapes ss \<Longrightarrow> yields wf_shapes (QLstmLayer_InferOutputShapes ss)"
  unfolding QLstmLayer_InferOutputShapes_def
  by (rule yields_map_shapes | rule yields_get | rule yields_bind | rule yields_assertR | rule yields_of_list | force simp: wf_shapes_nth)+

lemma QuantizedLstm_yields: "wf_shapes ss \<Longrightarrow> yields wf_shapes (QuantizedLstmLayer_InferOutputShapes ss)"
  unfolding QuantizedLstmLayer_InferOutputShapes_def
  by (rule yields_map_shapes | rule yields_get | rule yields_bind | rule yields_assertR | rule yields_of_list | force simp: wf_shapes_nth)+

lemma DetectionPostProcess_yields: "yields wf_shapes (DetectionPostProcessLayer_InferOutputShapes d c)"
  unfolding DetectionPostProcessLayer_InferOutputShapes_def Let_def
  by (rule yields_map_shapes | rule yields_of_list | force)+

text \<open>The layers of the other theories.\<close>

lemma yields_unit_list: "yields wf_TensorShape r \<Longrightarrow> yields wf_shapes (bindR r (\<lambda>s. Inr [s]))"
  by (auto simp: yields_def)

lemma Slice_yields: "kind_ok (SliceLayer p) \<Longrightarrow> yields wf_shapes (SliceLayer_InferOutputShapes p ss)"
  unfolding SliceLayer_InferOutputShapes_def
  by (rule yields_unit_list | rule yields_rules | (simp; fail))+

lemma Tile_yields: "wf_shapes ss \<Longrightarrow> yields wf_shapes (TileLayer_InferOutputShapes p ss)"
  unfolding TileLayer_InferOutputShapes_def
  by (rule yields_unit_list | rule yields_rules | (simp add: wf_shapes_nth; fail))+

lemma Pad_yields: "wf_shapes ss \<Longrightarrow> yields wf_shapes (PadLayer_InferOutputShapes p ss)"
  unfolding PadLayer_InferOutputShapes_def
  by (rule yields_unit_list | rule yields_rules | (simp add: wf_shapes_nth; fail))+

lemma ReverseV2_yields: "wf_shapes ss \<Longrightarrow> yields wf_shapes (ReverseV2Layer_InferOutputShapes ss)"
  unfolding ReverseV2Layer_InferOutputShapes_def
  by (rule yields_unit_list | rule yields_rules | (simp add: wf_shapes_nth; fail))+

lemma Splitter_yields:
  assumes "kind_ok (SplitterLayer p)"
  shows "yields wf_shapes (SplitterLayer_InferOutputShapes p ss)"
proof -
  have "yields wf_TensorShape (TensorShape_sizes (m_NumViewDimensions (m_Origins p)) sizes)"
    if got: "GetViewSizes p i = Inr sizes" for i sizes
  proof (cases sizes)
    case None
    then show ?thesis by (simp add: TensorShape_sizes_def yields_def)
  next
    case (Some v)
    then obtain vs where "m_ViewSizes p = Some vs" "v \<in> set vs" using got by (auto simp: GetViewSizes_def split: option.splits)
    then have "dims32 v \<and> length v = m_NumViewDimensions (m_Origins p)" using assms by auto
    then show ?thesis unfolding Some by (rule yields_sizes)
  qed
  then have "yields wf_shapes (mapR (\<lambda>i. bindR (GetViewSizes p i) (TensorShape_sizes (m_NumViewDimensions (m_Origins p)))) is)" for "is"
    by (intro yields_map_shapes) (auto simp: yields_def)
  then show ?thesis unfolding SplitterLayer_InferOutputShapes_def by (auto simp: yields_def)
qed

lemma extent_step_yields:
  assumes "wf_TensorShape (ss ! i)" "dims32 (snd t)"
  shows "yields (\<lambda>t. dims32 (snd t)) (extent_step p ss i d t)"
proof (cases "d < length (snd t)")
  case True
  then show ?thesis using assms dims32_nth [OF assms(2) True]
    by (auto simp: yields_def extent_step_def)
next
  case False
  then show ?thesis using assms(2) by (auto simp: yields_def extent_step_def list_update_beyond)
qed

lemma Concat_yields:
  assumes "wf_shapes ss"
  shows "yields wf_shapes (ConcatLayer_InferOutputShapes p ss)"
proof -
  have step: "yields (\<lambda>t. dims32 (snd t)) (foldR (extent_step p ss i) ds t)" if "i < length ss" "dims32 (snd t)" for i ds t
    using that(2) extent_step_yields [OF wf_shapes_nth [OF assms that(1)]] by (rule yields_foldR)
  have extents: "yields (\<lambda>t. dims32 (snd t)) (foldR (\<lambda>i. foldR (extent_step p ss i) [0..<n]) [0..<length ss] (replicate n 0, replicate n 0))" for n
    by (rule yields_foldR, simp) (rule step, simp_all)
  have volume: "yields (\<lambda>_. True) (foldR (\<lambda>s v. bindR (GetNumElements s) (\<lambda>n. Inr (u32_add v n))) ss 0)"
    by (rule yields_any)
  have tail: "yields wf_shapes (bindR (throw_if c e) (\<lambda>_. bindR (TensorShape_of_list ds) (\<lambda>s. Inr [s])))" if "dims32 ds" for c e ds
    using that by - (rule yields_unit_list | rule yields_rules | (simp; fail))+
  show ?thesis
    unfolding ConcatLayer_InferOutputShapes_def Let_def
    by (rule extents | rule volume | rule tail | rule yields_rules | (simp add: split_def; fail) | simp only: split_def)+
qed

lemma sdiv_bound: "\<bar>(a::int) sdiv b\<bar> \<le> \<bar>a\<bar>"
proof -
  have "nat \<bar>a\<bar> div nat \<bar>b\<bar> \<le> nat \<bar>a\<bar>" by (rule div_le_dividend)
  then have "\<bar>a\<bar> div \<bar>b\<bar> \<le> \<bar>a\<bar>" "0 \<le> \<bar>a\<bar> div \<bar>b\<bar>"
    by (simp_all flip: nat_div_distrib add: div_int_pos_iff)
  moreover have "\<bar>a sdiv b\<bar> = \<bar>a\<bar> div \<bar>b\<bar> \<or> a sdiv b = 0"
    using calculation(2) by (cases a "0::int" rule: linorder_cases; cases b "0::int" rule: linorder_cases)
      (simp_all add: signed_divide_int_def abs_mult)
  ultimately show ?thesis by auto
qed

lemma sdiv_size: "int32 n \<Longrightarrow> nat (max 0 ((n - 1) sdiv s)) < 4294967296"
  using sdiv_bound [of "n - 1" s] by (auto simp: int32_def)

lemma infer_axis_yields:
  assumes "dims32 (fst t)"
  shows "yields (\<lambda>t. dims32 (fst t)) (infer_axis p s i t)"
proof -
  have size_of: "yields (\<lambda>n. nat (max 0 n) < 4294967296)
      (if c then bindR (int_check a) (\<lambda>n. Inr ((n - 1) sdiv d))
       else bindR (int_check b) (\<lambda>n. bindR (int_check e) (\<lambda>s. if s = 0 then Inl err else Inr ((n - 1) sdiv s))))" for c a b d e err
    by (auto simp: yields_def sdiv_size)
  have unknown: "yields (\<lambda>_. True) (peek xs i)" "yields (\<lambda>_. True) (GetStartForAxis p s i)"
    "yields (\<lambda>_. True) (GetStopForAxis p s i b)" "yields (\<lambda>_. True) (int_check j)" for xs :: "int list" and b j
    by (rule yields_any)+
  obtain ds k where "t = (ds, k)" by (cases t)
  then show ?thesis
    using assms by (simp add: infer_axis_def) (rule size_of | rule unknown | rule yields_rules | (simp; fail))+
qed

lemma StridedSlice_yields: "yields wf_shapes (StridedSliceLayer_InferOutputShapes p ss)"
proof -
  have axes: "yields (\<lambda>t. dims32 (fst t)) (foldR (infer_axis p s) is ([], 0))" for s "is"
    by (rule yields_foldR, simp) (rule infer_axis_yields)
  have tail: "yields wf_shapes (bindR (TensorShape_of_list ds) (\<lambda>s. Inr [s]))" if "dims32 ds" for ds
    using that by - (rule yields_unit_list | rule yields_rules | (simp; fail))+
  show ?thesis
    unfolding StridedSliceLayer_InferOutputShapes_def Let_def
    by (rule axes | rule tail | rule yields_rules | (simp add: split_def; fail) | simp only: split_def)+
qed

lemma Layer_yields: "wf_shapes ss \<Longrightarrow> yields wf_shapes (Layer_InferOutputShapes n m ss)"
  unfolding Layer_InferOutputShapes_def by (rule yields_rules | (simp; fail))+

lemma Merge_yields: "wf_shapes ss \<Longrightarrow> yields wf_shapes (MergeLayer_InferOutputShapes ss)"
  unfolding MergeLayer_InferOutputShapes_def by (rule yields_rules | (simp add: wf_shapes_nth; fail))+

lemma Rank_yields: "yields wf_shapes (single (TensorShape_dimensionality Scalar))"
  by (rule yields_single) (rule yields_scalar)

lemma Constant_yields: "wf_shapes ss \<Longrightarrow> yields wf_shapes (bindR (peek ss 0) (\<lambda>s. Inr [s]))"
  by (rule yields_unit_list) (rule yields_peek)

lemmas kind_yields = Elementwise_yields LogicalBinary_yields ElementwiseUnary_yields Prelu_yields Reduce_yields
  ArgMinMax_yields Stack_yields Resize_yields Gather_yields GatherNd_yields BatchToSpace_yields SpaceToBatch_yields
  DepthToSpace_yields SpaceToDepth_yields BatchMatMul_yields FullyConnected_yields Lstm_yields QLstm_yields
  QuantizedLstm_yields UnidirectionalSequenceLstm_yields DetectionPostProcess_yields Merge_yields Shape_yields
  Permute_yields Transpose_yields Convolution2d_yields DepthwiseConvolution2d_yields Convolution3d_yields
  TransposeConvolution2d_yields Concat_yields Splitter_yields Slice_yields StridedSlice_yields Tile_yields Pad_yields
  ReverseV2_yields Layer_yields Rank_yields Constant_yields yields_Inl yields_Inr

lemma InferOutputShapes_yields: "wf_shapes ss \<Longrightarrow> kind_ok k \<Longrightarrow> yields wf_shapes (InferOutputShapes k ss)"
  by (cases k; simp only: InferOutputShapes.simps ElementwiseBaseLayer_InferOutputShapes_def ComparisonLayer_InferOutputShapes_def
      MeanLayer_InferOutputShapes_def; (rule kind_yields; simp)+)

text \<open>
  shape inference preserves well-formedness for every kind of layer except the pooling layers (which
  divide in floating point and are not modelled). The virtual call
  \<open>InferOutputShapes\<close>, on input shapes that satisfy the invariant of \<open>TensorShape\<close> (at most five
  dimensions, each with its flag, every size in 32 bits) and parameters in the range of their C++ types,
  returns, when it returns, shapes that satisfy the same invariant; all other outcomes are the named errors.
\<close>

theorem InferOutputShapes_wf:
  assumes "wf_shapes ss" "kind_ok k" "InferOutputShapes k ss = Inr ts"
  shows "wf_shapes ts"
  using yieldsD [OF InferOutputShapes_yields [OF assms(1,2)] assms(3)] .

theorem InferOutputShapes_wf_witness:
  "InferOutputShapes ElementwiseBinaryLayer [shape_of [1, 3], shape_of [2, 1]] = Inr [shape_of [2, 3]] \<and> wf_shapes [shape_of [2, 3]]"
proof -
  have "InferOutputShapes ElementwiseBinaryLayer [shape_of [1, 3], shape_of [2, 1]] = Inr [shape_of [2, 3]]"
    by (simp only: InferOutputShapes.simps) code_simp
  then show ?thesis
    using InferOutputShapes_wf [of "[shape_of [1, 3], shape_of [2, 1]]" ElementwiseBinaryLayer "[shape_of [2, 3]]"]
    by (simp add: wf_TensorShape.simps MaxNumOfTensorDimensions_def shape_of_def)
qed

end
