(* ===== verification/TensorValues.thy ===== *)
theory TensorValues
  imports Permutation
begin

section \<open>What the rearranging layers compute (RefPermuteWorkload, RefTransposeWorkload, RefReshapeWorkload)\<close>

text \<open>
  A tensor is its shape and its elements in memory order. The workloads of the reference backend
  call \<open>Permute\<close> and \<open>Transpose\<close> of \<open>armnnUtils\<close> or copy the memory. The destination buffer holds
  arbitrary elements before the call, here those of the source: every one of them is overwritten.
\<close>

type_synonym 'a tensor = "TensorShape \<times> 'a list"

definition permute_value :: "PermutationVector \<Rightarrow> 'a tensor \<Rightarrow> 'a tensor result" where
  "permute_value mappings v =
     bindR (Permuted (fst v) mappings) (\<lambda>dstShape.
     bindR (Permute dstShape mappings (Some (snd v)) (Some (snd v)) 1) (\<lambda>out. Inr (dstShape, out)))"

definition transpose_value :: "PermutationVector \<Rightarrow> 'a tensor \<Rightarrow> 'a tensor result" where
  "transpose_value mappings v =
     bindR (TransposeTensorShape (fst v) mappings) (\<lambda>dstShape.
     bindR (Transpose (fst v) mappings (Some (snd v)) (Some (snd v)) 1) (\<lambda>out. Inr (dstShape, out)))"

text \<open>\<open>memcpy\<close> of all the bytes of the input: outside the output when that is smaller.\<close>

definition reshape_value :: "TensorShape \<Rightarrow> 'a tensor \<Rightarrow> 'a tensor result" where
  "reshape_value targetShape v =
     bindR (GetNumElements targetShape) (\<lambda>n.
     bindR (throw_if (n \<noteq> length (snd v)) (UndefinedBehaviour ''memcpy past the output'')) (\<lambda>_.
     Inr (targetShape, snd v)))"

subsection \<open>Tensors\<close>

definition is_tensor :: "'a tensor \<Rightarrow> bool" where
  "is_tensor v \<longleftrightarrow> (\<exists>ds. specified_shape (fst v) ds \<and> 1 \<le> length ds \<and> length ds \<le> MaxNumOfTensorDimensions \<and>
     prod_list ds < 2 ^ 32 \<and> length (snd v) = prod_list ds)"

lemma specified_shape_unique: "specified_shape s ds \<Longrightarrow> specified_shape t ds \<Longrightarrow> s = t"
  by (cases s; cases t) (simp add: specified_shape_def)

lemma specified_shape_dims: "specified_shape s ds \<Longrightarrow> specified_shape s es \<Longrightarrow> ds = es"
  by (simp add: specified_shape_def)

lemma elements_eqI:
  assumes "length xs = prod_list ds" "length ys = prod_list ds"
    "\<And>js. in_box ds js \<Longrightarrow> xs ! flat ds js = ys ! flat ds js"
  shows "xs = ys"
proof (rule nth_equalityI)
  fix k assume "k < length xs"
  then have k: "k < prod_list ds" using assms(1) by simp
  show "xs ! k = ys ! k" using assms(3) [OF unflat_in_box [OF k]] by (simp add: flat_unflat [OF k])
qed (simp add: assms)

lemma Permuted_rank:
  "specified_shape s ds \<Longrightarrow> Permuted s p = Inr t \<Longrightarrow> length ds = length (m_DimMappings p)"
  by (auto simp: Permuted_def mismatch_def GetSize_def)

lemma Transposed_rank:
  "specified_shape s ds \<Longrightarrow> TransposeTensorShape s p = Inr t \<Longrightarrow> length ds = length (m_DimMappings p)"
  by (auto simp: TransposeTensorShape_def mismatch_def GetSize_def)

definition is_vector :: "PermutationVector \<Rightarrow> bool" where
  "is_vector p \<longleftrightarrow> is_perm (m_DimMappings p) \<and> length (m_DimMappings p) \<le> MaxNumOfTensorDimensions"

lemma permute_value_spec:
  assumes "is_vector p" "specified_shape s ds" "length ds = length (m_DimMappings p)" "1 \<le> length ds"
    "prod_list ds < 2 ^ 32" "length xs = prod_list ds"
  obtains t ts out where "permute_value p (s, xs) = Inr (t, out)" "specified_shape t ts" "length ts = length ds"
    "pick (m_DimMappings p) ts = ds" "prod_list ts = prod_list ds" "length out = prod_list ts"
    "\<And>js. in_box ts js \<Longrightarrow> out ! flat ts js = xs ! flat ds (pick (m_DimMappings p) js)"
proof -
  let ?ms = "m_DimMappings p"
  have p: "is_perm ?ms" "length ?ms \<le> MaxNumOfTensorDimensions" "\<lparr>m_DimMappings = ?ms\<rparr> = p"
    using assms(1) by (simp_all add: is_vector_def)
  obtain t ts where t: "Permuted s p = Inr t" "specified_shape t ts" "length ts = length ?ms" "pick ?ms ts = ds"
    using Permuted_ok [OF assms(2,3) p(1) _ p(2)] assms(3,4) p(3) by metis
  have prod: "prod_list ts = prod_list ds" using prod_list_pick [OF p(1) t(3)] t(4) by simp
  obtain out where "Permute t p (Some xs) (Some xs) 1 = Inr out" "length out = prod_list ts"
    "\<forall>js. in_box ts js \<longrightarrow> out ! flat ts js = xs ! flat (pick ?ms ts) (pick ?ms js)"
    using Permute_nth [OF p(1,2) t(2,3), of xs 1 xs] prod assms(5,6) p(3) by (metis One_nat_def zero_neq_one)
  then show thesis using that [of t out ts] t prod assms(3) by (simp add: permute_value_def)
qed

lemma transpose_value_spec:
  assumes "is_vector p" "specified_shape s ds" "length ds = length (m_DimMappings p)" "1 \<le> length ds"
    "prod_list ds < 2 ^ 32" "length xs = prod_list ds"
  obtains t out where "transpose_value p (s, xs) = Inr (t, out)" "specified_shape t (pick (m_DimMappings p) ds)"
    "prod_list (pick (m_DimMappings p) ds) = prod_list ds" "length out = prod_list ds"
    "\<And>js. in_box ds js \<Longrightarrow> out ! flat (pick (m_DimMappings p) ds) (pick (m_DimMappings p) js) = xs ! flat ds js"
proof -
  let ?ms = "m_DimMappings p"
  have p: "is_perm ?ms" "length ?ms \<le> MaxNumOfTensorDimensions" "\<lparr>m_DimMappings = ?ms\<rparr> = p"
    using assms(1) by (simp_all add: is_vector_def)
  obtain t where t: "TransposeTensorShape s p = Inr t" "specified_shape t (pick ?ms ds)"
    using Transposed_ok [OF assms(2,3) p(1) _ p(2)] assms(3,4) p(3) by metis
  obtain out where "Transpose s p (Some xs) (Some xs) 1 = Inr out" "length out = prod_list ds"
    "\<forall>js. in_box ds js \<longrightarrow> out ! flat (pick ?ms ds) (pick ?ms js) = xs ! flat ds js"
    using Transpose_nth [OF p(1,2) assms(2,3,5,6), of 1 xs] p(3) by (metis One_nat_def zero_neq_one)
  then show thesis using that [of t out] t prod_list_pick [OF p(1) assms(3)] by (simp add: transpose_value_def)
qed

lemma is_tensorE:
  assumes "is_tensor v"
  obtains s xs ds where "v = (s, xs)" "specified_shape s ds" "1 \<le> length ds" "length ds \<le> MaxNumOfTensorDimensions"
    "prod_list ds < 2 ^ 32" "length xs = prod_list ds"
  using assms by (cases v) (auto simp: is_tensor_def)

lemma is_tensorI:
  "specified_shape s ds \<Longrightarrow> 1 \<le> length ds \<Longrightarrow> length ds \<le> MaxNumOfTensorDimensions \<Longrightarrow>
   prod_list ds < 2 ^ 32 \<Longrightarrow> length xs = prod_list ds \<Longrightarrow> is_tensor (s, xs)"
  by (auto simp: is_tensor_def)

lemma permute_value_tensor:
  assumes "is_tensor v" "is_vector p" "permute_value p v = Inr w"
  shows "is_tensor w"
proof -
  obtain s xs ds where v: "v = (s, xs)" "specified_shape s ds" "1 \<le> length ds"
    "length ds \<le> MaxNumOfTensorDimensions" "prod_list ds < 2 ^ 32" "length xs = prod_list ds"
    using assms(1) by (rule is_tensorE)
  have len: "length ds = length (m_DimMappings p)"
    using assms(3) v(1) Permuted_rank [OF v(2)] by (auto simp: permute_value_def)
  obtain t ts out where w: "permute_value p (s, xs) = Inr (t, out)" "specified_shape t ts" "length ts = length ds"
    "prod_list ts = prod_list ds" "length out = prod_list ts"
    using permute_value_spec [OF assms(2) v(2) len v(3,5,6)] by metis
  then show ?thesis using assms(3) v w is_tensorI [OF w(2)] by auto
qed

lemma transpose_value_tensor:
  assumes "is_tensor v" "is_vector p" "transpose_value p v = Inr w"
  shows "is_tensor w"
proof -
  obtain s xs ds where v: "v = (s, xs)" "specified_shape s ds" "1 \<le> length ds"
    "length ds \<le> MaxNumOfTensorDimensions" "prod_list ds < 2 ^ 32" "length xs = prod_list ds"
    using assms(1) by (rule is_tensorE)
  have len: "length ds = length (m_DimMappings p)"
    using assms(3) v(1) Transposed_rank [OF v(2)] by (auto simp: transpose_value_def)
  obtain t out where w: "transpose_value p (s, xs) = Inr (t, out)" "specified_shape t (pick (m_DimMappings p) ds)"
    "prod_list (pick (m_DimMappings p) ds) = prod_list ds" "length out = prod_list ds"
    using transpose_value_spec [OF assms(2) v(2) len v(3,5,6)] by metis
  then show ?thesis using assms(3) v w len is_tensorI [OF w(2)] by auto
qed

definition is_shape :: "TensorShape \<Rightarrow> bool" where
  "is_shape s \<longleftrightarrow> (\<exists>ds. specified_shape s ds \<and> 1 \<le> length ds \<and> length ds \<le> MaxNumOfTensorDimensions \<and> prod_list ds < 2 ^ 32)"

lemma is_tensor_shape: "is_tensor v \<Longrightarrow> is_shape (fst v)"
  by (auto simp: is_tensor_def is_shape_def)

lemma reshape_value_Inr:
  "reshape_value t v = Inr w \<longleftrightarrow> w = (t, snd v) \<and> GetNumElements t = Inr (length (snd v))"
  by (auto simp: reshape_value_def)

lemma is_tensor_iff: "is_tensor v \<longleftrightarrow> is_shape (fst v) \<and> GetNumElements (fst v) = Inr (length (snd v))"
proof
  assume v: "is_tensor v"
  then obtain ds where ds: "specified_shape (fst v) ds" "1 \<le> length ds" "prod_list ds < 2 ^ 32" "length (snd v) = prod_list ds"
    unfolding is_tensor_def by blast
  then have "ds \<noteq> []" by auto
  then show "is_shape (fst v) \<and> GetNumElements (fst v) = Inr (length (snd v))"
    using GetNumElements_small [OF ds(1)] ds(3,4) is_tensor_shape [OF v] by simp
next
  assume "is_shape (fst v) \<and> GetNumElements (fst v) = Inr (length (snd v))"
  then obtain ds where ds: "specified_shape (fst v) ds" "1 \<le> length ds" "length ds \<le> MaxNumOfTensorDimensions"
    "prod_list ds < 2 ^ 32" "GetNumElements (fst v) = Inr (length (snd v))"
    by (auto simp: is_shape_def)
  have "ds \<noteq> []" using ds(2) by auto
  then have "length (snd v) = prod_list ds" using GetNumElements_small [OF ds(1)] ds(4,5) by simp
  then show "is_tensor v" using ds by (auto simp: is_tensor_def)
qed

lemma reshape_value_tensor: "is_shape t \<Longrightarrow> reshape_value t v = Inr w \<Longrightarrow> is_tensor w"
  by (simp add: reshape_value_Inr is_tensor_iff)

subsection \<open>Inverse permutations cancel\<close>

lemma IsInverse_nth:
  "IsInverse q p \<Longrightarrow> length (m_DimMappings q) = length (m_DimMappings p) \<and>
     (\<forall>i < length (m_DimMappings p). m_DimMappings q ! (m_DimMappings p ! i) = i)"
  by (auto simp: IsInverse_def GetSize_def list_all_iff)

text \<open>On permutations, inverse on one side is inverse on the other.\<close>

lemma IsInverse_nth':
  assumes "IsInverse q p" "is_vector p" "is_vector q" "k < length (m_DimMappings p)"
  shows "m_DimMappings p ! (m_DimMappings q ! k) = k"
proof -
  let ?ms = "m_DimMappings p"
  have "k \<in> (!) ?ms ` {..<length ?ms}"
    using is_perm_bij [of ?ms] assms(2,4) by (simp add: is_vector_def bij_betw_def)
  then obtain i where "i < length ?ms" "k = ?ms ! i" by auto
  then show ?thesis using IsInverse_nth [OF assms(1)] by simp
qed

lemma pick_pick:
  assumes "\<And>i. i < length ms \<Longrightarrow> ns ! (ms ! i) = i" "\<And>i. i < length ms \<Longrightarrow> ms ! i < length ns"
    "length xs = length ms"
  shows "pick ms (pick ns xs) = xs"
  using assms by (intro nth_equalityI) auto

lemma permute_inverse:
  assumes "is_tensor v" "is_vector p" "is_vector q" "IsInverse q p"
    "permute_value p v = Inr w" "permute_value q w = Inr u"
  shows "u = v"
proof -
  let ?ms = "m_DimMappings p" and ?ns = "m_DimMappings q"
  have inv: "length ?ns = length ?ms" "\<And>i. i < length ?ms \<Longrightarrow> ?ns ! (?ms ! i) = i"
    using IsInverse_nth [OF assms(4)] by auto
  have less: "?ms ! i < length ?ns" if "i < length ?ms" for i
    using assms(2) is_perm_nth [OF _ that] inv(1) by (simp add: is_vector_def)
  obtain s xs ds where v: "v = (s, xs)" "specified_shape s ds" "1 \<le> length ds"
    "length ds \<le> MaxNumOfTensorDimensions" "prod_list ds < 2 ^ 32" "length xs = prod_list ds"
    using assms(1) by (rule is_tensorE)
  have len: "length ds = length ?ms"
    using assms(5) v(1) Permuted_rank [OF v(2)] by (auto simp: permute_value_def)
  obtain t ts out where w: "permute_value p (s, xs) = Inr (t, out)" "specified_shape t ts" "length ts = length ds"
    "pick ?ms ts = ds" "prod_list ts = prod_list ds" "length out = prod_list ts"
    "\<And>js. in_box ts js \<Longrightarrow> out ! flat ts js = xs ! flat ds (pick ?ms js)"
    using permute_value_spec [OF assms(2) v(2) len v(3,5,6)] by metis
  have "length ts = length ?ns" "1 \<le> length ts" "prod_list ts < 2 ^ 32" using w len inv v by simp_all
  then obtain r us out' where u: "permute_value q (t, out) = Inr (r, out')" "specified_shape r us"
    "length us = length ts" "pick ?ns us = ts" "prod_list us = prod_list ts" "length out' = prod_list us"
    "\<And>js. in_box us js \<Longrightarrow> out' ! flat us js = out ! flat ts (pick ?ns js)"
    using permute_value_spec [OF assms(3) w(2), of out] w(6) by metis
  have us: "us = ds" using pick_pick [OF inv(2) less, of us] u(3,4) w(3,4) len by simp
  have "out' = xs"
  proof (rule elements_eqI)
    fix js assume js: "in_box ds js"
    have ljs: "length js = length ?ms" using in_box_length [OF js] len by simp
    have "in_box ts (pick ?ns js)"
      using in_box_pick [of ?ns us js] assms(3) inv(1) ljs js us u(3,4) w(3) len by (simp add: is_vector_def)
    then show "out' ! flat ds js = xs ! flat ds js"
      using u(7) [of js] w(7) js us pick_pick [OF inv(2) less ljs] by simp
  qed (use u w v us in simp_all)
  then show ?thesis
    using assms(5,6) w(1) u(1,2) v(1,2) us specified_shape_unique by auto
qed

lemma transpose_inverse:
  assumes "is_tensor v" "is_vector p" "is_vector q" "IsInverse q p"
    "transpose_value p v = Inr w" "transpose_value q w = Inr u"
  shows "u = v"
proof -
  let ?ms = "m_DimMappings p" and ?ns = "m_DimMappings q"
  have inv: "length ?ns = length ?ms" using IsInverse_nth [OF assms(4)] by auto
  have undo: "?ms ! (?ns ! i) = i" "?ns ! i < length ?ms" if "i < length ?ns" for i
    using IsInverse_nth' [OF assms(4,2,3)] is_perm_nth [of ?ns i] assms(3) that inv by (simp_all add: is_vector_def)
  obtain s xs ds where v: "v = (s, xs)" "specified_shape s ds" "1 \<le> length ds"
    "length ds \<le> MaxNumOfTensorDimensions" "prod_list ds < 2 ^ 32" "length xs = prod_list ds"
    using assms(1) by (rule is_tensorE)
  have len: "length ds = length ?ms"
    using assms(5) v(1) Transposed_rank [OF v(2)] by (auto simp: transpose_value_def)
  obtain t out where w: "transpose_value p (s, xs) = Inr (t, out)" "specified_shape t (pick ?ms ds)"
    "prod_list (pick ?ms ds) = prod_list ds" "length out = prod_list ds"
    "\<And>js. in_box ds js \<Longrightarrow> out ! flat (pick ?ms ds) (pick ?ms js) = xs ! flat ds js"
    using transpose_value_spec [OF assms(2) v(2) len v(3,5,6)] by metis
  have "length (pick ?ms ds) = length ?ns" "1 \<le> length (pick ?ms ds)" "prod_list (pick ?ms ds) < 2 ^ 32"
    "length out = prod_list (pick ?ms ds)"
    using w len inv v by simp_all
  then obtain r out' where u: "transpose_value q (t, out) = Inr (r, out')"
    "specified_shape r (pick ?ns (pick ?ms ds))" "length out' = prod_list (pick ?ms ds)"
    "\<And>js. in_box (pick ?ms ds) js \<Longrightarrow> out' ! flat (pick ?ns (pick ?ms ds)) (pick ?ns js) = out ! flat (pick ?ms ds) js"
    using transpose_value_spec [OF assms(3) w(2)] by metis
  have id: "pick ?ns (pick ?ms ys) = ys" if "length ys = length ?ms" for ys :: "nat list"
    using pick_pick [OF undo] that inv by simp
  have "out' = xs"
  proof (rule elements_eqI)
    fix js assume js: "in_box ds js"
    have ljs: "length js = length ?ms" using in_box_length [OF js] len by simp
    have "in_box (pick ?ms ds) (pick ?ms js)"
      using in_box_pick [of ?ms ds js] assms(2) len ljs js by (simp add: is_vector_def)
    then show "out' ! flat ds js = xs ! flat ds js"
      using u(4) [of "pick ?ms js"] w(5) [OF js] id [OF len] id [OF ljs] by simp
  qed (use u w v in simp_all)
  then show ?thesis
    using assms(5,6) w(1) u(1,2) v(1,2) id [OF len] specified_shape_unique by auto
qed

subsection \<open>Permutations that move no element\<close>

text \<open>
  \<open>IsReshape\<close> of \<open>PermuteAsReshape\<close> and \<open>TransposeAsReshape\<close> (there on the inverted mappings): the
  dimensions of size greater than one keep their order. The loops run over the positions that are
  left.
\<close>

fun first_gt_one :: "TensorShape \<Rightarrow> nat list \<Rightarrow> nat list \<Rightarrow> nat result" where
  "first_gt_one outShape permutation [] = Inr (length permutation)"
| "first_gt_one outShape permutation (i # is) =
     bindR (TensorShape_get outShape (permutation ! i)) (\<lambda>d.
     if d = 1 then first_gt_one outShape permutation is else Inr i)"

fun keeps_order :: "TensorShape \<Rightarrow> nat list \<Rightarrow> nat \<Rightarrow> nat list \<Rightarrow> bool result" where
  "keeps_order outShape permutation lastGtOne [] = Inr True"
| "keeps_order outShape permutation lastGtOne (i # is) =
     bindR (TensorShape_get outShape (permutation ! i)) (\<lambda>d.
     if d > 1 then
       if permutation ! lastGtOne < permutation ! i then keeps_order outShape permutation i is else Inr False
     else keeps_order outShape permutation lastGtOne is)"

definition is_reshape :: "TensorShape \<Rightarrow> nat list \<Rightarrow> bool result" where
  "is_reshape outShape permutation =
     bindR (first_gt_one outShape permutation [0..<length permutation]) (\<lambda>lastGtOne.
     keeps_order outShape permutation lastGtOne [Suc lastGtOne..<length permutation])"

definition IsReshape_permute :: "TensorShape \<Rightarrow> PermutationVector \<Rightarrow> bool result" where
  "IsReshape_permute outShape permutation = is_reshape outShape (m_DimMappings permutation)"

text \<open>The map from the mappings back to their positions, and the vector read from it.\<close>

definition permute_mappings :: "nat list \<Rightarrow> nat \<Rightarrow> nat option" where
  "permute_mappings permutation = fold (\<lambda>i m. m(permutation ! i \<mapsto> i)) [0..<length permutation] Map.empty"

definition permute_vector :: "nat list \<Rightarrow> nat list result" where
  "permute_vector permutation =
     mapR (\<lambda>i. case permute_mappings permutation i of
                 None \<Rightarrow> Inl (StdOutOfRange ''permuteMappings.at'') | Some k \<Rightarrow> Inr k) [0..<length permutation]"

definition IsReshape_transpose :: "TensorShape \<Rightarrow> PermutationVector \<Rightarrow> bool result" where
  "IsReshape_transpose outShape permutation =
     bindR (permute_vector (m_DimMappings permutation)) (is_reshape outShape)"

subsection \<open>Permutations that pass the test are reshapes\<close>

lemma first_gt_one_split:
  assumes "specified_shape t ts" "\<forall>i \<in> set is. ms ! i < length ts" "first_gt_one t ms is = Inr k"
  shows "(\<forall>i \<in> set is. ts ! (ms ! i) = 1) \<and> k = length ms \<or>
    (\<exists>pre post. is = pre @ k # post \<and> (\<forall>i \<in> set pre. ts ! (ms ! i) = 1) \<and> ts ! (ms ! k) \<noteq> 1)"
  using assms(2,3)
proof (induction "is")
  case Nil
  then show ?case by simp
next
  case (Cons i "is")
  show ?case
  proof (cases "ts ! (ms ! i) = 1")
    case True
    then have "first_gt_one t ms is = Inr k" using Cons.prems assms(1) by simp
    then consider "(\<forall>i \<in> set is. ts ! (ms ! i) = 1) \<and> k = length ms"
      | pre post where "is = pre @ k # post" "\<forall>i \<in> set pre. ts ! (ms ! i) = 1" "ts ! (ms ! k) \<noteq> 1"
      using Cons.IH Cons.prems(1) by auto
    then show ?thesis
    proof cases
      case 1
      then show ?thesis using True by simp
    next
      case 2
      then have "i # is = (i # pre) @ k # post \<and> (\<forall>j \<in> set (i # pre). ts ! (ms ! j) = 1)" using True by simp
      then show ?thesis using 2(3) by blast
    qed
  next
    case False
    then have "k = i" using Cons.prems assms(1) by simp
    then show ?thesis using False by (intro disjI2 exI [of _ "[]"] exI [of _ "is"]) simp
  qed
qed

lemma keeps_order_sorted:
  assumes "specified_shape t ts" "\<forall>i \<in> set is. ms ! i < length ts" "keeps_order t ms k is = Inr True"
  shows "sorted_wrt (<) (ms ! k # filter (\<lambda>m. ts ! m > 1) (map ((!) ms) is))"
  using assms(2,3)
proof (induction "is" arbitrary: k)
  case Nil
  then show ?case by simp
next
  case (Cons i "is")
  then show ?case
    using assms(1) Cons.IH [of i] Cons.IH [of k] by (auto split: if_splits intro: less_trans)
qed

lemma is_reshape_sorted:
  assumes "specified_shape t ts" "is_perm ms" "length ms = length ts" "0 \<notin> set ts" "is_reshape t ms = Inr True"
  shows "sorted_wrt (<) (filter (\<lambda>m. ts ! m \<noteq> 1) ms)"
proof -
  let ?n = "length ms"
  have less: "\<forall>i \<in> set [0..<?n]. ms ! i < length ts" using is_perm_nth [OF assms(2)] assms(3) by simp
  have pos: "ts ! (ms ! i) \<noteq> 1 \<longleftrightarrow> ts ! (ms ! i) > 1" if "i < ?n" for i
    using assms(4) less that nth_mem [of "ms ! i" ts] by (metis atLeastLessThan_iff gr0I le0 less_one linorder_neqE_nat set_upt)
  obtain k where k: "first_gt_one t ms [0..<?n] = Inr k" "keeps_order t ms k [Suc k..<?n] = Inr True"
    using assms(5) by (auto simp: is_reshape_def)
  have ms: "filter (\<lambda>m. ts ! m \<noteq> 1) ms = filter (\<lambda>m. ts ! m \<noteq> 1) (map ((!) ms) [0..<?n])" by (simp add: map_nth)
  consider "\<forall>i \<in> set [0..<?n]. ts ! (ms ! i) = 1"
    | pre post where "[0..<?n] = pre @ k # post" "\<forall>i \<in> set pre. ts ! (ms ! i) = 1" "ts ! (ms ! k) \<noteq> 1"
    using first_gt_one_split [OF assms(1) less k(1)] by blast
  then show ?thesis
  proof cases
    case 1
    then show ?thesis unfolding ms by (simp add: filter_empty_conv)
  next
    case 2
    have kn: "k = length pre" "post = [Suc k..<?n]" "k < ?n"
    proof -
      have "length pre < ?n" using arg_cong [OF 2(1), of length] by simp
      moreover have "[0..<?n] ! length pre = k" using 2(1) by (simp add: nth_append)
      ultimately show k: "k = length pre" "k < ?n" by auto
      then have "drop (Suc k) [0..<?n] = post" using 2(1) by simp
      then show "post = [Suc k..<?n]" by simp
    qed
    have "filter (\<lambda>m. ts ! m \<noteq> 1) (map ((!) ms) pre) = []" using 2(2) by (simp add: filter_empty_conv)
    then have "filter (\<lambda>m. ts ! m \<noteq> 1) ms = ms ! k # filter (\<lambda>m. ts ! m \<noteq> 1) (map ((!) ms) [Suc k..<?n])"
      unfolding ms 2(1) using 2(3) kn(2) by simp
    also have "\<dots> = ms ! k # filter (\<lambda>m. ts ! m > 1) (map ((!) ms) [Suc k..<?n])"
      using pos by (auto intro!: filter_cong simp del: One_nat_def)
    finally show ?thesis using keeps_order_sorted [OF assms(1) _ k(2)] less by simp
  qed
qed

text \<open>A position does not depend on the dimensions of size one.\<close>

definition squeeze :: "(nat \<times> nat) list \<Rightarrow> (nat \<times> nat) list" where
  "squeeze = filter (\<lambda>p. fst p \<noteq> 1)"

lemma prod_list_squeeze: "prod_list (map fst (squeeze ps)) = prod_list (map fst ps)"
  by (induction ps) (auto simp: squeeze_def)

lemma flat_squeeze:
  "in_box (map fst ps) (map snd ps) \<Longrightarrow>
   flat (map fst ps) (map snd ps) = flat (map fst (squeeze ps)) (map snd (squeeze ps))"
proof (induction ps)
  case Nil
  then show ?case by (simp add: squeeze_def)
next
  case (Cons p ps)
  then show ?case
    using prod_list_squeeze [of ps] by (cases "fst p = 1") (simp_all add: squeeze_def)
qed

lemma squeeze_pick:
  assumes "is_perm ms" "length zs = length ms" "sorted_wrt (<) (filter (\<lambda>m. fst (zs ! m) \<noteq> 1) ms)"
  shows "squeeze (pick ms zs) = squeeze zs"
proof -
  let ?P = "\<lambda>m. fst (zs ! m) \<noteq> 1"
  have "mset (filter ?P ms) = mset (filter ?P [0..<length ms])"
    using assms(1) by (simp add: is_perm_mset)
  then have "filter ?P ms = filter ?P [0..<length ms]"
    using assms(3) by (metis properties_for_sort sort_key_id_if_sorted sorted_filter sorted_map sorted_upt
        strict_sorted_imp_sorted map_ident list.map_ident)
  moreover have "map ((!) zs) [0..<length ms] = zs" using map_nth [of zs] assms(2) by simp
  ultimately show ?thesis
    by (metis (no_types, lifting) comp_def filter_cong filter_map pick_def squeeze_def)
qed

lemma reshape_elements:
  assumes "is_perm ms" "length ts = length ms" "sorted_wrt (<) (filter (\<lambda>m. ts ! m \<noteq> 1) ms)" "in_box ts js"
  shows "flat (pick ms ts) (pick ms js) = flat ts js"
proof -
  let ?zs = "zip ts js"
  have len: "length js = length ms" using in_box_length [OF assms(4)] assms(2) by simp
  have "filter (\<lambda>m. fst (?zs ! m) \<noteq> 1) ms = filter (\<lambda>m. ts ! m \<noteq> 1) ms"
    using assms(1,2) len by (intro filter_cong) (auto simp: is_perm_def)
  then have sq: "squeeze (pick ms ?zs) = squeeze ?zs"
    using squeeze_pick [OF assms(1), of ?zs] assms(2,3) len by simp
  have parts: "map fst ?zs = ts" "map snd ?zs = js" using assms(2) len by simp_all
  have picks: "map fst (pick ms ?zs) = pick ms ts" "map snd (pick ms ?zs) = pick ms js"
    using assms(1,2) len by (auto simp: pick_def is_perm_def)
  have box: "in_box (pick ms ts) (pick ms js)" using in_box_pick [OF assms(1,2) len] assms(4) by simp
  show ?thesis
    using flat_squeeze [of ?zs] flat_squeeze [of "pick ms ?zs"] assms(4) box by (simp add: parts picks sq)
qed

lemma zero_size_empty: "(0::nat) \<in> set ts \<Longrightarrow> prod_list ts = 0"
  by (simp add: prod_list_zero_iff)

lemma permute_is_reshape:
  assumes "is_tensor v" "is_vector p" "permute_value p v = Inr (t, out)" "IsReshape_permute t p = Inr True"
  shows "out = snd v"
proof -
  let ?ms = "m_DimMappings p"
  obtain s xs ds where v: "v = (s, xs)" "specified_shape s ds" "1 \<le> length ds"
    "length ds \<le> MaxNumOfTensorDimensions" "prod_list ds < 2 ^ 32" "length xs = prod_list ds"
    using assms(1) by (rule is_tensorE)
  have len: "length ds = length ?ms"
    using assms(3) v(1) Permuted_rank [OF v(2)] by (auto simp: permute_value_def)
  obtain ts where w: "specified_shape t ts" "length ts = length ds" "pick ?ms ts = ds" "prod_list ts = prod_list ds"
    "length out = prod_list ts" "\<And>js. in_box ts js \<Longrightarrow> out ! flat ts js = xs ! flat ds (pick ?ms js)"
    using permute_value_spec [OF assms(2) v(2) len v(3,5,6)] assms(3) v(1) by (metis Inr_inject prod.inject)
  have perm: "is_perm ?ms" using assms(2) by (simp add: is_vector_def)
  have "out = xs"
  proof (cases "0 \<in> set ts")
    case True
    then show ?thesis using zero_size_empty [OF True] w(4,5) v(6) by simp
  next
    case False
    have lts: "length ts = length ?ms" using w(2) len by simp
    have sorted: "sorted_wrt (<) (filter (\<lambda>m. ts ! m \<noteq> 1) ?ms)"
      using is_reshape_sorted [OF w(1) perm lts [symmetric] False] assms(4) by (simp add: IsReshape_permute_def)
    show ?thesis
    proof (rule elements_eqI)
      fix js assume js: "in_box ts js"
      show "out ! flat ts js = xs ! flat ts js"
        using w(6) [OF js] reshape_elements [OF perm lts sorted js] w(3) by simp
    qed (use w v in simp_all)
  qed
  then show ?thesis using v(1) by simp
qed

lemma permute_mappings_nth:
  assumes "distinct ms" "n \<le> length ms"
  shows "fold (\<lambda>i m. m(ms ! i \<mapsto> i)) [0..<n] Map.empty k = Some i \<longleftrightarrow> i < n \<and> ms ! i = k"
  using assms(2)
proof (induction n)
  case 0
  then show ?case by simp
next
  case (Suc n)
  then show ?case using assms(1) by (auto simp: less_Suc_eq nth_eq_iff_index_eq)
qed

lemma permute_vector_inverse:
  assumes "is_perm ms"
  obtains ns where "permute_vector ms = Inr ns" "is_perm ns" "length ns = length ms"
    "\<And>i. i < length ms \<Longrightarrow> ns ! (ms ! i) = i"
proof -
  let ?inv = "\<lambda>k. the (permute_mappings ms k)"
  have some: "permute_mappings ms k = Some i \<longleftrightarrow> i < length ms \<and> ms ! i = k" for k i
    using permute_mappings_nth [of ms "length ms"] assms by (simp add: permute_mappings_def is_perm_def)
  have inv: "permute_mappings ms k = Some (?inv k)" "?inv k < length ms" "ms ! ?inv k = k" if "k < length ms" for k
  proof -
    have "k \<in> (!) ms ` {..<length ms}" using is_perm_bij [OF assms] that by (simp add: bij_betw_def)
    then obtain i where i: "i < length ms" "ms ! i = k" by auto
    then have "permute_mappings ms k = Some i" using some by blast
    then show "permute_mappings ms k = Some (?inv k)" "?inv k < length ms" "ms ! ?inv k = k" using i by simp_all
  qed
  have "permute_vector ms = Inr (map ?inv [0..<length ms])"
    unfolding permute_vector_def by (rule mapR_pure, subst inv(1)) simp_all
  moreover have "inj_on ?inv {0..<length ms}"
    using inv(3) by (intro inj_onI) (metis atLeastLessThan_iff)
  then have "is_perm (map ?inv [0..<length ms])"
    using inv(2) by (simp add: is_perm_def distinct_map)
  moreover have "map ?inv [0..<length ms] ! (ms ! i) = i" if "i < length ms" for i
    using some [of "ms ! i" i] that is_perm_nth [OF assms that] by simp
  ultimately show thesis by (intro that [of "map ?inv [0..<length ms]"]) simp_all
qed

lemma pick_perm_inverse:
  assumes "is_perm ms" "length ns = length ms" "\<And>i. i < length ms \<Longrightarrow> ns ! (ms ! i) = i" "length xs = length ms"
  shows "pick ns (pick ms xs) = xs"
proof (rule nth_equalityI)
  fix k assume "k < length (pick ns (pick ms xs))"
  then have "k \<in> (!) ms ` {..<length ms}" using is_perm_bij [OF assms(1)] assms(2) by (simp add: bij_betw_def)
  then obtain i where "i < length ms" "k = ms ! i" by auto
  then show "pick ns (pick ms xs) ! k = xs ! k" using assms is_perm_nth [OF assms(1)] by simp
qed (use assms in simp)

lemma transpose_is_reshape:
  assumes "is_tensor v" "is_vector p" "transpose_value p v = Inr (t, out)" "IsReshape_transpose t p = Inr True"
  shows "out = snd v"
proof -
  let ?ms = "m_DimMappings p"
  obtain s xs ds where v: "v = (s, xs)" "specified_shape s ds" "1 \<le> length ds"
    "length ds \<le> MaxNumOfTensorDimensions" "prod_list ds < 2 ^ 32" "length xs = prod_list ds"
    using assms(1) by (rule is_tensorE)
  have len: "length ds = length ?ms"
    using assms(3) v(1) Transposed_rank [OF v(2)] by (auto simp: transpose_value_def)
  let ?ts = "pick ?ms ds"
  have w: "specified_shape t ?ts" "prod_list ?ts = prod_list ds" "length out = prod_list ds"
    "\<And>js. in_box ds js \<Longrightarrow> out ! flat ?ts (pick ?ms js) = xs ! flat ds js"
    using transpose_value_spec [OF assms(2) v(2) len v(3,5,6)] assms(3) v(1) by (metis Inr_inject prod.inject)+
  have perm: "is_perm ?ms" using assms(2) by (simp add: is_vector_def)
  obtain ns where ns: "permute_vector ?ms = Inr ns" "is_perm ns" "length ns = length ?ms"
    "\<And>i. i < length ?ms \<Longrightarrow> ns ! (?ms ! i) = i"
    using permute_vector_inverse [OF perm] by metis
  have "out = xs"
  proof (cases "0 \<in> set ?ts")
    case True
    then show ?thesis using zero_size_empty [OF True] w(2,3) v(6) by simp
  next
    case False
    have "is_reshape t ns = Inr True" using assms(4) ns(1) by (simp add: IsReshape_transpose_def)
    then have sorted: "sorted_wrt (<) (filter (\<lambda>m. ?ts ! m \<noteq> 1) ns)"
      using is_reshape_sorted [OF w(1) ns(2) _ False] ns(3) by simp
    show ?thesis
    proof (rule elements_eqI)
      fix js assume js: "in_box ?ts js"
      have ljs: "length js = length ?ms" using in_box_length [OF js] by simp
      have inv: "pick ns ?ts = ds" "pick ?ms (pick ns js) = js"
        using pick_pick [OF ns(4), of js] is_perm_nth [OF perm] ns(3) ljs
          pick_perm_inverse [OF perm ns(3,4) len] by auto
      have box: "in_box ds (pick ns js)"
        using in_box_pick [OF ns(2), of ?ts js] js inv(1) ljs ns(3) by simp
      have "out ! flat ?ts js = xs ! flat (pick ns ?ts) (pick ns js)" using w(4) [OF box] inv by simp
      then show "out ! flat ?ts js = xs ! flat ?ts js"
        using reshape_elements [OF ns(2) _ sorted js] ns(3) by simp
    qed (use w v in simp_all)
  qed
  then show ?thesis using v(1) by simp
qed

end
