(* ===== verification/Optimizations.thy ===== *)
theory Optimizations
  imports GraphSteps TensorValues
begin

section \<open>Optimizing a graph (Optimizer.cpp, optimizations/*.hpp)\<close>

text \<open>
  The state of the optimizer: the graph, the parameters of its layers, the priorities the layers
  remember and the address of the next layer. The names of related layers are not modelled.
\<close>

datatype LayerParameters = NoParameters | DimMappings PermutationVector | TargetShape TensorShape

record Network =
  n_Graph :: Graph
  n_Param :: "nat \<Rightarrow> LayerParameters"
  n_Priorities :: priorities
  n_Next :: nat

abbreviation n_type :: "Network \<Rightarrow> nat \<Rightarrow> LayerType option" where
  "n_type net \<equiv> layer_type (n_Graph net)"

abbreviation n_connections :: "Network \<Rightarrow> slot \<Rightarrow> slot list" where
  "n_connections net \<equiv> m_Connections (n_Graph net)"

definition on_graph :: "(Graph \<Rightarrow> Graph result option) \<Rightarrow> Network \<Rightarrow> Network result option" where
  "on_graph f net = bindP (f (n_Graph net)) (\<lambda>g. Some (Inr (net\<lparr>n_Graph := g\<rparr>)))"

text \<open>\<open>Layer::IsOutputUnconnected\<close>; a slot has fewer than \<open>2\<^sup>3\<^sup>2\<close> connections.\<close>

definition IsOutputUnconnected :: "Graph \<Rightarrow> nat \<Rightarrow> bool result" where
  "IsOutputUnconnected g l = bindR (GetLayer g l) (\<lambda>layer.
     Inr (m_NumOutputSlots layer > 0 \<and> list_all (\<lambda>i. m_Connections g (l, i) = []) [0..<m_NumOutputSlots layer]))"

subsection \<open>Comparing layers\<close>

definition GetPermutation :: "Network \<Rightarrow> nat \<Rightarrow> PermutationVector result" where
  "GetPermutation net l = (case n_Param net l of
     DimMappings p \<Rightarrow> Inr p | _ \<Rightarrow> Inl (UndefinedBehaviour ''parameters of another type''))"

definition GetTargetShape :: "Network \<Rightarrow> nat \<Rightarrow> TensorShape result" where
  "GetTargetShape net l = (case n_Param net l of
     TargetShape s \<Rightarrow> Inr s | _ \<Rightarrow> Inl (UndefinedBehaviour ''parameters of another type''))"

text \<open>\<open>PermuteLayer\<close> and \<open>TransposeLayer\<close> compare alike; \<open>t\<close> is the type of the class.\<close>

definition layer_IsInverse :: "LayerType \<Rightarrow> Network \<Rightarrow> nat \<Rightarrow> nat \<Rightarrow> bool result" where
  "layer_IsInverse t net l other =
     (if n_type net other \<noteq> Some t then Inr False
      else bindR (GetPermutation net l) (\<lambda>p. bindR (GetPermutation net other) (\<lambda>q. Inr (IsInverse p q))))"

definition layer_IsEqual :: "LayerType \<Rightarrow> Network \<Rightarrow> nat \<Rightarrow> nat \<Rightarrow> bool result" where
  "layer_IsEqual t net l other =
     (if n_type net other \<noteq> Some t then Inr False
      else if t = ReshapeLayer then
        bindR (GetTargetShape net l) (\<lambda>s. bindR (GetTargetShape net other) (\<lambda>s'. Inr (s = s')))
      else bindR (GetPermutation net l) (\<lambda>p. bindR (GetPermutation net other) (\<lambda>q. Inr (IsEqual p q))))"

subsection \<open>Inverse permutations\<close>

text \<open>\<open>OptimizeInversePermutesImpl\<close>, for the connection into \<open>r\<close>.\<close>

definition OptimizeInversePermutes_Run :: "LayerType \<Rightarrow> slot \<Rightarrow> Network \<Rightarrow> Network result option" where
  "OptimizeInversePermutes_Run t r net =
     (let g = n_Graph net; child = fst r in
      bindP (Some (null_pointer (m_Connection g r))) (\<lambda>p.
      let base = fst p in
      bindP (Some (layer_IsInverse t net child base)) (\<lambda>inverse.
      if inverse then
        bindP (Some (GetInputSlot g base 0)) (\<lambda>baseInput.
        bindP (Some (null_pointer (m_Connection g baseInput))) (\<lambda>source.
        bindP (Some (GetOutputSlot g child 0)) (\<lambda>output.
        on_graph (MoveAllConnections output source) net)))
      else Some (Inr net))))"

subsection \<open>Equal siblings\<close>

text \<open>\<open>Layer::GetPriority\<close> of a layer of the network; it updates the priorities the layers remember.\<close>

definition network_priority :: "nat \<Rightarrow> Network \<Rightarrow> (nat \<times> Network) result option" where
  "network_priority l net =
     bindP (GetPriority (Suc (length (m_Layers (n_Graph net)))) (n_Graph net) l (n_Priorities net)) (\<lambda>(p, s).
     Some (Inr (p, net\<lparr>n_Priorities := s\<rparr>)))"

text \<open>The loop over the output slots moves the connections of \<open>sibling\<close> to \<open>lowest\<close>, slot by slot.\<close>

definition bypass_sibling :: "nat \<Rightarrow> nat \<Rightarrow> Network \<Rightarrow> Network result option" where
  "bypass_sibling sibling lowest net =
     bindP (Some (GetLayer (n_Graph net) lowest)) (\<lambda>lowestLayer.
     bindP (Some (GetLayer (n_Graph net) sibling)) (\<lambda>siblingLayer.
     foldP (\<lambda>i net.
       if i < m_NumOutputSlots siblingLayer then on_graph (MoveAllConnections (sibling, i) (lowest, i)) net
       else Some (Inl (UndefinedBehaviour ''past the output slots''))) [0..<m_NumOutputSlots lowestLayer] net))"

definition squash_sibling ::
    "LayerType \<Rightarrow> nat \<Rightarrow> slot \<Rightarrow> nat \<times> Network \<Rightarrow> (nat \<times> Network) result option" where
  "squash_sibling t child it st =
     (case st of (lowest, net) \<Rightarrow>
      let sibling = fst it in
      if sibling = lowest then Some (Inr st)
      else
        bindP (Some (layer_IsEqual t net child sibling)) (\<lambda>equal.
        if \<not> equal then Some (Inr st)
        else
          bindP (network_priority sibling net) (\<lambda>(siblingPriority, net).
          bindP (network_priority lowest net) (\<lambda>(lowestPriority, net).
          let (sibling, lowest) = (if siblingPriority < lowestPriority then (lowest, sibling) else (sibling, lowest)) in
          bindP (bypass_sibling sibling lowest net) (\<lambda>net. Some (Inr (lowest, net)))))))"

text \<open>
  A loop over the connections of an output slot. A body that changes that list invalidates the
  iterators of the loop.
\<close>

fun for_connections ::
    "slot \<Rightarrow> ('s \<Rightarrow> Network) \<Rightarrow> (slot \<Rightarrow> 's \<Rightarrow> 's result option) \<Rightarrow> slot list \<Rightarrow> 's \<Rightarrow> 's result option" where
  "for_connections o' net_of f [] s = Some (Inr s)"
| "for_connections o' net_of f (c # cs) s =
     bindP (f c s) (\<lambda>s'.
     if n_connections (net_of s') o' \<noteq> n_connections (net_of s) o'
     then Some (Inl (UndefinedBehaviour ''iterator invalidated''))
     else for_connections o' net_of f cs s')"

definition SquashEqualSiblings_Run :: "LayerType \<Rightarrow> slot \<Rightarrow> Network \<Rightarrow> Network result option" where
  "SquashEqualSiblings_Run t r net =
     (let child = fst r in
      bindP (Some (IsOutputUnconnected (n_Graph net) child)) (\<lambda>unconnected.
      if unconnected then Some (Inr net)
      else
        bindP (Some (null_pointer (m_Connection (n_Graph net) r))) (\<lambda>baseOutput.
        if length (n_connections net baseOutput) > 1 then
          bindP (for_connections baseOutput snd (squash_sibling t child) (n_connections net baseOutput) (child, net)) (\<lambda>st.
          Some (Inr (snd st)))
        else Some (Inr net))))"

subsection \<open>Permutations that are reshapes\<close>

text \<open>The layer that \<open>InsertNewLayer<ReshapeLayer>\<close> constructs.\<close>

definition new_ReshapeLayer :: "string \<Rightarrow> Layer" where
  "new_ReshapeLayer name =
     \<lparr>m_LayerName = name, m_Type = ReshapeLayer, m_NumInputSlots = 1, m_NumOutputSlots = 1, m_BindingId = 0,
      m_BackendId = [], m_ShapeInferenceMethod = ValidateOnly, m_AllowExpandedDims = False\<rparr>"

definition insert_reshape :: "string \<Rightarrow> TensorShape \<Rightarrow> slot \<Rightarrow> Network \<Rightarrow> Network result" where
  "insert_reshape name targetShape r net =
     bindR (InsertNewLayer_before (n_Next net) (new_ReshapeLayer name) r (n_Graph net)) (\<lambda>g.
     Inr (net\<lparr>n_Graph := g, n_Param := (n_Param net)(n_Next net := TargetShape targetShape),
              n_Priorities := set_priority (n_Next net) 0 (set_visiting (n_Next net) False (n_Priorities net)),
              n_Next := Suc (n_Next net)\<rparr>))"

definition IsReshape :: "LayerType \<Rightarrow> TensorShape \<Rightarrow> PermutationVector \<Rightarrow> bool result" where
  "IsReshape t = (if t = PermuteLayer then IsReshape_permute else IsReshape_transpose)"

text \<open>\<open>PermuteAsReshapeImpl\<close> and \<open>TransposeAsReshapeImpl\<close>.\<close>

definition PermuteAsReshape_Run :: "LayerType \<Rightarrow> nat \<Rightarrow> Network \<Rightarrow> Network result option" where
  "PermuteAsReshape_Run t permute net =
     (let outShape = m_Shape (m_TensorInfo (n_Graph net) (permute, 0)) in
      bindP (Some (GetPermutation net permute)) (\<lambda>permutation.
      bindP (Some (IsReshape t outShape permutation)) (\<lambda>isReshape.
      if isReshape then
        bindP (Some (GetLayer (n_Graph net) permute)) (\<lambda>layer.
        bindP (Some (GetInputSlot (n_Graph net) permute 0)) (\<lambda>input.
        bindP (Some (insert_reshape (''as_reshape-'' @ m_LayerName layer) outShape input net)) (\<lambda>net'.
        bindP (Some (GetOutputSlot (n_Graph net') permute 0)) (\<lambda>output.
        bindP (Some (GetOutputSlot (n_Graph net') (n_Next net) 0)) (\<lambda>destination.
        on_graph (MoveAllConnections output destination) net')))))
      else Some (Inr net))))"

subsection \<open>Consecutive reshapes\<close>

definition OptimizeConsecutiveReshapes_Run :: "slot \<Rightarrow> Network \<Rightarrow> Network result option" where
  "OptimizeConsecutiveReshapes_Run r net =
     (let g = n_Graph net; child = fst r in
      bindP (Some (null_pointer (m_Connection g r))) (\<lambda>p.
      let base = fst p in
      bindP (Some (if n_type net base \<noteq> Some ReshapeLayer
        then Inl (AssertionFailure ''base.GetType() == LayerType::Reshape'') else Inr ())) (\<lambda>_.
      bindP (Some (if n_type net child \<noteq> Some ReshapeLayer
        then Inl (AssertionFailure ''child.GetType() == LayerType::Reshape'') else Inr ())) (\<lambda>_.
      bindP (Some (GetInputSlot g base 0)) (\<lambda>baseInput.
      bindP (Some (null_pointer (m_Connection g baseInput))) (\<lambda>parentOut.
      let inShape = m_Shape (m_TensorInfo g parentOut); outShape = m_Shape (m_TensorInfo g (child, 0)) in
      bindP (Some (GetOutputSlot g base 0)) (\<lambda>baseOutput.
      if length (m_Connections g baseOutput) > 1 then Some (Inr net)
      else
        bindP (Some (GetOutputSlot g child 0)) (\<lambda>childOutput.
        if inShape \<noteq> outShape then
          bindP (Some (GetLayer g base)) (\<lambda>baseLayer.
          bindP (Some (GetLayer g child)) (\<lambda>childLayer.
          bindP (Some (insert_reshape (''merged-'' @ m_LayerName baseLayer @ ''-with-'' @ m_LayerName childLayer)
            outShape baseInput net)) (\<lambda>net'.
          on_graph (MoveAllConnections childOutput (n_Next net, 0)) net')))
        else on_graph (MoveAllConnections childOutput parentOut) net))))))))"

subsection \<open>Where the optimizations run\<close>

definition OptimizeForType :: "LayerType \<Rightarrow> (nat \<Rightarrow> Network \<Rightarrow> Network result option) \<Rightarrow>
    nat \<Rightarrow> Network \<Rightarrow> Network result option" where
  "OptimizeForType baseType run base net = (if n_type net base = Some baseType then run base net else Some (Inr net))"

text \<open>The loop that erases the children left unconnected.\<close>

partial_function (option) remove_unconnected :: "slot \<Rightarrow> nat \<Rightarrow> Network \<Rightarrow> Network result option" where
  "remove_unconnected o' i net =
     (if i < length (n_connections net o') then
        bindP (Some (IsOutputUnconnected (n_Graph net) (fst (n_connections net o' ! i)))) (\<lambda>unconnected.
        if unconnected then
          bindP (Some (EraseLayer (fst (n_connections net o' ! i)) (n_Graph net))) (\<lambda>g.
          remove_unconnected o' i (net\<lparr>n_Graph := g\<rparr>))
        else remove_unconnected o' (Suc i) net)
      else Some (Inr net))"

text \<open>\<open>None\<close> as the type of the base stands for any layer.\<close>

definition OptimizeForConnection ::
    "LayerType option \<Rightarrow> LayerType \<Rightarrow> (slot \<Rightarrow> Network \<Rightarrow> Network result option) \<Rightarrow>
     nat \<Rightarrow> Network \<Rightarrow> Network result option" where
  "OptimizeForConnection baseType childType run base net =
     (if baseType \<noteq> None \<and> n_type net base \<noteq> baseType then Some (Inr net)
      else
        bindP (Some (GetLayer (n_Graph net) base)) (\<lambda>layer.
        foldP (\<lambda>i net.
          bindP (for_connections (base, i) id
              (\<lambda>r net. if n_type net (fst r) = Some childType then run r net else Some (Inr net))
              (n_connections net (base, i)) net) (\<lambda>net.
          remove_unconnected (base, i) 0 net)) [0..<m_NumOutputSlots layer] net))"

datatype Optimization =
    SquashEqualPermuteSiblings | SquashEqualTransposeSiblings | SquashEqualReshapeSiblings
  | OptimizeInversePermutes | OptimizeInverseTransposes | PermuteAsReshape | TransposeAsReshape
  | OptimizeConsecutiveReshapes

fun Run :: "Optimization \<Rightarrow> nat \<Rightarrow> Network \<Rightarrow> Network result option" where
  "Run SquashEqualPermuteSiblings = OptimizeForConnection None PermuteLayer (SquashEqualSiblings_Run PermuteLayer)"
| "Run SquashEqualTransposeSiblings = OptimizeForConnection None TransposeLayer (SquashEqualSiblings_Run TransposeLayer)"
| "Run SquashEqualReshapeSiblings = OptimizeForConnection None ReshapeLayer (SquashEqualSiblings_Run ReshapeLayer)"
| "Run OptimizeInversePermutes =
     OptimizeForConnection (Some PermuteLayer) PermuteLayer (OptimizeInversePermutes_Run PermuteLayer)"
| "Run OptimizeInverseTransposes =
     OptimizeForConnection (Some TransposeLayer) TransposeLayer (OptimizeInversePermutes_Run TransposeLayer)"
| "Run PermuteAsReshape = OptimizeForType PermuteLayer (PermuteAsReshape_Run PermuteLayer)"
| "Run TransposeAsReshape = OptimizeForType TransposeLayer (PermuteAsReshape_Run TransposeLayer)"
| "Run OptimizeConsecutiveReshapes =
     OptimizeForConnection (Some ReshapeLayer) ReshapeLayer OptimizeConsecutiveReshapes_Run"

subsection \<open>The pass\<close>

text \<open>
  \<open>graph.TopologicalSort()\<close>: when the list is out of order, the priorities are reset and computed
  again.
\<close>

definition sort_network :: "Network \<Rightarrow> Network result option" where
  "sort_network net =
     (let g = n_Graph net in
      bindP (TopologicalSort g) (\<lambda>g'.
      if m_LayersInOrder g then Some (Inr net)
      else if length (m_Layers g) < 2 then Some (Inr (net\<lparr>n_Graph := g', n_Priorities := ResetPriorities\<rparr>))
      else bindP (priorities_of g (m_Layers g) ResetPriorities) (\<lambda>s.
           Some (Inr (net\<lparr>n_Graph := g', n_Priorities := s\<rparr>)))))"

text \<open>An iterator of the list is the layer it points to, or \<open>None\<close> at the end. \<open>--it\<close>:\<close>

definition previous :: "nat list \<Rightarrow> nat option \<Rightarrow> nat result" where
  "previous ls it =
     (let k = (case it of None \<Rightarrow> length ls | Some l \<Rightarrow> find_index l ls) in
      if it \<noteq> None \<and> the it \<notin> set ls then Inl (UndefinedBehaviour ''iterator invalidated'')
      else if k = 0 then Inl (UndefinedBehaviour ''--begin()'') else Inr (ls ! (k - 1)))"

definition begin_of :: "nat list \<Rightarrow> nat option" where
  "begin_of ls = (case ls of [] \<Rightarrow> None | l # _ \<Rightarrow> Some l)"

text \<open>\<open>std::next\<close> of the position of a layer.\<close>

definition next_of :: "nat list \<Rightarrow> nat \<Rightarrow> nat option" where
  "next_of ls l = (if Suc (find_index l ls) < length ls then Some (ls ! Suc (find_index l ls)) else None)"

text \<open>The optimizations on one layer, up to the one that leaves it unconnected.\<close>

fun optimize_layer ::
    "(nat \<Rightarrow> Network \<Rightarrow> Network result option) list \<Rightarrow> nat \<Rightarrow> Network \<Rightarrow> (nat option \<times> Network) result option" where
  "optimize_layer [] it net = Some (Inr (Some it, net))"
| "optimize_layer (optimization # optimizations) it net =
     bindP (optimization it net) (\<lambda>net.
     bindP (Some (IsOutputUnconnected (n_Graph net) it)) (\<lambda>unconnected.
     if unconnected then
       bindP (Some (GetPosInGraph (n_Graph net) it)) (\<lambda>_.
       let next' = next_of (m_Layers (n_Graph net)) it in
       bindP (Some (EraseLayer it (n_Graph net))) (\<lambda>g. Some (Inr (next', net\<lparr>n_Graph := g\<rparr>))))
     else optimize_layer optimizations it net))"

partial_function (option) pass_loop ::
    "(nat \<Rightarrow> Network \<Rightarrow> Network result option) list \<Rightarrow> nat option \<Rightarrow> Network \<Rightarrow> Network result option" where
  "pass_loop optimizations it net =
     bindP (sort_network net) (\<lambda>net.
     if it = begin_of (m_Layers (n_Graph net)) then Some (Inr net)
     else
       bindP (Some (previous (m_Layers (n_Graph net)) it)) (\<lambda>it.
       bindP (optimize_layer optimizations it net) (\<lambda>(it, net).
       pass_loop optimizations it net)))"

definition Pass :: "(nat \<Rightarrow> Network \<Rightarrow> Network result option) list \<Rightarrow> Network \<Rightarrow> Network result option" where
  "Pass optimizations net = bindP (sort_network net) (pass_loop optimizations None)"

end
