(* ===== verification/OptimizerSound.thy ===== *)
theory OptimizerSound
  imports Optimizations
begin

section \<open>The optimizer keeps the outputs of a network\<close>

text \<open>
  What the graph edits of the optimizations do to connections and tensor infos, what a network computes,
  and that removing inverse permutations and equal siblings does not change it.
\<close>

subsection \<open>What the editing operations do to connections and tensor infos\<close>

lemma wf_Connections_eq:
  assumes "wf_links g" "wf_links h" "m_Connection h = m_Connection g"
  shows "r \<in> set (m_Connections h p) \<longleftrightarrow> r \<in> set (m_Connections g p)"
  using assms by simp

subsubsection \<open>Inserting and erasing\<close>

lemma Connect_infos: "Connect p r g = Inr (i, h) \<Longrightarrow> m_TensorInfo h = m_TensorInfo g"
  by (auto simp: Connect_simps)

lemma Insert_infos:
  assumes "Insert r l g = Inr h" "m_Connection g r = Some p"
  shows "m_TensorInfo h = (m_TensorInfo g)((l, 0) := m_TensorInfo g p)"
proof -
  obtain L i g2 j g4 where
    "Connect p (l, 0) (Disconnect p r g) = Inr (i, g2)"
    "Connect (l, 0) r (SetTensorInfo (l, 0) (m_TensorInfo (SetEdgeStrategy p i Undefined g2) p) (SetEdgeStrategy p i Undefined g2)) = Inr (j, g4)"
    "h = SetEdgeStrategy (l, 0) 0 Undefined g4"
    using assms by (auto simp: Insert_def Let_def)
  then show ?thesis
    by (simp add: Connect_infos [of _ _ _ _ g4] Connect_infos [of _ _ _ _ g2] SetTensorInfo_def SetEdgeStrategy_def)
qed

lemma LayerInGraph_infos: "LayerInGraph l L k g = Inr h \<Longrightarrow> m_TensorInfo h = clear l (m_TensorInfo g) TensorInfo_default"
  by (auto simp: LayerInGraph_def Let_def split: if_splits)

text \<open>A single-input layer inserted before a connected slot.\<close>

lemma InsertNewLayer_before_Inr:
  assumes "InsertNewLayer_before l L r g = Inr h" "wf_graph g" "m_LayerOf g l = None" "slots_of_type L"
    "valid_in g r" "m_Connection g r = Some p"
  shows "wf_graph h \<and> m_LayerOf h = (m_LayerOf g)(l \<mapsto> L) \<and>
    m_Connection h = (m_Connection g)((l, 0) \<mapsto> p, r \<mapsto> (l, 0)) \<and>
    (\<forall>q. fst q \<noteq> l \<longrightarrow> m_TensorInfo h q = m_TensorInfo g q) \<and> m_TensorInfo h (l, 0) = m_TensorInfo g p \<and>
    m_LayersInOrder h = m_LayersInOrder g"
proof -
  obtain k g1 where g1: "LayerInGraph l L (Some k) g = Inr g1" "Insert r l g1 = Inr h"
    using assms(1,6) by (auto simp: InsertNewLayer_before_def)
  have links: "wf_links g" using assms(2) by (simp add: wf_graph_def)
  have rl: "fst r \<noteq> l" using assms(3,5) by (auto simp: valid_in_def)
  have pl: "fst p \<noteq> l" using wf_links_valid [OF links assms(6)] assms(3) by (auto simp: valid_out_def)
  note f1 = LayerInGraph_Inr [OF g1(1)]
  have wf1: "wf_links g1" using LayerInGraph_links [OF links assms(3) g1(1)] .
  have v1: "valid_in g1 r" using assms(5) f1(1) rl by (auto simp: valid_in_def)
  have dead: "m_Connection g (l, i) = None" for i using wf_links_dead [OF links assms(3)] by simp
  have clear_id: "clear l (m_Connection g) None = m_Connection g"
    using dead by (auto simp: clear_def fun_eq_iff)
  have ins: "wf_links h \<and> same_layers g1 h \<and> m_Connection h = (m_Connection g1)((l, 0) := m_Connection g1 r, r \<mapsto> (l, 0))"
  proof -
    have "r \<noteq> (l, 0)" using rl by auto
    from Insert_links [OF wf1 v1 this g1(2)] show ?thesis using f1(2) clear_id assms(6) by simp
  qed
  have conn1: "m_Connection g1 r = Some p" using f1(2) clear_id assms(6) by simp
  have "wf_graph h" using InsertNewLayer_before_graph [OF assms(2-5,1)] .
  moreover have "m_LayersInOrder g1 = m_LayersInOrder g"
    using g1(1) by (auto simp: LayerInGraph_def Let_def split: if_splits)
  ultimately show ?thesis
    using ins f1(1,2) clear_id assms(6) conn1 Insert_infos [OF g1(2) conn1] LayerInGraph_infos [OF g1(1)] pl
    by (auto simp: same_layers_def clear_def)
qed

text \<open>What erasing the layer \<open>l\<close> leaves.\<close>

definition trimmed :: "nat \<Rightarrow> Graph \<Rightarrow> Graph \<Rightarrow> bool" where
  "trimmed l g h \<longleftrightarrow> m_TensorInfo h = m_TensorInfo g \<and>
     (\<forall>r q. m_Connection h r = Some q \<longrightarrow> m_Connection g r = Some q) \<and>
     (\<forall>r q. m_Connection g r = Some q \<and> fst r \<noteq> l \<and> fst q \<noteq> l \<longrightarrow> m_Connection h r = Some q)"

lemma trimmed_refl: "trimmed l g g"
  by (simp add: trimmed_def)

lemma trimmed_cong:
  "m_Connection h = m_Connection h' \<Longrightarrow> m_TensorInfo h = m_TensorInfo h' \<Longrightarrow>
   m_Connection g = m_Connection g' \<Longrightarrow> m_TensorInfo g = m_TensorInfo g' \<Longrightarrow> trimmed l g h = trimmed l g' h'"
  by (simp only: trimmed_def)

lemma trimmed_trans: "trimmed l g h \<Longrightarrow> trimmed l h k \<Longrightarrow> trimmed l g k"
  unfolding trimmed_def by (metis (no_types, lifting))

lemma trimmed_Disconnect:
  assumes "wf_links g" "r \<in> set (m_Connections g (l, i))"
  shows "trimmed l g (Disconnect (l, i) r g)"
  using assms by (auto simp: trimmed_def split: if_splits)

lemma trimmed_DisconnectAll:
  assumes "wf_links g"
  shows "trimmed l g (DisconnectAll (l, i) g)"
proof -
  have "(wf_links (DisconnectAll (l, i) g) \<and> trimmed l g (DisconnectAll (l, i) g)) \<and> m_Connections (DisconnectAll (l, i) g) (l, i) = []"
  proof (rule DisconnectAll_induct)
    fix h c cs assume h: "wf_links h \<and> trimmed l g h" "m_Connections h (l, i) = c # cs"
    then have c: "c \<in> set (m_Connections h (l, i))" by simp
    then have "m_Connection h c = Some (l, i)" using h(1) wf_links_mem by blast
    then show "wf_links (Disconnect (l, i) c h) \<and> trimmed l g (Disconnect (l, i) c h)"
      using h(1) trimmed_Disconnect [OF _ c] trimmed_trans Disconnect_links by blast
  qed (use assms trimmed_refl in simp)
  then show ?thesis by simp
qed

lemma trimmed_disconnect_input: "trimmed l g (disconnect_input (l, i) g)"
proof -
  have "m_TensorInfo (disconnect_input (l, i) g) = m_TensorInfo g"
    by (simp add: disconnect_input_def split: option.splits)
  then show ?thesis by (auto simp: trimmed_def split: if_splits)
qed

lemma trimmed_fold:
  assumes "wf_links g" "\<And>h i. wf_links h \<Longrightarrow> trimmed l h (f i h) \<and> wf_links (f i h)"
  shows "trimmed l g (fold f is g) \<and> wf_links (fold f is g)"
  using assms(1)
proof (induction "is" arbitrary: g)
  case Nil
  then show ?case by (simp add: trimmed_refl)
next
  case (Cons i "is")
  then show ?case using assms(2) [OF Cons.prems, of i] trimmed_trans by (simp, blast)
qed

lemma EraseLayer_trimmed:
  assumes "wf_graph g" "EraseLayer l g = Inr h"
  shows "trimmed l g h \<and> wf_graph h \<and> m_LayerOf h = (m_LayerOf g)(l := None) \<and> m_LayersInOrder h = m_LayersInOrder g"
proof -
  have links: "wf_links g" using assms(1) by (simp add: wf_graph_def)
  obtain L where L: "m_LayerOf g l = Some L" "l \<in> set (m_Layers g)"
    using assms(2) by (auto simp: EraseLayer_def GetPosInGraph_def)
  define g0 where "g0 = g\<lparr>m_InputIds := (if m_Type L = InputLayer then remove1 (m_BindingId L) (m_InputIds g) else m_InputIds g),
      m_OutputIds := (if m_Type L = OutputLayer then remove1 (m_BindingId L) (m_OutputIds g) else m_OutputIds g),
      m_Layers := remove1 l (m_Layers g)\<rparr>"
  have g0: "m_Connection g0 = m_Connection g" "m_TensorInfo g0 = m_TensorInfo g" by (simp_all add: g0_def)
  have wf0: "wf_links g0" using wf_links_same [OF links, of g0] by (simp add: g0_def)
  define g1 where "g1 = fold (\<lambda>i. DisconnectAll (l, i)) [0..<m_NumOutputSlots L] g0"
  define g2 where "g2 = fold (\<lambda>i. disconnect_input (l, i)) [0..<m_NumInputSlots L] g1"
  have h: "h = g2\<lparr>m_LayerOf := (m_LayerOf g2)(l := None)\<rparr>"
    using assms(2) L by (auto simp: EraseLayer_def GetPosInGraph_def g0_def g1_def g2_def Let_def)
  have g1: "trimmed l g0 g1 \<and> wf_links g1"
    unfolding g1_def using wf0 trimmed_DisconnectAll DisconnectAll_links by (intro trimmed_fold) blast+
  have "trimmed l g1 g2"
    unfolding g2_def using g1 trimmed_disconnect_input disconnect_input_links by (intro trimmed_fold [THEN conjunct1]) blast+
  then have "trimmed l g0 g2" using g1 trimmed_trans by blast
  then have "trimmed l g h" using g0 trimmed_cong [of h g2 g g0] by (simp add: h)
  then show ?thesis
    using EraseLayer_links [OF links assms(2)] EraseLayer_graph [OF assms] by simp
qed

subsection \<open>The meaning of a network\<close>

text \<open>
  The value of an output slot. The rearranging layers mean what their workloads compute; what every other
  layer computes is the parameter \<open>sem\<close>, a function of the layer, the output slot and the inputs.
\<close>

type_synonym 'a meaning = "nat \<Rightarrow> nat \<Rightarrow> 'a tensor list \<Rightarrow> 'a tensor option"

definition rearranges :: "LayerType \<Rightarrow> bool" where
  "rearranges t \<longleftrightarrow> t = PermuteLayer \<or> t = TransposeLayer \<or> t = ReshapeLayer"

definition rearranged :: "LayerType \<Rightarrow> LayerParameters \<Rightarrow> 'a tensor \<Rightarrow> 'a tensor result" where
  "rearranged t param v = (case param of
     DimMappings p \<Rightarrow> if t = PermuteLayer then permute_value p v else transpose_value p v
   | TargetShape s \<Rightarrow> reshape_value s v
   | NoParameters \<Rightarrow> Inl (UndefinedBehaviour ''no parameters''))"

definition layer_value ::
    "'a meaning \<Rightarrow> LayerType \<Rightarrow> LayerParameters \<Rightarrow> nat \<Rightarrow> nat \<Rightarrow> 'a tensor list \<Rightarrow> 'a tensor \<Rightarrow> bool" where
  "layer_value sem t param l i vs v \<longleftrightarrow> is_tensor v \<and>
     (if rearranges t then rearranged t param (hd vs) = Inr v else sem l i vs = Some v)"

inductive computes :: "'a meaning \<Rightarrow> Network \<Rightarrow> slot \<Rightarrow> 'a tensor \<Rightarrow> bool" for sem net where
  layer: "m_LayerOf (n_Graph net) l = Some L \<Longrightarrow> i < m_NumOutputSlots L \<Longrightarrow> length vs = m_NumInputSlots L \<Longrightarrow>
    (\<forall>k < m_NumInputSlots L. \<exists>q. m_Connection (n_Graph net) (l, k) = Some q \<and> computes sem net q (vs ! k)) \<Longrightarrow>
    layer_value sem (m_Type L) (n_Param net l) l i vs v \<Longrightarrow> computes sem net (l, i) v"

inductive_cases computesE: "computes sem net (l, i) v"

lemma layer_value_det: "layer_value sem t param l i vs v \<Longrightarrow> layer_value sem t param l i vs w \<Longrightarrow> v = w"
  by (auto simp: layer_value_def split: if_splits)

lemma computes_tensor: "computes sem net p v \<Longrightarrow> is_tensor v"
  by (induction rule: computes.induct) (simp add: layer_value_def)

lemma computes_det: "computes sem net p v \<Longrightarrow> computes sem net p w \<Longrightarrow> w = v"
proof (induction arbitrary: w rule: computes.induct)
  case (layer l L i vs v)
  from layer.prems obtain ws where ws: "length ws = m_NumInputSlots L"
    "\<forall>k < m_NumInputSlots L. \<exists>q. m_Connection (n_Graph net) (l, k) = Some q \<and> computes sem net q (ws ! k)"
    "layer_value sem (m_Type L) (n_Param net l) l i ws w"
    using layer.hyps(1) by (auto elim!: computesE)
  have "vs = ws"
  proof (rule nth_equalityI)
    fix k assume "k < length vs"
    then have k: "k < m_NumInputSlots L" using layer.hyps(3) by simp
    then show "vs ! k = ws ! k" using layer.IH ws(2) by (metis option.inject)
  qed (use layer.hyps(3) ws(1) in simp)
  then show ?case using ws(3) layer.hyps layer_value_det by blast
qed

text \<open>A slot with a value does not depend on itself.\<close>

definition reads :: "Network \<Rightarrow> nat \<Rightarrow> nat \<Rightarrow> bool" where
  "reads net m l \<longleftrightarrow> (\<exists>L k q. m_LayerOf (n_Graph net) l = Some L \<and> k < m_NumInputSlots L \<and>
     m_Connection (n_Graph net) (l, k) = Some q \<and> m = fst q)"

lemma computes_accp:
  assumes "computes sem net p v"
  shows "Wellfounded.accp (reads net) (fst p)"
  using assms
proof (induction rule: computes.induct)
  case (layer l L i vs v)
  show ?case
  proof (rule accp.accI)
    fix m assume "reads net m (fst (l, i))"
    then obtain k q where kq: "m_Connection (n_Graph net) (l, k) = Some q" "m = fst q" "k < m_NumInputSlots L"
      using layer.hyps(1) by (auto simp: reads_def)
    obtain q' where "m_Connection (n_Graph net) (l, k) = Some q'" "Wellfounded.accp (reads net) (fst q')"
      using layer.IH kq(3) by blast
    then show "Wellfounded.accp (reads net) m" using kq(1,2) by simp
  qed
qed

lemma computes_no_cycle:
  assumes "computes sem net p v" "(reads net)\<^sup>+\<^sup>+ (fst p) (fst p)"
  shows False
proof -
  have "\<not> (reads net)\<^sup>+\<^sup>+ l l" if "Wellfounded.accp (reads net) l" for l
  proof (rule accp_induct [OF that])
    fix l assume below: "\<forall>m. reads net m l \<longrightarrow> \<not> (reads net)\<^sup>+\<^sup>+ m m"
    show "\<not> (reads net)\<^sup>+\<^sup>+ l l"
    proof
      assume "(reads net)\<^sup>+\<^sup>+ l l"
      then obtain m where "reads net m l" "(reads net)\<^sup>+\<^sup>+ m m"
        by (metis tranclp.cases tranclp.r_into_trancl tranclp_into_tranclp2)
      then show False using below by blast
    qed
  qed
  then show ?thesis using computes_accp [OF assms(1)] assms(2) by blast
qed

definition live :: "Network \<Rightarrow> nat \<Rightarrow> bool" where
  "live net l \<longleftrightarrow> (\<exists>out. n_type net out = Some OutputLayer \<and> (out, l) \<in> (feeds (n_Graph net))\<^sup>*)"

definition demanded :: "Network \<Rightarrow> slot \<Rightarrow> bool" where
  "demanded net p \<longleftrightarrow> (\<exists>r. live net (fst r) \<and> m_Connection (n_Graph net) r = Some p)"

lemma live_output: "n_type net l = Some OutputLayer \<Longrightarrow> live net l"
  by (auto simp: live_def)

lemma feeds_iff: "(l, m) \<in> feeds g \<longleftrightarrow> (\<exists>k p. m_Connection g (l, k) = Some p \<and> m = fst p)"
  by (auto simp: feeds_def sources_def)

lemma demanded_live: "demanded net p \<Longrightarrow> live net (fst p)"
  unfolding demanded_def live_def by (metis feeds_iff prod.collapse rtrancl.rtrancl_into_rtrancl)

lemma live_demanded: "live net l \<Longrightarrow> m_Connection (n_Graph net) (l, k) = Some q \<Longrightarrow> demanded net q"
  by (auto simp: demanded_def)

lemma live_induct:
  assumes "live net l" "\<And>out. n_type net out = Some OutputLayer \<Longrightarrow> P out"
    "\<And>l k q. live net l \<Longrightarrow> P l \<Longrightarrow> m_Connection (n_Graph net) (l, k) = Some q \<Longrightarrow> P (fst q)"
  shows "P l"
proof -
  obtain out where out: "n_type net out = Some OutputLayer" "(out, l) \<in> (feeds (n_Graph net))\<^sup>*"
    using assms(1) by (auto simp: live_def)
  from out(2) have "P l \<and> live net l"
  proof (induction rule: rtrancl_induct)
    case base
    then show ?case using assms(2) out(1) live_output by blast
  next
    case (step l m)
    then obtain k q where "m_Connection (n_Graph net) (l, k) = Some q" "m = fst q" by (auto simp: feeds_iff)
    then show ?case using step.IH assms(3) live_demanded demanded_live by blast
  qed
  then show ?thesis ..
qed

text \<open>
  A network on which every slot an output depends on has a value, whose shape is that of the slot's
  tensor info.
\<close>

abbreviation info_shape :: "Network \<Rightarrow> slot \<Rightarrow> TensorShape" where
  "info_shape net p \<equiv> m_Shape (m_TensorInfo (n_Graph net) p)"

definition evaluates :: "'a meaning \<Rightarrow> Network \<Rightarrow> bool" where
  "evaluates sem net \<longleftrightarrow> (\<forall>p. demanded net p \<longrightarrow> (\<exists>v. computes sem net p v \<and> info_shape net p = fst v))"

lemma evaluatesE:
  assumes "evaluates sem net" "demanded net p"
  obtains v where "computes sem net p v" "info_shape net p = fst v"
  using assms unfolding evaluates_def by blast

text \<open>What an output layer is given.\<close>

definition outputs :: "'a meaning \<Rightarrow> Network \<Rightarrow> nat \<Rightarrow> 'a tensor \<Rightarrow> bool" where
  "outputs sem net out v \<longleftrightarrow> n_type net out = Some OutputLayer \<and>
     (\<exists>p. m_Connection (n_Graph net) (out, 0) = Some p \<and> computes sem net p v)"

definition preserves :: "'a meaning \<Rightarrow> Network \<Rightarrow> Network \<Rightarrow> bool" where
  "preserves sem net net' \<longleftrightarrow>
     (\<forall>l. n_type net l = Some OutputLayer \<longrightarrow> m_LayerOf (n_Graph net') l = m_LayerOf (n_Graph net) l) \<and>
     (\<forall>l. n_type net' l = Some OutputLayer \<longrightarrow> n_type net l = Some OutputLayer) \<and>
     (\<forall>out v. outputs sem net out v \<longrightarrow> outputs sem net' out v)"

lemma preserves_refl [simp]: "preserves sem net net"
  by (simp add: preserves_def)

lemma preserves_trans: "preserves sem a b \<Longrightarrow> preserves sem b c \<Longrightarrow> preserves sem a c"
  unfolding preserves_def layer_type_def by metis

subsection \<open>Redirecting slots\<close>

text \<open>
  A rewriting step redirects the slots: who read \<open>p\<close> now reads \<open>f p\<close>. If every demanded slot \<open>p\<close> can be
  seen to compute at \<open>f p\<close> what it computed before, from the same for the inputs of its layer, then
  the outputs are preserved.
\<close>

definition upstream :: "'a meaning \<Rightarrow> Network \<Rightarrow> Network \<Rightarrow> (slot \<Rightarrow> slot) \<Rightarrow> nat \<Rightarrow> bool" where
  "upstream sem net net' f l \<longleftrightarrow> (\<forall>k q k' q' w. m_Connection (n_Graph net) (l, k) = Some q \<longrightarrow>
     m_Connection (n_Graph net) (fst q, k') = Some q' \<longrightarrow> computes sem net q' w \<longrightarrow> computes sem net' (f q') w)"

lemma redirect_computes:
  assumes local: "\<And>l L i vs v. m_LayerOf (n_Graph net) l = Some L \<Longrightarrow> i < m_NumOutputSlots L \<Longrightarrow>
      length vs = m_NumInputSlots L \<Longrightarrow> demanded net (l, i) \<Longrightarrow> upstream sem net net' f l \<Longrightarrow>
      (\<forall>k < m_NumInputSlots L. \<exists>q. m_Connection (n_Graph net) (l, k) = Some q \<and> demanded net q \<and>
         computes sem net q (vs ! k) \<and> computes sem net' (f q) (vs ! k)) \<Longrightarrow>
      computes sem net (l, i) v \<Longrightarrow>
      layer_value sem (m_Type L) (n_Param net l) l i vs v \<Longrightarrow> computes sem net' (f (l, i)) v"
    and wf: "wf_links (n_Graph net)" and "computes sem net p v" "demanded net p"
  shows "computes sem net' (f p) v"
proof -
  let ?Q = "\<lambda>p. \<forall>v. demanded net p \<longrightarrow> computes sem net p v \<longrightarrow> computes sem net' (f p) v"
  have "?Q p \<and> (\<forall>k q. m_Connection (n_Graph net) (fst p, k) = Some q \<longrightarrow> ?Q q)"
    using assms(3)
  proof (induction rule: computes.induct)
    case (layer l L i vs v)
    have inputs: "k < m_NumInputSlots L" if "m_Connection (n_Graph net) (l, k) = Some q" for k q
      using wf_links_valid [OF wf that] layer.hyps(1) by (simp add: valid_in_def)
    have below: "?Q q" "\<forall>k' q'. m_Connection (n_Graph net) (fst q, k') = Some q' \<longrightarrow> ?Q q'"
      if "m_Connection (n_Graph net) (l, k) = Some q" for k q
      using layer.IH inputs [OF that] that by fastforce+
    have "computes sem net' (f (l, i)) w" if d: "demanded net (l, i)" and w: "computes sem net (l, i) w" for w
    proof -
      have live: "live net l" using demanded_live [OF d] by simp
      have "upstream sem net net' f l"
        unfolding upstream_def using below(2) live_demanded [OF live] live_demanded demanded_live by metis
      moreover have "\<forall>k < m_NumInputSlots L. \<exists>q. m_Connection (n_Graph net) (l, k) = Some q \<and> demanded net q \<and>
          computes sem net q (vs ! k) \<and> computes sem net' (f q) (vs ! k)"
        using layer.IH live_demanded [OF live] below(1) by blast
      moreover have "computes sem net (l, i) v"
        using layer.hyps layer.IH by (intro computes.intros) blast+
      moreover from this have "w = v" using computes_det w by blast
      ultimately show ?thesis using local layer.hyps d by blast
    qed
    then show ?case using below(1) by simp
  qed
  then show ?thesis using assms(3,4) by blast
qed

lemma unchanged_computes:
  assumes "m_LayerOf (n_Graph net') l = Some L" "n_Param net' l = n_Param net l"
    "i < m_NumOutputSlots L" "length vs = m_NumInputSlots L"
    "\<forall>k < m_NumInputSlots L. \<exists>q. m_Connection (n_Graph net) (l, k) = Some q \<and> computes sem net' (f q) (vs ! k)"
    "layer_value sem (m_Type L) (n_Param net l) l i vs v"
    "\<And>k q. m_Connection (n_Graph net) (l, k) = Some q \<Longrightarrow> m_Connection (n_Graph net') (l, k) = Some (f q)"
  shows "computes sem net' (l, i) v"
proof (rule computes.intros [OF assms(1,3,4)])
  show "\<forall>k < m_NumInputSlots L. \<exists>q. m_Connection (n_Graph net') (l, k) = Some q \<and> computes sem net' q (vs ! k)"
    using assms(5,7) by blast
  show "layer_value sem (m_Type L) (n_Param net' l) l i vs v" using assms(2,6) by simp
qed

text \<open>Layers outside \<open>S\<close> are kept, with their inputs redirected; those in \<open>S\<close> are treated separately.\<close>

definition redirected :: "Network \<Rightarrow> Network \<Rightarrow> (slot \<Rightarrow> slot) \<Rightarrow> nat set \<Rightarrow> bool" where
  "redirected net net' f S \<longleftrightarrow>
     (\<forall>l L. m_LayerOf (n_Graph net) l = Some L \<and> live net l \<and> l \<notin> S \<longrightarrow>
        m_LayerOf (n_Graph net') l = Some L \<and> n_Param net' l = n_Param net l \<and> (\<forall>i. f (l, i) = (l, i)) \<and>
        (\<forall>k q. m_Connection (n_Graph net) (l, k) = Some q \<longrightarrow> m_Connection (n_Graph net') (l, k) = Some (f q))) \<and>
     (\<forall>l. n_type net l = Some OutputLayer \<longrightarrow> l \<notin> S) \<and>
     (\<forall>l. n_type net' l = Some OutputLayer \<longrightarrow> n_type net l = Some OutputLayer) \<and>
     (\<forall>p. demanded net' p \<longrightarrow> (\<exists>q. demanded net q \<and> p = f q \<and> info_shape net' p = info_shape net q))"

lemma redirect_preserves:
  assumes "redirected net net' f S" "evaluates sem net" "wf_links (n_Graph net)"
    and special: "\<And>l L i vs v. l \<in> S \<Longrightarrow> m_LayerOf (n_Graph net) l = Some L \<Longrightarrow> i < m_NumOutputSlots L \<Longrightarrow>
      length vs = m_NumInputSlots L \<Longrightarrow> demanded net (l, i) \<Longrightarrow> upstream sem net net' f l \<Longrightarrow>
      (\<forall>k < m_NumInputSlots L. \<exists>q. m_Connection (n_Graph net) (l, k) = Some q \<and> demanded net q \<and>
         computes sem net q (vs ! k) \<and> computes sem net' (f q) (vs ! k)) \<Longrightarrow>
      computes sem net (l, i) v \<Longrightarrow>
      layer_value sem (m_Type L) (n_Param net l) l i vs v \<Longrightarrow> computes sem net' (f (l, i)) v"
  shows "preserves sem net net' \<and> evaluates sem net'"
proof -
  have kept: "m_LayerOf (n_Graph net') l = Some L \<and> n_Param net' l = n_Param net l \<and> (\<forall>i. f (l, i) = (l, i)) \<and>
        (\<forall>k q. m_Connection (n_Graph net) (l, k) = Some q \<longrightarrow> m_Connection (n_Graph net') (l, k) = Some (f q))"
    if "m_LayerOf (n_Graph net) l = Some L" "live net l" "l \<notin> S" for l L
    using assms(1) that unfolding redirected_def by blast
  have val: "computes sem net' (f p) v" if "computes sem net p v" "demanded net p" for p v
  proof (rule redirect_computes [OF _ assms(3) that])
    fix l L i vs v
    assume *: "m_LayerOf (n_Graph net) l = Some L" "i < m_NumOutputSlots L" "length vs = m_NumInputSlots L"
      "demanded net (l, i)" "upstream sem net net' f l"
      "\<forall>k < m_NumInputSlots L. \<exists>q. m_Connection (n_Graph net) (l, k) = Some q \<and> demanded net q \<and>
         computes sem net q (vs ! k) \<and> computes sem net' (f q) (vs ! k)"
      "computes sem net (l, i) v" "layer_value sem (m_Type L) (n_Param net l) l i vs v"
    show "computes sem net' (f (l, i)) v"
    proof (cases "l \<in> S")
      case True
      then show ?thesis using special * by blast
    next
      case False
      note k = kept [OF *(1) _ False] 
      have "live net l" using demanded_live [OF *(4)] by simp
      then have "computes sem net' (l, i) v"
        using k *(2,3,6,8) by (intro unchanged_computes [of net' l L net i vs sem f]) blast+
      then show ?thesis using k \<open>live net l\<close> by simp
    qed
  qed
  have out: "m_LayerOf (n_Graph net') l = m_LayerOf (n_Graph net) l \<and>
      (\<forall>k q. m_Connection (n_Graph net) (l, k) = Some q \<longrightarrow> m_Connection (n_Graph net') (l, k) = Some (f q))"
    if type: "n_type net l = Some OutputLayer" for l
  proof -
    obtain L where "m_LayerOf (n_Graph net) l = Some L" using type by (auto simp: layer_type_def)
    then show ?thesis
      using kept [of l L] live_output [OF type] assms(1) type unfolding redirected_def by simp
  qed
  have "outputs sem net' out v" if given: "outputs sem net out v" for out v
  proof -
    obtain p where p: "n_type net out = Some OutputLayer" "m_Connection (n_Graph net) (out, 0) = Some p"
      "computes sem net p v" using given by (auto simp: outputs_def)
    have "demanded net p" using live_demanded [OF live_output [OF p(1)] p(2)] .
    then have "computes sem net' (f p) v" by (rule val [OF p(3)])
    moreover have "m_Connection (n_Graph net') (out, 0) = Some (f p)" using out [OF p(1)] p(2) by blast
    moreover have "n_type net' out = Some OutputLayer" using out [OF p(1)] p(1) by (simp add: layer_type_def)
    ultimately show ?thesis unfolding outputs_def by blast
  qed
  then have "preserves sem net net'"
    using out assms(1) by (simp add: preserves_def redirected_def)
  moreover have "evaluates sem net'"
    unfolding evaluates_def
  proof (intro allI impI)
    fix p assume "demanded net' p"
    then obtain q where q: "demanded net q" "p = f q" "info_shape net' p = info_shape net q"
      using assms(1) unfolding redirected_def by blast
    obtain v where "computes sem net q v" "info_shape net q = fst v"
      using evaluatesE [OF assms(2) q(1)] .
    then show "\<exists>v. computes sem net' p v \<and> info_shape net' p = fst v" using val q by metis
  qed
  ultimately show ?thesis ..
qed

subsection \<open>Consistent networks\<close>

definition params_match :: "LayerType \<Rightarrow> LayerParameters \<Rightarrow> bool" where
  "params_match t param \<longleftrightarrow>
     (if t = ReshapeLayer then \<exists>s. param = TargetShape s else \<exists>p. param = DimMappings p \<and> is_vector p)"

definition wf_network :: "Network \<Rightarrow> bool" where
  "wf_network net \<longleftrightarrow> wf_graph (n_Graph net) \<and> (\<forall>l \<ge> n_Next net. m_LayerOf (n_Graph net) l = None) \<and>
     (\<forall>l L. m_LayerOf (n_Graph net) l = Some L \<and> rearranges (m_Type L) \<longrightarrow>
        m_NumInputSlots L = 1 \<and> m_NumOutputSlots L = 1 \<and> params_match (m_Type L) (n_Param net l) \<and>
        m_Connection (n_Graph net) (l, 0) \<noteq> None)"

text \<open>
  The tensor info of the output of a rearranging layer follows from that of its input, as shape
  inference leaves it, if another layer reads the output. The layers in \<open>X\<close> are about to be erased and
  do not count.
\<close>

definition shape_law :: "LayerType \<Rightarrow> LayerParameters \<Rightarrow> TensorShape \<Rightarrow> TensorShape \<Rightarrow> bool" where
  "shape_law t param s s' \<longleftrightarrow> (case param of
     DimMappings p \<Rightarrow> is_shape s \<and> (if t = PermuteLayer then Permuted s p else TransposeTensorShape s p) = Inr s'
   | TargetShape u \<Rightarrow> s' = u
   | NoParameters \<Rightarrow> False)"

definition consistent :: "nat set \<Rightarrow> Network \<Rightarrow> bool" where
  "consistent X net \<longleftrightarrow> (\<forall>m L r. m_LayerOf (n_Graph net) m = Some L \<and> rearranges (m_Type L) \<and> m \<notin> X \<and>
     m_Connection (n_Graph net) r = Some (m, 0) \<and> fst r \<notin> X \<longrightarrow>
     (\<exists>q. m_Connection (n_Graph net) (m, 0) = Some q \<and>
        shape_law (m_Type L) (n_Param net m) (info_shape net q) (info_shape net (m, 0))))"

lemma consistentE:
  assumes "consistent X net" "m_LayerOf (n_Graph net) m = Some L" "rearranges (m_Type L)" "m \<notin> X"
    "m_Connection (n_Graph net) r = Some (m, 0)" "fst r \<notin> X"
  obtains q where "m_Connection (n_Graph net) (m, 0) = Some q"
    "shape_law (m_Type L) (n_Param net m) (info_shape net q) (info_shape net (m, 0))"
  using assms unfolding consistent_def by blast

definition network_ok :: "'a meaning \<Rightarrow> nat set \<Rightarrow> Network \<Rightarrow> bool" where
  "network_ok sem X net \<longleftrightarrow> wf_network net \<and> evaluates sem net \<and> consistent X net"

lemma wf_network_links: "wf_network net \<Longrightarrow> wf_links (n_Graph net)"
  by (simp add: wf_network_def wf_graph_def)

lemma wf_network_rearranges:
  assumes "wf_network net" "m_LayerOf (n_Graph net) l = Some L" "rearranges (m_Type L)"
  shows "m_NumInputSlots L = 1" "m_NumOutputSlots L = 1" "params_match (m_Type L) (n_Param net l)"
    "m_Connection (n_Graph net) (l, 0) \<noteq> None"
  using assms by (simp_all add: wf_network_def)

lemma valid_out_not_output:
  assumes "wf_graph g" "valid_out g p"
  shows "layer_type g (fst p) \<noteq> Some OutputLayer"
  using assms by (auto simp: wf_graph_def valid_out_def layer_type_def slots_of_type_def)

subsection \<open>Moving connections\<close>

definition swap_slot :: "slot \<Rightarrow> slot \<Rightarrow> slot \<Rightarrow> slot" where
  "swap_slot a b p = (if p = a then b else p)"

definition moved_network :: "slot \<Rightarrow> slot \<Rightarrow> Network \<Rightarrow> Network \<Rightarrow> bool" where
  "moved_network a b net net' \<longleftrightarrow> moved a b (n_Graph net) (n_Graph net') \<and> n_Param net' = n_Param net \<and> n_Next net' = n_Next net"

lemma moved_connection:
  "moved_network a b net net' \<Longrightarrow>
   m_Connection (n_Graph net') r = map_option (swap_slot a b) (m_Connection (n_Graph net) r)"
  by (cases "m_Connection (n_Graph net) r") (auto simp: moved_network_def moved_def swap_slot_def)

lemma moved_wf:
  assumes "moved_network a b net net'" "wf_network net"
  shows "wf_network net'" "m_LayerOf (n_Graph net') = m_LayerOf (n_Graph net)"
proof -
  have same: "same_layers (n_Graph net) (n_Graph net')" "wf_links (n_Graph net')"
    using assms(1) by (auto simp: moved_network_def moved_def)
  then show layers: "m_LayerOf (n_Graph net') = m_LayerOf (n_Graph net)" by (simp add: same_layers_def)
  have "wf_graph (n_Graph net')" using same_layers_graph [OF _ same] assms(2) by (simp add: wf_network_def)
  moreover have "n_Param net' = n_Param net" "n_Next net' = n_Next net" using assms(1) by (simp_all add: moved_network_def)
  moreover have "m_Connection (n_Graph net') r \<noteq> None" if "m_Connection (n_Graph net) r \<noteq> None" for r
    using that moved_connection [OF assms(1)] by simp
  ultimately show "wf_network net'" using assms(2) layers unfolding wf_network_def by (simp only:) blast
qed

text \<open>Readers see the shapes they saw before.\<close>

lemma moved_shapes:
  assumes "moved_network a b net net'" "wf_network net"
    "m_Connections (n_Graph net) a \<noteq> [] \<Longrightarrow> info_shape net a = info_shape net b \<or> (\<forall>r. m_Connection (n_Graph net) r \<noteq> Some b)"
    "m_Connection (n_Graph net) r = Some p"
  shows "info_shape net' (swap_slot a b p) = info_shape net p"
proof -
  have links: "wf_links (n_Graph net)" using assms(2) by (rule wf_network_links)
  have info: "m_TensorInfo (n_Graph net') = (if m_Connections (n_Graph net) a = [] then m_TensorInfo (n_Graph net)
      else (m_TensorInfo (n_Graph net))(b := m_TensorInfo (n_Graph net) a))"
    using assms(1) by (simp add: moved_network_def moved_def)
  show ?thesis
  proof (cases "p = a")
    case True
    then have "m_Connections (n_Graph net) a \<noteq> []" using wf_links_mem [OF links, of r a] assms(4) by auto
    then show ?thesis using True info by (simp add: swap_slot_def)
  next
    case False
    have "info_shape net a = info_shape net b" if "m_Connections (n_Graph net) a \<noteq> []" "p = b"
      using assms(3) [OF that(1)] assms(4) that(2) by blast
    then show ?thesis using info False by (auto simp: swap_slot_def)
  qed
qed

lemma move_sound:
  assumes ok: "wf_network net" "evaluates sem net" "consistent X net"
    and move: "moved_network a b net net'"
    and slots: "m_LayerOf (n_Graph net) (fst a) = Some A" "m_NumOutputSlots A = 1" "snd a = 0" "valid_out (n_Graph net) b"
    and shapes: "m_Connections (n_Graph net) a \<noteq> [] \<Longrightarrow>
      info_shape net a = info_shape net b \<or> (\<forall>r. m_Connection (n_Graph net) r \<noteq> Some b)"
    and law: "\<And>B r. m_LayerOf (n_Graph net) (fst b) = Some B \<Longrightarrow> rearranges (m_Type B) \<Longrightarrow> fst b \<notin> X \<Longrightarrow>
      m_Connection (n_Graph net) r = Some a \<Longrightarrow> fst r \<notin> X \<Longrightarrow>
      \<exists>q. m_Connection (n_Graph net) (fst b, 0) = Some q \<and>
        shape_law (m_Type B) (n_Param net (fst b)) (info_shape net q) (info_shape net a)"
    and inputs: "\<And>k q. demanded net a \<Longrightarrow> m_Connection (n_Graph net) (fst b, k) = Some q \<Longrightarrow> demanded net q"
    and special: "\<And>vs v. length vs = m_NumInputSlots A \<Longrightarrow> demanded net a \<Longrightarrow> upstream sem net net' (swap_slot a b) (fst a) \<Longrightarrow>
      (\<forall>k < m_NumInputSlots A. \<exists>q. m_Connection (n_Graph net) (fst a, k) = Some q \<and> demanded net q \<and>
         computes sem net q (vs ! k) \<and> computes sem net' (swap_slot a b q) (vs ! k)) \<Longrightarrow>
      computes sem net a v \<Longrightarrow>
      layer_value sem (m_Type A) (n_Param net (fst a)) (fst a) 0 vs v \<Longrightarrow> computes sem net' b v"
  shows "network_ok sem X net' \<and> preserves sem net net'"
proof -
  let ?g = "n_Graph net" and ?f = "swap_slot a b"
  note layers = moved_wf(2) [OF move ok(1)]
  note conn = moved_connection [OF move]
  have same_shape: "info_shape net' (?f p) = info_shape net p" if "m_Connection ?g r = Some p" for r p
    by (rule moved_shapes [OF move ok(1) _ that]) (rule shapes)
  have types: "n_type net' = n_type net" by (simp add: layer_type_def fun_eq_iff layers)
  have params: "n_Param net' = n_Param net" using move by (simp add: moved_network_def)
  have a: "a = (fst a, 0)" using slots(3) by (cases a) simp
  have valid: "valid_out ?g a" using slots by (simp add: valid_out_def)
  have no_output: "n_type net (fst a) \<noteq> Some OutputLayer"
    using valid_out_not_output [OF _ valid] ok(1) by (simp add: wf_network_def)
  have live': "live net l \<or> l = fst b \<and> demanded net a" if "live net' l" for l
    using that
  proof (rule live_induct)
    show "live net out \<or> out = fst b \<and> demanded net a" if "n_type net' out = Some OutputLayer" for out
      using that live_output types by simp
    fix l k p assume l: "live net l \<or> l = fst b \<and> demanded net a" "m_Connection (n_Graph net') (l, k) = Some p"
    then obtain q where q: "m_Connection ?g (l, k) = Some q" "p = ?f q" by (auto simp: conn)
    have "demanded net q" using l(1) live_demanded [OF _ q(1)] inputs q(1) by blast
    then show "live net (fst p) \<or> fst p = fst b \<and> demanded net a"
      using q(2) demanded_live by (auto simp: swap_slot_def)
  qed
  have demanded': "\<exists>q. demanded net q \<and> p = ?f q \<and> info_shape net' p = info_shape net q" if dp: "demanded net' p" for p
  proof -
    obtain r where r: "live net' (fst r)" "m_Connection (n_Graph net') r = Some p"
      using dp by (auto simp: demanded_def)
    then obtain q where q: "m_Connection ?g r = Some q" "p = ?f q" by (auto simp: conn)
    then have "m_Connection ?g (fst r, snd r) = Some q" by simp
    then have "demanded net q" using live' [OF r(1)] inputs [of "snd r" q] live_demanded by metis
    then show ?thesis using q same_shape by blast
  qed
  have "redirected net net' ?f {fst a}"
    unfolding redirected_def
    using layers types params no_output demanded' by (auto simp: conn swap_slot_def)
  then have sim: "preserves sem net net' \<and> evaluates sem net'"
  proof (rule redirect_preserves [OF _ ok(2) wf_network_links [OF ok(1)]])
    fix l L i vs v
    assume *: "l \<in> {fst a}" "m_LayerOf ?g l = Some L" "i < m_NumOutputSlots L" "length vs = m_NumInputSlots L"
      "demanded net (l, i)" "upstream sem net net' ?f l"
      "\<forall>k < m_NumInputSlots L. \<exists>q. m_Connection ?g (l, k) = Some q \<and> demanded net q \<and>
         computes sem net q (vs ! k) \<and> computes sem net' (?f q) (vs ! k)"
      "computes sem net (l, i) v" "layer_value sem (m_Type L) (n_Param net l) l i vs v"
    have l: "l = fst a" "L = A" "i = 0" "(l, i) = a" using *(1-3) slots(1,2) a by auto
    have "computes sem net' b v"
      using special [of vs v] *(4-9) unfolding l(2) unfolding l(4) unfolding l(1,3) by blast
    then show "computes sem net' (?f (l, i)) v" by (simp add: l(4) swap_slot_def)
  qed
  have "consistent X net'"
    unfolding consistent_def layers params
  proof (intro allI impI, elim conjE)
    fix m L r assume m: "m_LayerOf ?g m = Some L" "rearranges (m_Type L)" "m \<notin> X"
      "m_Connection (n_Graph net') r = Some (m, 0)" "fst r \<notin> X"
    obtain p where p: "m_Connection ?g r = Some p" "(m, 0) = ?f p" using m(4) by (auto simp: conn)
    have "\<exists>q. m_Connection ?g (m, 0) = Some q \<and>
        shape_law (m_Type L) (n_Param net m) (info_shape net q) (info_shape net' (m, 0))"
    proof (cases "p = a")
      case True
      then have b: "b = (m, 0)" "info_shape net' b = info_shape net a"
        using p same_shape [OF p(1)] by (auto simp: swap_slot_def)
      then show ?thesis using law [of L r] m p(1) True by simp
    next
      case False
      then have "p = (m, 0)" "info_shape net' (m, 0) = info_shape net (m, 0)"
        using p same_shape [OF p(1)] by (auto simp: swap_slot_def)
      then show ?thesis using consistentE [OF ok(3) m(1-3) _ m(5)] p(1) by metis
    qed
    then obtain q where q: "m_Connection ?g (m, 0) = Some q"
      "shape_law (m_Type L) (n_Param net m) (info_shape net q) (info_shape net' (m, 0))" by blast
    then show "\<exists>q. m_Connection (n_Graph net') (m, 0) = Some q \<and>
        shape_law (m_Type L) (n_Param net m) (info_shape net' q) (info_shape net' (m, 0))"
      using same_shape [OF q(1)] by (auto simp: conn)
  qed
  then show ?thesis using sim moved_wf(1) [OF move ok(1)] by (simp add: network_ok_def)
qed

subsection \<open>Rearranging layers\<close>

lemma rearranging_value:
  assumes "wf_network net" "m_LayerOf (n_Graph net) l = Some L" "rearranges (m_Type L)"
  shows "computes sem net (l, i) v \<longleftrightarrow> i = 0 \<and> is_tensor v \<and> (\<exists>q w. m_Connection (n_Graph net) (l, 0) = Some q \<and>
    computes sem net q w \<and> rearranged (m_Type L) (n_Param net l) w = Inr v)"
    (is "_ \<longleftrightarrow> ?rhs")
proof
  note slots = wf_network_rearranges [OF assms]
  {
    assume "computes sem net (l, i) v"
    then obtain vs where "i < m_NumOutputSlots L" "length vs = m_NumInputSlots L"
      "\<forall>k < m_NumInputSlots L. \<exists>q. m_Connection (n_Graph net) (l, k) = Some q \<and> computes sem net q (vs ! k)"
      "layer_value sem (m_Type L) (n_Param net l) l i vs v"
      using assms(2) by (auto elim!: computesE)
    then show ?rhs using slots assms(3) by (cases vs) (auto simp: layer_value_def)
  next
    assume r: ?rhs
    then obtain q w where q: "m_Connection (n_Graph net) (l, 0) = Some q" "computes sem net q w"
      "rearranged (m_Type L) (n_Param net l) w = Inr v" by blast
    have "computes sem net (l, 0) v"
      by (rule computes.layer [OF assms(2), of 0 "[w]"])
        (use slots q r assms(3) in \<open>auto simp: layer_value_def\<close>)
    then show "computes sem net (l, i) v" using r by simp
  }
qed

lemma rearranging_slot:
  assumes "wf_network net" "valid_out (n_Graph net) p" "m_LayerOf (n_Graph net) (fst p) = Some L" "rearranges (m_Type L)"
  shows "p = (fst p, 0)"
  using assms wf_network_rearranges(2) [OF assms(1,3,4)] by (cases p) (auto simp: valid_out_def)

lemma rearranging_input:
  assumes "wf_network net" "m_Connection (n_Graph net) r = Some p" "m_LayerOf (n_Graph net) (fst r) = Some L" "rearranges (m_Type L)"
  shows "r = (fst r, 0)" "m_Connection (n_Graph net) (fst r, 0) = Some p"
proof -
  have "valid_in (n_Graph net) r" using wf_links_valid [OF wf_network_links [OF assms(1)] assms(2)] by simp
  then show "r = (fst r, 0)"
    using assms(3) wf_network_rearranges(1) [OF assms(1,3,4)] by (cases r) (auto simp: valid_in_def)
  then show "m_Connection (n_Graph net) (fst r, 0) = Some p" using assms(2) by metis
qed

lemma computes_not_self:
  assumes "computes sem net p v" "m_LayerOf (n_Graph net) l = Some L" "rearranges (m_Type L)" "wf_network net"
    "m_Connection (n_Graph net) (l, 0) = Some q" "fst q = fst p" "l = fst p \<or> (reads net)\<^sup>+\<^sup>+ l (fst p)"
  shows False
proof -
  have step: "reads net (fst p) l"
    using assms(2,5,6) wf_network_rearranges(1) [OF assms(4,2,3)] unfolding reads_def by (metis zero_less_one)
  then have "(reads net)\<^sup>+\<^sup>+ (fst p) (fst p)" using assms(7) by (auto intro: tranclp_into_tranclp2)
  then show False by (rule computes_no_cycle [OF assms(1)])
qed

subsection \<open>Inverse permutations\<close>

lemma permuted_inverse_shape:
  assumes "is_shape s" "is_vector p" "is_vector q" "IsInverse q p" "Permuted s p = Inr t" "Permuted t q = Inr u"
  shows "u = s"
proof -
  obtain ds where ds: "specified_shape s ds" "1 \<le> length ds" "length ds \<le> MaxNumOfTensorDimensions" "prod_list ds < 2 ^ 32"
    using assms(1) by (auto simp: is_shape_def)
  let ?v = "(s, replicate (prod_list ds) ())"
  have v: "is_tensor ?v" using ds by (intro is_tensorI) auto
  obtain t' out where w: "permute_value p ?v = Inr (t', out)"
    using permute_value_spec [OF assms(2) ds(1) Permuted_rank [OF ds(1) assms(5)] ds(2,4)] by (metis length_replicate)
  then have t: "t' = t" using assms(5) by (auto simp: permute_value_def)
  have tensor: "is_tensor (t, out)" using permute_value_tensor [OF v assms(2) w] t by simp
  then obtain es where es: "specified_shape t es" "1 \<le> length es" "prod_list es < 2 ^ 32" "length out = prod_list es"
    by (auto simp: is_tensor_def)
  obtain x where "permute_value q (t, out) = Inr x"
    using permute_value_spec [OF assms(3) es(1) Permuted_rank [OF es(1) assms(6)] es(2-4)] by metis
  then have "x = ?v" "fst x = u"
    using permute_inverse [OF v assms(2-4) w] t assms(6) by (auto simp: permute_value_def)
  then show ?thesis by simp
qed

lemma transposed_inverse_shape:
  assumes "is_shape s" "is_vector p" "is_vector q" "IsInverse q p" "TransposeTensorShape s p = Inr t"
    "TransposeTensorShape t q = Inr u"
  shows "u = s"
proof -
  obtain ds where ds: "specified_shape s ds" "1 \<le> length ds" "length ds \<le> MaxNumOfTensorDimensions" "prod_list ds < 2 ^ 32"
    using assms(1) by (auto simp: is_shape_def)
  let ?v = "(s, replicate (prod_list ds) ())"
  have v: "is_tensor ?v" using ds by (intro is_tensorI) auto
  obtain t' out where w: "transpose_value p ?v = Inr (t', out)"
    using transpose_value_spec [OF assms(2) ds(1) Transposed_rank [OF ds(1) assms(5)] ds(2,4)] by (metis length_replicate)
  then have t: "t' = t" using assms(5) by (auto simp: transpose_value_def)
  have tensor: "is_tensor (t, out)" using transpose_value_tensor [OF v assms(2) w] t by simp
  then obtain es where es: "specified_shape t es" "1 \<le> length es" "prod_list es < 2 ^ 32" "length out = prod_list es"
    by (auto simp: is_tensor_def)
  obtain x where "transpose_value q (t, out) = Inr x"
    using transpose_value_spec [OF assms(3) es(1) Transposed_rank [OF es(1) assms(6)] es(2-4)] by metis
  then have "x = ?v" "fst x = u"
    using transpose_inverse [OF v assms(2-4) w] t assms(6) by (auto simp: transpose_value_def)
  then show ?thesis by simp
qed

lemma rearranged_inverse:
  assumes "is_tensor v" "is_vector p" "is_vector q" "IsInverse q p" "t = PermuteLayer \<or> t = TransposeLayer"
    "rearranged t (DimMappings p) v = Inr w" "rearranged t (DimMappings q) w = Inr u"
  shows "u = v"
proof (cases "t = PermuteLayer")
  case True
  then have "permute_value p v = Inr w" "permute_value q w = Inr u" using assms(6,7) by (simp_all add: rearranged_def)
  then show ?thesis by (rule permute_inverse [OF assms(1-4)])
next
  case False
  then have "transpose_value p v = Inr w" "transpose_value q w = Inr u" using assms(6,7) by (simp_all add: rearranged_def)
  then show ?thesis by (rule transpose_inverse [OF assms(1-4)])
qed

lemma law_inverse:
  assumes "is_vector p" "is_vector q" "IsInverse q p" "t = PermuteLayer \<or> t = TransposeLayer"
    "shape_law t (DimMappings p) s s'" "shape_law t (DimMappings q) s' s''"
  shows "s'' = s"
  using assms permuted_inverse_shape transposed_inverse_shape by (auto simp: shape_law_def split: if_splits)

lemma on_graph_moved:
  assumes "on_graph (MoveAllConnections a b) net = Some (Inr net')" "wf_network net" "valid_out (n_Graph net) b"
  shows "moved_network a b net net'"
proof -
  obtain h where h: "MoveAllConnections a b (n_Graph net) = Some (Inr h)" "net' = net\<lparr>n_Graph := h\<rparr>"
    using assms(1) by (auto simp: on_graph_def)
  then show ?thesis
    using MoveAllConnections_Inr [OF h(1) wf_network_links [OF assms(2)] assms(3)] by (simp add: moved_network_def)
qed

lemma OptimizeInversePermutes_sound:
  assumes ok: "network_ok sem {} net" and type: "n_type net (fst r) = Some t"
    and t: "t = PermuteLayer \<or> t = TransposeLayer"
    and run: "OptimizeInversePermutes_Run t r net = Some (Inr net')"
  shows "network_ok sem {} net' \<and> preserves sem net net'"
proof -
  let ?g = "n_Graph net" and ?child = "fst r"
  have wf: "wf_network net" and ev: "evaluates sem net" and co: "consistent {} net"
    using ok by (auto simp: network_ok_def)
  note links = wf_network_links [OF wf]
  obtain p where p: "m_Connection ?g r = Some p" using run by (auto simp: OptimizeInversePermutes_Run_def Let_def)
  show ?thesis
  proof (cases "net' = net")
    case True
    then show ?thesis using ok by simp
  next
    case False
    then obtain source where inv: "layer_IsInverse t net ?child (fst p) = Inr True"
      and src: "m_Connection ?g (fst p, 0) = Some source"
      and move: "on_graph (MoveAllConnections (?child, 0) source) net = Some (Inr net')"
      using run p by (auto simp: OptimizeInversePermutes_Run_def Let_def split: if_splits)
    have rt: "rearranges t" using t by (auto simp: rearranges_def)
    obtain C B where C: "m_LayerOf ?g ?child = Some C" "m_Type C = t"
      and B: "m_LayerOf ?g (fst p) = Some B" "m_Type B = t"
      using type inv by (auto simp: layer_IsInverse_def layer_type_def split: if_splits)
    have rC: "rearranges (m_Type C)" and rB: "rearranges (m_Type B)" using rt C B by simp_all
    obtain pc pb where params: "n_Param net ?child = DimMappings pc" "is_vector pc"
      "n_Param net (fst p) = DimMappings pb" "is_vector pb"
      using wf_network_rearranges(3) [OF wf C(1) rC] wf_network_rearranges(3) [OF wf B(1) rB] C(2) B(2) t
      by (auto simp: params_match_def)
    have inverse: "IsInverse pc pb"
      using inv params by (auto simp: layer_IsInverse_def GetPermutation_def split: if_splits)
    have r: "m_Connection ?g (?child, 0) = Some p" using rearranging_input(2) [OF wf p C(1) rC] .
    have vsrc: "valid_out ?g source" "valid_out ?g p" using wf_links_valid [OF links] src p by auto
    have p0: "p = (fst p, 0)" using rearranging_slot [OF wf vsrc(2) B(1) rB] .
    have moved: "moved_network (?child, 0) source net net'" using on_graph_moved [OF move wf vsrc(1)] .
    obtain s where lawB: "s = info_shape net source" "shape_law t (DimMappings pb) s (info_shape net p)"
    proof (rule consistentE [OF co B(1) rB])
      show "m_Connection ?g r = Some (fst p, 0)" using p p0 by simp
      fix q assume "m_Connection ?g (fst p, 0) = Some q"
        "shape_law (m_Type B) (n_Param net (fst p)) (info_shape net q) (info_shape net (fst p, 0))"
      then show thesis using that [of "info_shape net source"] src params(3) B(2) p0 by simp
    qed auto
    have same: "info_shape net (?child, 0) = info_shape net source" if "m_Connection ?g r' = Some (?child, 0)" for r'
    proof (rule consistentE [OF co C(1) rC _ that])
      fix q assume "m_Connection ?g (?child, 0) = Some q"
        "shape_law (m_Type C) (n_Param net ?child) (info_shape net q) (info_shape net (?child, 0))"
      then show ?thesis using law_inverse [OF params(4,2) inverse t lawB(2)] lawB(1) r params(1) C(2) by simp
    qed auto
    show ?thesis
    proof (rule move_sound [OF wf ev co moved])
      show "m_LayerOf ?g (fst (?child, 0)) = Some C" "m_NumOutputSlots C = 1" "snd (?child, 0) = (0::nat)"
        using C wf_network_rearranges(2) [OF wf C(1) rC] by auto
      show "valid_out ?g source" by (rule vsrc(1))
      assume "m_Connections ?g (?child, 0) \<noteq> []"
      then obtain r' where "m_Connection ?g r' = Some (?child, 0)"
        using wf_links_mem [OF links] by (metis list.set_intros(1) neq_Nil_conv)
      then show "info_shape net (?child, 0) = info_shape net source \<or> (\<forall>r. m_Connection ?g r \<noteq> Some source)"
        using same by blast
    next
      fix S r' assume S: "m_LayerOf ?g (fst source) = Some S" "rearranges (m_Type S)" "m_Connection ?g r' = Some (?child, 0)"
      have "source = (fst source, 0)" using rearranging_slot [OF wf vsrc(1) S(1,2)] .
      then have "m_Connection ?g (fst p, 0) = Some (fst source, 0)" using src by metis
      then obtain q where "m_Connection ?g (fst source, 0) = Some q"
        "shape_law (m_Type S) (n_Param net (fst source)) (info_shape net q) (info_shape net (fst source, 0))"
        using consistentE [OF co S(1,2)] by blast
      then show "\<exists>q. m_Connection ?g (fst source, 0) = Some q \<and>
          shape_law (m_Type S) (n_Param net (fst source)) (info_shape net q) (info_shape net (?child, 0))"
        using same [OF S(3)] \<open>source = (fst source, 0)\<close> by metis
    next
      fix k q assume d: "demanded net (?child, 0)" "m_Connection ?g (fst source, k) = Some q"
      have "demanded net p" using live_demanded [OF _ r] demanded_live [OF d(1)] by simp
      then have "demanded net source" using live_demanded [OF _ src] demanded_live by blast
      then show "demanded net q" using live_demanded [OF _ d(2)] demanded_live by blast
    next
      fix vs v
      assume v: "length vs = m_NumInputSlots C"
        "\<forall>k < m_NumInputSlots C. \<exists>q. m_Connection ?g (fst (?child, 0), k) = Some q \<and> demanded net q \<and>
          computes sem net q (vs ! k) \<and> computes sem net' (swap_slot (?child, 0) source q) (vs ! k)"
        "layer_value sem (m_Type C) (n_Param net (fst (?child, 0))) (fst (?child, 0)) 0 vs v"
      have one: "m_NumInputSlots C = 1" using wf_network_rearranges(1) [OF wf C(1) rC] .
      define w where "w = vs ! 0"
      have "hd vs = w" using v(1) one by (cases vs) (simp_all add: w_def)
      have w: "computes sem net p w" "computes sem net' (swap_slot (?child, 0) source p) w"
        "rearranged t (DimMappings pc) w = Inr v"
        using v one r rC params(1) C(2) \<open>hd vs = w\<close> by (auto simp: layer_value_def w_def)
      have ne: "p \<noteq> (?child, 0)" "source \<noteq> (?child, 0)"
      proof -
        show "p \<noteq> (?child, 0)"
          using computes_not_self [OF w(1) C(1) rC wf r] by (metis fst_conv)
        show "source \<noteq> (?child, 0)"
        proof
          assume "source = (?child, 0)"
          then have "(reads net)\<^sup>+\<^sup>+ ?child (fst p)"
            using src B(1) wf_network_rearranges(1) [OF wf B(1) rB] unfolding reads_def
            by (intro tranclp.r_into_trancl) (metis fst_conv zero_less_one)
          then show False using computes_not_self [OF w(1) C(1) rC wf r] by simp
        qed
      qed
      note wf' = moved_wf [OF moved wf]
      have B': "m_LayerOf (n_Graph net') (fst p) = Some B" using wf'(2) B(1) by simp
      have "computes sem net' (fst p, 0) w" using w(2) ne(1) p0 by (simp add: swap_slot_def)
      then obtain q u where u: "m_Connection (n_Graph net') (fst p, 0) = Some q" "computes sem net' q u"
        "rearranged t (n_Param net' (fst p)) u = Inr w"
        using rearranging_value [OF wf'(1) B' rB] B(2) by blast
      have "q = source" using u(1) src ne(2) moved_connection [OF moved] by (auto simp: swap_slot_def)
      moreover have "n_Param net' = n_Param net" using moved by (simp add: moved_network_def)
      ultimately show "computes sem net' source v"
        using rearranged_inverse [OF computes_tensor [OF u(2)] params(4,2) inverse t _ w(3)] u params(3) by simp
    qed
  qed
qed

subsection \<open>Equal siblings\<close>

lemma computes_cong:
  assumes "computes sem net p v" "n_Graph net' = n_Graph net" "n_Param net' = n_Param net"
  shows "computes sem net' p v"
  using assms(1)
proof (induction rule: computes.induct)
  case (layer l L i vs v)
  then show ?case using assms(2,3) by (intro computes.layer [of net' l L i vs]) auto
qed

lemma network_ok_cong:
  assumes "n_Graph net' = n_Graph net" "n_Param net' = n_Param net" "n_Next net' = n_Next net"
  shows "network_ok sem X net \<Longrightarrow> network_ok sem X net' \<and> preserves sem net net'"
proof -
  assume ok: "network_ok sem X net"
  have "live net' = live net" "demanded net' = demanded net"
    by (simp_all add: fun_eq_iff live_def demanded_def assms)
  then show ?thesis
    using ok computes_cong [OF _ assms(1,2)]
    by (auto simp: network_ok_def wf_network_def evaluates_def consistent_def preserves_def outputs_def assms; blast)
qed

lemma network_priority_Inr:
  "network_priority l net = Some (Inr (k, net')) \<Longrightarrow> \<exists>s. net' = net\<lparr>n_Priorities := s\<rparr>"
  by (auto simp: network_priority_def)

lemma for_connections_induct:
  assumes "for_connections o' net_of f cs s = Some (Inr s')" "P s" "set cs \<subseteq> set (n_connections (net_of s) o')"
    "\<And>c s s'. P s \<Longrightarrow> c \<in> set (n_connections (net_of s) o') \<Longrightarrow> f c s = Some (Inr s') \<Longrightarrow>
       n_connections (net_of s') o' = n_connections (net_of s) o' \<Longrightarrow> P s'"
  shows "P s'"
  using assms(1-3)
proof (induction cs arbitrary: s)
  case Nil
  then show ?case by simp
next
  case (Cons c cs)
  then obtain s1 where s1: "f c s = Some (Inr s1)" "n_connections (net_of s1) o' = n_connections (net_of s) o'"
    "for_connections o' net_of f cs s1 = Some (Inr s')"
    by (auto split: if_splits)
  have "P s1" using assms(4) [OF Cons.prems(2) _ s1(1,2)] Cons.prems(3) by simp
  then show ?case using Cons.IH s1(2,3) Cons.prems(3) by simp
qed

lemma shape_law_functional:
  "shape_law t param s s' \<Longrightarrow> shape_law t param s s'' \<Longrightarrow> s' = s''"
  by (auto simp: shape_law_def split: LayerParameters.splits)

lemma bypass_sibling_sound:
  assumes ok: "network_ok sem {} net" and t: "rearranges t"
    and a: "n_type net a = Some t" "m_Connection (n_Graph net) (a, 0) = Some p"
    and b: "n_type net b = Some t" "m_Connection (n_Graph net) (b, 0) = Some p"
    and params: "n_Param net b = n_Param net a"
    and run: "bypass_sibling a b net = Some (Inr net')"
  shows "network_ok sem {} net' \<and> preserves sem net net' \<and> n_Param net' = n_Param net \<and> n_type net' = n_type net"
proof -
  let ?g = "n_Graph net"
  have wf: "wf_network net" and ev: "evaluates sem net" and co: "consistent {} net"
    using ok by (auto simp: network_ok_def)
  note links = wf_network_links [OF wf]
  obtain A B where A: "m_LayerOf ?g a = Some A" "m_Type A = t" and B: "m_LayerOf ?g b = Some B" "m_Type B = t"
    using a b by (auto simp: layer_type_def)
  have r: "rearranges (m_Type A)" "rearranges (m_Type B)" using A B t by simp_all
  note oneA = wf_network_rearranges [OF wf A(1) r(1)] and oneB = wf_network_rearranges [OF wf B(1) r(2)]
  have vb: "valid_out ?g (b, 0)" using B(1) oneB(2) by (simp add: valid_out_def)
  have move: "on_graph (MoveAllConnections (a, 0) (b, 0)) net = Some (Inr net')"
    using run A(1) B(1) oneA(2) oneB(2) by (simp add: bypass_sibling_def GetLayer_def)
  have moved: "moved_network (a, 0) (b, 0) net net'" using on_graph_moved [OF move wf vb] .
  note wf' = moved_wf [OF moved wf]
  have law_a: "shape_law t (n_Param net a) (info_shape net p) (info_shape net (a, 0))"
    if "m_Connection ?g r' = Some (a, 0)" for r'
    by (rule consistentE [OF co A(1) r(1) _ that]) (use a(2) A(2) in auto)
  have law_b: "shape_law t (n_Param net a) (info_shape net p) (info_shape net (b, 0))"
    if "m_Connection ?g r' = Some (b, 0)" for r'
    by (rule consistentE [OF co B(1) r(2) _ that]) (use b(2) B(2) params in auto)
  have "network_ok sem {} net' \<and> preserves sem net net'"
  proof (rule move_sound [OF wf ev co moved])
    show "m_LayerOf ?g (fst (a, 0)) = Some A" "m_NumOutputSlots A = 1" "snd (a, 0) = (0::nat)" "valid_out ?g (b, 0)"
      using A oneA vb by simp_all
    assume "m_Connections ?g (a, 0) \<noteq> []"
    then obtain r' where "m_Connection ?g r' = Some (a, 0)"
      using wf_links_mem [OF links] by (metis list.set_intros(1) neq_Nil_conv)
    then show "info_shape net (a, 0) = info_shape net (b, 0) \<or> (\<forall>r. m_Connection ?g r \<noteq> Some (b, 0))"
      using law_a law_b shape_law_functional by blast
  next
    fix B' r' assume "m_LayerOf ?g (fst (b, 0::nat)) = Some B'" "m_Connection ?g r' = Some (a, 0)"
    then show "\<exists>q. m_Connection ?g (fst (b, 0::nat), 0) = Some q \<and>
        shape_law (m_Type B') (n_Param net (fst (b, 0::nat))) (info_shape net q) (info_shape net (a, 0))"
      using law_a b(2) B params by auto
  next
    fix k q assume d: "demanded net (a, 0)" "m_Connection ?g (fst (b, 0::nat), k) = Some q"
    have "valid_in ?g (b, k)" using wf_links_valid [OF links] d(2) by simp
    then have "q = p" using B(1) oneB(1) b(2) d(2) by (simp add: valid_in_def)
    then show "demanded net q" using live_demanded [OF _ a(2)] demanded_live [OF d(1)] by simp
  next
    fix vs v
    assume v: "length vs = m_NumInputSlots A"
      "\<forall>k < m_NumInputSlots A. \<exists>q. m_Connection ?g (fst (a, 0::nat), k) = Some q \<and> demanded net q \<and>
        computes sem net q (vs ! k) \<and> computes sem net' (swap_slot (a, 0) (b, 0) q) (vs ! k)"
      "layer_value sem (m_Type A) (n_Param net (fst (a, 0::nat))) (fst (a, 0::nat)) 0 vs v"
    obtain w where w: "vs = [w]" using v(1) oneA(1) by (cases vs) auto
    have "computes sem net' (swap_slot (a, 0) (b, 0) p) w" using v(2) oneA(1) a(2) w by simp
    moreover have "m_Connection (n_Graph net') (b, 0) = Some (swap_slot (a, 0) (b, 0) p)"
      using moved_connection [OF moved] b(2) by simp
    moreover have "rearranged t (n_Param net' b) w = Inr v" "is_tensor v"
      using v(3) w r(1) A(2) params moved by (auto simp: layer_value_def moved_network_def)
    moreover have "m_LayerOf (n_Graph net') b = Some B" using wf'(2) B(1) by simp
    ultimately show "computes sem net' (b, 0) v"
      using rearranging_value [OF wf'(1) _ r(2)] B(2) by blast
  qed
  then show ?thesis using moved wf'(2) by (simp add: moved_network_def layer_type_def fun_eq_iff)
qed

lemma IsEqual_eq: "IsEqual p q \<longleftrightarrow> p = q"
proof
  assume eq: "IsEqual p q"
  have "m_DimMappings p = m_DimMappings q"
    using eq by (intro nth_equalityI) (simp_all add: IsEqual_def GetSize_def list_all_iff)
  then show "p = q" by simp
next
  assume "p = q"
  then show "IsEqual p q" by (simp add: IsEqual_def list_all_iff)
qed

lemma layer_IsEqual_Inr:
  "layer_IsEqual t net l other = Inr True \<Longrightarrow> n_type net other = Some t \<and> n_Param net other = n_Param net l"
  by (auto simp: layer_IsEqual_def GetTargetShape_def GetPermutation_def IsEqual_eq split: if_splits LayerParameters.splits)

definition squash_inv :: "'a meaning \<Rightarrow> LayerType \<Rightarrow> Network \<Rightarrow> slot \<Rightarrow> nat \<Rightarrow> nat \<times> Network \<Rightarrow> bool" where
  "squash_inv sem t net0 o' child st \<longleftrightarrow> network_ok sem {} (snd st) \<and> preserves sem net0 (snd st) \<and>
     n_type (snd st) child = Some t \<and> n_type (snd st) (fst st) = Some t \<and>
     n_Param (snd st) (fst st) = n_Param (snd st) child \<and> (fst st, 0) \<in> set (n_connections (snd st) o')"

lemma squash_sibling_Inr:
  assumes "squash_sibling t child c (lowest, net) = Some (Inr st')"
  shows "st' = (lowest, net) \<or> (\<exists>k net1 j net2. layer_IsEqual t net child (fst c) = Inr True \<and>
    network_priority (fst c) net = Some (Inr (k, net1)) \<and> network_priority lowest net1 = Some (Inr (j, net2)) \<and>
    (let (sibling, lowest) = (if k < j then (lowest, fst c) else (fst c, lowest)) in
      bindP (bypass_sibling sibling lowest net2) (\<lambda>net. Some (Inr (lowest, net)))) = Some (Inr st'))"
proof (cases "fst c = lowest")
  case True
  then show ?thesis using assms by (simp add: squash_sibling_def)
next
  case False
  then obtain eq where e: "layer_IsEqual t net child (fst c) = Inr eq"
    using assms by (auto simp: squash_sibling_def Let_def)
  show ?thesis
  proof (cases eq)
    case True
    then obtain x where "network_priority (fst c) net = Some (Inr x)"
      using assms False e by (auto simp: squash_sibling_def Let_def)
    moreover obtain k net1 where "x = (k, net1)" by (cases x)
    moreover from calculation obtain y where "network_priority lowest net1 = Some (Inr y)"
      using assms False e True by (auto simp: squash_sibling_def Let_def)
    moreover obtain j net2 where "y = (j, net2)" by (cases y)
    ultimately show ?thesis using assms False e True by (simp add: squash_sibling_def Let_def del: bindP_eq)
  next
    case False
    then show ?thesis using assms e \<open>fst c \<noteq> lowest\<close> by (simp add: squash_sibling_def)
  qed
qed

lemma squash_step:
  assumes inv: "squash_inv sem t net0 o' child st" and t: "rearranges t" and c: "c \<in> set (n_connections (snd st) o')"
    and run: "squash_sibling t child c st = Some (Inr st')"
    and same: "n_connections (snd st') o' = n_connections (snd st) o'"
  shows "squash_inv sem t net0 o' child st'"
proof (cases "st' = st")
  case True
  then show ?thesis using inv by simp
next
  case False
  obtain lowest net where st: "st = (lowest, net)" by (cases st)
  obtain k net1 j net2 st3 where run': "layer_IsEqual t net child (fst c) = Inr True"
    "network_priority (fst c) net = Some (Inr (k, net1))" "network_priority lowest net1 = Some (Inr (j, net2))"
    "(let (sibling, lowest) = (if k < j then (lowest, fst c) else (fst c, lowest)) in
      bindP (bypass_sibling sibling lowest net2) (\<lambda>net. Some (Inr (lowest, net)))) = Some (Inr st')"
    using squash_sibling_Inr [OF run [unfolded st]] False st by blast
  define sib where "sib = (if k < j then lowest else fst c)"
  define low where "low = (if k < j then fst c else lowest)"
  obtain net3 where eq: "layer_IsEqual t net child (fst c) = Inr True"
    "network_priority (fst c) net = Some (Inr (k, net1))" "network_priority lowest net1 = Some (Inr (j, net2))"
    "bypass_sibling sib low net2 = Some (Inr net3)" "st' = (low, net3)"
    "low = fst c \<and> sib = lowest \<or> low = lowest \<and> sib = fst c"
    using run' by (cases "k < j") (auto simp: sib_def low_def)
  obtain s1 s2 where s: "net1 = net\<lparr>n_Priorities := s1\<rparr>" "net2 = net1\<lparr>n_Priorities := s2\<rparr>"
    using network_priority_Inr eq(2,3) by blast
  have parts: "n_Graph net2 = n_Graph net" "n_Param net2 = n_Param net" "n_Next net2 = n_Next net" by (simp_all add: s)
  have ok: "network_ok sem {} net2 \<and> preserves sem net net2"
    using network_ok_cong [OF parts, of sem "{}"] inv unfolding squash_inv_def st by simp
  have links: "wf_links (n_Graph net)" using inv wf_network_links by (simp add: squash_inv_def network_ok_def st)
  have sibling: "n_type net (fst c) = Some t" "n_Param net (fst c) = n_Param net child"
    using layer_IsEqual_Inr [OF eq(1)] by simp_all
  have wf: "wf_network net" using inv by (simp add: squash_inv_def network_ok_def st)
  obtain C where C: "m_LayerOf (n_Graph net) (fst c) = Some C" "m_Type C = t" using sibling(1) by (auto simp: layer_type_def)
  have conn_c: "m_Connection (n_Graph net) c = Some o'" using wf_links_mem [OF links] c st by simp
  have c0: "c = (fst c, 0)" using rearranging_input(1) [OF wf conn_c C(1)] C(2) t by simp
  have reads: "m_Connection (n_Graph net) (fst c, 0) = Some o'" "m_Connection (n_Graph net) (lowest, 0) = Some o'"
    using conn_c c0 wf_links_mem [OF links, of "(lowest, 0)" o'] inv by (auto simp: squash_inv_def st)
  have low: "n_type net low = Some t" "n_Param net low = n_Param net child" "m_Connection (n_Graph net) (low, 0) = Some o'"
    "n_type net sib = Some t" "n_Param net sib = n_Param net child" "m_Connection (n_Graph net) (sib, 0) = Some o'"
    "(low, 0) \<in> set (n_connections net o')"
    using eq(6) sibling reads inv c c0 by (auto simp: squash_inv_def st)
  have "network_ok sem {} net3 \<and> preserves sem net2 net3 \<and> n_Param net3 = n_Param net2 \<and> n_type net3 = n_type net2"
    using bypass_sibling_sound [OF ok [THEN conjunct1] t _ _ _ _ _ eq(4), of o'] low parts by simp
  then show ?thesis
    using inv ok low same eq(5) parts
    by (auto simp: squash_inv_def st intro: preserves_trans)
qed

lemma SquashEqualSiblings_sound:
  assumes ok: "network_ok sem {} net" and type: "n_type net (fst r) = Some t" and t: "rearranges t"
    and run: "SquashEqualSiblings_Run t r net = Some (Inr net')"
  shows "network_ok sem {} net' \<and> preserves sem net net'"
proof (cases "net' = net")
  case True
  then show ?thesis using ok by simp
next
  case False
  obtain u where u: "IsOutputUnconnected (n_Graph net) (fst r) = Inr u"
    using run by (auto simp: SquashEqualSiblings_Run_def Let_def)
  have "\<not> u" using run u False by (auto simp: SquashEqualSiblings_Run_def Let_def)
  then obtain o' where o: "m_Connection (n_Graph net) r = Some o'"
    using run u by (auto simp: SquashEqualSiblings_Run_def Let_def)
  have "length (n_connections net o') > 1"
    using run u o False \<open>\<not> u\<close> by (auto simp: SquashEqualSiblings_Run_def Let_def split: if_splits)
  then obtain st where
    loop: "for_connections o' snd (squash_sibling t (fst r)) (n_connections net o') (fst r, net) = Some (Inr st)"
    and net': "net' = snd st"
    using run u o \<open>\<not> u\<close> by (auto simp: SquashEqualSiblings_Run_def Let_def)
  have wf: "wf_network net" using ok by (simp add: network_ok_def)
  obtain C where C: "m_LayerOf (n_Graph net) (fst r) = Some C" "m_Type C = t" using type by (auto simp: layer_type_def)
  have "m_Connection (n_Graph net) (fst r, 0) = Some o'" using rearranging_input(2) [OF wf o C(1)] C(2) t by simp
  then have "(fst r, 0) \<in> set (n_connections net o')" using wf_links_mem [OF wf_network_links [OF wf]] by simp
  then have start: "squash_inv sem t net o' (fst r) (fst r, net)" using ok type by (simp add: squash_inv_def)
  have "squash_inv sem t net o' (fst r) st"
    by (rule for_connections_induct [where P = "squash_inv sem t net o' (fst r)", OF loop start])
      (auto intro: squash_step [OF _ t])
  then show ?thesis by (simp add: squash_inv_def net')
qed

subsection \<open>A removed pair of permutations\<close>

text \<open>
  C5: In a network as the API builds it (consistent connections, tensor infos as the layers compute them),
  when the permutation or transposition of the layer \<open>fst r\<close> is the inverse of that of the layer
  before it, \<open>OptimizeInversePermutes\<close> connects the readers of the second layer to the source of the
  first, behind the readers that slot has. It returns, unless the memory strategies are set or the
  layers form a cycle, every output of the network keeps its value, and the network stays consistent.
\<close>

theorem OptimizeInversePermutes_correct:
  assumes ok: "network_ok sem {} net" and t: "t = PermuteLayer \<or> t = TransposeLayer"
    and child: "n_type net (fst r) = Some t" "n_Param net (fst r) = DimMappings q"
    and base: "m_Connection (n_Graph net) r = Some (base, 0)" "n_type net base = Some t" "n_Param net base = DimMappings p"
    and inverse: "IsInverse q p" and source: "m_Connection (n_Graph net) (base, 0) = Some source" "source \<noteq> (fst r, 0)"
    and strategies: "\<forall>s \<in> set (m_EdgeStrategies (n_Graph net) (fst r, 0)). s = Undefined"
  shows "\<exists>net'. OptimizeInversePermutes_Run t r net = Some (Inr net') \<and>
    n_connections net' source = n_connections net source @ n_connections net (fst r, 0) \<and>
    n_connections net' (fst r, 0) = [] \<and> preserves sem net net' \<and> network_ok sem {} net'"
proof -
  have wf: "wf_network net" using ok by (simp add: network_ok_def)
  note links = wf_network_links [OF wf]
  have rt: "rearranges t" using t by (auto simp: rearranges_def)
  obtain C B where C: "m_LayerOf (n_Graph net) (fst r) = Some C" "m_Type C = t"
    and B: "m_LayerOf (n_Graph net) base = Some B" "m_Type B = t"
    using child(1) base(2) by (auto simp: layer_type_def)
  have slots: "valid_out (n_Graph net) (fst r, 0)" "valid_in (n_Graph net) (base, 0)"
    using wf_network_rearranges(2) [OF wf C(1)] wf_network_rearranges(1) [OF wf B(1)] C B rt
    by (simp_all add: valid_out_def valid_in_def)
  obtain h where h: "MoveAllConnections (fst r, 0) source (n_Graph net) = Some (Inr h)"
    "m_Connections h = (m_Connections (n_Graph net))((fst r, 0) := [],
       source := m_Connections (n_Graph net) source @ m_Connections (n_Graph net) (fst r, 0))"
    using MoveAllConnections_correct [OF links _ _ strategies, of source] source wf_links_valid [OF links source(1)] by metis
  have "GetInputSlot (n_Graph net) base 0 = Inr (base, 0)" "GetOutputSlot (n_Graph net) (fst r) 0 = Inr (fst r, 0)"
    using slots by simp_all
  then have run: "OptimizeInversePermutes_Run t r net = Some (Inr (net\<lparr>n_Graph := h\<rparr>))"
    using base source(1) child inverse h(1)
    by (simp del: bindP_eq GetInputSlot_Inr GetOutputSlot_Inr null_pointer_Inr add: null_pointer_def OptimizeInversePermutes_Run_def layer_IsInverse_def GetPermutation_def on_graph_def Let_def)
  then show ?thesis
    using OptimizeInversePermutes_sound [OF ok child(1) t run] h(2) source(2) by simp
qed

text \<open>An input, two rearranging layers and an output.\<close>

definition shape_of :: "nat list \<Rightarrow> TensorShape" where
  "shape_of ds = \<lparr>m_Dimensions = ds, m_DimensionsSpecificity = replicate (length ds) True, m_Dimensionality = Specified\<rparr>"

definition chain :: "LayerType \<Rightarrow> LayerParameters \<Rightarrow> LayerParameters \<Rightarrow> TensorShape \<Rightarrow> TensorShape \<Rightarrow> TensorShape \<Rightarrow> Network" where
  "chain t a b s0 s1 s2 = \<lparr>n_Graph = (Graph_make False False)\<lparr>
     m_LayerOf := [0 \<mapsto> layer_of InputLayer 0 1 7, 1 \<mapsto> layer_of t 1 1 0, 2 \<mapsto> layer_of t 1 1 0,
       3 \<mapsto> layer_of OutputLayer 1 0 9],
     m_Layers := [0, 1, 2, 3], m_InputIds := [7], m_OutputIds := [9],
     m_Connection := [(1, 0) \<mapsto> (0, 0), (2, 0) \<mapsto> (1, 0), (3, 0) \<mapsto> (2, 0)],
     m_Connections := (\<lambda>_. [])((0, 0) := [(1, 0)], (1, 0) := [(2, 0)], (2, 0) := [(3, 0)]),
     m_EdgeStrategies := (\<lambda>_. [])((0, 0) := [Undefined], (1, 0) := [Undefined], (2, 0) := [Undefined]),
     m_TensorInfo := (\<lambda>_. TensorInfo_default)((0, 0) := TensorInfo_default\<lparr>m_Shape := s0\<rparr>,
       (1, 0) := TensorInfo_default\<lparr>m_Shape := s1\<rparr>, (2, 0) := TensorInfo_default\<lparr>m_Shape := s2\<rparr>)\<rparr>,
     n_Param = (\<lambda>_. NoParameters)(1 := a, 2 := b), n_Priorities = ResetPriorities, n_Next = 4\<rparr>"

lemma chain_wf:
  assumes "rearranges t" "params_match t a" "params_match t b"
  shows "wf_network (chain t a b s0 s1 s2)"
proof -
  let ?g = "n_Graph (chain t a b s0 s1 s2)"
  have t: "t \<noteq> InputLayer" "t \<noteq> OutputLayer" "t \<noteq> ConstantLayer" using assms(1) by (auto simp: rearranges_def)
  have "wf_links ?g"
    by (auto simp: wf_links_def chain_def Graph_make_def valid_in_def valid_out_def layer_of_def split: if_splits)
  moreover have "wf_list ?g [0] [1, 2] [3]"
    using t by (auto simp: wf_list_def chain_def Graph_make_def is_type_def layer_type_def layer_of_def binding_def)
  ultimately have "wf_graph ?g"
    using t by (auto simp: wf_graph_def chain_def slots_of_type_def layer_of_def split: if_splits)
  moreover have "l = 1 \<or> l = 2 \<or> m_Type L = InputLayer \<or> m_Type L = OutputLayer" if "m_LayerOf ?g l = Some L" for l L
    using that by (auto simp: chain_def layer_of_def split: if_splits)
  then have "l = 1 \<or> l = 2" if "m_LayerOf ?g l = Some L" "rearranges (m_Type L)" for l L
    using that by (fastforce simp: rearranges_def)
  ultimately show ?thesis
    using assms unfolding wf_network_def by (fastforce simp: chain_def layer_of_def)
qed

lemma chain_fields:
  "m_LayerOf (n_Graph (chain t a b s0 s1 s2)) 0 = Some (layer_of InputLayer 0 1 7)"
  "m_LayerOf (n_Graph (chain t a b s0 s1 s2)) 1 = Some (layer_of t 1 1 0)"
  "m_LayerOf (n_Graph (chain t a b s0 s1 s2)) 2 = Some (layer_of t 1 1 0)"
  "m_LayerOf (n_Graph (chain t a b s0 s1 s2)) 3 = Some (layer_of OutputLayer 1 0 9)"
  "m_Connection (n_Graph (chain t a b s0 s1 s2)) (1, 0) = Some (0, 0)"
  "m_Connection (n_Graph (chain t a b s0 s1 s2)) (2, 0) = Some (1, 0)"
  "m_Connection (n_Graph (chain t a b s0 s1 s2)) (3, 0) = Some (2, 0)"
  "n_Param (chain t a b s0 s1 s2) 1 = a" "n_Param (chain t a b s0 s1 s2) 2 = b"
  "info_shape (chain t a b s0 s1 s2) (0, 0) = s0" "info_shape (chain t a b s0 s1 s2) (1, 0) = s1"
  "info_shape (chain t a b s0 s1 s2) (2, 0) = s2"
  by (simp_all add: chain_def Graph_make_def)

lemma chain_readers: "m_Connection (n_Graph (chain t a b s0 s1 s2)) r = Some p \<Longrightarrow> p = (0, 0) \<or> p = (1, 0) \<or> p = (2, 0)"
  by (auto simp: chain_def split: if_splits)

text \<open>The input layer gives the tensor \<open>v\<close>.\<close>

definition fixed_input :: "'a tensor \<Rightarrow> 'a meaning" where
  "fixed_input v l i vs = (if l = 0 then Some v else None)"

lemma chain_ok:
  assumes t: "rearranges t" "params_match t a" "params_match t b"
    and v: "is_tensor v0" "rearranged t a v0 = Inr v1" "is_tensor v1" "rearranged t b v1 = Inr v2" "is_tensor v2"
    and laws: "shape_law t a (fst v0) (fst v1)" "shape_law t b (fst v1) (fst v2)"
  defines "net \<equiv> chain t a b (fst v0) (fst v1) (fst v2)"
  shows "network_ok (fixed_input v0) {} net \<and> outputs (fixed_input v0) net 3 v2"
proof -
  have wf: "wf_network net" unfolding net_def by (rule chain_wf [OF t])
  note net = chain_fields [of t a b "fst v0" "fst v1" "fst v2", folded net_def]
  have r: "rearranges (m_Type (layer_of t 1 1 0))" "m_Type (layer_of t 1 1 0) = t" using t by (simp_all add: layer_of_def)
  have 0: "computes (fixed_input v0) net (0, 0) v0"
    by (rule computes.layer [OF net(1), of 0 "[]"])
      (use v in \<open>simp_all add: layer_of_def layer_value_def rearranges_def fixed_input_def\<close>)
  have 1: "computes (fixed_input v0) net (1, 0) v1"
    unfolding rearranging_value [OF wf net(2) r(1)] unfolding net r(2) using 0 v(2,3) by blast
  have 2: "computes (fixed_input v0) net (2, 0) v2"
    unfolding rearranging_value [OF wf net(3) r(1)] unfolding net r(2) using 1 v(4,5) by blast
  have "evaluates (fixed_input v0) net"
    unfolding evaluates_def
  proof (intro allI impI)
    fix p assume "demanded net p"
    then have "p = (0, 0) \<or> p = (1, 0) \<or> p = (2, 0)" unfolding demanded_def net_def using chain_readers by blast
    then show "\<exists>v. computes (fixed_input v0) net p v \<and> info_shape net p = fst v" using 0 1 2 net by metis
  qed
  moreover have "consistent {} net"
    unfolding consistent_def
  proof (intro allI impI, elim conjE)
    fix m L x assume m: "m_LayerOf (n_Graph net) m = Some L" "rearranges (m_Type L)" "m_Connection (n_Graph net) x = Some (m, 0)"
    have "m = 0 \<or> m = 1 \<or> m = 2" using chain_readers [of t a b "fst v0" "fst v1" "fst v2" x] m(3) by (auto simp: net_def)
    moreover have "m \<noteq> 0"
    proof
      assume "m = 0"
      then have "L = layer_of InputLayer 0 1 7" using m(1) net(1) by simp
      then show False using m(2) by (simp add: layer_of_def rearranges_def)
    qed
    ultimately have m12: "m = 1 \<or> m = 2" by blast
    then have L: "L = layer_of t 1 1 0" using m(1) net(2,3) by auto
    have "\<exists>q. m_Connection (n_Graph net) (1, 0) = Some q \<and>
        shape_law t (n_Param net 1) (info_shape net q) (info_shape net (1, 0))"
      using net(5) laws(1) by (intro exI [of _ "(0, 0)"]) (simp only: net(8,10,11))
    moreover have "\<exists>q. m_Connection (n_Graph net) (2, 0) = Some q \<and>
        shape_law t (n_Param net 2) (info_shape net q) (info_shape net (2, 0))"
      using net(6) laws(2) by (intro exI [of _ "(1, 0)"]) (simp only: net(9,11,12))
    ultimately show "\<exists>q. m_Connection (n_Graph net) (m, 0) = Some q \<and>
        shape_law (m_Type L) (n_Param net m) (info_shape net q) (info_shape net (m, 0))"
      unfolding L r(2) using m12 by blast
  qed
  moreover have "outputs (fixed_input v0) net 3 v2" using 2 net by (auto simp: outputs_def layer_type_def layer_of_def)
  ultimately show ?thesis using wf by (simp add: network_ok_def)
qed

text \<open>Two transposes of a matrix.\<close>

abbreviation swap_axes :: PermutationVector where
  "swap_axes \<equiv> \<lparr>m_DimMappings = [1, 0]\<rparr>"

definition two_permutes :: Network where
  "two_permutes = chain PermuteLayer (DimMappings swap_axes) (DimMappings swap_axes) (shape_of [2, 3]) (shape_of [3, 2]) (shape_of [2, 3])"

lemma tensor_of:
  "1 \<le> length ds \<Longrightarrow> length ds \<le> MaxNumOfTensorDimensions \<Longrightarrow> prod_list ds < 2 ^ 32 \<Longrightarrow> length xs = prod_list ds \<Longrightarrow>
   is_tensor (shape_of ds, xs)"
  by (rule is_tensorI [of _ ds]) (simp_all add: specified_shape_def shape_of_def)

lemma two_permutes_ok:
  "network_ok (fixed_input (shape_of [2, 3], [10, 20, 30, 40, 50, 60::nat])) {} two_permutes"
proof -
  let ?v = "(shape_of [2, 3], [10, 20, 30, 40, 50, 60::nat])"
  have vec: "is_vector swap_axes" by (simp add: is_vector_def is_perm_def MaxNumOfTensorDimensions_def)
  have inverse: "IsInverse swap_axes swap_axes" by code_simp
  have v: "is_tensor ?v" by (rule tensor_of; simp add: MaxNumOfTensorDimensions_def)
  have spec: "specified_shape (shape_of ds) ds" for ds by (simp add: specified_shape_def shape_of_def)
  obtain t ts out where w: "permute_value swap_axes ?v = Inr (t, out)" "specified_shape t ts" "length ts = length [2, 3::nat]"
    "pick (m_DimMappings swap_axes) ts = [2, 3]" "prod_list ts = prod_list [2, 3]" "length out = prod_list ts"
    by (rule permute_value_spec [OF vec spec, of "[2, 3]" "snd ?v"]) simp_all
  have "ts = [3, 2]" using w(3,4) by (cases ts; cases "tl ts") (auto simp: pick_def)
  then have t: "t = shape_of [3, 2]" using specified_shape_unique [OF w(2)] spec by simp
  obtain r out' where u: "permute_value swap_axes (t, out) = Inr (r, out')"
    by (rule permute_value_spec [OF vec w(2), of out]) (use w(3,5,6) in simp_all)
  have undo: "(r, out') = ?v" by (rule permute_inverse [OF v vec vec inverse w(1) u])
  note w' = w(1) [unfolded t] and u' = u [unfolded t undo]
  have mid: "is_tensor (shape_of [3, 2], out)" using permute_value_tensor [OF v vec w'] .
  have shape: "Permuted s swap_axes = Inr s'" if "permute_value swap_axes (s, xs) = Inr (s', ys)" for s s' and xs ys :: "nat list"
    using that by (auto simp: permute_value_def)
  let ?p = "DimMappings swap_axes"
  have "network_ok (fixed_input ?v) {} (chain PermuteLayer ?p ?p (fst ?v) (fst (shape_of [3, 2], out)) (fst ?v)) \<and>
    outputs (fixed_input ?v) (chain PermuteLayer ?p ?p (fst ?v) (fst (shape_of [3, 2], out)) (fst ?v)) 3 ?v"
  proof (rule chain_ok)
    show "rearranges PermuteLayer" by (simp add: rearranges_def)
    show "params_match PermuteLayer ?p" using vec by (simp add: params_match_def)
    show "rearranged PermuteLayer ?p ?v = Inr (shape_of [3, 2], out)" "rearranged PermuteLayer ?p (shape_of [3, 2], out) = Inr ?v"
      using w' u' by (simp_all add: rearranged_def)
    show "shape_law PermuteLayer ?p (fst ?v) (fst (shape_of [3, 2], out))"
      "shape_law PermuteLayer ?p (fst (shape_of [3, 2], out)) (fst ?v)"
      using shape [OF w'] shape [OF u'] is_tensor_shape [OF v] is_tensor_shape [OF mid] by (simp_all add: shape_law_def)
  qed (use v mid vec in \<open>simp_all add: params_match_def\<close>)
  then show ?thesis by (simp add: two_permutes_def)
qed

theorem OptimizeInversePermutes_correct_witness:
  "\<exists>net'. OptimizeInversePermutes_Run PermuteLayer (2, 0) two_permutes = Some (Inr net') \<and>
    n_connections net' (0, 0) = [(1, 0), (3, 0)] \<and> n_connections net' (2, 0) = [] \<and>
    preserves (fixed_input (shape_of [2, 3], [10, 20, 30, 40, 50, 60::nat])) two_permutes net' \<and>
    network_ok (fixed_input (shape_of [2, 3], [10, 20, 30, 40, 50, 60::nat])) {} net'"
proof -
  have "IsInverse swap_axes swap_axes" by code_simp
  then show ?thesis
    using OptimizeInversePermutes_correct [OF two_permutes_ok, of PermuteLayer "(2, 0)" swap_axes 1 swap_axes "(0, 0)"]
    by (simp add: two_permutes_def chain_def Graph_make_def layer_type_def layer_of_def)
qed

end
