(* ===== verification/OptimizerReshapes.thy ===== *)
theory OptimizerReshapes
  imports OptimizerSound
begin

section \<open>Erasing layers and inserting reshapes\<close>

text \<open>
  Erasing a layer that nobody reads, permutations replaced by a reshape, and consecutive reshapes merged
  into one.
\<close>

subsection \<open>Erasing a layer that nobody reads\<close>

definition unread :: "Network \<Rightarrow> nat \<Rightarrow> bool" where
  "unread net l \<longleftrightarrow> (\<exists>L. m_LayerOf (n_Graph net) l = Some L \<and> m_NumOutputSlots L > 0) \<and>
     (\<forall>r q. m_Connection (n_Graph net) r = Some q \<longrightarrow> fst q \<noteq> l)"

lemma IsOutputUnconnected_unread:
  assumes "wf_network net" "IsOutputUnconnected (n_Graph net) l = Inr b"
  shows "b \<longleftrightarrow> unread net l"
proof -
  note links = wf_network_links [OF assms(1)]
  obtain L where L0: "m_LayerOf (n_Graph net) l = Some L"
    "b = (m_NumOutputSlots L > 0 \<and> list_all (\<lambda>i. m_Connections (n_Graph net) (l, i) = []) [0..<m_NumOutputSlots L])"
    using assms(2) by (auto simp: IsOutputUnconnected_def)
  then have L: "m_LayerOf (n_Graph net) l = Some L"
    "b \<longleftrightarrow> m_NumOutputSlots L > 0 \<and> (\<forall>i < m_NumOutputSlots L. m_Connections (n_Graph net) (l, i) = [])"
    by (simp_all add: list_all_iff Ball_def)
  have "(\<forall>i < m_NumOutputSlots L. m_Connections (n_Graph net) (l, i) = []) \<longleftrightarrow>
      (\<forall>r q. m_Connection (n_Graph net) r = Some q \<longrightarrow> fst q \<noteq> l)"
  proof
    assume none: "\<forall>i < m_NumOutputSlots L. m_Connections (n_Graph net) (l, i) = []"
    show "\<forall>r q. m_Connection (n_Graph net) r = Some q \<longrightarrow> fst q \<noteq> l"
    proof (intro allI impI notI)
      fix r q assume q: "m_Connection (n_Graph net) r = Some q" "fst q = l"
      have "valid_out (n_Graph net) q" using wf_links_valid [OF links q(1)] by simp
      then have "snd q < m_NumOutputSlots L" using L(1) q(2) by (auto simp: valid_out_def)
      then have "m_Connections (n_Graph net) q = []" using none q(2) by (cases q) simp
      then show False using wf_links_mem [OF links, of r q] q(1) by simp
    qed
  next
    assume "\<forall>r q. m_Connection (n_Graph net) r = Some q \<longrightarrow> fst q \<noteq> l"
    then show "\<forall>i < m_NumOutputSlots L. m_Connections (n_Graph net) (l, i) = []"
      using wf_links_mem [OF links] by (metis fst_conv list.set_intros(1) neq_Nil_conv)
  qed
  then show ?thesis using L by (auto simp: unread_def)
qed

lemma unread_not_live:
  assumes "wf_network net" "unread net l"
  shows "\<not> live net l"
proof
  assume "live net l"
  moreover obtain L where L: "m_LayerOf (n_Graph net) l = Some L" "m_NumOutputSlots L > 0"
    using assms(2) by (auto simp: unread_def)
  then have "valid_out (n_Graph net) (l, 0)" by (simp add: valid_out_def)
  then have "n_type net l \<noteq> Some OutputLayer"
    using valid_out_not_output [of "n_Graph net" "(l, 0)"] assms(1) by (simp add: wf_network_def)
  ultimately obtain out where "(out, l) \<in> (feeds (n_Graph net))\<^sup>+"
    unfolding live_def by (metis rtranclD)
  then obtain m where "(m, l) \<in> feeds (n_Graph net)" by (metis tranclE)
  then show False using assms(2) by (auto simp: feeds_iff unread_def)
qed

lemma erase_sound:
  assumes ok: "network_ok sem X net" and l: "unread net l"
    and erase: "EraseLayer l (n_Graph net) = Inr h"
  shows "network_ok sem (X - {l}) (net\<lparr>n_Graph := h\<rparr>) \<and> preserves sem net (net\<lparr>n_Graph := h\<rparr>)"
proof -
  let ?g = "n_Graph net" and ?net = "net\<lparr>n_Graph := h\<rparr>"
  have wf: "wf_network net" and ev: "evaluates sem net" and co: "consistent X net"
    using ok by (auto simp: network_ok_def)
  have graph: "wf_graph ?g" using wf by (simp add: wf_network_def)
  note t = EraseLayer_trimmed [OF graph erase]
  have layers: "m_LayerOf h = (m_LayerOf ?g)(l := None)" and info: "m_TensorInfo h = m_TensorInfo ?g"
    using t by (auto simp: trimmed_def)
  have down: "m_Connection ?g r = Some q" if "m_Connection h r = Some q" for r q
    using t that unfolding trimmed_def by blast
  have up: "m_Connection h r = Some q" if "m_Connection ?g r = Some q" "fst r \<noteq> l" for r q
  proof -
    have "fst q \<noteq> l" using l that(1) unfolding unread_def by blast
    then show ?thesis using t that unfolding trimmed_def by blast
  qed
  have wfh: "wf_graph h" using t by simp
  have not_l: "fst r \<noteq> l" if "m_Connection h r = Some q" for r q
    using wf_links_valid [of h r q] wfh that layers by (auto simp: wf_graph_def valid_in_def)
  have wf': "wf_network ?net"
    unfolding wf_network_def
  proof (intro conjI allI impI)
    fix m L assume m: "m_LayerOf (n_Graph ?net) m = Some L \<and> rearranges (m_Type L)"
    then have "m_LayerOf ?g m = Some L" "rearranges (m_Type L)" using layers by (auto split: if_splits)
    note r = wf_network_rearranges [OF wf this]
    show "m_NumInputSlots L = 1" "m_NumOutputSlots L = 1" "params_match (m_Type L) (n_Param ?net m)"
      using r by simp_all
    have "m \<noteq> l" using m layers by auto
    then show "m_Connection (n_Graph ?net) (m, 0) \<noteq> None" using r(4) up [of "(m, 0)"] by auto
  qed (use wf wfh layers in \<open>simp_all add: wf_network_def\<close>)
  have types: "n_type ?net m = (if m = l then None else n_type net m)" for m by (simp add: layer_type_def layers)
  have dead: "\<not> live net l" by (rule unread_not_live [OF wf l])
  have live: "live net m" if "live ?net m" for m
    using that
  proof (rule live_induct)
    show "live net out" if "n_type ?net out = Some OutputLayer" for out
      using that live_output types by (simp split: if_splits)
    show "live net (fst q)" if "live net k" "m_Connection (n_Graph ?net) (k, i) = Some q" for k i q
    proof -
      have "m_Connection ?g (k, i) = Some q" using that(2) down by simp
      then show ?thesis by (rule demanded_live [OF live_demanded [OF that(1)]])
    qed
  qed
  have dem: "demanded net p" if d: "demanded ?net p" for p
  proof -
    obtain r where "live ?net (fst r)" "m_Connection h r = Some p" using d by (auto simp: demanded_def)
    then show ?thesis using live down unfolding demanded_def by blast
  qed
  have "redirected net ?net id {}"
    unfolding redirected_def
  proof (intro conjI allI impI)
    fix m L assume m: "m_LayerOf ?g m = Some L \<and> live net m \<and> m \<notin> {}"
    then have ne: "m \<noteq> l" using dead by blast
    show "m_LayerOf (n_Graph ?net) m = Some L" using m ne layers by simp
    show "m_Connection (n_Graph ?net) (m, k) = Some (id q)" if "m_Connection ?g (m, k) = Some q" for k q
      using up [OF that] ne by simp
  next
    show "\<exists>q. demanded net q \<and> p = id q \<and> info_shape ?net p = info_shape net q" if "demanded ?net p" for p
      using dem [OF that] info by (intro exI [of _ p]) simp
  qed (use types in \<open>auto split: if_splits\<close>)
  then have "preserves sem net ?net \<and> evaluates sem ?net"
    by (rule redirect_preserves [OF _ ev wf_network_links [OF wf]]) simp
  moreover have "consistent (X - {l}) ?net"
    unfolding consistent_def
  proof (intro allI impI, elim conjE)
    fix m L r assume m: "m_LayerOf (n_Graph ?net) m = Some L" "rearranges (m_Type L)" "m \<notin> X - {l}"
      "m_Connection (n_Graph ?net) r = Some (m, 0)" "fst r \<notin> X - {l}"
    have ml: "m \<noteq> l" "m_LayerOf ?g m = Some L" using m(1) layers by (auto split: if_splits)
    have r: "m_Connection ?g r = Some (m, 0)" "fst r \<notin> X" using down m(4,5) not_l by auto
    obtain q where "m_Connection ?g (m, 0) = Some q"
      "shape_law (m_Type L) (n_Param net m) (info_shape net q) (info_shape net (m, 0))"
      using consistentE [OF co ml(2) m(2) _ r] m(3) ml(1) by blast
    then show "\<exists>q. m_Connection (n_Graph ?net) (m, 0) = Some q \<and>
        shape_law (m_Type L) (n_Param ?net m) (info_shape ?net q) (info_shape ?net (m, 0))"
      using up [of "(m, 0)" q] ml(1) info by auto
  qed
  ultimately show ?thesis using wf' by (simp add: network_ok_def)
qed

lemma network_ok_mono: "network_ok sem X net \<Longrightarrow> X \<subseteq> Y \<Longrightarrow> network_ok sem Y net"
  unfolding network_ok_def consistent_def by (meson subsetD)

text \<open>Reordering the list of layers.\<close>

lemma network_ok_reorder:
  assumes "network_ok sem X net" "wf_graph h" "m_LayerOf h = m_LayerOf (n_Graph net)"
    "m_Connection h = m_Connection (n_Graph net)" "m_TensorInfo h = m_TensorInfo (n_Graph net)"
    "n_Graph net' = h" "n_Param net' = n_Param net" "n_Next net' = n_Next net"
  shows "network_ok sem X net' \<and> preserves sem net net'"
proof -
  have types: "n_type net' = n_type net" using assms(3,6) by (simp add: layer_type_def fun_eq_iff)
  have feeds: "feeds h = feeds (n_Graph net)" using assms(4) by (auto simp: feeds_iff)
  have wf: "wf_network net'" using assms by (auto simp: network_ok_def wf_network_def)
  have "live net' = live net" "demanded net' = demanded net"
    using assms(4,6) types feeds by (auto simp: live_def demanded_def fun_eq_iff)
  moreover have "computes sem net' p v" if "computes sem net p v" for p v
    using that
  proof (induction rule: computes.induct)
    case (layer l L i vs v)
    then show ?case using assms by (intro computes.layer [of net' l L i vs]) auto
  qed
  ultimately show ?thesis
    using assms wf types by (auto simp: network_ok_def evaluates_def consistent_def preserves_def outputs_def; blast)
qed


subsection \<open>Inserting a reshape in place of an output slot\<close>

text \<open>
  A new reshape layer is inserted before the slot \<open>r\<close>, which reads \<open>src\<close>, and takes over the readers of
  the slot \<open>a\<close>.
\<close>

definition inserted :: "TensorShape \<Rightarrow> slot \<Rightarrow> slot \<Rightarrow> slot \<Rightarrow> Network \<Rightarrow> Network \<Rightarrow> bool" where
  "inserted s r src a net net' \<longleftrightarrow>
     wf_network net' \<and>
     (\<exists>name. m_LayerOf (n_Graph net') = (m_LayerOf (n_Graph net))(n_Next net \<mapsto> new_ReshapeLayer name)) \<and>
     n_Param net' = (n_Param net)(n_Next net := TargetShape s) \<and>
     m_Connection (n_Graph net') = (\<lambda>x. if x = r then Some (n_Next net, 0)
        else if x = (n_Next net, 0) then Some (swap_slot a (n_Next net, 0) src)
        else map_option (swap_slot a (n_Next net, 0)) (m_Connection (n_Graph net) x)) \<and>
     (\<forall>q. fst q \<noteq> n_Next net \<longrightarrow> info_shape net' q = info_shape net q) \<and>
     ((\<exists>x. m_Connection (n_Graph net) x = Some a) \<longrightarrow> info_shape net' (n_Next net, 0) = info_shape net a)"

lemma inserted_Inr:
  assumes wf: "wf_network net" and r: "m_Connection (n_Graph net) r = Some src"
    and a: "valid_out (n_Graph net) a"
    and run: "insert_reshape name s r net = Inr net1"
      "on_graph (MoveAllConnections a (n_Next net, 0)) net1 = Some (Inr net')"
  shows "inserted s r src a net net'"
proof -
  let ?g = "n_Graph net" and ?N = "n_Next net" and ?L = "new_ReshapeLayer name"
  note links = wf_network_links [OF wf]
  have graph: "wf_graph ?g" using wf by (simp add: wf_network_def)
  have N: "m_LayerOf ?g ?N = None" using wf by (simp add: wf_network_def)
  have vr: "valid_in ?g r" using wf_links_valid [OF links r] by simp
  have rN: "fst r \<noteq> ?N" "fst a \<noteq> ?N" using vr a N by (auto simp: valid_in_def valid_out_def)
  have slots: "slots_of_type ?L" by (simp add: slots_of_type_def new_ReshapeLayer_def)
  obtain g1 where g1: "InsertNewLayer_before ?N ?L r ?g = Inr g1"
    and net1: "n_Graph net1 = g1" "n_Param net1 = (n_Param net)(?N := TargetShape s)" "n_Next net1 = Suc ?N"
    using run(1) by (auto simp: insert_reshape_def)
  note ins = InsertNewLayer_before_Inr [OF g1 graph N slots vr r]
  have conn1: "m_Connection g1 = (m_Connection ?g)((?N, 0) \<mapsto> src, r \<mapsto> (?N, 0))" using ins by blast
  have wf1: "wf_network net1"
    unfolding wf_network_def
  proof (intro conjI allI impI)
    show "wf_graph (n_Graph net1)" using ins net1 by simp
    show "m_LayerOf (n_Graph net1) l = None" if "n_Next net1 \<le> l" for l
      using that ins net1 wf by (simp add: wf_network_def)
    fix l L assume l: "m_LayerOf (n_Graph net1) l = Some L \<and> rearranges (m_Type L)"
    then have "l = ?N \<and> L = ?L \<or> l \<noteq> ?N \<and> m_LayerOf ?g l = Some L" using ins net1 by (auto split: if_splits)
    then show "m_NumInputSlots L = 1" "m_NumOutputSlots L = 1" "params_match (m_Type L) (n_Param net1 l)"
      "m_Connection (n_Graph net1) (l, 0) \<noteq> None"
      using wf_network_rearranges [OF wf, of l L] l net1 conn1 by (auto simp: new_ReshapeLayer_def params_match_def)
  qed
  have vN: "valid_out (n_Graph net1) (?N, 0)" using ins net1 by (simp add: valid_out_def new_ReshapeLayer_def)
  have moved: "moved_network a (?N, 0) net1 net'" by (rule on_graph_moved [OF run(2) wf1 vN])
  note wf' = moved_wf [OF moved wf1]
  have conn': "m_Connection (n_Graph net') x = map_option (swap_slot a (?N, 0)) (m_Connection g1 x)" for x
    using moved_connection [OF moved] net1(1) by simp
  have swapN: "swap_slot a (?N, 0) (?N, 0) = (?N, 0)" by (auto simp: swap_slot_def)
  have readers: "m_Connections g1 a \<noteq> []" if "m_Connection ?g x = Some a" for x
  proof -
    have "m_Connection g1 (if x = r then (?N, 0) else x) = Some a"
    proof (cases "x = r")
      case True
      then show ?thesis using that r conn1 rN by auto
    next
      case False
      have "fst x \<noteq> ?N" using wf_links_valid [OF links that] N by (auto simp: valid_in_def)
      then show ?thesis using False that conn1 by auto
    qed
    then show ?thesis using wf_links_mem [OF wf_network_links [OF wf1]] net1(1) by (metis list.set(1) empty_iff)
  qed
  have info: "m_TensorInfo (n_Graph net') = (if m_Connections g1 a = [] then m_TensorInfo g1
      else (m_TensorInfo g1)((?N, 0) := m_TensorInfo g1 a))"
    using moved net1(1) by (simp add: moved_network_def moved_def)
  have info1: "m_TensorInfo g1 q = m_TensorInfo ?g q" if "fst q \<noteq> ?N" for q using ins that by blast
  show ?thesis
    unfolding inserted_def
  proof (intro conjI allI impI)
    show "wf_network net'" by (rule wf'(1))
    show "\<exists>name. m_LayerOf (n_Graph net') = (m_LayerOf ?g)(?N \<mapsto> new_ReshapeLayer name)"
      using wf'(2) ins net1(1) by auto
    show "n_Param net' = (n_Param net)(?N := TargetShape s)" using moved net1 by (simp add: moved_network_def)
    show "m_Connection (n_Graph net') = (\<lambda>x. if x = r then Some (?N, 0)
        else if x = (?N, 0) then Some (swap_slot a (?N, 0) src)
        else map_option (swap_slot a (?N, 0)) (m_Connection ?g x))"
      using conn' conn1 swapN by (auto simp: fun_eq_iff)
    show "info_shape net' q = info_shape net q" if "fst q \<noteq> ?N" for q
      using info info1 [OF that] that by (cases q) auto
    assume "\<exists>x. m_Connection ?g x = Some a"
    then show "info_shape net' (?N, 0) = info_shape net a" using readers info info1 [OF rN(2)] by auto
  qed
qed

lemma inserted_facts:
  assumes "inserted s r src a net net'"
  shows "wf_network net'"
    "m_LayerOf (n_Graph net') l = Some L \<Longrightarrow> l \<noteq> n_Next net \<Longrightarrow> m_LayerOf (n_Graph net) l = Some L"
    "m_LayerOf (n_Graph net) l = Some L \<Longrightarrow> l \<noteq> n_Next net \<Longrightarrow> m_LayerOf (n_Graph net') l = Some L"
    "\<exists>name. m_LayerOf (n_Graph net') (n_Next net) = Some (new_ReshapeLayer name)"
    "l \<noteq> n_Next net \<Longrightarrow> n_Param net' l = n_Param net l" "n_Param net' (n_Next net) = TargetShape s"
    "x \<noteq> r \<Longrightarrow> x \<noteq> (n_Next net, 0) \<Longrightarrow>
      m_Connection (n_Graph net') x = map_option (swap_slot a (n_Next net, 0)) (m_Connection (n_Graph net) x)"
    "m_Connection (n_Graph net') r = Some (n_Next net, 0)"
    "r \<noteq> (n_Next net, 0) \<Longrightarrow> m_Connection (n_Graph net') (n_Next net, 0) = Some (swap_slot a (n_Next net, 0) src)"
  using assms by (auto simp: inserted_def)

lemma inserted_infos:
  assumes "inserted s r src a net net'"
  shows "fst q \<noteq> n_Next net \<Longrightarrow> info_shape net' q = info_shape net q"
    "m_Connection (n_Graph net) x = Some a \<Longrightarrow> info_shape net' (n_Next net, 0) = info_shape net a"
  using assms unfolding inserted_def by blast+

lemma inserted_moves:
  assumes ins: "inserted s r src a net net'" and "r \<noteq> (n_Next net, 0)" "a \<noteq> (n_Next net, 0)"
    and x: "m_Connection (n_Graph net') x = Some q"
  shows "q \<noteq> a"
proof -
  have swap: "swap_slot a (n_Next net, 0) y \<noteq> a" for y using assms(3) by (simp add: swap_slot_def)
  consider "x = r" | "x = (n_Next net, 0)" | "x \<noteq> r" "x \<noteq> (n_Next net, 0)" by blast
  then show ?thesis
  proof cases
    case 3
    then show ?thesis using inserted_facts(7) [OF ins] x swap by (cases "m_Connection (n_Graph net) x") auto
  qed (use x inserted_facts(8) [OF ins] inserted_facts(9) [OF ins assms(2)] swap [of src] assms(3) in auto)
qed

text \<open>A layer before \<open>a\<close> is evaluated without \<open>a\<close>.\<close>

definition feeds_slot :: "Network \<Rightarrow> slot \<Rightarrow> slot \<Rightarrow> bool" where
  "feeds_slot net r a \<longleftrightarrow> fst r = fst a \<or>
     m_Connection (n_Graph net) (fst a, 0) = Some (fst r, 0) \<and>
     (\<forall>x. m_Connection (n_Graph net) x = Some (fst r, 0) \<longrightarrow> x = (fst a, 0))"

lemma feeds_slot_acyclic:
  assumes wf: "wf_network net" and ev: "evaluates sem net" and "feeds_slot net r a" "demanded net a"
    and r: "m_Connection (n_Graph net) r = Some src"
  shows "demanded net src" "fst src \<noteq> fst a" "fst src \<noteq> fst r"
proof -
  let ?g = "n_Graph net"
  note links = wf_network_links [OF wf]
  have reads: "reads net (fst q) (fst x)" if "m_Connection ?g x = Some q" for x q
    using wf_links_valid [OF links that] that unfolding reads_def valid_in_def by (metis prod.collapse)
  have step: "fst r = fst a \<or> m_Connection ?g (fst a, 0) = Some (fst r, 0)"
    using assms(3) by (auto simp: feeds_slot_def)
  have live: "live net (fst a)" using demanded_live [OF assms(4)] .
  then have "live net (fst r)"
    using step demanded_live [OF live_demanded [OF live], of 0 "(fst r, 0)"] by auto
  then show src: "demanded net src" using live_demanded [of net "fst r" "snd r"] r by simp
  have s: "reads net (fst src) (fst r)" using reads [OF r] .
  obtain v where "computes sem net src v" using evaluatesE [OF ev src] .
  then show "fst src \<noteq> fst r" using s computes_no_cycle by (metis tranclp.r_into_trancl)
  obtain w where w: "computes sem net a w" using evaluatesE [OF ev assms(4)] .
  have "(reads net)\<^sup>+\<^sup>+ (fst src) (fst a)"
    using step s reads [of "(fst a, 0)" "(fst r, 0)"] by (auto intro: tranclp.intros)
  then show "fst src \<noteq> fst a" using computes_no_cycle [OF w] by auto
qed

lemma inserted_redirected:
  assumes wf: "wf_network net" and ev: "evaluates sem net"
    and ins: "inserted s r src a net net'" and r: "m_Connection (n_Graph net) r = Some src"
    and A: "m_LayerOf (n_Graph net) (fst a) = Some A" "rearranges (m_Type A)" "snd a = 0"
    and B: "m_LayerOf (n_Graph net) (fst r) = Some B" "rearranges (m_Type B)"
    and path: "feeds_slot net r a"
  shows "redirected net net' (swap_slot a (n_Next net, 0)) {fst a, fst r}"
proof -
  let ?g = "n_Graph net" and ?N = "n_Next net" and ?f = "swap_slot a (n_Next net, 0)"
  note links = wf_network_links [OF wf]
  have fresh: "l \<noteq> ?N" if "m_LayerOf ?g l = Some L" for l L using wf that by (auto simp: wf_network_def)
  have srcN: "fst q \<noteq> ?N" "fst x \<noteq> ?N" if "m_Connection ?g x = Some q" for x q
    using wf_links_valid [OF links that] fresh by (auto simp: valid_in_def valid_out_def)
  have rN: "r \<noteq> (?N, 0)" using srcN(2) [OF r] by auto
  have single: "q = (fst q, 0)" if "m_Connection ?g x = Some q" "fst q = fst a \<or> fst q = fst r" for x q
    using rearranging_slot [OF wf] wf_links_valid [OF links that(1)] that(2) A B by metis
  have outputs: "n_type net (fst a) \<noteq> Some OutputLayer" "n_type net (fst r) \<noteq> Some OutputLayer"
    using A B by (auto simp: layer_type_def rearranges_def)
  have N_type: "n_type net' ?N \<noteq> Some OutputLayer"
    using inserted_facts(4) [OF ins] by (auto simp: layer_type_def new_ReshapeLayer_def)
  have types: "n_type net l = Some OutputLayer" if "n_type net' l = Some OutputLayer" for l
  proof -
    have "l \<noteq> ?N" using that N_type by auto
    then show ?thesis using that inserted_facts(2) [OF ins] by (auto simp: layer_type_def)
  qed
  have keep: "m_Connection (n_Graph net') (l, k) = map_option ?f (m_Connection ?g (l, k))"
    if "l \<noteq> fst r" "l \<noteq> ?N" for l k
    using inserted_facts(7) [OF ins, of "(l, k)"] that by (cases r) auto
  have target: "fst q \<notin> {fst a, fst r} \<or> q = a"
    if "m_Connection ?g (l, k) = Some q" "l \<notin> {fst a, fst r}" for l k q
  proof (rule ccontr)
    assume not: "\<not> ?thesis"
    then have "q = (fst r, 0)" "fst r \<noteq> fst a" using single [OF that(1)] A(3) by (auto simp: prod_eq_iff)
    then have "(l, k) = (fst a, 0)" using path that(1) by (auto simp: feeds_slot_def)
    then show False using that(2) by simp
  qed
  let ?P = "\<lambda>l. l = ?N \<and> demanded net a \<or> l \<noteq> ?N \<and> live net l \<and> l \<notin> {fst a, fst r}"
  have step: "\<exists>q. demanded net q \<and> p = ?f q \<and> info_shape net' p = info_shape net q \<and> ?P (fst p)"
    if Pl: "?P l" and lp: "m_Connection (n_Graph net') (l, k) = Some p" for l k p
  proof (cases "l = ?N")
    case True
    then have dem: "demanded net a" using Pl by simp
    note src = feeds_slot_acyclic [OF wf ev path dem r]
    have "valid_in (n_Graph net') (?N, k)"
      using wf_links_valid [OF wf_network_links [OF inserted_facts(1) [OF ins]] lp] True by simp
    then have "k = 0" using inserted_facts(4) [OF ins] by (auto simp: valid_in_def new_ReshapeLayer_def)
    then have "p = ?f src" using lp inserted_facts(9) [OF ins rN] True by simp
    moreover have "?f src = src" using src(2) by (auto simp: swap_slot_def)
    moreover have "?P (fst src)" using src demanded_live srcN(1) [OF r] by blast
    ultimately show ?thesis
      using src(1) inserted_infos(1) [OF ins srcN(1) [OF r]] by metis
  next
    case False
    then have l: "live net l" "l \<notin> {fst a, fst r}" using Pl by auto
    then obtain q where q: "m_Connection ?g (l, k) = Some q" "p = ?f q" using keep [of l k] lp False
      by (cases "m_Connection ?g (l, k)") auto
    have dem: "demanded net q" using live_demanded [OF l(1) q(1)] .
    show ?thesis
    proof (cases "q = a")
      case True
      then have "p = (?N, 0)" using q(2) by (simp add: swap_slot_def)
      then show ?thesis
        using q True dem inserted_infos(2) [OF ins, of "(l, k)"] by (intro exI [of _ a]) auto
    next
      case False
      then have "p = q" using q(2) by (simp add: swap_slot_def)
      moreover have "?P (fst q)" using target [OF q(1) l(2)] False srcN(1) [OF q(1)] demanded_live [OF dem] by blast
      ultimately show ?thesis using q(2) dem inserted_infos(1) [OF ins srcN(1) [OF q(1)]] by metis
    qed
  qed
  have live': "?P l" if "live net' l" for l
    using that
  proof (rule live_induct)
    show "?P out" if "n_type net' out = Some OutputLayer" for out
      using types [OF that] live_output that outputs N_type by blast
    show "?P (fst q)" if "?P l" "m_Connection (n_Graph net') (l, k) = Some q" for l k q
      using step [OF that] by blast
  qed
  show ?thesis
    unfolding redirected_def
  proof (intro conjI allI impI)
    fix l L assume l: "m_LayerOf ?g l = Some L \<and> live net l \<and> l \<notin> {fst a, fst r}"
    then have lN: "l \<noteq> ?N" using fresh by blast
    show "m_LayerOf (n_Graph net') l = Some L" using inserted_facts(3) [OF ins] l lN by blast
    show "n_Param net' l = n_Param net l" using inserted_facts(5) [OF ins lN] .
    show "?f (l, i) = (l, i)" for i using l by (auto simp: swap_slot_def)
    show "m_Connection (n_Graph net') (l, k) = Some (?f q)" if "m_Connection ?g (l, k) = Some q" for k q
      using keep [of l k] that l lN by simp
  next
    fix p assume "demanded net' p"
    then obtain x where x: "live net' (fst x)" "m_Connection (n_Graph net') (fst x, snd x) = Some p"
      by (auto simp: demanded_def)
    then show "\<exists>q. demanded net q \<and> p = ?f q \<and> info_shape net' p = info_shape net q"
      using step [OF live' [OF x(1)] x(2)] by blast
  qed (use types outputs in auto)
qed

lemma inserted_consistent:
  assumes wf: "wf_network net" and co: "consistent {} net"
    and ins: "inserted s r src a net net'" and r: "m_Connection (n_Graph net) r = Some src"
    and shape: "info_shape net a = s"
  shows "consistent {fst r} net'"
  unfolding consistent_def
proof (intro allI impI, elim conjE)
  let ?g = "n_Graph net" and ?N = "n_Next net" and ?f = "swap_slot a (n_Next net, 0)"
  note links = wf_network_links [OF wf]
  have fresh: "l \<noteq> ?N" if "m_LayerOf ?g l = Some L" for l L using wf that by (auto simp: wf_network_def)
  have N: "fst q \<noteq> ?N" "fst x \<noteq> ?N" if "m_Connection ?g x = Some q" for x q
    using wf_links_valid [OF links that] fresh by (auto simp: valid_in_def valid_out_def)
  have rN: "r \<noteq> (?N, 0)" using N(2) [OF r] by auto
  fix m L x
  assume m: "m_LayerOf (n_Graph net') m = Some L" "rearranges (m_Type L)" "m \<notin> {fst r}"
    "m_Connection (n_Graph net') x = Some (m, 0)" "fst x \<notin> {fst r}"
  have xr: "x \<noteq> r" using m(5) by auto
  obtain y p where y: "m_Connection ?g y = Some p" "(m, 0) = ?f p"
  proof (cases "x = (?N, 0)")
    case True
    then show thesis using that [OF r] m(4) inserted_facts(9) [OF ins rN] by simp
  next
    case False
    then show thesis using that [of x] m(4) inserted_facts(7) [OF ins xr] by auto
  qed
  show "\<exists>q. m_Connection (n_Graph net') (m, 0) = Some q \<and>
      shape_law (m_Type L) (n_Param net' m) (info_shape net' q) (info_shape net' (m, 0))"
  proof (cases "m = ?N")
    case True
    then have "p = a" using y N(1) [OF y(1)] by (auto simp: swap_slot_def split: if_splits)
    then have "info_shape net' (?N, 0) = s" using inserted_infos(2) [OF ins] y(1) shape by simp
    moreover have "m_Type L = ReshapeLayer" using inserted_facts(4) [OF ins] m(1) True by (auto simp: new_ReshapeLayer_def)
    ultimately show ?thesis
      using True inserted_facts(6) [OF ins] inserted_facts(9) [OF ins rN] by (simp add: shape_law_def)
  next
    case False
    then have p: "p = (m, 0)" using y(2) by (auto simp: swap_slot_def split: if_splits)
    have L: "m_LayerOf ?g m = Some L" using inserted_facts(2) [OF ins m(1) False] .
    obtain q where q: "m_Connection ?g (m, 0) = Some q"
      "shape_law (m_Type L) (n_Param net m) (info_shape net q) (info_shape net (m, 0))"
      by (rule consistentE [OF co L m(2) _ y(1) [unfolded p]]) auto
    have "(m, 0) \<noteq> r" "(m, 0) \<noteq> (?N, 0)" using m(3) False by auto
    then have "m_Connection (n_Graph net') (m, 0) = Some (?f q)" using inserted_facts(7) [OF ins] q(1) by simp
    moreover have "info_shape net' (?f q) = info_shape net q"
      using inserted_infos(1) [OF ins N(1) [OF q(1)]] inserted_infos(2) [OF ins, of "(m, 0)"] q(1)
      by (auto simp: swap_slot_def)
    moreover have "info_shape net' (m, 0) = info_shape net (m, 0)" using inserted_infos(1) [OF ins] False by simp
    ultimately show ?thesis using q(2) inserted_facts(5) [OF ins False] by auto
  qed
qed

text \<open>The value of the new layer.\<close>

lemma inserted_value:
  assumes "inserted s r src a net net'" "r \<noteq> (n_Next net, 0)" "computes sem net' (swap_slot a (n_Next net, 0) src) w"
    "reshape_value s w = Inr v" "is_tensor v"
  shows "computes sem net' (n_Next net, 0) v"
proof -
  obtain name where N: "m_LayerOf (n_Graph net') (n_Next net) = Some (new_ReshapeLayer name)"
    using inserted_facts(4) [OF assms(1)] by blast
  have type: "rearranges (m_Type (new_ReshapeLayer name))"
    and v: "rearranged (m_Type (new_ReshapeLayer name)) (n_Param net' (n_Next net)) w = Inr v"
    using inserted_facts(6) [OF assms(1)] assms(4) by (simp_all add: new_ReshapeLayer_def rearranges_def rearranged_def)
  show ?thesis
    using rearranging_value [OF inserted_facts(1) [OF assms(1)] N type] v assms(3,5) inserted_facts(9) [OF assms(1,2)]
    by blast
qed

lemma new_reshape_shape:
  assumes "inserted s r src a net net'" "computes sem net' (n_Next net, 0) z"
  shows "fst z = s"
proof -
  obtain name where N: "m_LayerOf (n_Graph net') (n_Next net) = Some (new_ReshapeLayer name)"
    using inserted_facts(4) [OF assms(1)] by blast
  have type: "rearranges (m_Type (new_ReshapeLayer name))" by (simp add: new_ReshapeLayer_def rearranges_def)
  obtain w where "rearranged (m_Type (new_ReshapeLayer name)) (TargetShape s) w = Inr z"
    using assms(2) inserted_facts(6) [OF assms(1)]
    unfolding rearranging_value [OF inserted_facts(1) [OF assms(1)] N type] by auto
  then show ?thesis by (auto simp: rearranged_def reshape_value_Inr)
qed

subsection \<open>Permutations that are reshapes\<close>

lemma rearranged_is_reshape:
  assumes "is_tensor w" "is_vector p" "t = PermuteLayer \<or> t = TransposeLayer"
    "rearranged t (DimMappings p) w = Inr v" "IsReshape t (fst v) p = Inr True"
  shows "snd v = snd w"
  using assms permute_is_reshape [of w p "fst v" "snd v"] transpose_is_reshape [of w p "fst v" "snd v"]
  by (auto simp: rearranged_def IsReshape_def split: if_splits)

lemma reshape_same_elements:
  assumes "is_tensor v" "snd v = snd w"
  shows "reshape_value (fst v) w = Inr v"
  using assms by (cases v) (simp add: reshape_value_Inr is_tensor_iff)

text \<open>
  C6: \<open>PermuteAsReshape\<close> and \<open>TransposeAsReshape\<close> replace the right layers. When \<open>IsReshape\<close> accepts
  the mappings of a permutation or a transposition for the shape of its output, rearranging any tensor
  to that shape moves none of its elements in memory: a reshape layer computes the same.
\<close>

theorem IsReshape_exact:
  assumes "is_tensor w" "is_vector p" "t = PermuteLayer \<or> t = TransposeLayer"
    "rearranged t (DimMappings p) w = Inr v" "IsReshape t (fst v) p = Inr True"
  shows "reshape_value (fst v) w = Inr v"
proof -
  have "is_tensor v"
    using assms(1-4) permute_value_tensor [of w p v] transpose_value_tensor [of w p v]
    by (auto simp: rearranged_def split: if_splits)
  then show ?thesis by (rule reshape_same_elements) (rule rearranged_is_reshape [OF assms])
qed

theorem IsReshape_exact_witness:
  "\<exists>v. rearranged PermuteLayer (DimMappings swap_axes) (shape_of [1, 3], [7, 8, 9::nat]) = Inr v \<and>
    reshape_value (fst v) (shape_of [1, 3], [7, 8, 9]) = Inr v"
proof -
  let ?w = "(shape_of [1, 3], [7, 8, 9::nat])"
  have vec: "is_vector swap_axes" by (simp add: is_vector_def is_perm_def MaxNumOfTensorDimensions_def)
  have w: "is_tensor ?w" by (rule tensor_of; simp add: MaxNumOfTensorDimensions_def)
  have spec: "specified_shape (shape_of ds) ds" for ds by (simp add: specified_shape_def shape_of_def)
  obtain t ts out where v: "permute_value swap_axes ?w = Inr (t, out)" "specified_shape t ts" "length ts = length [1, 3::nat]"
    "pick (m_DimMappings swap_axes) ts = [1, 3]"
    by (rule permute_value_spec [OF vec spec, of "[1, 3]" "snd ?w"]) simp_all
  have "ts = [3, 1]" using v(3,4) by (cases ts; cases "tl ts") (auto simp: pick_def)
  then have t: "t = shape_of [3, 1]" using specified_shape_unique [OF v(2)] spec by simp
  have v': "rearranged PermuteLayer (DimMappings swap_axes) ?w = Inr (t, out)" using v(1) by (simp add: rearranged_def)
  have "IsReshape_permute (shape_of [3, 1]) swap_axes = Inr True" by code_simp
  then have "IsReshape PermuteLayer (fst (t, out)) swap_axes = Inr True" by (simp add: IsReshape_def t)
  from IsReshape_exact [OF w vec _ v' this] show ?thesis using v' by auto
qed

lemma PermuteAsReshape_sound:
  assumes ok: "network_ok sem {} net" and type: "n_type net l = Some t"
    and t: "t = PermuteLayer \<or> t = TransposeLayer"
    and run: "PermuteAsReshape_Run t l net = Some (Inr net')"
  shows "(network_ok sem {} net' \<or> network_ok sem {l} net' \<and> unread net' l) \<and> preserves sem net net'"
proof (cases "net' = net")
  case True
  then show ?thesis using ok by simp
next
  case False
  let ?g = "n_Graph net" and ?N = "n_Next net" and ?a = "(l, 0::nat)"
  have wf: "wf_network net" and ev: "evaluates sem net" and co: "consistent {} net"
    using ok by (auto simp: network_ok_def)
  note links = wf_network_links [OF wf]
  obtain A where A: "m_LayerOf ?g l = Some A" "m_Type A = t" using type by (auto simp: layer_type_def)
  have rA: "rearranges (m_Type A)" using A t by (auto simp: rearranges_def)
  note one = wf_network_rearranges [OF wf A(1) rA]
  obtain p where p: "n_Param net l = DimMappings p" "is_vector p"
    using one(3) A(2) t by (auto simp: params_match_def)
  let ?s = "info_shape net ?a"
  obtain b where b: "IsReshape t ?s p = Inr b"
    using run p by (auto simp: PermuteAsReshape_Run_def GetPermutation_def Let_def)
  have "b"
  proof (rule ccontr)
    assume "\<not> b"
    then show False using run p b False by (simp add: PermuteAsReshape_Run_def GetPermutation_def Let_def)
  qed
  then obtain name net1 where ins1: "insert_reshape name ?s ?a net = Inr net1"
    and move: "on_graph (MoveAllConnections ?a (?N, 0)) net1 = Some (Inr net')"
    using run p b by (auto simp: PermuteAsReshape_Run_def GetPermutation_def Let_def)
  obtain src where src: "m_Connection ?g ?a = Some src" using one(4) by auto
  have va: "valid_out ?g ?a" using A one by (simp add: valid_out_def)
  have ins: "inserted ?s ?a src ?a net net'" by (rule inserted_Inr [OF wf src va ins1 move])
  have fresh: "l \<noteq> ?N" using A(1) wf by (auto simp: wf_network_def)
  have red: "redirected net net' (swap_slot ?a (?N, 0)) {fst ?a, fst ?a}"
    by (rule inserted_redirected [OF wf ev ins src]) (use A rA in \<open>auto simp: feeds_slot_def\<close>)
  have "preserves sem net net' \<and> evaluates sem net'"
  proof (rule redirect_preserves [OF red ev links])
    fix m L i vs v
    assume *: "m \<in> {fst ?a, fst ?a}" "m_LayerOf ?g m = Some L" "i < m_NumOutputSlots L" "length vs = m_NumInputSlots L"
      "demanded net (m, i)"
      "\<forall>k < m_NumInputSlots L. \<exists>q. m_Connection ?g (m, k) = Some q \<and> demanded net q \<and>
         computes sem net q (vs ! k) \<and> computes sem net' (swap_slot ?a (?N, 0) q) (vs ! k)"
      "computes sem net (m, i) v" "layer_value sem (m_Type L) (n_Param net m) m i vs v"
    have m: "m = l" "L = A" "i = 0" using * A(1) one by auto
    obtain w where w: "vs = [w]" using *(4) one(1) m(2) by (cases vs) auto
    have in_w: "computes sem net src w" "computes sem net' (swap_slot ?a (?N, 0) src) w"
      using *(6) m w src one(1) by auto
    have v: "rearranged t (DimMappings p) w = Inr v" "is_tensor v"
      using *(8) m w rA A(2) p(1) by (auto simp: layer_value_def)
    obtain v' where "computes sem net ?a v'" "?s = fst v'" using evaluatesE [OF ev] *(5) m by metis
    then have s: "?s = fst v" using computes_det *(7) m by metis
    have "snd v = snd w"
      using rearranged_is_reshape [OF computes_tensor [OF in_w(1)] p(2) t v(1)] b \<open>b\<close> s by simp
    then have "computes sem net' (?N, 0) v"
      using inserted_value [OF ins _ in_w(2)] reshape_same_elements [OF v(2)] s v(2) fresh by simp
    then show "computes sem net' (swap_slot ?a (?N, 0) (m, i)) v" using m by (simp add: swap_slot_def)
  qed
  moreover have "consistent {l} net'" using inserted_consistent [OF wf co ins src refl] by simp
  moreover have "unread net' l"
    unfolding unread_def
  proof (intro conjI allI impI)
    show "\<exists>L. m_LayerOf (n_Graph net') l = Some L \<and> m_NumOutputSlots L > 0"
      using inserted_facts(3) [OF ins A(1) fresh] one(2) by auto
    fix x q assume x: "m_Connection (n_Graph net') x = Some q"
    show "fst q \<noteq> l"
    proof
      assume q: "fst q = l"
      then have "valid_out (n_Graph net') q"
        using wf_links_valid [OF wf_network_links [OF inserted_facts(1) [OF ins]] x] by simp
      then have "q = ?a" using inserted_facts(3) [OF ins A(1) fresh] one(2) q by (cases q) (auto simp: valid_out_def)
      then show False using inserted_moves [OF ins _ _ x] fresh by simp
    qed
  qed
  ultimately show ?thesis using inserted_facts(1) [OF ins] by (simp add: network_ok_def)
qed

subsection \<open>Consecutive reshapes\<close>

text \<open>A bypassed layer waits to be erased, after those that still read it.\<close>

definition leftover :: "'a meaning \<Rightarrow> nat \<Rightarrow> Network \<Rightarrow> bool" where
  "leftover sem b net \<longleftrightarrow> network_ok sem {b} net \<and>
     (\<exists>L. m_LayerOf (n_Graph net) b = Some L \<and> rearranges (m_Type L)) \<and>
     (\<forall>x q. m_Connection (n_Graph net) x = Some q \<longrightarrow> fst q = b \<longrightarrow> unread net (fst x))"

lemma OptimizeConsecutiveReshapes_Inr:
  assumes "OptimizeConsecutiveReshapes_Run r net = Some (Inr net')" "net' \<noteq> net"
  obtains p src where "m_Connection (n_Graph net) r = Some p" "n_type net (fst p) = Some ReshapeLayer"
    "n_type net (fst r) = Some ReshapeLayer" "m_Connection (n_Graph net) (fst p, 0) = Some src"
    "length (n_connections net (fst p, 0)) \<le> 1"
    "info_shape net src = info_shape net (fst r, 0) \<and> on_graph (MoveAllConnections (fst r, 0) src) net = Some (Inr net') \<or>
     (\<exists>name net1. insert_reshape name (info_shape net (fst r, 0)) (fst p, 0) net = Inr net1 \<and>
        on_graph (MoveAllConnections (fst r, 0) (n_Next net, 0)) net1 = Some (Inr net'))"
proof -
  obtain p where p: "m_Connection (n_Graph net) r = Some p"
    using assms(1) by (auto simp: OptimizeConsecutiveReshapes_Run_def Let_def)
  have types: "n_type net (fst p) = Some ReshapeLayer" "n_type net (fst r) = Some ReshapeLayer"
    using assms(1) p by (auto simp: OptimizeConsecutiveReshapes_Run_def Let_def split: if_splits)
  obtain src where src: "m_Connection (n_Graph net) (fst p, 0) = Some src"
    using assms(1) p types by (auto simp: OptimizeConsecutiveReshapes_Run_def Let_def)
  have "\<not> length (n_connections net (fst p, 0)) > 1"
    using assms p types src by (auto simp: OptimizeConsecutiveReshapes_Run_def Let_def)
  moreover from this have "info_shape net src = info_shape net (fst r, 0) \<and> on_graph (MoveAllConnections (fst r, 0) src) net = Some (Inr net') \<or>
     (\<exists>name net1. insert_reshape name (info_shape net (fst r, 0)) (fst p, 0) net = Inr net1 \<and>
        on_graph (MoveAllConnections (fst r, 0) (n_Next net, 0)) net1 = Some (Inr net'))"
    using assms(1) p types src by (auto simp: OptimizeConsecutiveReshapes_Run_def Let_def split: if_splits)
  ultimately show thesis using that [of p src] p types src by simp
qed

lemma live_demands:
  assumes "wf_network net" "m_LayerOf (n_Graph net) l = Some L" "rearranges (m_Type L)" "live net l"
  shows "demanded net (l, 0)"
proof -
  have "n_type net l \<noteq> Some OutputLayer" using assms(2,3) by (auto simp: layer_type_def rearranges_def)
  then obtain out m where m: "n_type net out = Some OutputLayer" "(out, m) \<in> (feeds (n_Graph net))\<^sup>*" "(m, l) \<in> feeds (n_Graph net)"
    using assms(4) unfolding live_def by (metis rtrancl.cases)
  then obtain k q where q: "m_Connection (n_Graph net) (m, k) = Some q" "fst q = l" by (auto simp: feeds_iff)
  have "live net m" using m by (auto simp: live_def)
  then have "demanded net q" using live_demanded q(1) by blast
  moreover have "q = (l, 0)"
    using rearranging_slot [OF assms(1) _ _ assms(3), of q] wf_links_valid [OF wf_network_links [OF assms(1)] q(1)] q(2) assms(2)
    by simp
  ultimately show ?thesis by simp
qed

lemma reshaping_value:
  assumes "wf_network net" "m_LayerOf (n_Graph net) l = Some L" "m_Type L = ReshapeLayer"
    "n_Param net l = TargetShape s" "m_Connection (n_Graph net) (l, 0) = Some q"
  shows "computes sem net (l, i) v \<longleftrightarrow> i = 0 \<and> is_tensor v \<and> (\<exists>w. computes sem net q w \<and> reshape_value s w = Inr v)"
proof -
  have "rearranges (m_Type L)" using assms(3) by (simp add: rearranges_def)
  note r = rearranging_value [OF assms(1,2) this]
  show ?thesis unfolding r assms(3-5) by (simp add: rearranged_def)
qed

text \<open>The two reshapes, with what they read and compute.\<close>

definition reshapes_after :: "Network \<Rightarrow> nat \<Rightarrow> nat \<Rightarrow> slot \<Rightarrow> TensorShape \<Rightarrow> TensorShape \<Rightarrow> bool" where
  "reshapes_after net child base src s s' \<longleftrightarrow> wf_network net \<and>
     (\<exists>C B. m_LayerOf (n_Graph net) child = Some C \<and> m_Type C = ReshapeLayer \<and>
        m_LayerOf (n_Graph net) base = Some B \<and> m_Type B = ReshapeLayer) \<and>
     n_Param net child = TargetShape s \<and> n_Param net base = TargetShape s' \<and>
     m_Connection (n_Graph net) (child, 0) = Some (base, 0) \<and> m_Connection (n_Graph net) (base, 0) = Some src \<and>
     (\<forall>x. m_Connection (n_Graph net) x = Some (base, 0) \<longrightarrow> x = (child, 0))"

lemma reshapes_afterE:
  assumes "wf_network net" "m_Connection (n_Graph net) r = Some p" "n_type net (fst p) = Some ReshapeLayer"
    "n_type net (fst r) = Some ReshapeLayer" "m_Connection (n_Graph net) (fst p, 0) = Some src"
    "length (n_connections net (fst p, 0)) \<le> 1"
  obtains s s' where "reshapes_after net (fst r) (fst p) src s s'"
proof -
  let ?g = "n_Graph net"
  note links = wf_network_links [OF assms(1)]
  obtain C B where C: "m_LayerOf ?g (fst r) = Some C" "m_Type C = ReshapeLayer"
    and B: "m_LayerOf ?g (fst p) = Some B" "m_Type B = ReshapeLayer"
    using assms(3,4) by (auto simp: layer_type_def)
  have rC: "rearranges (m_Type C)" and rB: "rearranges (m_Type B)" using C B by (simp_all add: rearranges_def)
  obtain s s' where s: "n_Param net (fst r) = TargetShape s" "n_Param net (fst p) = TargetShape s'"
    using wf_network_rearranges(3) [OF assms(1) C(1) rC] wf_network_rearranges(3) [OF assms(1) B(1) rB] C(2) B(2)
    by (auto simp: params_match_def)
  have p: "p = (fst p, 0)" using rearranging_slot [OF assms(1) _ B(1) rB] wf_links_valid [OF links assms(2)] by simp
  have r: "m_Connection ?g (fst r, 0) = Some (fst p, 0)" using rearranging_input(2) [OF assms(1,2) C(1) rC] p by metis
  have "x = (fst r, 0)" if "m_Connection ?g x = Some (fst p, 0)" for x
  proof -
    have "x \<in> set (n_connections net (fst p, 0))" "(fst r, 0) \<in> set (n_connections net (fst p, 0))"
      using wf_links_mem [OF links] that r by auto
    then show ?thesis using assms(6) by (cases "n_connections net (fst p, 0)") auto
  qed
  then have "reshapes_after net (fst r) (fst p) src s s'"
    unfolding reshapes_after_def using assms(1,5) C B s r by blast
  then show thesis by (rule that)
qed

lemma reshapes_value:
  assumes "reshapes_after net child base src s s'" "computes sem net (child, i) v"
  shows "\<exists>u. computes sem net src u \<and> computes sem net (base, 0) (s', snd u) \<and> v = (s, snd u) \<and>
    reshape_value s' u = Inr (s', snd u)"
proof -
  obtain C B where C: "m_LayerOf (n_Graph net) child = Some C" "m_Type C = ReshapeLayer"
    and B: "m_LayerOf (n_Graph net) base = Some B" "m_Type B = ReshapeLayer"
    and wf: "wf_network net" and params: "n_Param net child = TargetShape s" "n_Param net base = TargetShape s'"
    and conn: "m_Connection (n_Graph net) (child, 0) = Some (base, 0)" "m_Connection (n_Graph net) (base, 0) = Some src"
    using assms(1) unfolding reshapes_after_def by blast
  obtain w where w: "computes sem net (base, 0) w" "reshape_value s w = Inr v"
    using assms(2) unfolding reshaping_value [OF wf C params(1) conn(1)] by blast
  obtain u where u: "computes sem net src u" "reshape_value s' u = Inr w"
    using w(1) unfolding reshaping_value [OF wf B params(2) conn(2)] by blast
  have "w = (s', snd u)" "v = (s, snd u)" using w(2) u(2) by (simp_all add: reshape_value_Inr)
  then show ?thesis using w u by blast
qed


lemma reshapes_moved:
  assumes ok: "network_ok sem {} net" and path: "reshapes_after net child base src s s'"
    and shape: "info_shape net src = info_shape net (child, 0)"
    and moved: "moved_network (child, 0) src net net'"
  shows "network_ok sem {} net' \<and> preserves sem net net'"
proof -
  let ?g = "n_Graph net"
  have wf: "wf_network net" and ev: "evaluates sem net" and co: "consistent {} net"
    using ok by (auto simp: network_ok_def)
  note links = wf_network_links [OF wf]
  obtain C B where C: "m_LayerOf ?g child = Some C" "m_Type C = ReshapeLayer"
    and B: "m_LayerOf ?g base = Some B" "m_Type B = ReshapeLayer"
    and conn: "m_Connection ?g (child, 0) = Some (base, 0)" "m_Connection ?g (base, 0) = Some src"
    and only: "\<forall>x. m_Connection ?g x = Some (base, 0) \<longrightarrow> x = (child, 0)"
    and feeds: "feeds_slot net (base, 0) (child, 0)"
    using path unfolding reshapes_after_def feeds_slot_def fst_conv by blast
  have rC: "rearranges (m_Type C)" and rB: "rearranges (m_Type B)" using C B by (simp_all add: rearranges_def)
  have vsrc: "valid_out ?g src" using wf_links_valid [OF links conn(2)] by simp
  show ?thesis
  proof (rule move_sound [OF wf ev co moved])
    show "m_LayerOf ?g (fst (child, 0::nat)) = Some C" "m_NumOutputSlots C = 1" "snd (child, 0::nat) = 0"
      using C wf_network_rearranges(2) [OF wf C(1) rC] by simp_all
    show "valid_out ?g src" by (rule vsrc)
    show "info_shape net (child, 0) = info_shape net src \<or> (\<forall>r. m_Connection ?g r \<noteq> Some src)" using shape by simp
  next
    fix S r' assume S: "m_LayerOf ?g (fst src) = Some S" "rearranges (m_Type S)"
    have src0: "src = (fst src, 0)" using rearranging_slot [OF wf vsrc S] .
    have c: "m_Connection ?g (base, 0) = Some (fst src, 0)" using conn(2) src0 by metis
    obtain q where "m_Connection ?g (fst src, 0) = Some q"
      "shape_law (m_Type S) (n_Param net (fst src)) (info_shape net q) (info_shape net (fst src, 0))"
      by (rule consistentE [OF co S _ c]) auto
    then show "\<exists>q. m_Connection ?g (fst src, 0) = Some q \<and>
        shape_law (m_Type S) (n_Param net (fst src)) (info_shape net q) (info_shape net (child, 0))"
      using shape src0 by metis
  next
    fix k q assume d: "demanded net (child, 0)" "m_Connection ?g (fst src, k) = Some q"
    have "demanded net src" by (rule feeds_slot_acyclic(1) [OF wf ev feeds d(1) conn(2)])
    then show "demanded net q" using live_demanded [OF demanded_live d(2)] by blast
  next
    fix vs v
    assume d: "demanded net (child, 0)" and up: "upstream sem net net' (swap_slot (child, 0) src) (fst (child, 0::nat))"
      and v: "computes sem net (child, 0) v"
    obtain u where u: "computes sem net src u" "v = (s, snd u)" using reshapes_value [OF path v] by blast
    have "computes sem net' (swap_slot (child, 0) src src) u"
      using up conn u(1) unfolding upstream_def by (metis fst_conv)
    then have new: "computes sem net' src u" by (simp add: swap_slot_def)
    have "info_shape net (child, 0) = fst v" using evaluatesE [OF ev d] computes_det [OF v] by metis
    then have "info_shape net (child, 0) = s" using u(2) by simp
    moreover have "info_shape net src = fst u"
      using evaluatesE [OF ev feeds_slot_acyclic(1) [OF wf ev feeds d conn(2)]] computes_det [OF u(1)] by metis
    ultimately have "v = u" using u(2) shape by (cases u) simp
    then show "computes sem net' src v" using new by simp
  qed
qed

lemma reshapes_inserted:
  assumes ok: "network_ok sem {} net" and path: "reshapes_after net child base src s s'"
    and ins: "inserted (info_shape net (child, 0)) (base, 0) src (child, 0) net net'"
  shows "network_ok sem {base} net' \<and> preserves sem net net'"
proof -
  let ?g = "n_Graph net" and ?N = "n_Next net" and ?a = "(child, 0::nat)" and ?t = "info_shape net (child, 0)"
  let ?f = "swap_slot ?a (?N, 0)"
  have wf: "wf_network net" and ev: "evaluates sem net" and co: "consistent {} net"
    using ok by (auto simp: network_ok_def)
  note links = wf_network_links [OF wf] and wf' = inserted_facts(1) [OF ins]
  obtain C B where C: "m_LayerOf ?g child = Some C" "m_Type C = ReshapeLayer"
    and B: "m_LayerOf ?g base = Some B" "m_Type B = ReshapeLayer"
    and params: "n_Param net child = TargetShape s" "n_Param net base = TargetShape s'"
    and conn: "m_Connection ?g (child, 0) = Some (base, 0)" "m_Connection ?g (base, 0) = Some src"
    and only: "\<forall>x. m_Connection ?g x = Some (base, 0) \<longrightarrow> x = (child, 0)"
    and feeds: "feeds_slot net (base, 0) (child, 0)"
    using path unfolding reshapes_after_def feeds_slot_def fst_conv by blast
  have rC: "rearranges (m_Type C)" and rB: "rearranges (m_Type B)" using C B by (simp_all add: rearranges_def)
  note oneC = wf_network_rearranges [OF wf C(1) rC] and oneB = wf_network_rearranges [OF wf B(1) rB]
  have fresh: "base \<noteq> ?N" "child \<noteq> ?N" using B(1) C(1) wf by (auto simp: wf_network_def)
  have B': "m_LayerOf (n_Graph net') base = Some B" using inserted_facts(3) [OF ins B(1) fresh(1)] .
  have conn': "m_Connection (n_Graph net') (base, 0) = Some (?N, 0)" using inserted_facts(8) [OF ins] .
  have param': "n_Param net' base = TargetShape s'" using inserted_facts(5) [OF ins fresh(1)] params(2) by simp
  note base' = reshaping_value [OF wf' B' B(2) param' conn', of sem]
  have shape: "fst v = ?t" if "demanded net ?a" "computes sem net ?a v" for v
    using evaluatesE [OF ev that(1)] computes_det [OF that(2)] by metis
  have red: "redirected net net' ?f {fst ?a, fst (base, 0::nat)}"
    by (rule inserted_redirected [OF wf ev ins conn(2), of C B])
      (use C(1) B(1) feeds in \<open>simp_all only: fst_conv snd_conv rC rB\<close>)
  have "preserves sem net net' \<and> evaluates sem net'"
  proof (rule redirect_preserves [OF red ev links])
    fix m L i vs v
    assume *: "m \<in> {fst ?a, fst (base, 0::nat)}" "m_LayerOf ?g m = Some L" "i < m_NumOutputSlots L"
      "length vs = m_NumInputSlots L" "demanded net (m, i)"
      "\<forall>k < m_NumInputSlots L. \<exists>q. m_Connection ?g (m, k) = Some q \<and> demanded net q \<and>
         computes sem net q (vs ! k) \<and> computes sem net' (?f q) (vs ! k)"
      "computes sem net (m, i) v"
    have ne: "base \<noteq> child"
    proof
      assume "base = child"
      then have "reads net m m" using *(1) C(1) conn(1) oneC(1) unfolding reads_def by (metis fst_conv insert_iff singletonD zero_less_one)
      then show False using computes_no_cycle [OF *(7)] by (simp add: tranclp.r_into_trancl)
    qed
    have i: "i = 0" using *(1-3) C(1) B(1) oneC(2) oneB(2) by auto
    show "computes sem net' (?f (m, i)) v"
    proof (cases "m = child")
      case True
      obtain xs where u: "computes sem net (base, 0) (s', xs)" "v = (s, xs)"
        using reshapes_value [OF path *(7) [unfolded True]] by blast
      have "computes sem net' (?f (base, 0)) (vs ! 0)" "computes sem net (base, 0) (vs ! 0)"
        using *(2,6) True C(1) oneC(1) conn(1) by auto
      then have "computes sem net' (base, 0) (s', xs)"
        using computes_det [OF u(1)] ne by (auto simp: swap_slot_def)
      then obtain z where z: "computes sem net' (?N, 0) z" "reshape_value s' z = Inr (s', xs)"
        unfolding base' by blast
      have "fst z = ?t"
        using new_reshape_shape [OF ins z(1)] .
      moreover have "fst v = ?t" using shape *(5,7) True i by simp
      moreover have "snd z = snd v" using z(2) u(2) by (simp add: reshape_value_Inr)
      ultimately have "v = z" by (simp add: prod_eq_iff)
      then show ?thesis using z(1) True i by (simp add: swap_slot_def)
    next
      case False
      then have m: "m = base" "L = B" using *(1,2) B(1) by auto
      have "live net child"
      proof -
        obtain x where "live net (fst x)" "m_Connection ?g x = Some (base, 0)" using *(5) m i by (auto simp: demanded_def)
        then show ?thesis using only by (metis fst_conv)
      qed
      then have dem: "demanded net ?a" by (rule live_demands [OF wf C(1) rC])
      obtain va where va: "computes sem net ?a va" "?t = fst va" using evaluatesE [OF ev dem] .
      obtain u where u: "computes sem net src u" "computes sem net (base, 0) (s', snd u)" "va = (s, snd u)"
        "reshape_value s' u = Inr (s', snd u)"
        using reshapes_value [OF path va(1)] by blast
      have "computes sem net' (?f src) (vs ! 0)" "computes sem net src (vs ! 0)"
        using *(6) m oneB(1) conn(2) by auto
      then have "computes sem net' (?f src) u" using computes_det [OF u(1)] by auto
      then have "computes sem net' (?N, 0) va"
        using inserted_value [OF ins, of sem u va] reshape_same_elements [OF computes_tensor [OF va(1)], of u]
          computes_tensor [OF va(1)] va(2) u(3) fresh(1) by auto
      moreover have "reshape_value s' va = Inr (s', snd u)" using u(3,4) by (simp add: reshape_value_Inr)
      ultimately have "computes sem net' (base, 0) (s', snd u)"
        unfolding base' using computes_tensor [OF u(2)] by blast
      moreover have "v = (s', snd u)" using computes_det [OF u(2)] *(7) m(1) i by simp
      ultimately show ?thesis using m i ne by (simp add: swap_slot_def)
    qed
  qed
  moreover have "consistent {base} net'" using inserted_consistent [OF wf co ins conn(2) refl] by simp
  ultimately show ?thesis using wf' by (simp add: network_ok_def)
qed


lemma moved_unread:
  assumes "moved_network a b net net'" "wf_network net" "m_LayerOf (n_Graph net) (fst a) = Some A"
    "rearranges (m_Type A)" "snd a = 0" "b \<noteq> a"
  shows "unread net' (fst a)"
proof -
  note wf' = moved_wf [OF assms(1,2)]
  have A': "m_LayerOf (n_Graph net') (fst a) = Some A" using wf'(2) assms(3) by simp
  have "fst q \<noteq> fst a" if x: "m_Connection (n_Graph net') x = Some q" for x q
  proof
    assume "fst q = fst a"
    then have "q = a"
      using rearranging_slot [OF wf'(1) _ _ assms(4), of q] wf_links_valid [OF wf_network_links [OF wf'(1)] x] A' assms(5)
      by (simp add: prod_eq_iff)
    then show False
      using x moved_connection [OF assms(1), of x] assms(6)
      by (cases "m_Connection (n_Graph net) x") (auto simp: swap_slot_def split: if_splits)
  qed
  then show ?thesis using A' wf_network_rearranges(2) [OF wf'(1) A' assms(4)] by (auto simp: unread_def)
qed

lemma inserted_unread:
  assumes ins: "inserted s r src a net net'" and wf: "wf_network net" and r: "fst r \<noteq> n_Next net"
    and A: "m_LayerOf (n_Graph net) (fst a) = Some A" "rearranges (m_Type A)" "snd a = 0"
  shows "unread net' (fst a)"
proof -
  have fresh: "fst a \<noteq> n_Next net" using A(1) wf by (auto simp: wf_network_def)
  note wf' = inserted_facts(1) [OF ins] and A' = inserted_facts(3) [OF ins A(1) fresh]
  have "fst q \<noteq> fst a" if x: "m_Connection (n_Graph net') x = Some q" for x q
  proof
    assume "fst q = fst a"
    then have "q = a"
      using rearranging_slot [OF wf' _ _ A(2), of q] wf_links_valid [OF wf_network_links [OF wf'] x] A' A(3)
      by (simp add: prod_eq_iff)
    then show False using inserted_moves [OF ins _ _ x] r fresh by (metis fst_conv)
  qed
  then show ?thesis using A' wf_network_rearranges(2) [OF wf' A' A(2)] by (auto simp: unread_def)
qed

lemma OptimizeConsecutiveReshapes_sound:
  assumes ok: "network_ok sem {} net" and r: "m_Connection (n_Graph net) r = Some p"
    and run: "OptimizeConsecutiveReshapes_Run r net = Some (Inr net')"
  shows "(network_ok sem {} net' \<or> leftover sem (fst p) net') \<and> preserves sem net net'"
proof (cases "net' = net")
  case True
  then show ?thesis using ok by simp
next
  case False
  let ?g = "n_Graph net" and ?child = "fst r" and ?base = "fst p"
  have wf: "wf_network net" using ok by (simp add: network_ok_def)
  obtain src where types: "n_type net ?base = Some ReshapeLayer" "n_type net ?child = Some ReshapeLayer"
    and src: "m_Connection ?g (?base, 0) = Some src" and one: "length (n_connections net (?base, 0)) \<le> 1"
    and edit: "info_shape net src = info_shape net (?child, 0) \<and> on_graph (MoveAllConnections (?child, 0) src) net = Some (Inr net') \<or>
     (\<exists>name net1. insert_reshape name (info_shape net (?child, 0)) (?base, 0) net = Inr net1 \<and>
        on_graph (MoveAllConnections (?child, 0) (n_Next net, 0)) net1 = Some (Inr net'))"
    using OptimizeConsecutiveReshapes_Inr [OF run False] r by (metis option.inject)
  obtain s s' where path: "reshapes_after net ?child ?base src s s'"
    using reshapes_afterE [OF wf r types src one] by blast
  have vsrc: "valid_out ?g src" using wf_links_valid [OF wf_network_links [OF wf] src] by simp
  obtain C B where C: "m_LayerOf ?g ?child = Some C" "m_Type C = ReshapeLayer"
    and B: "m_LayerOf ?g ?base = Some B" "m_Type B = ReshapeLayer" using types by (auto simp: layer_type_def)
  have rC: "rearranges (m_Type C)" and rB: "rearranges (m_Type B)" using C B by (simp_all add: rearranges_def)
  from edit show ?thesis
  proof (elim disjE conjE exE)
    assume "info_shape net src = info_shape net (?child, 0)" "on_graph (MoveAllConnections (?child, 0) src) net = Some (Inr net')"
    then show ?thesis using reshapes_moved [OF ok path] on_graph_moved [OF _ wf vsrc] by blast
  next
    fix name net1 assume run1: "insert_reshape name (info_shape net (?child, 0)) (?base, 0) net = Inr net1"
      "on_graph (MoveAllConnections (?child, 0) (n_Next net, 0)) net1 = Some (Inr net')"
    have va: "valid_out ?g (?child, 0)" using C(1) wf_network_rearranges(2) [OF wf C(1) rC] by (simp add: valid_out_def)
    have ins: "inserted (info_shape net (?child, 0)) (?base, 0) src (?child, 0) net net'"
      by (rule inserted_Inr [OF wf src va run1])
    have fresh: "?base \<noteq> n_Next net" using B(1) wf by (auto simp: wf_network_def)
    note wf' = inserted_facts(1) [OF ins] and B' = inserted_facts(3) [OF ins B(1) fresh]
    have unread: "unread net' ?child" using inserted_unread [OF ins wf, of C] C(1) rC fresh by simp
    have readers: "fst x = ?child" if x: "m_Connection (n_Graph net') x = Some q" "fst q = ?base" for x q
    proof -
      have q: "q = (?base, 0)"
        using rearranging_slot [OF wf' _ _ rB, of q] wf_links_valid [OF wf_network_links [OF wf'] x(1)] B' x(2) by simp
      consider "x = (?base, 0)" | "x = (n_Next net, 0)" | "x \<noteq> (?base, 0)" "x \<noteq> (n_Next net, 0)" by blast
      then show ?thesis
      proof cases
        case 1
        then show ?thesis using x(1) q inserted_facts(8) [OF ins] fresh by simp
      next
        case 2
        then have "src = (?base, 0)"
          using x(1) q inserted_facts(9) [OF ins] fresh by (auto simp: swap_slot_def split: if_splits)
        then have "(?base, 0) = (?child, 0::nat)" using src path unfolding reshapes_after_def by blast
        then show ?thesis using 2 x(1) q unread by (auto simp: unread_def)
      next
        case 3
        then have "m_Connection ?g x = Some (?base, 0)"
          using x(1) q inserted_facts(7) [OF ins 3] fresh
          by (cases "m_Connection ?g x") (auto simp: swap_slot_def split: if_splits)
        then show ?thesis using path unfolding reshapes_after_def by (metis fst_conv)
      qed
    qed
    have "leftover sem ?base net'"
      unfolding leftover_def
      using reshapes_inserted [OF ok path ins] B' rB readers unread by auto
    then show ?thesis using reshapes_inserted [OF ok path ins] by blast
  qed
qed

end
