(* ===== verification/OptimizerPass.thy ===== *)
theory OptimizerPass
  imports OptimizerReshapes
begin

section \<open>The optimizer's pass keeps the outputs of a network\<close>

text \<open>
  The drivers that run an optimization on a layer or a connection, and the pass over the list of layers.
\<close>

subsection \<open>Erasing the children left unconnected\<close>

text \<open>The state after an optimization of the layer \<open>b\<close>: \<open>b\<close> may be left over, if nobody reads it.\<close>

definition settled :: "'a meaning \<Rightarrow> nat \<Rightarrow> Network \<Rightarrow> bool" where
  "settled sem b net \<longleftrightarrow> network_ok sem {} net \<or> network_ok sem {b} net \<and> unread net b"

lemma remove_unconnected_induct:
  assumes run: "remove_unconnected o' i net = Some (Inr net')" and start: "I net i"
    and erase: "\<And>net i h. I net i \<Longrightarrow> i < length (n_connections net o') \<Longrightarrow>
      IsOutputUnconnected (n_Graph net) (fst (n_connections net o' ! i)) = Inr True \<Longrightarrow>
      EraseLayer (fst (n_connections net o' ! i)) (n_Graph net) = Inr h \<Longrightarrow> I (net\<lparr>n_Graph := h\<rparr>) i"
    and skip: "\<And>net i. I net i \<Longrightarrow> i < length (n_connections net o') \<Longrightarrow>
      IsOutputUnconnected (n_Graph net) (fst (n_connections net o' ! i)) = Inr False \<Longrightarrow> I net (Suc i)"
  shows "\<exists>j. I net' j \<and> length (n_connections net' o') \<le> j"
proof -
  let ?P = "\<lambda>q i net (r :: Network result). \<forall>net'. q = o' \<longrightarrow> r = Inr net' \<longrightarrow> I net i \<longrightarrow>
    (\<exists>j. I net' j \<and> length (n_connections net' o') \<le> j)"
  have "?P o' i net (Inr net')"
  proof (rule remove_unconnected.raw_induct [where P = ?P, OF _ run])
    fix rec q i net r
    assume IH: "\<And>q i net r. rec q i net = Some r \<Longrightarrow> ?P q i net r"
      and step: "(if i < length (n_connections net q) then
        bindP (Some (IsOutputUnconnected (n_Graph net) (fst (n_connections net q ! i)))) (\<lambda>unconnected.
        if unconnected then
          bindP (Some (EraseLayer (fst (n_connections net q ! i)) (n_Graph net))) (\<lambda>g. rec q i (net\<lparr>n_Graph := g\<rparr>))
        else rec q (Suc i) net)
      else Some (Inr net)) = Some r"
    show "?P q i net r"
    proof (intro allI impI)
      fix net' assume q: "q = o'" "r = Inr net'" "I net i"
      show "\<exists>j. I net' j \<and> length (n_connections net' o') \<le> j"
      proof (cases "i < length (n_connections net q)")
        case False
        then show ?thesis using step q by auto
      next
        case True
        then obtain b where b: "IsOutputUnconnected (n_Graph net) (fst (n_connections net o' ! i)) = Inr b"
          using step q by auto
        show ?thesis
        proof (cases b)
          case True
          then obtain h where h: "EraseLayer (fst (n_connections net o' ! i)) (n_Graph net) = Inr h"
            "rec q i (net\<lparr>n_Graph := h\<rparr>) = Some r"
            using step q b \<open>i < _\<close> by auto
          then show ?thesis using IH [OF h(2)] q erase [OF q(3)] \<open>i < _\<close> b True by simp
        next
          case False
          then have "rec q (Suc i) net = Some r" using step q b \<open>i < _\<close> by simp
          then show ?thesis using IH q skip [OF q(3)] \<open>i < _\<close> b False by simp
        qed
      qed
    qed
  qed
  then show ?thesis using start by simp
qed

lemma remove_unconnected_sound:
  assumes "remove_unconnected o' i net = Some (Inr net')" "network_ok sem {} net"
  shows "network_ok sem {} net' \<and> preserves sem net net'"
proof -
  let ?I = "\<lambda>m (i::nat). network_ok sem {} m \<and> preserves sem net m"
  have "\<exists>j. ?I net' j \<and> length (n_connections net' o') \<le> j"
  proof (rule remove_unconnected_induct [where I = ?I, OF assms(1)])
    fix m j h assume m: "?I m j" "IsOutputUnconnected (n_Graph m) (fst (n_connections m o' ! j)) = Inr True"
      "EraseLayer (fst (n_connections m o' ! j)) (n_Graph m) = Inr h"
    have "unread m (fst (n_connections m o' ! j))"
      using IsOutputUnconnected_unread [OF _ m(2)] m(1) by (simp add: network_ok_def)
    then show "?I (m\<lparr>n_Graph := h\<rparr>) j" using erase_sound [OF _ _ m(3), of sem "{}"] m(1) preserves_trans by auto
  qed (use assms(2) in auto)
  then show ?thesis by blast
qed

lemma erase_leftover:
  assumes "leftover sem b net" "unread net c" "c \<noteq> b" "EraseLayer c (n_Graph net) = Inr h"
  shows "leftover sem b (net\<lparr>n_Graph := h\<rparr>) \<and> preserves sem net (net\<lparr>n_Graph := h\<rparr>)"
proof -
  let ?g = "n_Graph net"
  have ok: "network_ok sem {b} net" using assms(1) by (simp add: leftover_def)
  have graph: "wf_graph ?g" using ok by (simp add: network_ok_def wf_network_def)
  note t = EraseLayer_trimmed [OF graph assms(4)]
  have layers: "m_LayerOf h = (m_LayerOf ?g)(c := None)" using t by simp
  have down: "m_Connection ?g r = Some q" if "m_Connection h r = Some q" for r q
    using t that unfolding trimmed_def by blast
  have wfh: "wf_links h" using t by (simp add: wf_graph_def)
  have "unread (net\<lparr>n_Graph := h\<rparr>) (fst x)" if x: "m_Connection h x = Some q" "fst q = b" for x q
  proof -
    have "fst x \<noteq> c" using wf_links_valid [OF wfh x(1)] layers by (auto simp: valid_in_def)
    moreover have "unread net (fst x)" using assms(1) down [OF x(1)] x(2) unfolding leftover_def by blast
    ultimately show ?thesis using layers down unfolding unread_def by (simp, blast)
  qed
  moreover have "{b} - {c} = {b}" using assms(3) by blast
  then have "network_ok sem {b} (net\<lparr>n_Graph := h\<rparr>) \<and> preserves sem net (net\<lparr>n_Graph := h\<rparr>)"
    using erase_sound [OF ok assms(2,4)] by simp
  ultimately show ?thesis using assms(1,3) layers by (simp add: leftover_def)
qed

lemma remove_unconnected_leftover:
  assumes "remove_unconnected (b, 0) 0 net = Some (Inr net')" "leftover sem b net"
  shows "settled sem b net' \<and> preserves sem net net'"
proof -
  let ?I = "\<lambda>m (i::nat). i = 0 \<and> leftover sem b m \<and> preserves sem net m"
  have child: "unread m (fst (n_connections m (b, 0) ! j)) \<and> fst (n_connections m (b, 0) ! j) \<noteq> b \<and> wf_network m"
    if m: "leftover sem b m" "j < length (n_connections m (b, 0))" for m j
  proof -
    let ?x = "n_connections m (b, 0) ! j"
    have wf: "wf_network m" using m(1) by (simp add: leftover_def network_ok_def)
    have x: "m_Connection (n_Graph m) ?x = Some (b, 0)"
      using wf_links_mem [OF wf_network_links [OF wf]] nth_mem [OF m(2)] by blast
    then have u: "unread m (fst ?x)" using m(1) unfolding leftover_def by (metis fst_conv)
    then have "fst ?x \<noteq> b" using x unfolding unread_def by (metis fst_conv)
    then show ?thesis using u wf by simp
  qed
  have "\<exists>j. ?I net' j \<and> length (n_connections net' (b, 0)) \<le> j"
  proof (rule remove_unconnected_induct [where I = ?I, OF assms(1)])
    fix m j h assume m: "?I m j" "j < length (n_connections m (b, 0))"
      "EraseLayer (fst (n_connections m (b, 0) ! j)) (n_Graph m) = Inr h"
    then show "?I (m\<lparr>n_Graph := h\<rparr>) j"
      using erase_leftover [OF _ _ _ m(3), of sem b] child [of m j] preserves_trans by auto
  next
    fix m j assume m: "?I m j" "j < length (n_connections m (b, 0))"
      "IsOutputUnconnected (n_Graph m) (fst (n_connections m (b, 0) ! j)) = Inr False"
    then show "?I m (Suc j)" using IsOutputUnconnected_unread [OF _ m(3)] child [of m j] by simp
  qed (use assms(2) in auto)
  then have end': "leftover sem b net'" "preserves sem net net'" "n_connections net' (b, 0) = []" by auto
  have wf: "wf_network net'" using end'(1) by (simp add: leftover_def network_ok_def)
  obtain L where L: "m_LayerOf (n_Graph net') b = Some L" "rearranges (m_Type L)"
    using end'(1) by (auto simp: leftover_def)
  have "fst q \<noteq> b" if "m_Connection (n_Graph net') x = Some q" for x q
  proof
    assume "fst q = b"
    then have "q = (b, 0)"
      using rearranging_slot [OF wf _ _ L(2), of q] wf_links_valid [OF wf_network_links [OF wf] that] L(1) by simp
    then show False using wf_links_mem [OF wf_network_links [OF wf], of x q] that end'(3) by simp
  qed
  then have "unread net' b" using L wf_network_rearranges(2) [OF wf L] by (auto simp: unread_def)
  then show ?thesis using end' by (simp add: settled_def leftover_def)
qed

subsection \<open>The drivers\<close>

definition sound_run :: "'a meaning \<Rightarrow> LayerType \<Rightarrow> (slot \<Rightarrow> Network \<Rightarrow> Network result option) \<Rightarrow> bool" where
  "sound_run sem t run \<longleftrightarrow> (\<forall>net r net'. network_ok sem {} net \<longrightarrow> n_type net (fst r) = Some t \<longrightarrow>
     run r net = Some (Inr net') \<longrightarrow> network_ok sem {} net' \<and> preserves sem net net')"

definition sound_optimization :: "'a meaning \<Rightarrow> (nat \<Rightarrow> Network \<Rightarrow> Network result option) \<Rightarrow> bool" where
  "sound_optimization sem opt \<longleftrightarrow> (\<forall>net b net'. network_ok sem {} net \<longrightarrow> opt b net = Some (Inr net') \<longrightarrow>
     settled sem b net' \<and> preserves sem net net')"

lemma OptimizeForConnection_sound:
  assumes sound: "sound_run sem childType run"
  shows "sound_optimization sem (OptimizeForConnection baseType childType run)"
  unfolding sound_optimization_def
proof (intro allI impI)
  fix net b net' assume ok: "network_ok sem {} net"
    and run: "OptimizeForConnection baseType childType run b net = Some (Inr net')"
  let ?f = "\<lambda>r net. if n_type net (fst r) = Some childType then run r net else Some (Inr net)"
  let ?I = "\<lambda>m. network_ok sem {} m \<and> preserves sem net m"
  have step: "?I m'" if m: "?I m" "?f r m = Some (Inr m')" for r m m'
  proof (cases "n_type m (fst r) = Some childType")
    case True
    then have "run r m = Some (Inr m')" using m(2) by simp
    then have "network_ok sem {} m' \<and> preserves sem m m'" using sound True m(1) unfolding sound_run_def by blast
    then show ?thesis using m(1) preserves_trans by blast
  next
    case False
    then show ?thesis using m by simp
  qed
  show "settled sem b net' \<and> preserves sem net net'"
  proof (cases "net' = net")
    case True
    then show ?thesis using ok by (simp add: settled_def)
  next
    case False
    then obtain n where n: "foldP (\<lambda>i net. bindP (for_connections (b, i) id ?f (n_connections net (b, i)) net)
        (remove_unconnected (b, i) 0)) [0..<n] net = Some (Inr net')"
      using run by (auto simp: OptimizeForConnection_def split: if_splits)
    have "?I net'"
    proof (rule foldP_inv [where I = ?I, OF n])
      fix i m m' assume m: "?I m" "bindP (for_connections (b, i) id ?f (n_connections m (b, i)) m)
        (remove_unconnected (b, i) 0) = Some (Inr m')"
      obtain k where k: "for_connections (b, i) id ?f (n_connections m (b, i)) m = Some (Inr k)"
        "remove_unconnected (b, i) 0 k = Some (Inr m')"
        using m(2) by auto
      have "?I k"
      proof (rule for_connections_induct [where P = ?I, OF k(1) m(1)])
        show "?I s'" if "?I s" "?f c s = Some (Inr s')" for c s s' by (rule step [OF that])
      qed simp
      then show "?I m'" using remove_unconnected_sound [OF k(2)] preserves_trans by blast
    qed (use ok in simp)
    then show ?thesis by (simp add: settled_def)
  qed
qed

lemma OptimizeForType_sound:
  assumes "\<And>net l net'. network_ok sem {} net \<Longrightarrow> n_type net l = Some t \<Longrightarrow> run l net = Some (Inr net') \<Longrightarrow>
    settled sem l net' \<and> preserves sem net net'"
  shows "sound_optimization sem (OptimizeForType t run)"
  using assms by (auto simp: sound_optimization_def OptimizeForType_def settled_def split: if_splits)

lemma consecutive_reshapes_sound:
  "sound_optimization sem (OptimizeForConnection (Some ReshapeLayer) ReshapeLayer OptimizeConsecutiveReshapes_Run)"
  unfolding sound_optimization_def
proof (intro allI impI)
  fix net b net' assume ok: "network_ok sem {} net"
    and run: "OptimizeForConnection (Some ReshapeLayer) ReshapeLayer OptimizeConsecutiveReshapes_Run b net = Some (Inr net')"
  have wf: "wf_network net" using ok by (simp add: network_ok_def)
  note links = wf_network_links [OF wf]
  let ?f = "\<lambda>r net. if n_type net (fst r) = Some ReshapeLayer then OptimizeConsecutiveReshapes_Run r net else Some (Inr net)"
  show "settled sem b net' \<and> preserves sem net net'"
  proof (cases "net' = net")
    case True
    then show ?thesis using ok by (simp add: settled_def)
  next
    case False
    then have type: "n_type net b = Some ReshapeLayer"
      using run by (auto simp: OptimizeForConnection_def split: if_splits)
    then obtain B where B: "m_LayerOf (n_Graph net) b = Some B" "m_Type B = ReshapeLayer" by (auto simp: layer_type_def)
    have "m_NumOutputSlots B = 1" using wf_network_rearranges(2) [OF wf B(1)] B(2) by (simp add: rearranges_def)
    then obtain m where m: "for_connections (b, 0) id ?f (n_connections net (b, 0)) net = Some (Inr m)"
      "remove_unconnected (b, 0) 0 m = Some (Inr net')"
      using run type B(1) by (auto simp: OptimizeForConnection_def)
    have "(network_ok sem {} m \<or> leftover sem b m) \<and> preserves sem net m"
    proof (cases "\<exists>r. n_connections net (b, 0) = [r]")
      case True
      then obtain r where r: "n_connections net (b, 0) = [r]" by blast
      then have "m_Connection (n_Graph net) r = Some (b, 0)" using wf_links_mem [OF links, of r "(b, 0)"] by simp
      moreover have "m = net \<or> OptimizeConsecutiveReshapes_Run r net = Some (Inr m)"
        using m(1) r by (auto split: if_splits)
      ultimately show ?thesis using OptimizeConsecutiveReshapes_sound [OF ok] ok by (metis fst_conv preserves_refl)
    next
      case False
      have "m = net"
      proof (rule for_connections_induct [where P = "\<lambda>s. s = net", OF m(1)])
        fix c s s' assume s: "s = net" "c \<in> set (n_connections (id s) (b, 0))" "?f c s = Some (Inr s')"
        have c: "m_Connection (n_Graph net) c = Some (b, 0)" using s(1,2) wf_links_mem [OF links] by simp
        have "length (n_connections net (b, 0)) > 1"
          using False s(1,2) by (cases "n_connections net (b, 0)"; cases "tl (n_connections net (b, 0))") auto
        then have "s' = net" if "OptimizeConsecutiveReshapes_Run c net = Some (Inr s')"
          using OptimizeConsecutiveReshapes_Inr [OF that] c by (metis fst_conv linorder_not_less option.inject)
        then show "s' = net" using s by (auto split: if_splits)
      qed simp_all
      then show ?thesis using ok by simp
    qed
    then show ?thesis
      using remove_unconnected_sound [OF m(2)] remove_unconnected_leftover [OF m(2)] preserves_trans
      unfolding settled_def by blast
  qed
qed

text \<open>The eight optimizations.\<close>

lemma squash_sound_run:
  "t = PermuteLayer \<or> t = TransposeLayer \<or> t = ReshapeLayer \<Longrightarrow> sound_run sem t (SquashEqualSiblings_Run t)"
  unfolding sound_run_def
proof (intro allI impI)
  fix net r net' assume t: "t = PermuteLayer \<or> t = TransposeLayer \<or> t = ReshapeLayer"
    and net: "network_ok sem {} net" "n_type net (fst r) = Some t" "SquashEqualSiblings_Run t r net = Some (Inr net')"
  have "rearranges t" using t by (simp add: rearranges_def)
  then show "network_ok sem {} net' \<and> preserves sem net net'" using SquashEqualSiblings_sound [OF net(1,2) _ net(3)] by simp
qed

lemma inverse_sound_run:
  "t = PermuteLayer \<or> t = TransposeLayer \<Longrightarrow> sound_run sem t (OptimizeInversePermutes_Run t)"
  unfolding sound_run_def using OptimizeInversePermutes_sound [of sem] by blast

lemma Run_sound: "sound_optimization sem (Run opt)"
proof (cases opt)
  case PermuteAsReshape
  show ?thesis
    unfolding PermuteAsReshape Run.simps
  proof (rule OptimizeForType_sound)
    fix net l net' assume "network_ok sem {} net" "n_type net l = Some PermuteLayer"
      "PermuteAsReshape_Run PermuteLayer l net = Some (Inr net')"
    then show "settled sem l net' \<and> preserves sem net net'"
      using PermuteAsReshape_sound [of sem net l PermuteLayer net'] unfolding settled_def by blast
  qed
next
  case TransposeAsReshape
  show ?thesis
    unfolding TransposeAsReshape Run.simps
  proof (rule OptimizeForType_sound)
    fix net l net' assume "network_ok sem {} net" "n_type net l = Some TransposeLayer"
      "PermuteAsReshape_Run TransposeLayer l net = Some (Inr net')"
    then show "settled sem l net' \<and> preserves sem net net'"
      using PermuteAsReshape_sound [of sem net l TransposeLayer net'] unfolding settled_def by blast
  qed
next
  case OptimizeConsecutiveReshapes
  then show ?thesis using consecutive_reshapes_sound by simp
qed (simp_all add: OptimizeForConnection_sound squash_sound_run inverse_sound_run)

subsection \<open>The pass\<close>

lemma TopologicalSort_fields:
  "TopologicalSort g = Some (Inr h) \<Longrightarrow>
   m_LayerOf h = m_LayerOf g \<and> m_Connection h = m_Connection g \<and> m_TensorInfo h = m_TensorInfo g"
  by (auto simp: TopologicalSort_def split: if_splits option.splits sum.splits)

lemma layers_bound:
  assumes "wf_network net"
  shows "length (m_Layers (n_Graph net)) \<le> n_Next net"
proof -
  have "distinct (m_Layers (n_Graph net)) \<and> set (m_Layers (n_Graph net)) = dom (m_LayerOf (n_Graph net))"
    using assms unfolding wf_network_def wf_graph_def wf_list_def by blast
  moreover have "dom (m_LayerOf (n_Graph net)) \<subseteq> {..<n_Next net}"
    using assms by (force simp: wf_network_def not_less [symmetric])
  ultimately show ?thesis by (metis card_lessThan card_mono distinct_card finite_lessThan)
qed

lemma sort_network_Inr:
  assumes "sort_network net = Some (Inr net')"
  shows "n_Param net' = n_Param net \<and> n_Next net' = n_Next net \<and>
    (n_Graph net' = n_Graph net \<or> TopologicalSort (n_Graph net) = Some (Inr (n_Graph net')))"
  using assms by (auto simp: sort_network_def Let_def split: if_splits)

lemma sort_network_sound:
  assumes ok: "network_ok sem X net" and small: "n_Next net < 4294967295"
    and run: "sort_network net = Some (Inr net')"
  shows "network_ok sem X net' \<and> preserves sem net net'"
proof -
  note s = sort_network_Inr [OF run]
  have wf: "wf_network net" using ok by (simp add: network_ok_def)
  have graph: "wf_graph (n_Graph net)" using wf by (simp add: wf_network_def)
  have len: "length (m_Layers (n_Graph net)) < 4294967295" using layers_bound [OF wf] small by simp
  have "wf_graph (n_Graph net')" using s TopologicalSort_wf [OF graph len] graph by auto
  moreover have "m_LayerOf (n_Graph net') = m_LayerOf (n_Graph net) \<and> m_Connection (n_Graph net') = m_Connection (n_Graph net) \<and>
      m_TensorInfo (n_Graph net') = m_TensorInfo (n_Graph net)"
    using s TopologicalSort_fields by auto
  ultimately show ?thesis using network_ok_reorder [OF ok _ _ _ _ refl, of net'] s by simp
qed

text \<open>Addresses are handed out in increasing order.\<close>

definition grows :: "Network \<Rightarrow> Network \<Rightarrow> bool" where
  "grows net net' \<longleftrightarrow> n_Next net \<le> n_Next net'"

lemma grows_refl [simp]: "grows net net" by (simp add: grows_def)

lemma grows_trans: "grows a b \<Longrightarrow> grows b c \<Longrightarrow> grows a c" by (simp add: grows_def)

lemma on_graph_grows: "on_graph f net = Some (Inr net') \<Longrightarrow> grows net net'"
  by (auto simp: on_graph_def grows_def)

lemma insert_reshape_grows: "insert_reshape name s r net = Inr net' \<Longrightarrow> grows net net'"
  by (auto simp: insert_reshape_def grows_def)

lemma network_priority_grows: "network_priority l net = Some (Inr (k, net')) \<Longrightarrow> grows net net'"
  by (auto simp: network_priority_def grows_def)

lemma OptimizeInversePermutes_grows: "OptimizeInversePermutes_Run t r net = Some (Inr net') \<Longrightarrow> grows net net'"
  by (auto simp: OptimizeInversePermutes_Run_def Let_def intro: on_graph_grows split: if_splits)

lemma PermuteAsReshape_grows: "PermuteAsReshape_Run t l net = Some (Inr net') \<Longrightarrow> grows net net'"
  by (auto simp: PermuteAsReshape_Run_def Let_def intro: grows_trans insert_reshape_grows on_graph_grows split: if_splits)

lemma OptimizeConsecutiveReshapes_grows:
  assumes "OptimizeConsecutiveReshapes_Run r net = Some (Inr net')"
  shows "grows net net'"
proof (cases "net' = net")
  case False
  from OptimizeConsecutiveReshapes_Inr [OF assms False] show ?thesis
    using on_graph_grows insert_reshape_grows grows_trans by metis
qed simp

lemma bypass_sibling_grows:
  assumes "bypass_sibling s l net = Some (Inr net')"
  shows "grows net net'"
proof -
  obtain n k where "foldP (\<lambda>i net. if i < k then on_graph (MoveAllConnections (s, i) (l, i)) net
      else Some (Inl (UndefinedBehaviour ''past the output slots''))) [0..<n] net = Some (Inr net')"
    using assms by (auto simp: bypass_sibling_def)
  then show ?thesis
    by (rule foldP_inv [where I = "grows net"]) (auto intro: grows_trans on_graph_grows split: if_splits)
qed

lemma squash_sibling_grows:
  assumes "squash_sibling t child c st = Some (Inr st')"
  shows "grows (snd st) (snd st')"
proof -
  obtain lowest net where st: "st = (lowest, net)" by (cases st)
  consider "st' = st" | k net1 j net2 where "network_priority (fst c) net = Some (Inr (k, net1))"
    "network_priority lowest net1 = Some (Inr (j, net2))"
    "(let (sibling, lowest) = (if k < j then (lowest, fst c) else (fst c, lowest)) in
      bindP (bypass_sibling sibling lowest net2) (\<lambda>net. Some (Inr (lowest, net)))) = Some (Inr st')"
    using squash_sibling_Inr [OF assms [unfolded st]] st by blast
  then show ?thesis
  proof cases
    case 2
    then obtain a b net3 where "bypass_sibling a b net2 = Some (Inr net3)" "snd st' = net3"
      by (cases "k < j") auto
    then show ?thesis
      using network_priority_grows [OF 2(1)] network_priority_grows [OF 2(2)] bypass_sibling_grows grows_trans
      unfolding st snd_conv by metis
  qed simp
qed

lemma for_connections_inv:
  assumes "for_connections o' net_of f cs s = Some (Inr s')" "I s"
    "\<And>c s s'. I s \<Longrightarrow> f c s = Some (Inr s') \<Longrightarrow> I s'"
  shows "I s'"
  using assms(1,2) by (induction cs arbitrary: s) (auto intro: assms(3) split: if_splits)

lemma SquashEqualSiblings_grows:
  assumes "SquashEqualSiblings_Run t r net = Some (Inr net')"
  shows "grows net net'"
proof (cases "net' = net")
  case False
  then obtain o' cs st where "for_connections o' snd (squash_sibling t (fst r)) cs (fst r, net) = Some (Inr st)" "net' = snd st"
    using assms by (auto simp: SquashEqualSiblings_Run_def Let_def split: if_splits)
  moreover from this(1) have "grows net (snd st)"
    by (rule for_connections_inv [where I = "\<lambda>s. grows net (snd s)"]) (auto intro: grows_trans squash_sibling_grows)
  ultimately show ?thesis by simp
qed simp

lemma remove_unconnected_grows:
  assumes "remove_unconnected o' i net = Some (Inr net')"
  shows "grows net net'"
  using remove_unconnected_induct [where I = "\<lambda>m j. grows net m", OF assms] by (auto simp: grows_def)

lemma OptimizeForConnection_grows:
  assumes "\<And>r net net'. run r net = Some (Inr net') \<Longrightarrow> grows net net'"
    "OptimizeForConnection baseType childType run b net = Some (Inr net')"
  shows "grows net net'"
proof (cases "net' = net")
  case False
  let ?f = "\<lambda>r net. if n_type net (fst r) = Some childType then run r net else Some (Inr net)"
  obtain n where n: "foldP (\<lambda>i net. bindP (for_connections (b, i) id ?f (n_connections net (b, i)) net)
      (remove_unconnected (b, i) 0)) [0..<n] net = Some (Inr net')"
    using assms(2) False by (auto simp: OptimizeForConnection_def split: if_splits)
  show ?thesis
  proof (rule foldP_inv [where I = "grows net", OF n])
    fix i m m' assume m: "grows net m" "bindP (for_connections (b, i) id ?f (n_connections m (b, i)) m)
      (remove_unconnected (b, i) 0) = Some (Inr m')"
    obtain k where k: "for_connections (b, i) id ?f (n_connections m (b, i)) m = Some (Inr k)"
      "remove_unconnected (b, i) 0 k = Some (Inr m')"
      using m(2) by auto
    have "grows net k"
      by (rule for_connections_inv [where I = "grows net", OF k(1) m(1)])
        (auto intro: grows_trans assms(1) split: if_splits)
    then show "grows net m'" using remove_unconnected_grows [OF k(2)] grows_trans by blast
  qed simp
qed simp

lemma Run_grows: "Run opt b net = Some (Inr net') \<Longrightarrow> grows net net'"
  by (cases opt)
    (auto simp: OptimizeForType_def split: if_splits
      intro: OptimizeForConnection_grows SquashEqualSiblings_grows OptimizeInversePermutes_grows
        PermuteAsReshape_grows OptimizeConsecutiveReshapes_grows)

text \<open>What each part of the pass keeps, as long as the layers can be counted.\<close>

lemma sort_network_grows: "sort_network net = Some (Inr net') \<Longrightarrow> grows net net'"
  using sort_network_Inr by (simp add: grows_def)

definition kept :: "'a meaning \<Rightarrow> Network \<Rightarrow> Network \<Rightarrow> bool" where
  "kept sem net net' \<longleftrightarrow> grows net net' \<and> (n_Next net' < 4294967295 \<longrightarrow> network_ok sem {} net \<longrightarrow>
     network_ok sem {} net' \<and> preserves sem net net')"

lemma kept_trans: "kept sem a b \<Longrightarrow> kept sem b c \<Longrightarrow> kept sem a c"
proof -
  assume k: "kept sem a b" "kept sem b c"
  have "network_ok sem {} c \<and> preserves sem a c" if "n_Next c < 4294967295" "network_ok sem {} a"
  proof -
    have "n_Next b < 4294967295" using k(2) that(1) by (simp add: kept_def grows_def)
    then have "network_ok sem {} b" "preserves sem a b" using k(1) that(2) by (simp_all add: kept_def)
    then show ?thesis using k(2) that(1) preserves_trans unfolding kept_def by blast
  qed
  then show ?thesis using k grows_trans unfolding kept_def by blast
qed

lemma sort_network_kept: "sort_network net = Some (Inr net') \<Longrightarrow> kept sem net net'"
  using sort_network_grows sort_network_sound unfolding kept_def grows_def by (meson le_less_trans)

text \<open>
  What the pass asks of its optimizations: a run leaves the network settled, with the outputs it had,
  and hands out addresses in increasing order.
\<close>

locale sound_pass =
  fixes sem :: "'a meaning" and opt_run :: "'o \<Rightarrow> nat \<Rightarrow> Network \<Rightarrow> Network result option"
  assumes optimization_sound: "sound_optimization sem (opt_run opt)"
    and optimization_grows: "opt_run opt b net = Some (Inr net') \<Longrightarrow> grows net net'"
begin

lemma optimize_layer_grows:
  "optimize_layer (map opt_run opts) b net = Some (Inr (b', net')) \<Longrightarrow> grows net net'"
proof (induction opts arbitrary: net)
  case Nil
  then show ?case by simp
next
  case (Cons opt opts)
  then obtain m u where m: "opt_run opt b net = Some (Inr m)" "IsOutputUnconnected (n_Graph m) b = Inr u" by auto
  have "grows m net'"
  proof (cases u)
    case True
    then show ?thesis using Cons.prems m by (auto simp: grows_def Let_def)
  next
    case False
    then show ?thesis using Cons.prems Cons.IH m by auto
  qed
  then show ?case using optimization_grows [OF m(1)] grows_trans by blast
qed

lemma optimize_layer_sound:
  assumes "network_ok sem {} net" "optimize_layer (map opt_run opts) b net = Some (Inr (b', net'))"
  shows "network_ok sem {} net' \<and> preserves sem net net'"
  using assms
proof (induction opts arbitrary: net)
  case Nil
  then show ?case by simp
next
  case (Cons opt opts)
  then obtain m u where m: "opt_run opt b net = Some (Inr m)" "IsOutputUnconnected (n_Graph m) b = Inr u" by auto
  have s: "settled sem b m \<and> preserves sem net m"
    using optimization_sound [of opt] Cons.prems(1) m(1) unfolding sound_optimization_def by blast
  have wf: "wf_network m" using s unfolding settled_def network_ok_def by blast
  note u = IsOutputUnconnected_unread [OF wf m(2)]
  have "network_ok sem {} net' \<and> preserves sem m net'"
  proof (cases u)
    case True
    then obtain h where h: "EraseLayer b (n_Graph m) = Inr h" "net' = m\<lparr>n_Graph := h\<rparr>"
      using Cons.prems(2) m by (auto simp: Let_def)
    have "network_ok sem {b} m" using s network_ok_mono [of sem "{}" m "{b}"] unfolding settled_def by blast
    then have "network_ok sem ({b} - {b}) net' \<and> preserves sem m net'"
      using erase_sound [OF _ _ h(1)] u True unfolding h(2) by blast
    then show ?thesis by simp
  next
    case False
    then have "network_ok sem {} m" using s u unfolding settled_def by blast
    moreover have "optimize_layer (map opt_run opts) b m = Some (Inr (b', net'))" using Cons.prems(2) m False by simp
    ultimately show ?thesis by (rule Cons.IH)
  qed
  then show ?case using s preserves_trans by blast
qed

lemma pass_loop_induct:
  assumes "pass_loop (map opt_run opts) it net = Some (Inr net')"
    "\<And>net. I net net" "\<And>a b c. I a b \<Longrightarrow> I b c \<Longrightarrow> I a c"
    "\<And>net net'. sort_network net = Some (Inr net') \<Longrightarrow> I net net'"
    "\<And>net b b' net'. optimize_layer (map opt_run opts) b net = Some (Inr (b', net')) \<Longrightarrow> I net net'"
  shows "I net net'"
proof -
  let ?P = "\<lambda>os it net (r :: Network result). \<forall>net'. os = map opt_run opts \<longrightarrow> r = Inr net' \<longrightarrow> I net net'"
  have "?P (map opt_run opts) it net (Inr net')"
  proof (rule pass_loop.raw_induct [where P = ?P, OF _ assms(1)])
    fix rec os it net r
    assume IH: "\<And>os it net r. rec os it net = Some r \<Longrightarrow> ?P os it net r"
      and step: "bindP (sort_network net) (\<lambda>net.
        if it = begin_of (m_Layers (n_Graph net)) then Some (Inr net)
        else bindP (Some (previous (m_Layers (n_Graph net)) it)) (\<lambda>it.
          bindP (optimize_layer os it net) (\<lambda>(it, net). rec os it net))) = Some r"
    show "?P os it net r"
    proof (intro allI impI)
      fix net' assume r: "os = map opt_run opts" "r = Inr net'"
      obtain m where m: "sort_network net = Some (Inr m)" using step r(2) by auto
      have "I m net'"
      proof (cases "it = begin_of (m_Layers (n_Graph m))")
        case True
        then show ?thesis using step r m assms(2) by simp
      next
        case False
        then obtain b where b: "previous (m_Layers (n_Graph m)) it = Inr b" using step r(2) m by auto
        then obtain b' k where k: "optimize_layer os b m = Some (Inr (b', k))" "rec os b' k = Some r"
          using step r(2) m False by auto
        have "I m k" using assms(5) k(1) r(1) by simp
        moreover have "I k net'" using IH [OF k(2)] r by blast
        ultimately show ?thesis by (rule assms(3))
      qed
      then show "I net net'" using assms(3) [OF assms(4) [OF m]] by blast
    qed
  qed
  then show ?thesis by simp
qed

lemma optimize_layer_kept: "optimize_layer (map opt_run opts) b net = Some (Inr (b', net')) \<Longrightarrow> kept sem net net'"
  using optimize_layer_grows optimize_layer_sound unfolding kept_def by blast

lemma Pass_kept:
  assumes "Pass (map opt_run opts) net = Some (Inr net')"
  shows "kept sem net net'"
proof -
  obtain m where m: "sort_network net = Some (Inr m)" "pass_loop (map opt_run opts) None m = Some (Inr net')"
    using assms by (auto simp: Pass_def)
  have "kept sem m net'"
    by (rule pass_loop_induct [OF m(2)])
      (use kept_trans sort_network_kept optimize_layer_kept in \<open>auto simp: kept_def [of sem net'' net'' for net'']\<close>)
  then show ?thesis using kept_trans [OF sort_network_kept [OF m(1)]] by blast
qed

lemma Pass_sound:
  assumes "Pass (map opt_run opts) net = Some (Inr net')" "network_ok sem {} net" "n_Next net' < 4294967295"
  shows "network_ok sem {} net' \<and> preserves sem net net'"
  using Pass_kept [OF assms(1)] assms(2,3) by (simp add: kept_def)

end

interpretation optimizer: sound_pass sem Run for sem :: "'a meaning"
  by unfold_locales (auto intro: Run_sound Run_grows)


text \<open>Two reshapes between an input and an output, of which the second undoes the first.\<close>

definition two_reshapes :: Network where
  "two_reshapes = chain ReshapeLayer (TargetShape (shape_of [6])) (TargetShape (shape_of [2, 3]))
     (shape_of [2, 3]) (shape_of [6]) (shape_of [2, 3])"

lemma two_reshapes_ok:
  "network_ok (fixed_input (shape_of [2, 3], [10, 20, 30, 40, 50, 60::nat])) {} two_reshapes \<and>
   outputs (fixed_input (shape_of [2, 3], [10, 20, 30, 40, 50, 60::nat])) two_reshapes 3 (shape_of [2, 3], [10, 20, 30, 40, 50, 60])"
proof -
  let ?xs = "[10, 20, 30, 40, 50, 60::nat]"
  have tensors: "is_tensor (shape_of [2, 3], ?xs)" "is_tensor (shape_of [6], ?xs)"
    by (rule tensor_of; simp add: MaxNumOfTensorDimensions_def)+
  show ?thesis
    using chain_ok [of ReshapeLayer "TargetShape (shape_of [6])" "TargetShape (shape_of [2, 3])" "(shape_of [2, 3], ?xs)"
        "(shape_of [6], ?xs)" "(shape_of [2, 3], ?xs)"]
      tensors reshape_same_elements [OF tensors(1), of "(shape_of [6], ?xs)"] reshape_same_elements [OF tensors(2), of "(shape_of [2, 3], ?xs)"]
    by (simp add: two_reshapes_def rearranges_def params_match_def rearranged_def shape_law_def)
qed

text \<open>Evaluation from the outside in: a continuation waits for its argument.\<close>

lemma bind_weak_cong: "m = m' \<Longrightarrow> bindP m f = bindP m' f" "r = r' \<Longrightarrow> bindR r k = bindR r' k"
  by simp_all

lemma two_reshapes_pass:
  "case Pass (map Run [OptimizeConsecutiveReshapes]) two_reshapes of Some (Inr net) \<Rightarrow> n_Next net = 4 \<and> m_Layers (n_Graph net) = [0, 3] | _ \<Rightarrow> False"
  by (simp del: bindP_eq cong: bind_weak_cong option.case_cong_weak sum.case_cong_weak list.case_cong_weak prod.case_cong_weak
      add: Pass_def pass_loop.simps sort_network_def TopologicalSort_def two_reshapes_def chain_def Graph_make_def Let_def
        begin_of_def previous_def find_index_def OptimizeForConnection_def layer_type_def GetLayer_def layer_of_def
        remove_unconnected.simps IsOutputUnconnected_def OptimizeConsecutiveReshapes_Run_def null_pointer_def
        GetInputSlot_def GetOutputSlot_def throw_if_def on_graph_def MoveAllConnections.simps
        Connect_def Disconnect_def SetConnection_def SetTensorInfo_def EraseLayer_def GetPosInGraph_def
        DisconnectAll.simps disconnect_input_def next_of_def)


end
