(* ===== verification/Spec2Isabelle.thy ===== *)
theory Spec2Isabelle
  imports TensorShapes MemoryStrategy Permutation Indexing TimelineCapture SendTimeline CounterDirectory
    ProfilingCommands ProfilingState GraphSort GraphSteps StridedSlices ElementKernels ConcatViews LayerShapes OptimizerPass
begin

text \<open>
  \<^bold>\<open>Arm NN.\<close> Arm NN runs trained networks on Arm hardware. A parser or a client builds a \<^emph>\<open>graph of
  layers\<close> (\<open>src/src/armnn/Graph.cpp\<close>, \<open>Layer.cpp\<close>, \<open>layers/\<close>); every layer infers the shapes of its
  outputs from those of its inputs (\<open>Tensor.cpp\<close>, \<open>layers/*Layer.cpp\<close>); the \<^emph>\<open>optimizer\<close> rewrites the graph
  (\<open>Optimizer.cpp\<close>, \<open>optimizations/\<close>); a loaded network turns every layer into a \<^emph>\<open>workload\<close> whose
  queue descriptor is checked (\<open>backendsCommon/WorkloadData.cpp\<close>) and whose kernel is executed
  (\<open>backends/reference/workloads/\<close> for the reference backend); the tensors between the workloads are
  placed in memory by a \<^emph>\<open>memory strategy\<close> (\<open>memoryOptimizerStrategyLibrary/\<close>). While this runs the \<^emph>\<open>profiling
  service\<close> (\<open>src/profiling/\<close>) sends packets of counters and timeline messages over a connection to an
  external tool, whose side of the protocol the repository holds as well.

  \<^bold>\<open>Errors and arithmetic.\<close> \<open>Prelude\<close> models a call that may throw as a value of the type \<open>result\<close>: \<open>Inl\<close>
  with the exception (\<open>exn\<close>, one constructor per class of \<open>Exceptions.hpp\<close>, failed assertions and
  undefined behaviour included) or \<open>Inr\<close> with the value; \<open>bindR\<close>, \<open>seqR\<close>, \<open>mapR\<close>, \<open>foldR\<close> are
  statements, checks and loops. \<open>unsigned int\<close> is a natural number with the wrap-around written out
  (\<open>u32_add\<close>, \<open>u32_sub\<close>, \<open>u32_mul\<close>), \<open>int\<close> an integer whose overflow is undefined behaviour
  (\<open>int_check\<close>); bit masks, packet headers and bytes are words. A read outside a vector is undefined
  behaviour as in C++. Floating-point arithmetic is not modelled: where the code converts an element to or
  from \<open>float\<close> the arithmetic is a parameter (\<open>float_arith\<close>), everything around it, errors included, is
  the model's. Kernels that copy elements as they are stored are polymorphic in the element.

  \<^bold>\<open>Theories and code.\<close>
  \<^item> \<open>TensorShapes\<close>: \<open>TensorShape\<close> and \<open>TensorInfo\<close> (\<open>Tensor.cpp\<close>), constructors, checks, mutators; the
    type invariant and the number of elements and bytes. \<open>TensorUtils\<close>: \<open>armnnUtils/TensorUtils.cpp\<close> and
    \<open>Dequantize\<close>. \<open>Codecs\<close>: the decoders and encoders of \<open>BaseIterator.hpp\<close> and which of them a tensor gets
    (\<open>MakeDecoder\<close>, \<open>MakeEncoder\<close>); mirror padding, concatenation and splitting read and write through them.
  \<^item> \<open>Indexing\<close>: multi-dimensional indices, the mathematics all kernels share. \<open>Permutation\<close>:
    \<open>PermutationVector\<close>, \<open>armnnUtils/Permute.cpp\<close>, \<open>Transpose.cpp\<close>. \<open>TensorValues\<close>: the values the
    permute, transpose and reshape workloads compute and the tests that find permutations without effect.
  \<^item> \<open>Kernels\<close>, \<open>WorkloadChecks\<close>: loops over elements, the helper checks of \<open>WorkloadData.cpp\<close>.
    \<open>SliceKernels\<close>, \<open>StridedSlices\<close>, \<open>IndexKernels\<close>, \<open>ElementKernels\<close>, \<open>ConcatViews\<close>: slices, strided
    slices, reverse, tile, mirror padding, concatenation and splitting, each with its descriptor, \<open>Validate\<close>,
    shape inference and reference kernel.
  \<^item> \<open>WindowShapes\<close>, \<open>LayerShapes\<close>: \<open>DataLayoutIndexed\<close>, convolution windows, \<open>InferOutputShapes\<close> of every
    layer but the two pooling layers, and the virtual call.
  \<^item> \<open>GraphModel\<close>, \<open>GraphLinks\<close>, \<open>GraphSteps\<close>: layers, slots, connections and the editing operations with
    their invariant and a step relation; \<open>GraphOrder\<close>: priorities and the topological sort; \<open>GraphSort\<close>:
    \<open>armnnUtils/GraphTopologicalSort.hpp\<close>.
  \<^item> \<open>Optimizations\<close>: the optimizer's pass, its drivers and eight optimizations. \<open>OptimizerSound\<close>,
    \<open>OptimizerReshapes\<close>, \<open>OptimizerPass\<close>: what a network computes (\<open>computes\<close>: permute, transpose and
    reshape layers as their workloads do, every other layer as a parameter \<open>sem\<close> says), and that the pass
    does not change it. A rewriting step redirects the slots of the graph (\<open>redirected\<close>); a layer that is
    bypassed and not erased yet is exempt from the invariant on tensor infos (\<open>consistent\<close>).
  \<^item> \<open>MemoryStrategy\<close>: the constant, single-axis and validation strategies.
  \<^item> \<open>Bytes\<close>, \<open>SwTrace\<close>, \<open>TimelinePackets\<close>, \<open>TimelineCapture\<close>: encoding and decoding of the profiling
    packets. \<open>BufferPool\<close>, \<open>SendTimeline\<close>: the buffer manager and the sender on top of it.
    \<open>ProfilingState\<close>, \<open>CounterDirectory\<close>, \<open>ProfilingCommands\<close>: the state machine, the directory of counters,
    handlers and counter identifiers.

  \<^bold>\<open>State.\<close> A class is a record of its fields and a method a function from the record (and its arguments)
  to the new record. Pointers between layers and slots are addresses: the graph is a record of functions
  from slots, so that aliasing is explicit. Concurrent operations guarded by one mutex are steps; the
  profiling state machine, which uses an atomic, is a step relation over several threads.

  \<^bold>\<open>Interfaces.\<close> \<open>index_codec\<close> (\<open>IndexKernels\<close>) is what the element kernels need of the functions between
  positions and coordinates, interpreted for reverse, tile and mirror padding; \<open>sound_pass\<close>
  (\<open>OptimizerPass\<close>) is what the pass needs of its optimizations, interpreted for the eight of the model; the sender is written over
  the interface of the buffer manager, and the interpretation is the buffer manager of the code.

  \<^bold>\<open>Loops and fuel.\<close> Loops over a list or a range are structural. \<open>GetPriority\<close> recurses through the graph
  with fuel, one more than the number of layers, and \<open>TopologicalSort_correct\<close> shows that this is enough.
  \<open>MoveAllConnections\<close>, the loops of the optimizer and the loops over strided axes may run for ever in the
  program; they are partial functions, so that not returning is \<open>None\<close>.

  \<^bold>\<open>Not modelled.\<close> The parsers (\<open>armnnTfLiteParser\<close>, \<open>armnnOnnxParser\<close>), \<open>armnnDeserializer\<close>, \<open>armnnSerializer\<close>
  and the converters of \<open>shim/\<close>, \<open>delegate/\<close> translate formats that are defined by generated code
  (FlatBuffers, Protobuf, NNAPI) which is not in the repository. The Neon, OpenCL, GpuFsa and TOSA backends
  call the Compute Library or TOSA reference model. The reference kernels that compute with floating-point
  numbers (activations, convolutions, pooling, normalizations, LSTMs and so on) are left out because their
  results depend on rounding; their shapes and checks are arithmetic on sizes. \<open>LoadedNetwork\<close>, \<open>Runtime\<close>,
  \<open>Network\<close> and the backend registry assemble objects of those backends. Tests, samples, tools, Python
  bindings and build scripts are no part of the library.
\<close>

section \<open>From the sender to the decoder\<close>

text \<open>
  The client's timeline sender, the buffer manager, the packet reader and the server's handler
  and decoder together: the packets in the manager's queue are received one after the other.
\<close>

fun serve ::
    "byte list list \<Rightarrow> TimelineCaptureCommandHandler \<Rightarrow> TimelineCaptureCommandHandler result option" where
  "serve [] h = Some (Inr h)"
| "serve (bytes # rest) h =
     (case ReceivePacket (Some bytes) (length bytes) of
        Inl e \<Rightarrow> Some (Inl e)
      | Inr packet \<Rightarrow>
          (case ParseData packet h of
             None \<Rightarrow> None
           | Some (Inl e) \<Rightarrow> Some (Inl e)
           | Some (Inr h') \<Rightarrow> serve rest h'))"

lemma mask_24_small:
  assumes "n < 2 ^ 24"
  shows "(of_nat n :: 32 word) AND 0xFFFFFF = of_nat n"
proof -
  have "unat (take_bit 24 (of_nat n :: 32 word)) = unat (of_nat n :: 32 word)"
    using assms by (simp only: unsigned_take_bit_eq unat_of_nat) (simp add: take_bit_eq_mod)
  then have "take_bit 24 (of_nat n :: 32 word) = of_nat n" by (simp only: word_unat_eq_iff)
  moreover have "(0xFFFFFF :: 32 word) = mask 24" by (simp add: mask_eq_exp_minus_1)
  ultimately show ?thesis by (simp add: take_bit_eq_mask)
qed

text \<open>What a received packet of messages is.\<close>

lemma ReceivePacket_packet_of:
  assumes "length (payload ms) < 2 ^ 24"
  shows "\<exists>packet. ReceivePacket (Some (packet_of ms)) (length (packet_of ms)) = Inr packet \<and>
    m_Length packet = of_nat (length (payload ms)) \<and>
    (ms \<noteq> [] \<longrightarrow> m_Data packet = Some (payload ms))"
proof -
  let ?n = "length (payload ms)" and ?b = "packet_of ms"
  let ?h = "fst (CreateTimelinePacketHeader 1 0 1 0 0 (of_nat ?n))"
  have snd: "snd (CreateTimelinePacketHeader 1 0 1 0 0 (of_nat ?n)) = of_nat ?n"
    using mask_24_small [OF assms] by (simp add: CreateTimelinePacketHeader_def)
  have b: "?b = le_bytes 4 ?h @ le_bytes 4 (of_nat ?n :: 32 word) @ payload ms"
    by (simp add: packet_of_def Let_def snd)
  have at: "holds_at ?b 0 (le_bytes 4 ?h)" "holds_at ?b 4 (le_bytes 4 (of_nat ?n :: 32 word))"
    "holds_at ?b 8 (payload ms)"
    by (simp_all add: b holds_at_def)
  have n: "unat (of_nat ?n :: 32 word) = ?n" using assms by (simp add: unat_of_nat)
  have data: "fetch_checked ?n (\<lambda>b p. ReadBytes b p ?n) ?b 8 = Inr (payload ms)"
    using ReadBytes_at [OF at(3)] holds_at_length [OF at(3)] by simp
  have len: "\<not> length ?b < 8" by (simp add: b)
  show ?thesis
  proof (cases "ms = []")
    case True
    then show ?thesis
      using len fetch_at(2) [OF at(1)] fetch_at(2) [OF at(2)]
      by (simp add: ReceivePacket_def Packet_make_def fetch_checked_def)
  next
    case False
    then have "0 < ?n" using length_wire_format_pos [of "hd ms"] by (cases ms) auto
    then have "(of_nat ?n :: 32 word) \<noteq> 0" using n by (metis neq0_conv unat_0)
    then show ?thesis
      using len fetch_at(2) [OF at(1)] fetch_at(2) [OF at(2)] data n
      by (simp add: ReceivePacket_def Packet_make_def fetch_checked_def split: if_splits)
  qed
qed

lemma serve_packets:
  assumes "\<And>g m. g \<in> set groups \<Longrightarrow> m \<in> set g \<Longrightarrow> valid_message m"
    "\<And>g. g \<in> set groups \<Longrightarrow> length (payload g) \<le> 4088"
    "m_ThreadIdSize h = ThreadIdSize" "m_TimelineDecoder h = SetDefaultCallbacks d"
  shows "\<exists>h'. serve (map packet_of groups) h = Some (Inr h') \<and> m_ThreadIdSize h' = ThreadIdSize \<and>
    m_TimelineDecoder h' =
      SetDefaultCallbacks (d\<lparr>m_Model := fold recorded (concat groups) (m_Model d)\<rparr>)"
  using assms
proof (induction groups arbitrary: h d)
  case Nil
  then show ?case by simp
next
  case (Cons g groups)
  have g: "length (payload g) < 2 ^ 24" using Cons.prems(2) [of g] by simp
  obtain packet where packet: "ReceivePacket (Some (packet_of g)) (length (packet_of g)) = Inr packet"
    "m_Length packet = of_nat (length (payload g))" "g \<noteq> [] \<longrightarrow> m_Data packet = Some (payload g)"
    using ReceivePacket_packet_of [OF g] by blast
  let ?h = "h\<lparr>m_TimelineDecoder := SetDefaultCallbacks (d\<lparr>m_Model := fold recorded g (m_Model d)\<rparr>)\<rparr>"
  have "ParseData packet h = Some (Inr ?h)"
  proof (cases "g = []")
    case True
    then show ?thesis using packet(2) Cons.prems(3,4) by (simp add: ParseData_def)
  next
    case False
    have "valid_message m" if "m \<in> set g" for m using Cons.prems(1) [of g m] that by simp
    moreover have "length (payload g) < 2 ^ 32" using g by simp
    ultimately show ?thesis
      using packet(2,3) False Cons.prems(3,4) by (intro ParseData_messages) (simp_all add: payload_def)
  qed
  moreover have "\<exists>h'. serve (map packet_of groups) ?h = Some (Inr h') \<and> m_ThreadIdSize h' = ThreadIdSize \<and>
    m_TimelineDecoder h' = SetDefaultCallbacks
      ((d\<lparr>m_Model := fold recorded g (m_Model d)\<rparr>)\<lparr>m_Model :=
        fold recorded (concat groups) (m_Model (d\<lparr>m_Model := fold recorded g (m_Model d)\<rparr>))\<rparr>)"
    using Cons.prems by (intro Cons.IH) auto
  ultimately show ?case by (simp add: packet(1))
qed

text \<open>
  C17: What the client reports the server has. Any sequence of valid messages that fit a buffer is
  sent through a new \<open>SendTimelinePacket\<close> over a buffer manager with an empty queue, up to the first
  call that throws, and what is pending is then committed. Then the packets in the queue, received
  one by one and parsed by a handler with the client's thread-identifier size, leave a decoder with
  the default callbacks with exactly the messages of the calls that returned recorded in its model,
  in order. A call throws only because no buffer of the pool is left (the manager then refuses any
  further buffer); the messages recorded are then exactly those of the calls before it.
\<close>

theorem timeline_end_to_end:
  assumes "wf_manager s" "m_ReadableList s = []"
    "\<And>m. m \<in> set ms \<Longrightarrow> valid_message m \<and> length (wire_format m) \<le> 4088"
    "m_ThreadIdSize h = ThreadIdSize" "m_TimelineDecoder h = SetDefaultCallbacks d"
  shows "\<exists>r s1 p1 s2 p2 h' k.
    send_all BufferManager_ops ms (s, SendTimelinePacket_make) = Some (r, (s1, p1)) \<and>
    Timeline_Commit BufferManager_ops (s1, p1) = (Inr (), (s2, p2)) \<and>
    serve (map readable_bytes (m_ReadableList s2)) h = Some (Inr h') \<and>
    m_Model (m_TimelineDecoder h') = fold recorded (take k ms) (m_Model d) \<and>
    (if r = Inr () then k = length ms
     else k < length ms \<and> r = Inl (BufferExhaustionException ''No free buffers left'') \<and>
       fst (fst (Reserve MAX_METADATA_PACKET_LENGTH s1)) = None \<and>
       (\<exists>before. send_all BufferManager_ops (take k ms) (s, SendTimelinePacket_make) = Some (Inr (), before) \<and>
          send_message BufferManager_ops (ms ! k) before = Some (r, (s1, p1))))"
proof -
  obtain r s1 p1 s2 p2 groups where sent:
    "send_all BufferManager_ops ms (s, SendTimelinePacket_make) = Some (r, (s1, p1))"
    "Timeline_Commit BufferManager_ops (s1, p1) = (Inr (), (s2, p2))"
    "committed s2 = committed s @ map packet_of groups"
    "\<forall>g \<in> set groups. length (payload g) \<le> 4088"
    "r = Inr () \<longrightarrow> concat groups = ms"
    "r \<noteq> Inr () \<longrightarrow> (\<exists>k. stopped_at BufferManager_ops ms (s, SendTimelinePacket_make) k r (s1, p1) \<and>
       concat groups = take k ms)"
    using send_all_commit [OF assms(1,3)] by blast
  then obtain k where k: "concat groups = take k ms"
    "if r = Inr () then k = length ms
     else stopped_at BufferManager_ops ms (s, SendTimelinePacket_make) k r (s1, p1)"
    by (cases "r = Inr ()") auto
  have valid: "valid_message m" if "g \<in> set groups" "m \<in> set g" for g m
  proof -
    have "m \<in> set (concat groups)" using that by auto
    then have "m \<in> set ms" unfolding k(1) by (rule in_set_takeD)
    then show ?thesis using assms(3) by blast
  qed
  have queue: "map readable_bytes (m_ReadableList s2) = map packet_of groups"
    using sent(3) assms(2) by (simp add: committed_def)
  obtain h' where "serve (map packet_of groups) h = Some (Inr h')"
    "m_TimelineDecoder h' = SetDefaultCallbacks (d\<lparr>m_Model := fold recorded (concat groups) (m_Model d)\<rparr>)"
  proof -
    have "length (payload g) \<le> 4088" if "g \<in> set groups" for g using sent(4) that by blast
    then have "\<exists>h'. serve (map packet_of groups) h = Some (Inr h') \<and> m_ThreadIdSize h' = ThreadIdSize \<and>
        m_TimelineDecoder h' = SetDefaultCallbacks (d\<lparr>m_Model := fold recorded (concat groups) (m_Model d)\<rparr>)"
      using valid assms(4,5) by (intro serve_packets) blast+
    then show ?thesis using that by blast
  qed
  moreover have "if r = Inr () then k = length ms
     else k < length ms \<and> r = Inl (BufferExhaustionException ''No free buffers left'') \<and>
       fst (fst (Reserve MAX_METADATA_PACKET_LENGTH s1)) = None \<and>
       (\<exists>before. send_all BufferManager_ops (take k ms) (s, SendTimelinePacket_make) = Some (Inr (), before) \<and>
          send_message BufferManager_ops (ms ! k) before = Some (r, (s1, p1)))"
    using k(2) by (cases "r = Inr ()") (auto simp: stopped_at_def exhausted_def BufferManager_ops_def)
  ultimately show ?thesis using sent(1,2) k(1) queue
    by (intro exI [of _ r] exI [of _ s1] exI [of _ p1] exI [of _ s2] exI [of _ p2] exI [of _ h'] exI [of _ k])
      (simp add: SetDefaultCallbacks_def Let_def callback_defs)
qed

text \<open>A pool of two buffers sends an entity and an event.\<close>

lemma two_messages_sent:
  "\<exists>st. send_all BufferManager_ops [EntityMessage 1, EventMessage 2 3 4]
     (BufferManager_make 2 4096, SendTimelinePacket_make) = Some (Inr (), st)"
proof (rule bm.send_all_first [OF wf_manager_make _ _ _ sending_make])
  show "\<not> exhausted BufferManager_ops (BufferManager_make 2 4096)"
    by (simp add: exhausted_def BufferManager_ops_def Reserve_def BufferManager_make_def
        BufferManager_Initialize_def MAX_METADATA_PACKET_LENGTH_def numeral_2_eq_2)
qed (auto simp: SendTimelinePacket_make_def)

theorem timeline_end_to_end_witness:
  "\<exists>s1 p1 s2 p2 h'. send_all BufferManager_ops [EntityMessage 1, EventMessage 2 3 4]
       (BufferManager_make 2 4096, SendTimelinePacket_make) = Some (Inr (), (s1, p1)) \<and>
     Timeline_Commit BufferManager_ops (s1, p1) = (Inr (), (s2, p2)) \<and>
     serve (map readable_bytes (m_ReadableList s2))
       \<lparr>m_TimelineDecoder = SetDefaultCallbacks empty_decoder, m_ThreadIdSize = 4\<rparr> = Some (Inr h') \<and>
     m_Model (m_TimelineDecoder h') =
       fold recorded [EntityMessage 1, EventMessage 2 3 4] (m_Model empty_decoder)"
proof -
  let ?ms = "[EntityMessage 1, EventMessage 2 3 4]"
  let ?h = "\<lparr>m_TimelineDecoder = SetDefaultCallbacks empty_decoder, m_ThreadIdSize = 4\<rparr>"
  have valid: "valid_message m \<and> length (wire_format m) \<le> 4088" if "m \<in> set ?ms" for m
    using that by auto
  have start: "m_ReadableList (BufferManager_make 2 4096) = []" "m_ThreadIdSize ?h = ThreadIdSize"
    by (simp_all add: BufferManager_make_def BufferManager_Initialize_def ThreadIdSize_def)
  obtain r s1 p1 s2 p2 h' k where
    run: "send_all BufferManager_ops ?ms (BufferManager_make 2 4096, SendTimelinePacket_make) = Some (r, (s1, p1))"
    and rest: "Timeline_Commit BufferManager_ops (s1, p1) = (Inr (), (s2, p2))"
      "serve (map readable_bytes (m_ReadableList s2)) ?h = Some (Inr h')"
      "m_Model (m_TimelineDecoder h') = fold recorded (take k ?ms) (m_Model empty_decoder)"
      "r = Inr () \<longrightarrow> k = length ?ms"
    using timeline_end_to_end [OF wf_manager_make [of 2 4096] start(1) valid start(2), of ?ms empty_decoder]
    by (fastforce split: if_splits)
  have "r = Inr ()" using run two_messages_sent by auto
  then show ?thesis using run rest by auto
qed

end
